(* ===== verification/Prelude.thy ===== *)
theory Prelude
  imports Main "HOL-Library.Word" "HOL-Library.List_Lexorder" "HOL-Library.Char_ord"
begin

text \<open>
  Shared vocabulary of the development: the machine types of the C++ code, exceptions as
  values of a sum type, and the generic facts on byte strings that the components share.

  \<^item> A C++ \<^verbatim>\<open>std::uintN_t\<close> is an \<open>N word\<close>, so its arithmetic wraps as the code's does;
    \<^verbatim>\<open>std::size_t\<close> loop counters and indices are \<open>nat\<close>.
  \<^item> A \<^verbatim>\<open>std::span<const std::uint8_t>\<close>, \<^verbatim>\<open>std::vector<std::uint8_t>\<close> or
    \<^verbatim>\<open>std::array<std::uint8_t, n>\<close> is a list of bytes, a \<^verbatim>\<open>std::string\<close> a char list.
  \<^item> A function that may throw returns \<open>exn + 'a\<close>, with one constructor of \<open>exn\<close> per
    exception class of the code; \<open>bindE\<close> sequences two such computations as the code does,
    an exception leaving the rest undone.
\<close>

unbundle bit_operations_syntax

section \<open>Machine types and exceptions\<close>

type_synonym u8 = "8 word"
type_synonym u32 = "32 word"
type_synonym u64 = "64 word"
type_synonym bytes = "u8 list"

datatype exn =
    Invalid_argument string
  | Runtime_error string
  | Overflow_error string
  | Logic_error string
  | Persistence_error string
  | Json_error string

text \<open>The text of \<^verbatim>\<open>what()\<close>.\<close>

fun exn_text :: "exn \<Rightarrow> string" where
  "exn_text (Invalid_argument t) = t"
| "exn_text (Runtime_error t) = t"
| "exn_text (Overflow_error t) = t"
| "exn_text (Logic_error t) = t"
| "exn_text (Persistence_error t) = t"
| "exn_text (Json_error t) = t"

type_synonym 'a outcome = "exn + 'a"

definition bindE :: "'a outcome \<Rightarrow> ('a \<Rightarrow> 'b outcome) \<Rightarrow> 'b outcome" where
  "bindE m f = (case m of Inl e \<Rightarrow> Inl e | Inr x \<Rightarrow> f x)"

definition requireE :: "bool \<Rightarrow> exn \<Rightarrow> unit outcome" where
  "requireE c e = (if c then Inr () else Inl e)"

fun mapE :: "('a \<Rightarrow> 'b outcome) \<Rightarrow> 'a list \<Rightarrow> 'b list outcome" where
  "mapE f [] = Inr []"
| "mapE f (x # xs) = bindE (f x) (\<lambda>y. bindE (mapE f xs) (\<lambda>ys. Inr (y # ys)))"

fun foldE :: "('a \<Rightarrow> 's \<Rightarrow> 's outcome) \<Rightarrow> 'a list \<Rightarrow> 's \<Rightarrow> 's outcome" where
  "foldE f [] s = Inr s"
| "foldE f (x # xs) s = bindE (f x s) (foldE f xs)"

lemma bindE_simps [simp]:
  "bindE (Inl e) f = Inl e"
  "bindE (Inr x) f = f x"
  by (simp_all add: bindE_def)

lemma bindE_Inr [simp]: "bindE m Inr = m"
  by (cases m) auto

lemma bindE_assoc: "bindE (bindE m f) g = bindE m (\<lambda>x. bindE (f x) g)"
  by (cases m) auto

lemma bindE_eq_Inr_iff: "bindE m f = Inr y \<longleftrightarrow> (\<exists>x. m = Inr x \<and> f x = Inr y)"
  by (cases m) auto

lemma bindE_eq_Inl_iff: "bindE m f = Inl e \<longleftrightarrow> m = Inl e \<or> (\<exists>x. m = Inr x \<and> f x = Inl e)"
  by (cases m) auto

lemma requireE_simps [simp]:
  "requireE c e = Inr u \<longleftrightarrow> c"
  "requireE c e = Inl e' \<longleftrightarrow> \<not> c \<and> e = e'"
  by (auto simp: requireE_def)

lemma requireE_True [simp]: "requireE True e = Inr ()"
  by (simp add: requireE_def)

lemma requireE_False [simp]: "requireE False e = Inl e"
  by (simp add: requireE_def)

lemma mapE_length: "mapE f xs = Inr ys \<Longrightarrow> length ys = length xs"
  by (induction xs arbitrary: ys) (auto simp: bindE_eq_Inr_iff)

lemma mapE_Inr_map: "(\<And>x. x \<in> set xs \<Longrightarrow> f x = Inr (g x)) \<Longrightarrow> mapE f xs = Inr (map g xs)"
  by (induction xs) auto


lemma foldE_append: "foldE f (xs @ ys) s = bindE (foldE f xs s) (foldE f ys)"
  by (induction xs arbitrary: s) (auto simp: bindE_def split: sum.splits)

lemma foldE_Inr_rule:
  "(\<And>x s. x \<in> set xs \<Longrightarrow> P s \<Longrightarrow> \<exists>s'. f x s = Inr s' \<and> P s') \<Longrightarrow> P s \<Longrightarrow>
    \<exists>s'. foldE f xs s = Inr s' \<and> P s'"
proof (induction xs arbitrary: s)
  case (Cons x xs)
  then obtain s' where "f x s = Inr s'" "P s'" by (metis list.set_intros(1))
  with Cons show ?case by simp
qed simp

lemma length_concat_const:
  "(\<And>x. x \<in> set xs \<Longrightarrow> length (f x) = k) \<Longrightarrow> length (concat (map f xs)) = k * length xs"
  by (induction xs) simp_all

section \<open>Byte strings as numbers\<close>

text \<open>
  The big-endian and little-endian value of a list of words of any width. Comparing two
  equally long lists lexicographically is comparing their big-endian values: this one fact
  carries every comparison of hashes and targets in the code.
\<close>

fun be_val :: "'a::len word list \<Rightarrow> nat" where
  "be_val [] = 0"
| "be_val (w # ws) = unat w * (2 ^ LENGTH('a)) ^ length ws + be_val ws"

definition le_val :: "'a::len word list \<Rightarrow> nat" where
  "le_val ws = be_val (rev ws)"

lemma be_val_bound: "be_val (ws :: 'a::len word list) < (2 ^ LENGTH('a)) ^ length ws"
proof (induction ws)
  case Nil
  then show ?case by simp
next
  case (Cons w ws)
  let ?B = "(2::nat) ^ LENGTH('a)"
  have "unat w + 1 \<le> ?B"
    using unsigned_less [of w] by (simp add: Suc_le_eq)
  then have "(unat w + 1) * ?B ^ length ws \<le> ?B * ?B ^ length ws"
    by (rule mult_le_mono1)
  with Cons.IH show ?case by (simp add: algebra_simps)
qed

lemma be_val_append:
  "be_val ((xs :: 'a::len word list) @ ys) = be_val xs * (2 ^ LENGTH('a)) ^ length ys + be_val ys"
  by (induction xs) (simp_all add: algebra_simps power_add)

lemma be_val_replicate_0 [simp]: "be_val (replicate n 0) = 0"
  by (induction n) simp_all

lemma be_val_less_iff:
  "length (xs :: 'a::len word list) = length ys \<Longrightarrow> be_val xs < be_val ys \<longleftrightarrow> xs < ys"
proof (induction xs ys rule: list_induct2)
  case Nil
  then show ?case by simp
next
  case (Cons x xs y ys)
  let ?B = "((2::nat) ^ LENGTH('a)) ^ length ys"
  have bx: "be_val xs < ?B" and by': "be_val ys < ?B"
    using be_val_bound [of xs] be_val_bound [of ys] Cons.hyps by simp_all
  have lt: "be_val (a # as) < be_val (b # bs)"
    if "a < b" "length as = length bs" for a b :: "'a word" and as bs
  proof -
    let ?C = "((2::nat) ^ LENGTH('a)) ^ length bs"
    have "unat a + 1 \<le> unat b"
      using that(1) by (simp add: word_less_nat_alt)
    then have "(unat a + 1) * ?C \<le> unat b * ?C"
      by (rule mult_le_mono1)
    then show ?thesis
      using be_val_bound [of as] that(2) by (simp add: algebra_simps)
  qed
  show ?case
  proof (cases x y rule: linorder_cases)
    case less
    then show ?thesis using lt [of x y xs ys] Cons.hyps by simp
  next
    case equal
    then show ?thesis using Cons.IH Cons.hyps by simp
  next
    case greater
    then have "\<not> be_val (x # xs) < be_val (y # ys)"
      using lt [of y x ys xs] Cons.hyps by simp
    with greater show ?thesis by (auto simp del: be_val.simps)
  qed
qed

lemma be_val_le_iff:
  "length (xs :: 'a::len word list) = length ys \<Longrightarrow> be_val xs \<le> be_val ys \<longleftrightarrow> xs \<le> ys"
  using be_val_less_iff [of ys xs] by (metis linorder_not_less)

lemma be_val_inject:
  "length (xs :: 'a::len word list) = length ys \<Longrightarrow> be_val xs = be_val ys \<longleftrightarrow> xs = ys"
  by (metis be_val_less_iff linorder_neq_iff)

lemma map_nth_upt: "length xs = n \<Longrightarrow> map ((!) xs) [0..<n] = xs"
  by (metis map_nth)

lemma map_rev_nth_upt: "length xs = n \<Longrightarrow> map (\<lambda>i. xs ! (n - 1 - i)) [0..<n] = rev xs"
  by (rule nth_equalityI) (simp_all add: rev_nth)


lemma le_val_Nil [simp]: "le_val [] = 0"
  by (simp add: le_val_def)

lemma le_val_Cons: "le_val ((w :: 'a::len word) # ws) = unat w + 2 ^ LENGTH('a) * le_val ws"
  by (simp add: le_val_def be_val_append)

lemma le_val_bound: "le_val (ws :: 'a::len word list) < (2 ^ LENGTH('a)) ^ length ws"
  unfolding le_val_def using be_val_bound [of "rev ws"] by simp

lemma unat_plus_shift:
  "unat (w :: 'a::len word) + 2 ^ LENGTH('a) * n = unat w OR push_bit LENGTH('a) n"
proof -
  have "unat w AND push_bit LENGTH('a) n = 0"
    by (rule bit_eqI) (auto simp: bit_simps dest: bit_imp_le_length)
  then show ?thesis
    by (simp add: disjunctive_add_eq_or [symmetric] push_bit_eq_mult mult.commute)
qed

text \<open>Every bit of the value is a bit of one of the words.\<close>

lemma bit_le_val:
  "bit (le_val (ws :: 'a::len word list)) k \<longleftrightarrow>
    k div LENGTH('a) < length ws \<and> bit (ws ! (k div LENGTH('a))) (k mod LENGTH('a))"
proof (induction ws arbitrary: k)
  case Nil
  then show ?case by simp
next
  case (Cons w ws)
  show ?case
  proof (cases "k < LENGTH('a)")
    case True
    then show ?thesis
      unfolding le_val_Cons unat_plus_shift by (simp add: bit_simps)
  next
    case False
    then have "k div LENGTH('a) = Suc ((k - LENGTH('a)) div LENGTH('a))"
      "k mod LENGTH('a) = (k - LENGTH('a)) mod LENGTH('a)"
      by (simp_all add: le_div_geq le_mod_geq)
    moreover have "\<not> bit w k" using False bit_imp_le_length by force
    ultimately show ?thesis
      unfolding le_val_Cons unat_plus_shift using False Cons.IH [of "k - LENGTH('a)"]
      by (simp add: bit_simps)
  qed
qed

lemma be_val_rev: "be_val (rev ws) = le_val ws" "be_val ws = le_val (rev ws)"
  by (simp_all add: le_val_def)

lemma unat_drop_bit_div: "unat (drop_bit k (x :: 'a::len word)) = unat x div 2 ^ k"
  by (simp only: unat_drop_bit_eq) (simp add: drop_bit_eq_div)

lemma unat_byte_of: "unat (ucast (drop_bit k (x :: 'a::len word)) :: u8) = unat x div 2 ^ k mod 256"
  by (simp only: unsigned_ucast_eq unat_drop_bit_eq) (simp add: drop_bit_eq_div take_bit_eq_mod)

lemma unat_byte_of_0: "unat (ucast (x :: 'a::len word) :: u8) = unat x mod 256"
  using unat_byte_of [of 0 x] by simp

lemma unat_ucast_u64 [simp]: "unat (ucast (x :: u32) :: u64) = unat x"
proof -
  have "unat x < 2 ^ 64" using unsigned_less [of x, where ?'a = nat] by simp
  then show ?thesis by (simp add: unsigned_ucast_eq take_bit_nat_eq_self)
qed

lemma unat_plus_one: "c \<noteq> - 1 \<Longrightarrow> unat ((c :: 'a::len word) + 1) = unat c + 1"
  by (metis Suc_eq_plus1 add.commute add_eq_0_iff unatSuc)

lemma less_plus_one: "c \<noteq> - 1 \<Longrightarrow> (c :: 'a::len word) < c + 1"
  by (simp add: word_less_nat_alt unat_plus_one)

lemma ucast_ucast_u32 [simp]: "ucast (ucast (x :: u32) :: u64) = x"
  by (rule bit_word_eqI) (simp add: bit_simps)

end
