(* ===== verification/Sha256.thy ===== *)
theory Sha256
  imports Prelude
begin

text \<open>
  \<^verbatim>\<open>src/crypto/sha256.cpp\<close>, \<^verbatim>\<open>sha256d.cpp\<close> and \<^verbatim>\<open>reduced_sha256.cpp\<close>: the SHA-256 of the
  miner with a configurable number of rounds per compression, plain and traced, SHA256d and
  the Hamming measures. The abstract specification is the FIPS 180-4 shape: pad the message,
  cut it into 64-byte blocks and fold the compression over them. The lemmas show that the
  block loop with its 128-byte tail buffer refines it, that the traced variant computes the
  same digest and records a chained trajectory of all rounds, and the size of every result.
\<close>

section \<open>Constants\<close>

definition kTable :: "u32 list" where
  "kTable = concat [
    [0x428a2f98, 0x71374491, 0xb5c0fbcf, 0xe9b5dba5, 0x3956c25b, 0x59f111f1, 0x923f82a4, 0xab1c5ed5],
    [0xd807aa98, 0x12835b01, 0x243185be, 0x550c7dc3, 0x72be5d74, 0x80deb1fe, 0x9bdc06a7, 0xc19bf174],
    [0xe49b69c1, 0xefbe4786, 0x0fc19dc6, 0x240ca1cc, 0x2de92c6f, 0x4a7484aa, 0x5cb0a9dc, 0x76f988da],
    [0x983e5152, 0xa831c66d, 0xb00327c8, 0xbf597fc7, 0xc6e00bf3, 0xd5a79147, 0x06ca6351, 0x14292967],
    [0x27b70a85, 0x2e1b2138, 0x4d2c6dfc, 0x53380d13, 0x650a7354, 0x766a0abb, 0x81c2c92e, 0x92722c85],
    [0xa2bfe8a1, 0xa81a664b, 0xc24b8b70, 0xc76c51a3, 0xd192e819, 0xd6990624, 0xf40e3585, 0x106aa070],
    [0x19a4c116, 0x1e376c08, 0x2748774c, 0x34b0bcb5, 0x391c0cb3, 0x4ed8aa4a, 0x5b9cca4f, 0x682e6ff3],
    [0x748f82ee, 0x78a5636f, 0x84c87814, 0x8cc70208, 0x90befffa, 0xa4506ceb, 0xbef9a3f7, 0xc67178f2]]"

definition kInitial :: "u32 list" where
  "kInitial = [
    0x6a09e667, 0xbb67ae85, 0x3c6ef372, 0xa54ff53a,
    0x510e527f, 0x9b05688c, 0x1f83d9ab, 0x5be0cd19]"

section \<open>Compression\<close>

definition read_be32 :: "bytes \<Rightarrow> u32" where
  "read_be32 p =
     push_bit 24 (ucast (p ! 0)) OR
     push_bit 16 (ucast (p ! 1)) OR
     push_bit 8 (ucast (p ! 2)) OR
     ucast (p ! 3)"

definition schedule_word :: "u32 list \<Rightarrow> nat \<Rightarrow> u32" where
  "schedule_word schedule i =
    (let s0 = word_rotr 7 (schedule ! (i - 15)) XOR word_rotr 18 (schedule ! (i - 15))
                XOR drop_bit 3 (schedule ! (i - 15));
         s1 = word_rotr 17 (schedule ! (i - 2)) XOR word_rotr 19 (schedule ! (i - 2))
                XOR drop_bit 10 (schedule ! (i - 2))
     in schedule ! (i - 16) + s0 + schedule ! (i - 7) + s1)"

definition message_schedule :: "bytes \<Rightarrow> u32 list" where
  "message_schedule block =
     fold (\<lambda>i schedule. schedule[i := schedule_word schedule i]) [16..<64]
       (map (\<lambda>i. read_be32 (drop (i * 4) block)) [0..<16] @ replicate 48 0)"

text \<open>The local variables \<^verbatim>\<open>a .. h\<close> of \<^verbatim>\<open>compress\<close>.\<close>

record regs =
  ra :: u32
  rb :: u32
  rc :: u32
  rd :: u32
  re :: u32
  rf :: u32
  rg :: u32
  rh :: u32

definition big_sum1 :: "u32 \<Rightarrow> u32" where
  "big_sum1 e = word_rotr 6 e XOR word_rotr 11 e XOR word_rotr 25 e"

definition choice :: "u32 \<Rightarrow> u32 \<Rightarrow> u32 \<Rightarrow> u32" where
  "choice e f g = (e AND f) XOR (NOT e AND g)"

definition big_sum0 :: "u32 \<Rightarrow> u32" where
  "big_sum0 a = word_rotr 2 a XOR word_rotr 13 a XOR word_rotr 22 a"

definition majority :: "u32 \<Rightarrow> u32 \<Rightarrow> u32 \<Rightarrow> u32" where
  "majority a b c = (a AND b) XOR (a AND c) XOR (b AND c)"

definition compress_round :: "u32 list \<Rightarrow> nat \<Rightarrow> regs \<Rightarrow> regs" where
  "compress_round schedule i r =
    (let sum1 = big_sum1 (re r);
         ch = choice (re r) (rf r) (rg r);
         temp1 = rh r + sum1 + ch + kTable ! i + schedule ! i;
         sum0 = big_sum0 (ra r);
         maj = majority (ra r) (rb r) (rc r);
         temp2 = sum0 + maj
     in \<lparr>ra = temp1 + temp2, rb = ra r, rc = rb r, rd = rc r,
         re = rd r + temp1, rf = re r, rg = rf r, rh = rg r\<rparr>)"

definition load_regs :: "u32 list \<Rightarrow> regs" where
  "load_regs state =
    \<lparr>ra = state ! 0, rb = state ! 1, rc = state ! 2, rd = state ! 3,
     re = state ! 4, rf = state ! 5, rg = state ! 6, rh = state ! 7\<rparr>"

definition feed_forward :: "u32 list \<Rightarrow> regs \<Rightarrow> u32 list" where
  "feed_forward state r =
    [state ! 0 + ra r, state ! 1 + rb r, state ! 2 + rc r, state ! 3 + rd r,
     state ! 4 + re r, state ! 5 + rf r, state ! 6 + rg r, state ! 7 + rh r]"

definition compress :: "nat \<Rightarrow> bytes \<Rightarrow> u32 list \<Rightarrow> u32 list" where
  "compress rounds block state =
    (let schedule = message_schedule block
     in feed_forward state (fold (compress_round schedule) [0..<rounds] (load_regs state)))"

section \<open>The hash of a message\<close>

text \<open>
  \<^verbatim>\<open>sha256_impl\<close> runs over a local lambda \<^verbatim>\<open>compress_block\<close> that updates the captured
  state; here that lambda is the argument \<open>cb\<close> and the captured variables are its state.
\<close>

function absorb_blocks :: "(bytes \<Rightarrow> 's \<Rightarrow> 's) \<Rightarrow> bytes \<Rightarrow> nat \<Rightarrow> 's \<Rightarrow> 's \<times> nat" where
  "absorb_blocks cb data offset s =
     (if length data - offset \<ge> 64
      then absorb_blocks cb data (offset + 64) (cb (take 64 (drop offset data)) s)
      else (s, offset))"
  by pat_completeness auto
termination
  by (relation "measure (\<lambda>(cb, data, offset, s). length data - offset)") auto

definition final_tail :: "bytes \<Rightarrow> nat \<Rightarrow> bytes \<times> nat" where
  "final_tail data offset =
    (let remainder = length data - offset;
         tail = (drop offset data @ replicate (128 - remainder) 0)[remainder := 0x80];
         padded_size = (if remainder < 56 then 64 else 128);
         bit_length = (of_nat (length data) :: u64) * 8
     in (fold (\<lambda>i t. t[padded_size - 1 - i := ucast (drop_bit (i * 8) bit_length)]) [0..<8] tail,
         padded_size))"

definition absorb_message :: "(bytes \<Rightarrow> 's \<Rightarrow> 's) \<Rightarrow> bytes \<Rightarrow> 's \<Rightarrow> 's" where
  "absorb_message cb data s =
    (let (s1, offset) = absorb_blocks cb data 0 s;
         (tail, padded_size) = final_tail data offset;
         s2 = cb (take 64 tail) s1
     in if padded_size = 128 then cb (drop 64 tail) s2 else s2)"

definition state_bytes :: "u32 list \<Rightarrow> bytes" where
  "state_bytes state =
     concat (map (\<lambda>x. [ucast (drop_bit 24 x), ucast (drop_bit 16 x), ucast (drop_bit 8 x), ucast x]) state)"

definition sha256_with_rounds :: "bytes \<Rightarrow> nat \<Rightarrow> bytes outcome" where
  "sha256_with_rounds data rounds =
    (if rounds < 1 \<or> rounds > 64 then Inl (Invalid_argument ''SHA-256 rounds must be in [1,64]'')
     else Inr (state_bytes (absorb_message (compress rounds) data kInitial)))"

definition sha256 :: "bytes \<Rightarrow> bytes" where
  "sha256 data = state_bytes (absorb_message (compress 64) data kInitial)"


section \<open>The traced variant\<close>

text \<open>\<^verbatim>\<open>struct Sha256RoundTrace\<close>; the eight registers before and after are two \<open>regs\<close>.\<close>

record round_trace =
  compression_index :: nat
  round_index :: nat
  tr_w :: u32
  tr_sum0 :: u32
  tr_sum1 :: u32
  tr_choice :: u32
  tr_majority :: u32
  tr_temp1 :: u32
  tr_temp2 :: u32
  tr_before :: regs
  tr_after :: regs

definition trace_round :: "nat \<Rightarrow> u32 list \<Rightarrow> nat \<Rightarrow> regs \<Rightarrow> round_trace" where
  "trace_round cidx schedule i r =
    (let sum1 = big_sum1 (re r);
         ch = choice (re r) (rf r) (rg r);
         temp1 = rh r + sum1 + ch + kTable ! i + schedule ! i;
         sum0 = big_sum0 (ra r);
         maj = majority (ra r) (rb r) (rc r);
         temp2 = sum0 + maj
     in \<lparr>compression_index = cidx, round_index = i, tr_w = schedule ! i,
         tr_sum0 = sum0, tr_sum1 = sum1, tr_choice = ch, tr_majority = maj,
         tr_temp1 = temp1, tr_temp2 = temp2, tr_before = r,
         tr_after = \<lparr>ra = temp1 + temp2, rb = ra r, rc = rb r, rd = rc r,
                      re = rd r + temp1, rf = re r, rg = rf r, rh = rg r\<rparr>\<rparr>)"

definition compress_traced ::
    "nat \<Rightarrow> bytes \<Rightarrow> u32 list \<times> nat \<times> round_trace list \<Rightarrow> u32 list \<times> nat \<times> round_trace list" where
  "compress_traced rounds block = (\<lambda>(state, cidx, traces).
    (let schedule = message_schedule block;
         (r, traces') = fold (\<lambda>i (r, ts).
            (let t = trace_round cidx schedule i r in (tr_after t, ts @ [t])))
            [0..<rounds] (load_regs state, traces)
     in (feed_forward state r, cidx + 1, traces')))"

record trace_result =
  tr_digest :: bytes
  tr_rounds :: "round_trace list"

definition sha256_with_trace :: "bytes \<Rightarrow> nat \<Rightarrow> trace_result outcome" where
  "sha256_with_trace data rounds =
    (if rounds < 1 \<or> rounds > 64 then Inl (Invalid_argument ''SHA-256 rounds must be in [1,64]'')
     else let (state, cidx, traces) = absorb_message (compress_traced rounds) data (kInitial, 0, [])
          in Inr \<lparr>tr_digest = state_bytes state, tr_rounds = traces\<rparr>)"

section \<open>SHA256d, reduced rounds and Hamming measures\<close>

definition sha256d :: "bytes \<Rightarrow> bytes" where
  "sha256d data = sha256 (sha256 data)"

definition sha256d_with_rounds :: "bytes \<Rightarrow> nat \<Rightarrow> bytes outcome" where
  "sha256d_with_rounds data rounds =
    bindE (sha256_with_rounds data rounds) (\<lambda>first. sha256_with_rounds first rounds)"

definition reduced_sha256 :: "bytes \<Rightarrow> nat \<Rightarrow> bytes outcome" where
  "reduced_sha256 data rounds = sha256_with_rounds data rounds"

definition reduced_sha256d :: "bytes \<Rightarrow> nat \<Rightarrow> bytes outcome" where
  "reduced_sha256d data rounds = sha256d_with_rounds data rounds"

record reduced_trace =
  rt_digest :: bytes
  first_sha :: trace_result
  second_sha :: trace_result

definition trace_reduced_sha256d :: "bytes \<Rightarrow> nat \<Rightarrow> reduced_trace outcome" where
  "trace_reduced_sha256d data rounds =
    bindE (sha256_with_trace data rounds) (\<lambda>first.
    bindE (sha256_with_trace (tr_digest first) rounds) (\<lambda>second.
      Inr \<lparr>rt_digest = tr_digest second, first_sha = first, second_sha = second\<rparr>))"

definition popcount :: "'a::len word \<Rightarrow> nat" where
  "popcount w = length (filter (bit w) [0..<LENGTH('a)])"

definition hamming_weight :: "bytes \<Rightarrow> nat" where
  "hamming_weight value = fold (\<lambda>byte total. total + popcount byte) value 0"

definition hamming_distance :: "bytes \<Rightarrow> bytes \<Rightarrow> nat" where
  "hamming_distance left right =
    fold (\<lambda>i total. total + popcount (left ! i XOR right ! i)) [0..<length left] 0"

section \<open>The specification: pad, cut into blocks, fold\<close>

definition pad_zeros :: "nat \<Rightarrow> nat" where
  "pad_zeros n = (if n mod 64 < 56 then 55 - n mod 64 else 119 - n mod 64)"

definition be64 :: "u64 \<Rightarrow> bytes" where
  "be64 x = map (\<lambda>i. ucast (drop_bit (8 * (7 - i)) x)) [0..<8]"

definition pad_message :: "bytes \<Rightarrow> bytes" where
  "pad_message m =
    m @ [0x80] @ replicate (pad_zeros (length m)) 0 @ be64 (of_nat (8 * length m))"

fun blocks64 :: "nat \<Rightarrow> bytes \<Rightarrow> bytes list" where
  "blocks64 0 m = []"
| "blocks64 (Suc n) m = take 64 m # blocks64 n (drop 64 m)"

definition message_blocks :: "bytes \<Rightarrow> bytes list" where
  "message_blocks m = blocks64 (length (pad_message m) div 64) (pad_message m)"

declare absorb_blocks.simps [simp del]

lemma length_be64 [simp]: "length (be64 x) = 8"
  by (simp add: be64_def)

lemma length_pad_message: "length (pad_message m) = 64 * ((length m + 72) div 64)"
proof -
  define q r where "q = length m div 64" and "r = length m mod 64"
  have n: "length m = 64 * q + r" and r: "r < 64"
    by (simp_all add: q_def r_def)
  have "(r + 72) div 64 = (if r < 56 then 1 else 2)"
    using r by (auto intro!: div_nat_eqI)
  then have "(length m + 72) div 64 = q + (if r < 56 then 1 else 2)"
    by (simp add: n add.assoc)
  then show ?thesis
    using r by (simp add: pad_message_def pad_zeros_def n r_def [symmetric])
qed

lemma absorb_blocks_blocks64:
  "absorb_blocks cb data offset s =
    (fold cb (blocks64 ((length data - offset) div 64) (drop offset data)) s,
     offset + 64 * ((length data - offset) div 64))"
proof (induction cb data offset s rule: absorb_blocks.induct)
  case (1 cb data offset s)
  show ?case
  proof (cases "length data - offset \<ge> 64")
    case True
    have "(length data - offset) div 64 = Suc ((length data - (offset + 64)) div 64)"
      using True by (simp add: le_div_geq)
    moreover have "absorb_blocks cb data offset s
        = absorb_blocks cb data (offset + 64) (cb (take 64 (drop offset data)) s)"
      using True by (subst absorb_blocks.simps) simp
    ultimately show ?thesis
      using 1 [OF True] by (simp add: add.commute)
  next
    case False
    then show ?thesis by (subst absorb_blocks.simps) simp
  qed
qed


lemma blocks64_1_2:
  "blocks64 (Suc 0) m = [take 64 m]"
  "blocks64 2 m = [take 64 m, take 64 (drop 64 m)]"
  by (simp_all add: numeral_2_eq_2)

lemma blocks64_append:
  "length xs = 64 * n \<Longrightarrow> blocks64 (n + k) (xs @ ys) = blocks64 n xs @ blocks64 k ys"
  by (induction n arbitrary: xs) simp_all

lemma blocks64_take: "64 * n \<le> length m \<Longrightarrow> blocks64 n (take (64 * n) m) = blocks64 n m"
proof (induction n arbitrary: m)
  case (Suc n)
  then show ?case by (simp add: drop_take)
qed simp

lemma fold_update_suffix:
  "k \<le> p \<Longrightarrow> p \<le> length t \<Longrightarrow>
    fold (\<lambda>i t. t[p - 1 - i := f i]) [0..<k] t = take (p - k) t @ map f (rev [0..<k]) @ drop p t"
proof (induction k)
  case 0
  then show ?case by simp
next
  case (Suc k)
  then have "p - k = Suc (p - Suc k)" by simp
  with Suc show ?case
    by (simp add: take_Suc_conv_app_nth list_update_append)
qed

lemma final_tail_eq:
  assumes "offset \<le> length data" and "length data - offset < 64"
  shows "take (snd (final_tail data offset)) (fst (final_tail data offset)) =
    drop offset data @ [0x80] @ replicate (pad_zeros (length data - offset)) 0 @
      be64 (of_nat (8 * length data))"
    and "snd (final_tail data offset) = (if length data - offset < 56 then 64 else 128)"
    and "length (fst (final_tail data offset)) = 128"
proof -
  define r where "r = length data - offset"
  define p where "p = (if r < 56 then 64 else 128 :: nat)"
  define f :: "nat \<Rightarrow> u8" where "f i = ucast (drop_bit (i * 8) ((of_nat (length data) :: u64) * 8))" for i
  define t where "t = drop offset data @ 0x80 # replicate (127 - r) 0"
  have r: "r < 64" "length (drop offset data) = r" using assms by (simp_all add: r_def)
  have "(drop offset data @ replicate (128 - r) 0)[r := 0x80] = t"
  proof -
    have "128 - r = Suc (127 - r)" using r by simp
    then show ?thesis using r by (simp add: t_def list_update_append)
  qed
  then have ft: "final_tail data offset = (fold (\<lambda>i t. t[p - 1 - i := f i]) [0..<8] t, p)"
    by (simp add: final_tail_def r_def p_def f_def Let_def)
  have len: "length t = 128" using r by (simp add: t_def)
  have p: "8 \<le> p" "p \<le> 128" "r < p - 8" "p - 8 - Suc r = pad_zeros r"
    using r by (auto simp: p_def pad_zeros_def)
  have fold: "fold (\<lambda>i t. t[p - 1 - i := f i]) [0..<8] t
      = take (p - 8) t @ map f (rev [0..<8]) @ drop p t"
    using p len by (intro fold_update_suffix) simp_all
  have ft': "final_tail data offset = (take (p - 8) t @ map f (rev [0..<8]) @ drop p t, p)"
    by (simp only: ft fold)
  have cut: "take p (take (p - 8) t @ map f (rev [0..<8]) @ drop p t)
      = take (p - 8) t @ map f (rev [0..<8])"
    using p len by simp
  have "map f (rev [0..<8]) = be64 (of_nat (8 * length data))"
    by (simp add: be64_def f_def upt_rec mult.commute)
  moreover have "take (p - 8) t = drop offset data @ [0x80] @ replicate (pad_zeros r) 0"
    using p r by (simp add: t_def take_Cons' p(4) [symmetric] min_def)
  ultimately show "take (snd (final_tail data offset)) (fst (final_tail data offset)) =
    drop offset data @ [0x80] @ replicate (pad_zeros (length data - offset)) 0 @
      be64 (of_nat (8 * length data))"
    unfolding ft' fst_conv snd_conv cut r_def [symmetric] by simp
  show "snd (final_tail data offset) = (if length data - offset < 56 then 64 else 128)"
    by (simp add: ft p_def r_def)
  show "length (fst (final_tail data offset)) = 128"
    using p len by (simp add: ft')
qed

lemma absorb_message_blocks: "absorb_message cb data s = fold cb (message_blocks data) s"
proof -
  define k offset where "k = length data div 64" and "offset = 64 * k"
  define tail p where "tail = fst (final_tail data offset)" and "p = snd (final_tail data offset)"
  have off: "offset \<le> length data" "length data - offset < 64"
    "length data mod 64 = length data - offset"
    by (simp_all add: offset_def k_def minus_mod_eq_mult_div [symmetric])
  note tail_eq = final_tail_eq [OF off(1,2), folded tail_def p_def]
  have pz: "pad_zeros (length data) = pad_zeros (length data - offset)"
    by (simp add: pad_zeros_def off(3) [symmetric])
  have pad: "pad_message data = take offset data @ take p tail"
    unfolding pad_message_def tail_eq(1) pz by (metis append.assoc append_take_drop_id)
  have n: "length (pad_message data) div 64 = k + p div 64"
    unfolding pad using off(1) tail_eq(2,3) by (simp add: offset_def)
  have "message_blocks data = blocks64 k data @ blocks64 (p div 64) (take p tail)"
    unfolding message_blocks_def n unfolding pad
    by (subst blocks64_append) (use off in \<open>simp_all add: offset_def blocks64_take\<close>)
  moreover have "blocks64 (p div 64) (take p tail) =
      (if p = 128 then [take 64 tail, drop 64 tail] else [take 64 tail])"
    using tail_eq(2,3) by (simp add: blocks64_1_2)
  ultimately show ?thesis
    by (simp add: absorb_message_def absorb_blocks_blocks64 k_def [symmetric] Let_def split_beta
        tail_def p_def offset_def)
qed


section \<open>Sizes\<close>

lemma length_compress [simp]: "length (compress rounds block state) = 8"
  by (simp add: compress_def feed_forward_def Let_def)

lemma length_fold_compress: "length s = 8 \<Longrightarrow> length (fold (compress rounds) bs s) = 8"
  by (induction bs arbitrary: s) simp_all

lemma length_kInitial [simp]: "length kInitial = 8"
  by (simp add: kInitial_def)

lemma length_state_bytes [simp]: "length (state_bytes st) = 4 * length st"
  by (induction st) (simp_all add: state_bytes_def)

lemma length_sha256 [simp]: "length (sha256 data) = 32"
  by (simp add: sha256_def absorb_message_blocks length_fold_compress)

lemma length_sha256d [simp]: "length (sha256d data) = 32"
  by (simp add: sha256d_def)

lemma sha256_with_rounds_64: "sha256_with_rounds data 64 = Inr (sha256 data)"
  by (simp add: sha256_with_rounds_def sha256_def)

lemma sha256_with_rounds_length: "sha256_with_rounds data rounds = Inr d \<Longrightarrow> length d = 32"
  by (auto simp: sha256_with_rounds_def absorb_message_blocks length_fold_compress split: if_splits)

lemma blocks64_concat: "length m = 64 * n \<Longrightarrow> concat (blocks64 n m) = m"
  by (induction n arbitrary: m) simp_all

lemma length_blocks64 [simp]: "length (blocks64 n m) = n"
  by (induction n arbitrary: m) simp_all

lemma concat_message_blocks: "concat (message_blocks m) = pad_message m"
  by (simp add: message_blocks_def blocks64_concat length_pad_message)

lemma length_message_blocks [simp]: "length (message_blocks m) = (length m + 72) div 64"
  by (simp add: message_blocks_def length_pad_message)

lemma blocks64_lengths: "length m = 64 * n \<Longrightarrow> list_all (\<lambda>b. length b = 64) (blocks64 n m)"
  by (induction n arbitrary: m) simp_all

lemma list_all_message_blocks: "list_all (\<lambda>b. length b = 64) (message_blocks m)"
  unfolding message_blocks_def by (rule blocks64_lengths) (simp add: length_pad_message)

section \<open>The message schedule as a recurrence\<close>

function schedule_spec :: "bytes \<Rightarrow> nat \<Rightarrow> u32" where
  "schedule_spec block t =
    (if t < 16 then read_be32 (drop (t * 4) block)
     else schedule_spec block (t - 16)
        + (word_rotr 7 (schedule_spec block (t - 15)) XOR word_rotr 18 (schedule_spec block (t - 15))
            XOR drop_bit 3 (schedule_spec block (t - 15)))
        + schedule_spec block (t - 7)
        + (word_rotr 17 (schedule_spec block (t - 2)) XOR word_rotr 19 (schedule_spec block (t - 2))
            XOR drop_bit 10 (schedule_spec block (t - 2))))"
  by pat_completeness auto
termination
  by (relation "measure snd") auto

declare schedule_spec.simps [simp del]

lemma schedule_loop:
  "n \<le> 48 \<Longrightarrow> fold (\<lambda>i schedule. schedule[i := schedule_word schedule i]) [16..<16 + n]
       (map (\<lambda>i. read_be32 (drop (i * 4) block)) [0..<16] @ replicate 48 0)
     = map (schedule_spec block) [0..<16 + n] @ replicate (48 - n) 0"
proof (induction n)
  case 0
  have "map (\<lambda>i. read_be32 (drop (i * 4) block)) [0..<16] = map (schedule_spec block) [0..<16]"
    by (rule map_cong [OF refl]) (simp add: schedule_spec.simps)
  then show ?case by simp
next
  case (Suc n)
  define S where "S = map (schedule_spec block) [0..<16 + n] @ replicate (48 - n) 0"
  have nth: "S ! k = schedule_spec block k" if "k < 16 + n" for k
    using that by (simp add: S_def nth_append)
  have "schedule_word S (16 + n) = schedule_spec block (16 + n)"
    by (subst schedule_spec.simps) (simp add: schedule_word_def nth Let_def)
  moreover have "48 - n = Suc (48 - Suc n)" using Suc.prems by simp
  then have "S[16 + n := x] = map (schedule_spec block) [0..<16 + n] @ x # replicate (48 - Suc n) 0" for x
    by (simp add: S_def list_update_append)
  moreover have "[16..<16 + Suc n] = [16..<16 + n] @ [16 + n]"
    "[0..<16 + Suc n] = [0..<16 + n] @ [16 + n]"
    by (simp_all only: add_Suc_right upt_Suc le_add1 le0 if_True)
  moreover have "fold (\<lambda>i schedule. schedule[i := schedule_word schedule i]) [16..<16 + n]
       (map (\<lambda>i. read_be32 (drop (i * 4) block)) [0..<16] @ replicate 48 0) = S"
    using Suc by (simp add: S_def)
  ultimately show ?case
    by (simp only: fold_append o_apply fold.simps id_apply map_append list.map append_assoc append.simps)
qed

lemma message_schedule_spec: "message_schedule block = map (schedule_spec block) [0..<64]"
proof -
  have "(16::nat) + 48 = 64" "(48::nat) - 48 = 0" by simp_all
  with schedule_loop [of 48 block, OF order_refl] show ?thesis
    by (simp only: message_schedule_def replicate_0 append_Nil2)
qed

section \<open>The trace follows the plain computation\<close>

lemma tr_after_trace_round: "tr_after (trace_round c sched i r) = compress_round sched i r"
  by (simp add: trace_round_def compress_round_def Let_def)

lemma trace_round_fields:
  "compression_index (trace_round c sched i r) = c"
  "round_index (trace_round c sched i r) = i"
  "tr_before (trace_round c sched i r) = r"
  by (simp_all add: trace_round_def Let_def)

definition block_trace :: "nat \<Rightarrow> bytes \<Rightarrow> u32 list \<Rightarrow> nat \<Rightarrow> round_trace list" where
  "block_trace rounds block state c =
    map (\<lambda>i. trace_round c (message_schedule block) i
           (fold (compress_round (message_schedule block)) [0..<i] (load_regs state))) [0..<rounds]"

lemma compress_traced_eq:
  "compress_traced rounds block (state, c, ts) =
    (compress rounds block state, c + 1, ts @ block_trace rounds block state c)"
proof -
  have "fold (\<lambda>i (r, ts). (let t = trace_round c sched i r in (tr_after t, ts @ [t]))) [0..<n] (r0, ts)
      = (fold (compress_round sched) [0..<n] r0,
         ts @ map (\<lambda>i. trace_round c sched i (fold (compress_round sched) [0..<i] r0)) [0..<n])"
    for sched n r0
    by (induction n) (simp_all add: Let_def tr_after_trace_round)
  then show ?thesis
    by (simp add: compress_traced_def compress_def block_trace_def Let_def)
qed

fun traces_of :: "nat \<Rightarrow> bytes list \<Rightarrow> u32 list \<Rightarrow> nat \<Rightarrow> round_trace list" where
  "traces_of rounds [] state c = []"
| "traces_of rounds (b # bs) state c =
     block_trace rounds b state c @ traces_of rounds bs (compress rounds b state) (c + 1)"

lemma fold_compress_traced:
  "fold (compress_traced rounds) bs (state, c, ts) =
    (fold (compress rounds) bs state, c + length bs, ts @ traces_of rounds bs state c)"
  by (induction bs arbitrary: state c ts) (simp_all add: compress_traced_eq)

lemma length_traces_of [simp]: "length (traces_of rounds bs state c) = rounds * length bs"
  by (induction bs arbitrary: state c) (simp_all add: block_trace_def)

lemma traces_of_nth:
  "k < length bs \<Longrightarrow> i < rounds \<Longrightarrow>
    traces_of rounds bs state c ! (rounds * k + i) =
      trace_round (c + k) (message_schedule (bs ! k)) i
        (fold (compress_round (message_schedule (bs ! k))) [0..<i]
          (load_regs (fold (compress rounds) (take k bs) state)))"
proof (induction bs arbitrary: state c k)
  case (Cons b bs)
  show ?case
  proof (cases k)
    case 0
    with Cons.prems show ?thesis by (simp add: nth_append block_trace_def)
  next
    case (Suc m)
    then have "traces_of rounds (b # bs) state c ! (rounds * k + i)
        = traces_of rounds bs (compress rounds b state) (c + 1) ! (rounds * m + i)"
      by (simp add: nth_append block_trace_def)
    also have "\<dots> = trace_round (c + 1 + m) (message_schedule (bs ! m)) i
        (fold (compress_round (message_schedule (bs ! m))) [0..<i]
          (load_regs (fold (compress rounds) (take m bs) (compress rounds b state))))"
      by (rule Cons.IH) (use Cons.prems Suc in simp_all)
    finally show ?thesis by (simp add: Suc)
  qed
qed simp

lemma sha256_with_trace_eq:
  "sha256_with_trace data rounds =
    bindE (sha256_with_rounds data rounds) (\<lambda>d.
      Inr \<lparr>tr_digest = d, tr_rounds = traces_of rounds (message_blocks data) kInitial 0\<rparr>)"
  unfolding sha256_with_trace_def sha256_with_rounds_def absorb_message_blocks fold_compress_traced
  by simp

section \<open>Properties\<close>

text \<open>C5: for every message and every number of rounds, \<open>sha256_with_rounds\<close> throws exactly
  outside [1,64], and otherwise folds the compression over the 64-byte blocks into which the
  padded message (a one bit, zeros, the bit length) cuts.\<close>

theorem sha256_with_rounds_refines_padding:
  "sha256_with_rounds data rounds =
     (if 1 \<le> rounds \<and> rounds \<le> 64
      then Inr (state_bytes (fold (compress rounds) (message_blocks data) kInitial))
      else Inl (Invalid_argument ''SHA-256 rounds must be in [1,64]''))
   \<and> concat (message_blocks data) = pad_message data
   \<and> list_all (\<lambda>b. length b = 64) (message_blocks data)"
  unfolding sha256_with_rounds_def absorb_message_blocks concat_message_blocks
  by (auto simp: list_all_message_blocks)

text \<open>The in-place loop of \<open>message_schedule\<close> computes the schedule's recurrence.\<close>

theorem message_schedule_recurrence:
  "length (message_schedule block) = 64 \<and> message_schedule block = map (schedule_spec block) [0..<64]"
  using message_schedule_spec [of block] by simp

text \<open>The traced variant returns the digest of the plain one and one trace per round and block;
  each trace's registers continue those of the trace before, and the first trace of a block starts
  from the chaining value of the blocks before it.\<close>

theorem sha256_with_trace_faithful:
  assumes "sha256_with_trace data rounds = Inr t"
    and "k < (length data + 72) div 64" "i < rounds"
  shows "sha256_with_rounds data rounds = Inr (tr_digest t)
    \<and> length (tr_rounds t) = rounds * ((length data + 72) div 64)
    \<and> compression_index (tr_rounds t ! (rounds * k + i)) = k
    \<and> round_index (tr_rounds t ! (rounds * k + i)) = i
    \<and> tr_before (tr_rounds t ! (rounds * k + i)) =
        (if i = 0 then load_regs (fold (compress rounds) (take k (message_blocks data)) kInitial)
         else tr_after (tr_rounds t ! (rounds * k + i - 1)))
    \<and> tr_after (tr_rounds t ! (rounds * k + i)) =
        compress_round (message_schedule (message_blocks data ! k)) i (tr_before (tr_rounds t ! (rounds * k + i)))"
proof -
  have r: "sha256_with_rounds data rounds = Inr (tr_digest t)"
    "tr_rounds t = traces_of rounds (message_blocks data) kInitial 0"
    using assms(1) by (auto simp: sha256_with_trace_eq bindE_eq_Inr_iff)
  have nth: "traces_of rounds (message_blocks data) kInitial 0 ! (rounds * k + j) =
      trace_round k (message_schedule (message_blocks data ! k)) j
        (fold (compress_round (message_schedule (message_blocks data ! k))) [0..<j]
          (load_regs (fold (compress rounds) (take k (message_blocks data)) kInitial)))" if "j < rounds" for j
    using traces_of_nth [of k "message_blocks data" j rounds kInitial 0] assms(2) that by simp
  show ?thesis
  proof (cases i)
    case 0
    then show ?thesis using r nth [of 0] assms(3)
      by (simp add: tr_after_trace_round trace_round_fields)
  next
    case (Suc j)
    then show ?thesis using r nth [of i] nth [of j] assms(3)
      by (simp add: tr_after_trace_round trace_round_fields)
  qed
qed

theorem sha256_with_trace_faithful_witness:
  "\<exists>t. sha256_with_trace (replicate 80 0) 64 = Inr t \<and>
     tr_before (tr_rounds t ! 65) = tr_after (tr_rounds t ! 64)"
proof -
  obtain t where t: "sha256_with_trace (replicate 80 0) 64 = Inr t"
    by (simp add: sha256_with_trace_eq sha256_with_rounds_64)
  then show ?thesis
    using sha256_with_trace_faithful [OF t, of 1 1] by (intro exI [of _ t]) simp
qed

end
