(* ===== verification/Hex.thy ===== *)
theory Hex
  imports Prelude
begin

text \<open>
  The hexadecimal helpers of \<^verbatim>\<open>src/crypto/sha256.cpp\<close> and the number formatting the code
  takes from the standard library (\<^verbatim>\<open>std::hex\<close> with \<^verbatim>\<open>std::setw\<close> and \<^verbatim>\<open>std::setfill('0')\<close>,
  and \<^verbatim>\<open>std::to_string\<close>). The lemmas give the round trips, exactly when decoding throws, and
  that hexadecimal text of one length is ordered as the bytes it shows.
\<close>

section \<open>Decoding and encoding\<close>

definition hex_digit :: "char \<Rightarrow> nat outcome" where
  "hex_digit c =
    (if CHR ''0'' \<le> c \<and> c \<le> CHR ''9'' then Inr (of_char c - of_char CHR ''0'')
     else if CHR ''a'' \<le> c \<and> c \<le> CHR ''f'' then Inr (of_char c - of_char CHR ''a'' + 10)
     else if CHR ''A'' \<le> c \<and> c \<le> CHR ''F'' then Inr (of_char c - of_char CHR ''A'' + 10)
     else Inl (Invalid_argument ''invalid hexadecimal character''))"

definition hex_byte :: "string \<Rightarrow> nat \<Rightarrow> u8 outcome" where
  "hex_byte hex i =
    bindE (hex_digit (hex ! (i * 2))) (\<lambda>hi.
    bindE (hex_digit (hex ! (i * 2 + 1))) (\<lambda>lo.
      Inr (of_nat (push_bit 4 hi OR lo))))"

definition from_hex :: "string \<Rightarrow> bytes outcome" where
  "from_hex hex =
    (if length hex mod 2 \<noteq> 0
     then Inl (Invalid_argument ''hexadecimal input must have even length'')
     else mapE (hex_byte hex) [0..<length hex div 2])"

definition alphabet :: string where
  "alphabet = ''0123456789abcdef''"

definition to_hex :: "bytes \<Rightarrow> string" where
  "to_hex bs = concat (map (\<lambda>b. [alphabet ! unat (drop_bit 4 b), alphabet ! unat (b AND 0x0f)]) bs)"

definition digest_hex :: "bytes \<Rightarrow> string" where
  "digest_hex digest = to_hex digest"

definition bitcoin_hash_hex :: "bytes \<Rightarrow> string" where
  "bitcoin_hash_hex digest = to_hex (rev digest)"

text \<open>Number formatting of the standard library.\<close>

fun hex_digits :: "nat \<Rightarrow> string" where
  "hex_digits n = (if n < 16 then [alphabet ! n] else hex_digits (n div 16) @ [alphabet ! (n mod 16)])"

definition setw_hex :: "nat \<Rightarrow> nat \<Rightarrow> string" where
  "setw_hex width n = replicate (width - length (hex_digits n)) CHR ''0'' @ hex_digits n"

fun to_string :: "nat \<Rightarrow> string" where
  "to_string n =
    (if n < 10 then [''0123456789'' ! n] else to_string (n div 10) @ [''0123456789'' ! (n mod 10)])"

declare hex_digits.simps [simp del] to_string.simps [simp del]

section \<open>The alphabet\<close>

lemma less_16_cases:
  "(n::nat) < 16 \<Longrightarrow> n \<in> {0,1,2,3,4,5,6,7,8,9,10,11,12,13,14,15}"
  by (auto simp: eval_nat_numeral less_Suc_eq)

lemma hex_digit_alphabet [simp]: "n < 16 \<Longrightarrow> hex_digit (alphabet ! n) = Inr n"
  by (drule less_16_cases) (auto simp: alphabet_def hex_digit_def less_eq_char_def)

lemma alphabet_less_iff [simp]:
  "m < 16 \<Longrightarrow> n < 16 \<Longrightarrow> alphabet ! m < alphabet ! n \<longleftrightarrow> m < n"
  by (drule less_16_cases, drule less_16_cases) (auto simp: alphabet_def less_char_def)

lemma alphabet_inject [simp]:
  "m < 16 \<Longrightarrow> n < 16 \<Longrightarrow> alphabet ! m = alphabet ! n \<longleftrightarrow> m = n"
  by (metis hex_digit_alphabet sum.inject(2))

lemma hex_digit_bound: "hex_digit c = Inr n \<Longrightarrow> n < 16"
  by (auto simp: hex_digit_def less_eq_char_def split: if_splits)

lemma hi_nibble: "unat (drop_bit 4 (b :: u8)) = unat b div 16"
  by (simp add: drop_bit_eq_div unat_div)

lemma lo_nibble: "unat ((b :: u8) AND 0x0f) = unat b mod 16"
proof -
  have "b AND 0x0f = take_bit 4 b"
    by (simp add: take_bit_eq_mask mask_eq_exp_minus_1)
  then have "unat (b AND 0x0f) = unat (take_bit 4 b)" by simp
  also have "\<dots> = unat b mod 16"
    by (simp add: take_bit_eq_mod unat_mod)
  finally show ?thesis .
qed

lemma nibbles_bound [simp]:
  "unat (b :: u8) div 16 < 16" "unat (b :: u8) mod 16 < 16"
  using unsigned_less [of b, where ?'a = nat] by simp_all

lemma nibble_join:
  assumes "hi < 16" "lo < 16"
  shows "unat (of_nat (push_bit 4 hi OR lo) :: u8) = 16 * hi + lo"
proof -
  have "push_bit 4 hi OR lo = push_bit 4 hi + lo"
  proof -
    have "push_bit 4 hi AND lo = 0"
    proof (rule bit_eqI)
      fix n
      show "bit (push_bit 4 hi AND lo) n = bit (0::nat) n"
      proof (cases "n < 4")
        case True
        then show ?thesis by (simp add: bit_simps)
      next
        case False
        then have "lo < 2 ^ n"
          using assms(2) power_increasing [of 4 n "2::nat"] by simp
        then have "\<not> bit lo n" by (simp add: bit_iff_odd)
        then show ?thesis by (simp add: bit_and_iff)
      qed
    qed
    then show ?thesis by (simp add: disjunctive_add_eq_or)
  qed
  then have "push_bit 4 hi OR lo = 16 * hi + lo"
    by (simp add: push_bit_eq_mult)
  moreover have "unat (of_nat (16 * hi + lo) :: u8) = 16 * hi + lo"
    unfolding unat_of_nat using assms by simp
  ultimately show ?thesis by (simp only:)
qed


section \<open>Round trips and errors\<close>

fun hex_pairs :: "string \<Rightarrow> bytes outcome" where
  "hex_pairs [] = Inr []"
| "hex_pairs [c] = Inl (Invalid_argument ''hexadecimal input must have even length'')"
| "hex_pairs (c # d # cs) =
     bindE (hex_digit c) (\<lambda>hi. bindE (hex_digit d) (\<lambda>lo.
     bindE (hex_pairs cs) (\<lambda>bs. Inr (of_nat (push_bit 4 hi OR lo) # bs))))"

lemma mapE_cong: "(\<And>x. x \<in> set xs \<Longrightarrow> f x = g x) \<Longrightarrow> mapE f xs = mapE g xs"
  by (induction xs) auto

lemma mapE_map: "mapE f (map g xs) = mapE (\<lambda>x. f (g x)) xs"
  by (induction xs) auto

lemma upt_Suc_shift: "[0..<Suc n] = 0 # map Suc [0..<n]"
  by (simp add: map_Suc_upt upt_conv_Cons)

lemma hex_byte_Cons:
  "hex_byte (c # d # cs) 0 =
     bindE (hex_digit c) (\<lambda>hi. bindE (hex_digit d) (\<lambda>lo. Inr (of_nat (push_bit 4 hi OR lo))))"
  "hex_byte (c # d # cs) (Suc i) = hex_byte cs i"
  by (simp_all add: hex_byte_def)

text \<open>On input of even length the index loop reads the pairs from left to right.\<close>

lemma from_hex_pairs: "even (length hex) \<Longrightarrow> from_hex hex = hex_pairs hex"
proof (induction hex rule: hex_pairs.induct)
  case (3 c d cs)
  then have "from_hex cs = hex_pairs cs" and "even (length cs)" by simp_all
  then show ?case
    by (simp add: from_hex_def upt_Suc_shift mapE_map hex_byte_Cons bindE_assoc del: upt_Suc)
qed (simp_all add: from_hex_def)

lemma to_hex_Nil [simp]: "to_hex [] = []"
  by (simp add: to_hex_def)

lemma to_hex_Cons:
  "to_hex (b # bs) = alphabet ! (unat b div 16) # alphabet ! (unat b mod 16) # to_hex bs"
  unfolding to_hex_def hi_nibble lo_nibble by simp

lemma length_to_hex [simp]: "length (to_hex bs) = 2 * length bs"
  by (induction bs) (simp_all add: to_hex_Cons)

lemma of_nat_nibbles: "(of_nat (push_bit 4 (unat b div 16) OR unat b mod 16) :: u8) = b"
  by (rule word_unat_eq_iff [THEN iffD2]) (simp add: nibble_join del: of_nat_or_eq)

lemma hex_pairs_to_hex: "hex_pairs (to_hex bs) = Inr bs"
  by (induction bs) (simp_all add: to_hex_Cons of_nat_nibbles del: of_nat_or_eq)

lemma from_hex_to_hex [simp]: "from_hex (to_hex bs) = Inr bs"
  by (simp add: from_hex_pairs hex_pairs_to_hex)

definition is_hex :: "char \<Rightarrow> bool" where
  "is_hex c \<longleftrightarrow> (\<exists>n. hex_digit c = Inr n)"

lemma hex_pairs_Inr_iff:
  "(\<exists>bs. hex_pairs s = Inr bs \<and> length bs = length s div 2) \<longleftrightarrow> even (length s) \<and> list_all is_hex s"
  by (induction s rule: hex_pairs.induct) (auto simp: is_hex_def bindE_eq_Inr_iff)

lemma hex_pairs_length: "hex_pairs s = Inr bs \<Longrightarrow> length s = 2 * length bs"
  by (induction s arbitrary: bs rule: hex_pairs.induct) (auto simp: bindE_eq_Inr_iff)


lemma from_hex_odd:
  "odd (length s) \<Longrightarrow>
    from_hex s = Inl (Invalid_argument ''hexadecimal input must have even length'')"
  unfolding from_hex_def by presburger

lemma from_hex_Inr_iff:
  "(\<exists>bs. from_hex s = Inr bs) \<longleftrightarrow> even (length s) \<and> list_all is_hex s"
proof (cases "even (length s)")
  case True
  then show ?thesis
    using hex_pairs_Inr_iff [of s] hex_pairs_length [of s] by (auto simp: from_hex_pairs)
next
  case False
  then show ?thesis by (simp add: from_hex_odd)
qed

lemma from_hex_length: "from_hex s = Inr bs \<Longrightarrow> length s = 2 * length bs"
  by (cases "even (length s)") (auto simp: from_hex_pairs hex_pairs_length from_hex_odd)

lemma from_hex_append:
  "from_hex s = Inr bs \<Longrightarrow> from_hex t = Inr cs \<Longrightarrow> from_hex (s @ t) = Inr (bs @ cs)"
proof -
  have pairs: "hex_pairs s = Inr bs \<Longrightarrow> hex_pairs (s @ t) = bindE (hex_pairs t) (\<lambda>cs. Inr (bs @ cs))"
    for s t bs
    by (induction s arbitrary: bs rule: hex_pairs.induct) (auto simp: bindE_eq_Inr_iff bindE_assoc)
  assume a: "from_hex s = Inr bs" "from_hex t = Inr cs"
  then have "length s = 2 * length bs" "length t = 2 * length cs"
    by (simp_all add: from_hex_length)
  with a pairs show ?thesis by (simp add: from_hex_pairs)
qed

lemma is_hex_alphabet [simp]: "n < 16 \<Longrightarrow> is_hex (alphabet ! n)"
  by (simp add: is_hex_def)

section \<open>The order of hexadecimal text\<close>

lemma less_by_nibbles:
  "(m::nat) < n \<longleftrightarrow> m div 16 < n div 16 \<or> m div 16 = n div 16 \<and> m mod 16 < n mod 16"
proof -
  have "16 * p + r < 16 * q + s \<longleftrightarrow> p < q \<or> p = q \<and> r < s"
    if "r < 16" "s < 16" for p q r s :: nat
    using that by auto
  from this [of "m mod 16" "n mod 16" "m div 16" "n div 16"] show ?thesis by simp
qed

lemma eq_by_nibbles: "(m::nat) = n \<longleftrightarrow> m div 16 = n div 16 \<and> m mod 16 = n mod 16"
  by (metis less_by_nibbles linorder_neq_iff)

lemma to_hex_less_iff:
  "length xs = length ys \<Longrightarrow> to_hex xs < to_hex ys \<longleftrightarrow> xs < ys"
proof (induction xs ys rule: list_induct2)
  case Nil
  then show ?case by simp
next
  case (Cons x xs y ys)
  have "unat x < unat y \<longleftrightarrow>
      unat x div 16 < unat y div 16 \<or>
      unat x div 16 = unat y div 16 \<and> unat x mod 16 < unat y mod 16"
    by (rule less_by_nibbles)
  moreover have "x = y \<longleftrightarrow> unat x div 16 = unat y div 16 \<and> unat x mod 16 = unat y mod 16"
    unfolding word_unat_eq_iff by (rule eq_by_nibbles)
  ultimately show ?case
    using Cons by (auto simp: to_hex_Cons word_less_nat_alt)
qed

lemma to_hex_inject [simp]: "to_hex xs = to_hex ys \<longleftrightarrow> xs = ys"
  by (metis from_hex_to_hex sum.inject(2))

lemma bitcoin_hash_hex_less_iff:
  assumes "length a = length b"
  shows "bitcoin_hash_hex a < bitcoin_hash_hex b \<longleftrightarrow> le_val a < le_val b"
  using assms by (simp add: bitcoin_hash_hex_def to_hex_less_iff le_val_def be_val_less_iff)

section \<open>Fixed-width numbers\<close>

fun fixed_hex :: "nat \<Rightarrow> nat \<Rightarrow> string" where
  "fixed_hex 0 n = []"
| "fixed_hex (Suc w) n = fixed_hex w (n div 16) @ [alphabet ! (n mod 16)]"

lemma fixed_hex_0: "fixed_hex w 0 = replicate w CHR ''0''"
  by (induction w) (simp_all add: alphabet_def replicate_append_same)

lemma length_fixed_hex [simp]: "length (fixed_hex w n) = w"
  by (induction w arbitrary: n) simp_all

lemma hex_digits_less [simp]: "n < 16 \<Longrightarrow> hex_digits n = [alphabet ! n]"
  by (subst hex_digits.simps) simp

lemma hex_digits_step [simp]:
  "\<not> n < 16 \<Longrightarrow> hex_digits n = hex_digits (n div 16) @ [alphabet ! (n mod 16)]"
  by (subst hex_digits.simps) simp

lemma setw_hex_fixed: "n < 16 ^ Suc w \<Longrightarrow> setw_hex (Suc w) n = fixed_hex (Suc w) n"
proof (induction w arbitrary: n)
  case 0
  then show ?case by (simp add: setw_hex_def)
next
  case (Suc w)
  show ?case
  proof (cases "n < 16")
    case True
    then show ?thesis by (simp add: setw_hex_def fixed_hex_0 alphabet_def replicate_append_same)
  next
    case False
    moreover have "n div 16 < 16 ^ Suc w" using Suc.prems by (simp add: less_mult_imp_div_less)
    ultimately show ?thesis using Suc.IH [of "n div 16"] by (simp add: setw_hex_def)
  qed
qed

lemma fixed_hex_inject:
  "m < 16 ^ w \<Longrightarrow> n < 16 ^ w \<Longrightarrow> fixed_hex w m = fixed_hex w n \<longleftrightarrow> m = n"
proof (induction w arbitrary: m n)
  case (Suc w)
  have "m div 16 < 16 ^ w" "n div 16 < 16 ^ w"
    using Suc.prems by (simp_all add: less_mult_imp_div_less mult.commute)
  with Suc.IH [of "m div 16" "n div 16"] show ?case
    using eq_by_nibbles [of m n] by simp
qed simp

lemma to_hex_fixed: "to_hex bs = fixed_hex (2 * length bs) (be_val bs)"
proof (induction bs rule: rev_induct)
  case (snoc b bs)
  have "to_hex (bs @ [b]) = to_hex bs @ [alphabet ! (unat b div 16), alphabet ! (unat b mod 16)]"
    unfolding to_hex_def hi_nibble lo_nibble by simp
  moreover have "be_val (bs @ [b]) div 16 = 16 * be_val bs + unat b div 16"
    "be_val (bs @ [b]) mod 16 = unat b mod 16"
  proof -
    have "be_val (bs @ [b]) = unat b + 16 * be_val bs * 16"
      by (simp add: be_val_append)
    then show "be_val (bs @ [b]) div 16 = 16 * be_val bs + unat b div 16"
      "be_val (bs @ [b]) mod 16 = unat b mod 16"
      by (simp_all only: div_mult_self1 mod_mult_self1)
  qed
  moreover have "(16 * be_val bs + unat b div 16) div 16 = be_val bs"
    "(16 * be_val bs + unat b div 16) mod 16 = unat b div 16"
    by simp_all
  ultimately show ?case
    using snoc.IH by simp
qed simp

section \<open>Decimal numbers\<close>

lemma less_10_cases: "(n::nat) < 10 \<Longrightarrow> n \<in> {0,1,2,3,4,5,6,7,8,9}"
  by (simp add: less_Suc_eq numeral_eq_Suc)

lemma decimal_digit:
  assumes "m < 10"
  shows "''0123456789'' ! m \<in> set ''0123456789''"
    and "n < 10 \<Longrightarrow> ''0123456789'' ! m = ''0123456789'' ! n \<longleftrightarrow> m = n"
proof -
  show "''0123456789'' ! m \<in> set ''0123456789''" using assms by (intro nth_mem) simp
  assume "n < 10"
  moreover have "distinct ''0123456789''" by simp
  ultimately show "''0123456789'' ! m = ''0123456789'' ! n \<longleftrightarrow> m = n"
    using assms by (intro nth_eq_iff_index_eq) simp_all
qed

lemma to_string_less [simp]: "n < 10 \<Longrightarrow> to_string n = [''0123456789'' ! n]"
  by (subst to_string.simps) simp

lemma to_string_step [simp]:
  "\<not> n < 10 \<Longrightarrow> to_string n = to_string (n div 10) @ [''0123456789'' ! (n mod 10)]"
  by (subst to_string.simps) simp

lemma set_to_string: "set (to_string n) \<subseteq> set ''0123456789''"
proof (induction n rule: less_induct)
  case (less n)
  show ?case
  proof (cases "n < 10")
    case True
    then show ?thesis using decimal_digit(1) [OF True] by simp
  next
    case False
    then show ?thesis using less.IH [of "n div 10"] decimal_digit(1) [of "n mod 10"] by simp
  qed
qed

lemma to_string_not_Nil [simp]: "to_string n \<noteq> []" "[] \<noteq> to_string n"
  by (subst to_string.simps, simp)+

lemma to_string_inject [simp]: "to_string m = to_string n \<longleftrightarrow> m = n"
proof
  show "to_string m = to_string n \<Longrightarrow> m = n"
  proof (induction m arbitrary: n rule: less_induct)
    case (less m)
    show ?case
    proof (cases "m < 10 \<or> n < 10")
      case True
      show ?thesis
      proof (cases "m < 10 \<and> n < 10")
        case True
        then show ?thesis using less.prems decimal_digit(2) [of m n] by simp
      next
        case False
        with True less.prems show ?thesis by auto
      qed
    next
      case False
      then have "to_string (m div 10) = to_string (n div 10)" "m mod 10 = n mod 10"
        using less.prems decimal_digit(2) [of "m mod 10" "n mod 10"] by simp_all
      then have "m div 10 = n div 10" "m mod 10 = n mod 10"
        using less.IH [of "m div 10" "n div 10"] False by simp_all
      then show ?thesis by (metis div_mult_mod_eq)
    qed
  qed
qed simp

text \<open>A number that is followed by a character that is no digit can be read off a string.\<close>

lemma to_string_append_inject:
  assumes "c \<notin> set ''0123456789''"
  shows "to_string m @ c # xs = to_string n @ c # ys \<longleftrightarrow> m = n \<and> xs = ys"
proof
  assume eq: "to_string m @ c # xs = to_string n @ c # ys"
  have "takeWhile (\<lambda>x. x \<noteq> c) (to_string k @ c # zs) = to_string k" for k zs
    using set_to_string [of k] assms by (subst takeWhile_append2) auto
  with eq have "to_string m = to_string n" by metis
  with eq show "m = n \<and> xs = ys" by simp
qed simp

lemma setw_hex_inject:
  assumes "m < 16 ^ w" "n < 16 ^ w" "0 < w"
  shows "setw_hex w m = setw_hex w n \<longleftrightarrow> m = n" "length (setw_hex w m) = w"
proof -
  obtain v where "w = Suc v" using assms(3) by (cases w) auto
  with assms show "setw_hex w m = setw_hex w n \<longleftrightarrow> m = n" "length (setw_hex w m) = w"
    using fixed_hex_inject [of m w n] by (simp_all add: setw_hex_fixed del: power_Suc fixed_hex.simps)
qed

section \<open>Properties\<close>

text \<open>Decoding what \<open>to_hex\<close> printed gives the bytes back, and \<open>from_hex\<close> throws exactly on an
  odd length or a character that is no hexadecimal digit.\<close>

theorem hex_round_trip:
  "from_hex (to_hex bs) = Inr bs
   \<and> ((\<exists>cs. from_hex s = Inr cs) \<longleftrightarrow> even (length s) \<and> list_all is_hex s)"
  by (simp add: from_hex_Inr_iff)

text \<open>The lexicographic comparison of two printed hashes, by which the workers keep the best one,
  is the comparison of the hashes as little-endian 256-bit numbers.\<close>

theorem bitcoin_hash_hex_order:
  assumes "length a = length b"
  shows "(bitcoin_hash_hex a < bitcoin_hash_hex b \<longleftrightarrow> le_val a < le_val b)
    \<and> (bitcoin_hash_hex a = bitcoin_hash_hex b \<longleftrightarrow> a = b)"
  using bitcoin_hash_hex_less_iff [OF assms] by (auto simp: bitcoin_hash_hex_def)

theorem bitcoin_hash_hex_order_witness:
  "bitcoin_hash_hex [0xff, 0] < bitcoin_hash_hex [0, 1 :: u8]"
  using bitcoin_hash_hex_order [of "[0xff, 0]" "[0, 1]"] by (simp add: le_val_def)

end
