(* ===== verification/Header.thy ===== *)
theory Header
  imports Sha256 Hex
begin

text \<open>
  \<^verbatim>\<open>src/bitcoin/block_header.cpp\<close>, \<^verbatim>\<open>coinbase.cpp\<close> and \<^verbatim>\<open>merkle.cpp\<close>: the 80-byte header as
  the pool's fields are serialised into it, its little-endian nonce, the coinbase transaction
  and the Merkle root. A \<^verbatim>\<open>Header\<close> is a list of 80 bytes. The lemmas give the layout of every
  header the code builds, when building throws, the nonce round trip, and that the Merkle loop
  computes the root of any tree from its left-most path.
\<close>

section \<open>Writing into a header\<close>

text \<open>\<^verbatim>\<open>std::copy\<close> and \<^verbatim>\<open>std::reverse_copy\<close> into an array at an offset.\<close>

definition write_at :: "nat \<Rightarrow> bytes \<Rightarrow> bytes \<Rightarrow> bytes" where
  "write_at off src dst = take off dst @ src @ drop (off + length src) dst"

definition set_nonce :: "bytes \<Rightarrow> u32 \<Rightarrow> bytes" where
  "set_nonce header nonce =
    header[76 := ucast nonce, 77 := ucast (drop_bit 8 nonce),
           78 := ucast (drop_bit 16 nonce), 79 := ucast (drop_bit 24 nonce)]"

definition get_nonce :: "bytes \<Rightarrow> u32" where
  "get_nonce header =
     ucast (header ! 76) OR
     push_bit 8 (ucast (header ! 77)) OR
     push_bit 16 (ucast (header ! 78)) OR
     push_bit 24 (ucast (header ! 79))"

definition copy_reversed_dword :: "bytes \<Rightarrow> nat \<Rightarrow> bytes \<Rightarrow> bytes outcome" where
  "copy_reversed_dword source off destination =
    (if length source \<noteq> 4 then Inl (Invalid_argument ''header dword must be exactly four bytes'')
     else Inr (write_at off (rev source) destination))"

definition build_stratum_header ::
    "string \<Rightarrow> string \<Rightarrow> bytes \<Rightarrow> string \<Rightarrow> string \<Rightarrow> u32 \<Rightarrow> bytes outcome" where
  "build_stratum_header version_hex prevhash_hex merkle_root ntime_hex nbits_hex nonce =
    bindE (from_hex version_hex) (\<lambda>version.
    bindE (from_hex prevhash_hex) (\<lambda>prevhash.
    bindE (from_hex ntime_hex) (\<lambda>ntime.
    bindE (from_hex nbits_hex) (\<lambda>nbits.
      if length prevhash \<noteq> 32
      then Inl (Invalid_argument ''Stratum prevhash must contain 32 bytes'')
      else
        bindE (copy_reversed_dword version 0 (replicate 80 0)) (\<lambda>h0.
        let h1 = fold (\<lambda>word h. write_at (4 + word * 4) (rev (take 4 (drop (word * 4) prevhash))) h)
                   [0..<8] h0;
            h2 = write_at 36 merkle_root h1
        in bindE (copy_reversed_dword ntime 68 h2) (\<lambda>h3.
           bindE (copy_reversed_dword nbits 72 h3) (\<lambda>h4.
             Inr (set_nonce h4 nonce))))))))"

definition nonce_header_le_hex :: "bytes \<Rightarrow> string" where
  "nonce_header_le_hex header = to_hex (take 4 (drop 76 header))"

definition stratum_nonce_hex :: "u32 \<Rightarrow> string" where
  "stratum_nonce_hex nonce = setw_hex 8 (unat nonce)"

definition header_hex :: "bytes \<Rightarrow> string" where
  "header_hex header = to_hex header"

section \<open>Coinbase and Merkle root\<close>

definition build_coinbase :: "string \<Rightarrow> string \<Rightarrow> string \<Rightarrow> string \<Rightarrow> bytes outcome" where
  "build_coinbase coinbase1 extranonce1 extranonce2 coinbase2 =
    (let joined = coinbase1 @ extranonce1 @ extranonce2 @ coinbase2 in from_hex joined)"

definition coinbase_hash :: "string \<Rightarrow> string \<Rightarrow> string \<Rightarrow> string \<Rightarrow> bytes outcome" where
  "coinbase_hash coinbase1 extranonce1 extranonce2 coinbase2 =
    bindE (build_coinbase coinbase1 extranonce1 extranonce2 coinbase2) (\<lambda>coinbase.
      Inr (sha256d coinbase))"

definition merkle_step :: "string \<Rightarrow> bytes \<Rightarrow> bytes outcome" where
  "merkle_step branch_hex root =
    bindE (from_hex branch_hex) (\<lambda>branch.
      if length branch \<noteq> 32
      then Inl (Invalid_argument ''Merkle branch must contain exactly 32 bytes'')
      else Inr (sha256d (write_at 32 branch (write_at 0 root (replicate 64 0)))))"

definition build_merkle_root :: "bytes \<Rightarrow> string list \<Rightarrow> bytes outcome" where
  "build_merkle_root root branches_hex = foldE merkle_step branches_hex root"

section \<open>The nonce\<close>

definition nonce_bytes :: "u32 \<Rightarrow> bytes" where
  "nonce_bytes n = [ucast n, ucast (drop_bit 8 n), ucast (drop_bit 16 n), ucast (drop_bit 24 n)]"

lemma length_nonce_bytes [simp]: "length (nonce_bytes n) = 4"
  by (simp add: nonce_bytes_def)

lemma length_set_nonce [simp]: "length (set_nonce h n) = length h"
  by (simp add: set_nonce_def)

lemma set_nonce_eq: "length h = 80 \<Longrightarrow> set_nonce h n = take 76 h @ nonce_bytes n"
proof (rule nth_equalityI)
  fix i assume "length h = 80" "i < length (set_nonce h n)"
  then have "i < 76 \<or> i = 76 \<or> i = 77 \<or> i = 78 \<or> i = 79" by auto
  then show "set_nonce h n ! i = (take 76 h @ nonce_bytes n) ! i"
    using \<open>length h = 80\<close> by (auto simp: set_nonce_def nonce_bytes_def nth_append)
qed simp

lemma take_76_set_nonce [simp]: "take 76 (set_nonce h n) = take 76 h"
  by (simp add: set_nonce_def)

lemma set_nonce_idem [simp]: "length h = 80 \<Longrightarrow> set_nonce (set_nonce h m) n = set_nonce h n"
  by (simp add: set_nonce_eq)

lemma word_of_nonce_bytes:
  "ucast (ucast n :: u8) OR push_bit 8 (ucast (ucast (drop_bit 8 n) :: u8)) OR
   push_bit 16 (ucast (ucast (drop_bit 16 n) :: u8)) OR
   push_bit 24 (ucast (ucast (drop_bit 24 n) :: u8)) = (n :: u32)"
proof (rule bit_word_eqI)
  fix k assume "k < LENGTH(32)"
  then consider "k < 8" | "8 \<le> k" "k < 16" | "16 \<le> k" "k < 24" | "24 \<le> k" "k < 32"
    by fastforce
  then show "bit (ucast (ucast n :: u8) OR push_bit 8 (ucast (ucast (drop_bit 8 n) :: u8)) OR
     push_bit 16 (ucast (ucast (drop_bit 16 n) :: u8)) OR
     push_bit 24 (ucast (ucast (drop_bit 24 n) :: u8)) :: u32) k \<longleftrightarrow> bit n k"
    by cases (auto simp: bit_simps)
qed

lemma get_set_nonce [simp]: "length h = 80 \<Longrightarrow> get_nonce (set_nonce h n) = n"
  by (simp add: get_nonce_def set_nonce_def word_of_nonce_bytes)

lemma four_bytes:
  "(x::nat) mod 4294967296 = x mod 256 + 256 * (x div 256 mod 256 +
     256 * (x div 65536 mod 256 + 256 * (x div 16777216 mod 256)))"
  using mod_mult2_eq [of x 256 16777216] mod_mult2_eq [of "x div 256" 256 65536]
    mod_mult2_eq [of "x div 65536" 256 256]
  by (simp add: div_mult2_eq [symmetric])

lemma le_val_nonce_bytes: "le_val (nonce_bytes n) = unat n"
proof -
  have "unat n mod 4294967296 = unat n"
    using unsigned_less [of n, where ?'a = nat] by simp
  then show ?thesis
    using four_bytes [of "unat n"]
    by (simp add: nonce_bytes_def le_val_Cons unat_byte_of_0 unat_drop_bit_div)
qed

lemma stratum_nonce_hex_eq: "stratum_nonce_hex n = to_hex (rev (nonce_bytes n))"
proof -
  have "setw_hex 8 (unat n) = fixed_hex 8 (unat n)"
    using setw_hex_fixed [of "unat n" 7] unsigned_less [of n, where ?'a = nat] by simp
  moreover have "to_hex (rev (nonce_bytes n)) = fixed_hex 8 (unat n)"
    by (simp add: to_hex_fixed be_val_rev le_val_nonce_bytes)
  ultimately show ?thesis by (simp add: stratum_nonce_hex_def)
qed

section \<open>Layout of a built header\<close>

lemma length_write_at [simp]: "off + length src \<le> length dst \<Longrightarrow> length (write_at off src dst) = length dst"
  by (simp add: write_at_def)

lemma write_at_append:
  "length a = off \<Longrightarrow> length b = length src \<Longrightarrow> write_at off src (a @ b @ c) = a @ src @ c"
  by (simp add: write_at_def)

definition swap_words :: "bytes \<Rightarrow> bytes" where
  "swap_words bs = concat (map (\<lambda>word. rev (take 4 (drop (word * 4) bs))) [0..<8])"

lemma length_swap_words: "length bs = 32 \<Longrightarrow> length (swap_words bs) = 32"
  by (simp add: swap_words_def upt_rec)

lemma swap_words_involution:
  assumes "length bs = 32" shows "swap_words (swap_words bs) = bs"
proof -
  define w where "w i = take 4 (drop (i * 4) bs)" for i
  have w: "length (w i) = 4" if "i < 8" for i
    using that assms by (simp add: w_def)
  have bs: "bs = w 0 @ w 1 @ w 2 @ w 3 @ w 4 @ w 5 @ w 6 @ w 7"
  proof -
    have "drop i bs = take 4 (drop i bs) @ drop (i + 4) bs" for i
      by (metis add.commute append_take_drop_id drop_drop)
    from this [of 0] this [of 4] this [of 8] this [of 12] this [of 16] this [of 20] this [of 24]
      this [of 28] show ?thesis
      using assms by (simp add: w_def)
  qed
  have sw: "swap_words bs = rev (w 0) @ rev (w 1) @ rev (w 2) @ rev (w 3) @ rev (w 4) @ rev (w 5)
      @ rev (w 6) @ rev (w 7)"
    by (simp add: swap_words_def w_def upt_rec)
  have len: "length (w 0) = 4" "length (w (Suc 0)) = 4" "length (w 2) = 4" "length (w 3) = 4"
    "length (w 4) = 4" "length (w 5) = 4" "length (w 6) = 4" "length (w 7) = 4"
    by (simp_all add: w)
  show ?thesis
    unfolding sw by (subst bs) (simp add: swap_words_def upt_rec len)
qed


lemma write_words:
  assumes "length a = 4" "length p = 32"
  shows "n \<le> 8 \<Longrightarrow>
    fold (\<lambda>word h. write_at (4 + word * 4) (rev (take 4 (drop (word * 4) p))) h) [0..<n] (a @ replicate 76 0)
      = a @ concat (map (\<lambda>word. rev (take 4 (drop (word * 4) p))) [0..<n]) @ replicate (76 - 4 * n) 0"
proof (induction n)
  case 0
  then show ?case by simp
next
  case (Suc n)
  define C where "C = concat (map (\<lambda>word. rev (take 4 (drop (word * 4) p))) [0..<n])"
  have "length C = 4 * length [0..<n]"
    unfolding C_def using Suc.prems assms by (intro length_concat_const) auto
  then have C: "length (a @ C) = 4 + n * 4"
    using assms by simp
  have "76 - 4 * n = 4 + (76 - 4 * Suc n)" using Suc.prems by simp
  then have "replicate (76 - 4 * n) (0::u8) = replicate 4 0 @ replicate (76 - 4 * Suc n) 0"
    by (simp only: replicate_add)
  then have "write_at (4 + n * 4) (rev (take 4 (drop (n * 4) p))) (a @ C @ replicate (76 - 4 * n) 0)
      = (a @ C) @ rev (take 4 (drop (n * 4) p)) @ replicate (76 - 4 * Suc n) 0"
    using write_at_append [OF C, of "replicate 4 0" "rev (take 4 (drop (n * 4) p))"
        "replicate (76 - 4 * Suc n) 0"] Suc.prems assms(2)
    by simp
  with Suc show ?case by (simp add: C_def)
qed

definition header_layout :: "bytes \<Rightarrow> bytes \<Rightarrow> bytes \<Rightarrow> bytes \<Rightarrow> bytes \<Rightarrow> u32 \<Rightarrow> bytes" where
  "header_layout v p m t b n = rev v @ swap_words p @ m @ rev t @ rev b @ nonce_bytes n"

lemma write_at_zeros:
  "length a = off \<Longrightarrow> length src \<le> k \<Longrightarrow>
    write_at off src (a @ replicate k 0) = a @ src @ replicate (k - length src) 0"
  by (simp add: write_at_def)

lemma build_stratum_header_bytes:
  assumes fields: "from_hex version_hex = Inr v" "from_hex prevhash_hex = Inr p"
      "from_hex ntime_hex = Inr t" "from_hex nbits_hex = Inr b"
    and len: "length v = 4" "length p = 32" "length t = 4" "length b = 4" "length m = 32"
  shows "build_stratum_header version_hex prevhash_hex m ntime_hex nbits_hex nonce
    = Inr (header_layout v p m t b nonce)"
proof -
  have words: "fold (\<lambda>word h. write_at (4 + word * 4) (rev (take 4 (drop (word * 4) p))) h) [0..<8]
      (rev v @ replicate 76 0) = rev v @ swap_words p @ replicate 44 0"
    using write_words [of "rev v" p 8] len by (simp add: swap_words_def)
  have h0: "write_at 0 (rev v) (replicate 80 0) = rev v @ replicate 76 0"
    using write_at_zeros [of "[]" 0 "rev v" 80] len by simp
  have h2: "write_at 36 m (rev v @ swap_words p @ replicate 44 0)
      = rev v @ swap_words p @ m @ replicate 12 0"
    using write_at_zeros [of "rev v @ swap_words p" 36 m 44] len by (simp add: length_swap_words)
  have h3: "write_at 68 (rev t) (rev v @ swap_words p @ m @ replicate 12 0)
      = rev v @ swap_words p @ m @ rev t @ replicate 8 0"
    using write_at_zeros [of "rev v @ swap_words p @ m" 68 "rev t" 12] len
    by (simp add: length_swap_words)
  have h4: "write_at 72 (rev b) (rev v @ swap_words p @ m @ rev t @ replicate 8 0)
      = rev v @ swap_words p @ m @ rev t @ rev b @ replicate 4 0"
    using write_at_zeros [of "rev v @ swap_words p @ m @ rev t" 72 "rev b" 8] len
    by (simp add: length_swap_words)
  have h5: "set_nonce (rev v @ swap_words p @ m @ rev t @ rev b @ replicate 4 0) nonce
      = header_layout v p m t b nonce"
    using len by (subst set_nonce_eq) (simp_all add: header_layout_def length_swap_words)
  show ?thesis
    unfolding build_stratum_header_def copy_reversed_dword_def fields bindE_simps
    using len by (simp add: Let_def h0 words h2 h3 h4 h5)
qed

lemma build_stratum_header_InrD:
  assumes "build_stratum_header version_hex prevhash_hex m ntime_hex nbits_hex nonce = Inr h"
  shows "\<exists>v p t b. from_hex version_hex = Inr v \<and> from_hex prevhash_hex = Inr p \<and>
    from_hex ntime_hex = Inr t \<and> from_hex nbits_hex = Inr b \<and>
    length v = 4 \<and> length p = 32 \<and> length t = 4 \<and> length b = 4"
  using assms
  by (auto simp: build_stratum_header_def copy_reversed_dword_def bindE_eq_Inr_iff Let_def
      split: if_splits)

lemma build_stratum_header_iff:
  assumes "length m = 32"
  shows "build_stratum_header version_hex prevhash_hex m ntime_hex nbits_hex nonce = Inr h \<longleftrightarrow>
    (\<exists>v p t b. from_hex version_hex = Inr v \<and> from_hex prevhash_hex = Inr p \<and>
      from_hex ntime_hex = Inr t \<and> from_hex nbits_hex = Inr b \<and>
      length v = 4 \<and> length p = 32 \<and> length t = 4 \<and> length b = 4 \<and>
      h = header_layout v p m t b nonce)"
    (is "?built \<longleftrightarrow> ?fields")
proof
  assume built: ?built
  from build_stratum_header_InrD [OF this] obtain v p t b where
    f: "from_hex version_hex = Inr v" "from_hex prevhash_hex = Inr p"
      "from_hex ntime_hex = Inr t" "from_hex nbits_hex = Inr b"
      "length v = 4" "length p = 32" "length t = 4" "length b = 4"
    by blast
  with build_stratum_header_bytes [OF f assms, of nonce] built show ?fields by auto
next
  assume ?fields
  then show ?built using build_stratum_header_bytes assms by blast
qed

section \<open>The Merkle root of a tree\<close>

datatype mtree = MLeaf bytes | MNode mtree mtree

fun tree_root :: "mtree \<Rightarrow> bytes" where
  "tree_root (MLeaf d) = d"
| "tree_root (MNode l r) = sha256d (tree_root l @ tree_root r)"

fun leftmost :: "mtree \<Rightarrow> bytes" where
  "leftmost (MLeaf d) = d"
| "leftmost (MNode l r) = leftmost l"

fun left_path :: "mtree \<Rightarrow> bytes list" where
  "left_path (MLeaf d) = []"
| "left_path (MNode l r) = left_path l @ [tree_root r]"

fun wf_mtree :: "mtree \<Rightarrow> bool" where
  "wf_mtree (MLeaf d) = (length d = 32)"
| "wf_mtree (MNode l r) = (wf_mtree l \<and> wf_mtree r)"

lemma length_tree_root: "wf_mtree t \<Longrightarrow> length (tree_root t) = 32"
  by (induction t) simp_all

lemma merkle_step_bytes:
  assumes "from_hex branch_hex = Inr b" "length b = 32" "length root = 32"
  shows "merkle_step branch_hex root = Inr (sha256d (root @ b))"
proof -
  have "write_at 32 b (write_at 0 root (replicate 64 0)) = root @ b"
    using assms by (simp add: write_at_def)
  with assms show ?thesis by (simp add: merkle_step_def)
qed

lemma build_merkle_root_tree:
  "wf_mtree t \<Longrightarrow> build_merkle_root (leftmost t) (map to_hex (left_path t)) = Inr (tree_root t)"
  by (induction t)
    (simp_all add: build_merkle_root_def foldE_append merkle_step_bytes length_tree_root)

lemma build_merkle_root_total:
  assumes "length root = 32" "list_all (\<lambda>b. \<exists>bs. from_hex b = Inr bs \<and> length bs = 32) branches"
  shows "\<exists>r. build_merkle_root root branches = Inr r \<and> length r = 32"
  unfolding build_merkle_root_def
proof (rule foldE_Inr_rule [where P = "\<lambda>s. length s = 32", OF _ assms(1)])
  fix b and s :: bytes assume "b \<in> set branches" "length s = 32"
  with assms(2) show "\<exists>s'. merkle_step b s = Inr s' \<and> length s' = 32"
    by (auto simp: list_all_iff merkle_step_bytes)
qed

section \<open>Properties\<close>

text \<open>Writing a nonce and reading it back are inverse, the other 76 bytes stay, and the bytes
  written are the nonce in little-endian order, the reverse of what the pool is sent.\<close>

theorem set_nonce_round_trip:
  assumes "length h = 80"
  shows "get_nonce (set_nonce h n) = n \<and> take 76 (set_nonce h n) = take 76 h
    \<and> length (set_nonce h n) = 80 \<and> le_val (drop 76 (set_nonce h n)) = unat n
    \<and> from_hex (stratum_nonce_hex n) = Inr (rev (drop 76 (set_nonce h n)))"
proof -
  have "drop 76 (set_nonce h n) = nonce_bytes n"
    using assms by (simp add: set_nonce_eq)
  then show ?thesis
    using assms by (simp add: stratum_nonce_hex_eq le_val_nonce_bytes)
qed

theorem set_nonce_round_trip_witness:
  "get_nonce (set_nonce (replicate 80 0) 0x12345678) = 0x12345678"
  using set_nonce_round_trip [of "replicate 80 0" "0x12345678"] by simp

text \<open>C10: a header is built exactly when the four hexadecimal fields decode to 4, 32, 4 and 4 bytes,
  and then it is the reversed version, the previous hash with each of its eight words reversed, the
  Merkle root as it is, the reversed time and bits, and the little-endian nonce.\<close>

theorem stratum_header_layout:
  assumes "length m = 32"
  shows "build_stratum_header version_hex prevhash_hex m ntime_hex nbits_hex nonce = Inr h \<longleftrightarrow>
    (\<exists>v p t b. from_hex version_hex = Inr v \<and> from_hex prevhash_hex = Inr p \<and>
      from_hex ntime_hex = Inr t \<and> from_hex nbits_hex = Inr b \<and>
      length v = 4 \<and> length p = 32 \<and> length t = 4 \<and> length b = 4 \<and>
      h = rev v @ swap_words p @ m @ rev t @ rev b @ nonce_bytes nonce)"
  using build_stratum_header_iff [OF assms] by (simp add: header_layout_def)

theorem stratum_header_layout_witness:
  "build_stratum_header (to_hex [0, 0, 0, 1]) (to_hex (replicate 32 7)) (replicate 32 9)
     (to_hex [1, 2, 3, 4]) (to_hex [5, 6, 7, 8]) 0 =
   Inr ([1, 0, 0, 0] @ swap_words (replicate 32 7) @ replicate 32 9 @ [4, 3, 2, 1] @ [8, 7, 6, 5] @ nonce_bytes 0)"
  by (subst stratum_header_layout)
    (auto intro!: exI [of _ "[0, 0, 0, 1]"] exI [of _ "replicate 32 7"] exI [of _ "[1, 2, 3, 4]"]
      exI [of _ "[5, 6, 7, 8]"])

text \<open>C30: for any binary tree of digests, the Merkle loop started at its left-most leaf with the
  siblings along the left spine computes the tree's root.\<close>

theorem merkle_root_of_tree:
  assumes "wf_mtree t"
  shows "build_merkle_root (leftmost t) (map to_hex (left_path t)) = Inr (tree_root t)"
  using assms by (rule build_merkle_root_tree)

theorem merkle_root_of_tree_witness:
  "build_merkle_root (replicate 32 1) [to_hex (replicate 32 2)]
     = Inr (sha256d (replicate 32 1 @ replicate 32 2))"
  using merkle_root_of_tree [of "MNode (MLeaf (replicate 32 1)) (MLeaf (replicate 32 2))"]
  by simp

end
