(* ===== verification/Target.thy ===== *)
theory Target
  imports Complex_Main Hex
begin

text \<open>
  \<^verbatim>\<open>src/bitcoin/difficulty.cpp\<close>: compact and share targets and the proof-of-work test. A
  \<^verbatim>\<open>Target256\<close> is the list of its 32 big-endian bytes, a \<^verbatim>\<open>Big384\<close> the list of its twelve
  little-endian 32-bit limbs. The lemmas give each routine's meaning on the numbers these lists
  stand for: the limb shifts, the bitwise long division, the compact decoding, and the comparison.
  \<^verbatim>\<open>difficulty_from_target\<close> and \<^verbatim>\<open>difficulty_from_hash\<close> are in theory \<open>Double\<close>.
\<close>

section \<open>Doubles\<close>

text \<open>
  An IEEE double as \<^verbatim>\<open>std::frexp\<close> sees it: \<open>FNum s m e\<close> is \<open>(-1)^s * m * 2^(e-53)\<close> with the
  significand normalised, so that \<^verbatim>\<open>frexp\<close> gives the fraction \<open>m / 2^53\<close> in [1/2, 1) with the
  exponent \<open>e\<close>, and \<^verbatim>\<open>ldexp(fraction, 53)\<close> is the integer \<open>m\<close>.
\<close>

datatype fdouble = FNaN | FInf bool | FZero bool | FNum bool nat int

fun wf_double :: "fdouble \<Rightarrow> bool" where
  "wf_double (FNum s m e) = (2 ^ 52 \<le> m \<and> m < 2 ^ 53)"
| "wf_double _ = True"

section \<open>384-bit numbers\<close>

definition or_byte :: "bytes \<Rightarrow> nat \<Rightarrow> u32 list \<Rightarrow> u32 list" where
  "or_byte target byte limbs =
    (let little_index = 31 - byte
     in limbs[little_index div 4 := limbs ! (little_index div 4) OR
          push_bit ((little_index mod 4) * 8) (ucast (target ! byte))])"

definition from_target :: "bytes \<Rightarrow> u32 list" where
  "from_target target = fold (or_byte target) [0..<32] (replicate 12 0)"

fun shift_left_limbs :: "u32 \<Rightarrow> u32 list \<Rightarrow> u32 list" where
  "shift_left_limbs carry [] = []"
| "shift_left_limbs carry (limb # limbs) =
     (push_bit 1 limb OR carry) # shift_left_limbs (drop_bit 31 limb) limbs"

fun shift_left :: "u32 list \<Rightarrow> nat \<Rightarrow> u32 list" where
  "shift_left v 0 = v"
| "shift_left v (Suc bits) = shift_left (shift_left_limbs 0 v) bits"

text \<open>The loop of \<^verbatim>\<open>shift_right\<close> runs from the highest limb down.\<close>

fun shift_right_limbs :: "u32 \<Rightarrow> u32 list \<Rightarrow> u32 list" where
  "shift_right_limbs carry [] = []"
| "shift_right_limbs carry (limb # limbs) =
     (drop_bit 1 limb OR push_bit 31 carry) # shift_right_limbs (limb AND 1) limbs"

fun shift_right :: "u32 list \<Rightarrow> nat \<Rightarrow> u32 list" where
  "shift_right v 0 = v"
| "shift_right v (Suc bits) = shift_right (rev (shift_right_limbs 0 (rev v))) bits"

definition divide_step :: "u32 list \<Rightarrow> u64 \<Rightarrow> nat \<Rightarrow> u32 list \<times> u64 \<Rightarrow> u32 list \<times> u64" where
  "divide_step numerator denominator b = (\<lambda>(quotient, remainder).
    (let remainder = push_bit 1 remainder OR
                       ucast (drop_bit (b mod 32) (numerator ! (b div 32)) AND 1)
     in if remainder \<ge> denominator
        then (quotient[b div 32 := quotient ! (b div 32) OR push_bit (b mod 32) 1],
              remainder - denominator)
        else (quotient, remainder)))"

definition divide :: "u32 list \<Rightarrow> u64 \<Rightarrow> u32 list" where
  "divide numerator denominator =
    fst (fold (divide_step numerator denominator) (rev [0..<384]) (replicate 12 0, 0))"

definition lower_target :: "u32 list \<Rightarrow> bytes" where
  "lower_target v =
    (if list_ex (\<lambda>i. v ! i \<noteq> 0) [8..<length v] then replicate 32 0xff
     else fold (\<lambda>little_index target.
            target[31 - little_index :=
              ucast (drop_bit ((little_index mod 4) * 8) (v ! (little_index div 4)))])
          [0..<32] (replicate 32 0))"

section \<open>Targets\<close>

definition target_from_nbits :: "string \<Rightarrow> bytes outcome" where
  "target_from_nbits nbits_hex =
    bindE (from_hex nbits_hex) (\<lambda>compact.
      if length compact \<noteq> 4 then Inl (Invalid_argument ''nBits must contain exactly four bytes'')
      else if compact ! 1 AND 0x80 \<noteq> 0
      then Inl (Invalid_argument ''negative compact targets are invalid'')
      else
        let exponent = unat (compact ! 0);
            mantissa = [compact ! 1, compact ! 2, compact ! 3];
            result = replicate 32 0
        in if exponent = 0 then Inr result
           else if exponent \<le> 3
           then Inr (fold (\<lambda>i r. r[32 - exponent + i := mantissa ! i]) [0..<exponent] result)
           else if exponent > 32 then Inl (Invalid_argument ''nBits target overflows 256 bits'')
           else Inr (fold (\<lambda>i r. r[32 - exponent + i := mantissa ! i]) [0..<3] result))"

definition target_from_hex :: "string \<Rightarrow> bytes outcome" where
  "target_from_hex target_hex_value =
    bindE (from_hex target_hex_value) (\<lambda>bs.
      if length bs \<noteq> 32 then Inl (Invalid_argument ''target must contain exactly 32 bytes'')
      else Inr bs)"

definition share_target_from_difficulty :: "fdouble \<Rightarrow> bytes outcome" where
  "share_target_from_difficulty difficulty =
    (case difficulty of
       FNum False mantissa exponent \<Rightarrow>
         bindE (target_from_hex ''00000000ffff0000000000000000000000000000000000000000000000000000'')
           (\<lambda>diff1.
             let numerator = from_target diff1;
                 shift = 53 - exponent;
                 numerator = (if shift \<ge> 0 then shift_left numerator (nat shift)
                              else shift_right numerator (nat (- shift)))
             in Inr (lower_target (divide numerator (of_nat mantissa))))
     | _ \<Rightarrow> Inl (Invalid_argument ''share difficulty must be finite and positive''))"

definition target_hex :: "bytes \<Rightarrow> string" where
  "target_hex target = to_hex target"

fun meets_from :: "bytes \<Rightarrow> bytes \<Rightarrow> nat list \<Rightarrow> bool" where
  "meets_from digest target [] = True"
| "meets_from digest target (i # is) =
    (if digest ! (31 - i) < target ! i then True
     else if digest ! (31 - i) > target ! i then False
     else meets_from digest target is)"

definition hash_meets_target :: "bytes \<Rightarrow> bytes \<Rightarrow> bool" where
  "hash_meets_target digest target = meets_from digest target [0..<32]"

section \<open>The comparison is numeric\<close>

lemma meets_from_lex:
  "meets_from d t is = (map (\<lambda>i. d ! (31 - i)) is \<le> map (\<lambda>i. t ! i) is)"
  by (induction "is") auto

lemma hash_meets_target_iff:
  assumes "length d = 32" "length t = 32"
  shows "hash_meets_target d t \<longleftrightarrow> le_val d \<le> be_val t"
proof -
  have "map (\<lambda>i. d ! (31 - i)) [0..<32] = rev d"
    using map_rev_nth_upt [of d 32] assms by simp
  moreover have "map (\<lambda>i. t ! i) [0..<32] = t"
    using map_nth_upt [of t 32] assms by simp
  ultimately show ?thesis
    using assms by (simp add: hash_meets_target_def meets_from_lex le_val_def be_val_le_iff)
qed

section \<open>Shifts\<close>

lemma unat_or_disjoint:
  "(x :: 'a::len word) AND y = 0 \<Longrightarrow> unat (x OR y) = unat x + unat y"
  by (simp add: unsigned_or_eq unsigned_and_eq [symmetric] disjunctive_add_eq_or)

lemma length_shift_left_limbs [simp]: "length (shift_left_limbs c ls) = length ls"
  by (induction ls arbitrary: c) simp_all

lemma length_shift_left [simp]: "length (shift_left v n) = length v"
  by (induction n arbitrary: v) simp_all

lemma length_shift_right_limbs [simp]: "length (shift_right_limbs c ls) = length ls"
  by (induction ls arbitrary: c) simp_all

lemma length_shift_right [simp]: "length (shift_right v n) = length v"
  by (induction n arbitrary: v) simp_all

lemma mod_limb:
  "0 < B \<Longrightarrow> (x + B * y) mod (B * C) = x mod B + B * ((y + x div B) mod C)" for B :: nat
  unfolding mod_mult2_eq by simp

lemma push_bit_one_and:
  fixes w :: "'a::len word"
  assumes "c = 0 \<or> c = 1"
  shows "push_bit 1 w AND c = 0"
proof -
  have "\<not> bit (push_bit 1 w) 0"
    by (simp only: bit_push_bit_iff) simp
  then show ?thesis
    using assms by (auto simp: and_one_eq even_bit_succ_iff simp flip: bit_0 simp del: push_bit_of_1 push_bit_Suc
        intro!: bit_word_eqI)
qed

lemma shift_left_limb:
  assumes "c = 0 \<or> c = (1 :: u32)"
  shows "unat (push_bit 1 limb OR c) = (2 * unat limb + unat c) mod 2 ^ 32"
proof -
  have "push_bit 1 limb AND c = 0"
    using assms by (rule push_bit_one_and)
  then have "unat (push_bit 1 limb OR c) = unat (push_bit 1 limb) + unat c"
    by (rule unat_or_disjoint)
  moreover have "unat (push_bit 1 limb) = 2 * unat limb mod 2 ^ 32"
    by (simp only: unsigned_push_bit_eq) (simp add: take_bit_eq_mod push_bit_eq_mult mult.commute)
  moreover have "2 * x mod (2 * C) + k = (2 * x + k) mod (2 * C)" if "k \<le> 1" for x k C :: nat
    using that mod_limb [of 2 k x C] by (simp add: add.commute)
  from this [of _ _ "2 ^ 31"]
  have "2 * x mod 2 ^ 32 + k = (2 * x + k) mod 2 ^ 32" if "k \<le> 1" for x k :: nat
    using that by simp
  moreover have "unat c \<le> 1" using assms by auto
  ultimately show ?thesis by simp
qed

lemma le_val_Cons_u32: "le_val ((l :: u32) # ls) = unat l + 2 ^ 32 * le_val ls"
  by (simp add: le_val_Cons)

lemma double_limb: "2 * u + c + B * (2 * v) = 2 * (u + B * v) + c" for B :: nat
  by (simp add: algebra_simps)

lemma le_val_shift_left_limbs:
  assumes "c = 0 \<or> c = 1"
  shows "le_val (shift_left_limbs c ls) = (2 * le_val ls + unat c) mod (2 ^ 32) ^ length ls"
  using assms
proof (induction ls arbitrary: c)
  case Nil
  then show ?case by simp
next
  case (Cons l ls)
  let ?h = "drop_bit 31 l" and ?x = "2 * unat l + unat c"
  have "unat ?h \<le> 1"
    using unsigned_less [of l, where ?'a = nat] by (simp add: unat_drop_bit_div)
  then have "unat ?h = 0 \<or> unat ?h = 1" by linarith
  then have h: "?h = 0 \<or> ?h = 1"
    by (metis unat_1 unat_eq_0 word_unat_eq_iff)
  have carry: "unat ?h = ?x div 2 ^ 32"
    using Cons.prems unsigned_less [of l, where ?'a = nat] by (auto simp: unat_drop_bit_div)
  have "le_val (shift_left_limbs c (l # ls))
      = ?x mod 2 ^ 32 + 2 ^ 32 * ((2 * le_val ls + ?x div 2 ^ 32) mod (2 ^ 32) ^ length ls)"
    by (simp only: shift_left_limbs.simps le_val_Cons_u32 shift_left_limb [OF Cons.prems] Cons.IH [OF h] carry)
  also have "\<dots> = (?x + 2 ^ 32 * (2 * le_val ls)) mod (2 ^ 32 * (2 ^ 32) ^ length ls)"
    by (rule mod_limb [symmetric]) simp
  finally show ?case
    by (simp only: double_limb le_val_Cons_u32 length_Cons power_Suc)
qed

lemma le_val_shift_left:
  "le_val (shift_left v n) = (2 ^ n * le_val v) mod (2 ^ 32) ^ length v"
proof (induction n arbitrary: v)
  case 0
  then show ?case using le_val_bound [of v] by simp
next
  case (Suc n)
  have "le_val (shift_left v (Suc n)) = 2 ^ n * (2 * le_val v mod (2 ^ 32) ^ length v) mod (2 ^ 32) ^ length v"
    using Suc [of "shift_left_limbs 0 v"] le_val_shift_left_limbs [of 0 v] by simp
  also have "\<dots> = 2 ^ n * (2 * le_val v) mod (2 ^ 32) ^ length v"
    by (rule mod_mult_right_eq)
  finally show ?case by (simp add: mult.left_commute mult.assoc)
qed

lemma shift_right_limb:
  assumes "c = 0 \<or> c = (1 :: u32)"
  shows "unat (drop_bit 1 limb OR push_bit 31 c) = unat limb div 2 + 2 ^ 31 * unat c"
proof -
  have "drop_bit 1 limb AND push_bit 31 c = 0"
    using assms by (intro bit_word_eqI) (auto simp: bit_simps dest: bit_imp_le_length)
  then have "unat (drop_bit 1 limb OR push_bit 31 c) = unat (drop_bit 1 limb) + unat (push_bit 31 c)"
    by (rule unat_or_disjoint)
  moreover have "unat (push_bit 31 c) = 2 ^ 31 * unat c"
    using assms by auto
  ultimately show ?thesis by (simp add: unat_drop_bit_div)
qed

lemma half_limb:
  "u = 2 * q + r \<Longrightarrow> 2 * ((q + h * c) * P) + (r * P + b) = (u + 2 * h * c) * P + b" for u :: nat
  by (simp add: algebra_simps)

lemma be_val_shift_right_limbs:
  assumes "c = 0 \<or> c = 1"
  shows "be_val (shift_right_limbs c ws) = (unat c * (2 ^ 32) ^ length ws + be_val ws) div 2"
  using assms
proof (induction ws arbitrary: c)
  case Nil
  then show ?case by auto
next
  case (Cons w ws)
  let ?P = "(2 ^ 32) ^ length ws :: nat"
  have a: "w AND 1 = 0 \<or> w AND 1 = 1"
    by (simp add: and_one_eq mod_2_eq_odd)
  have u: "unat (w AND 1) = unat w mod 2"
    by (simp add: and_one_eq unat_mod)
  have split: "k + r div 2 = (2 * k + r) div 2" for k r :: nat by simp
  have "be_val (shift_right_limbs c (w # ws))
      = (unat w div 2 + 2 ^ 31 * unat c) * ?P + (unat w mod 2 * ?P + be_val ws) div 2"
    using Cons.IH [OF a] by (simp add: shift_right_limb [OF Cons.prems, unfolded One_nat_def] u)
  also have "\<dots> = ((unat w + 2 * 2 ^ 31 * unat c) * ?P + be_val ws) div 2"
    by (simp only: split half_limb [OF mult_div_mod_eq [symmetric]])
  also have "\<dots> = (unat c * (2 ^ 32 * ?P) + (unat w * ?P + be_val ws)) div 2"
    by (simp add: distrib_left mult_ac add_ac)
  finally show ?case by simp
qed

lemma le_val_shift_right: "le_val (shift_right v n) = le_val v div 2 ^ n"
proof (induction n arbitrary: v)
  case (Suc n)
  have "le_val (rev (shift_right_limbs 0 (rev v))) = le_val v div 2"
    by (simp add: le_val_def be_val_shift_right_limbs)
  with Suc show ?case by (simp add: div_mult2_eq)
qed simp

section \<open>Long division\<close>

lemma bit_le_val_or_update:
  assumes "i < length (v :: 'a::len word list)"
  shows "bit (le_val (v[i := v ! i OR w])) k \<longleftrightarrow>
    bit (le_val v) k \<or> k div LENGTH('a) = i \<and> bit w (k mod LENGTH('a))"
  using assms by (cases "k div LENGTH('a) = i") (auto simp: bit_le_val bit_or_iff)

lemma le_val_set_bit:
  assumes "b div 32 < length (v :: u32 list)"
  shows "le_val (v[b div 32 := v ! (b div 32) OR push_bit (b mod 32) 1]) = le_val v OR 2 ^ b"
proof (rule bit_eqI)
  fix k
  have "bit (push_bit (b mod 32) (1 :: u32)) (k mod 32) \<longleftrightarrow> k mod 32 = b mod 32"
    by (simp only: bit_push_bit_iff) (auto simp: bit_1_iff)
  moreover have "k = b \<longleftrightarrow> k div 32 = b div 32 \<and> k mod 32 = b mod 32"
    by (metis div_mult_mod_eq)
  ultimately show "bit (le_val (v[b div 32 := v ! (b div 32) OR push_bit (b mod 32) 1])) k
      \<longleftrightarrow> bit (le_val v OR 2 ^ b) k"
    using assms
    by (simp only: bit_le_val_or_update bit_or_iff bit_exp_iff) auto
qed

lemma or_exp_add:
  assumes "2 ^ Suc b dvd (x :: nat)"
  shows "x OR 2 ^ b = x + 2 ^ b"
proof -
  from assms obtain y where y: "x = y * 2 ^ Suc b"
    by (metis dvd_div_mult_self)
  have "x AND 2 ^ b = 0"
    unfolding y push_bit_eq_mult [symmetric] by (rule bit_eqI)
      (simp only: bit_and_iff bit_push_bit_iff bit_exp_iff, auto)
  then show ?thesis by (simp add: disjunctive_add_eq_or)
qed

lemma unat_numerator_bit:
  assumes "b div 32 < length (v :: u32 list)"
  shows "unat (ucast (drop_bit (b mod 32) (v ! (b div 32)) AND 1) :: u64) = le_val v div 2 ^ b mod 2"
proof -
  have "drop_bit (b mod 32) (v ! (b div 32)) AND 1 = of_bool (bit (v ! (b div 32)) (b mod 32))"
    by (simp add: and_one_eq mod_2_eq_odd bit_iff_odd_drop_bit)
  also have "bit (v ! (b div 32)) (b mod 32) = bit (le_val v) b"
    using assms by (simp add: bit_le_val)
  finally show ?thesis by (simp add: bit_iff_odd mod_2_eq_odd)
qed

definition divide_inv :: "nat \<Rightarrow> nat \<Rightarrow> nat \<Rightarrow> u32 list \<times> u64 \<Rightarrow> bool" where
  "divide_inv n d k = (\<lambda>(q, r). length q = 12 \<and>
    le_val q = 2 ^ k * (n div 2 ^ k div d) \<and> unat r = n div 2 ^ k mod d)"

lemma double_rem: "2 * (q * e + u) + c = 2 * q * e + (2 * u + c)" for q e u c :: nat
  by (simp add: algebra_simps)

lemma div_mod_unique: "x = q * D + r \<Longrightarrow> r < D \<Longrightarrow> x div D = q \<and> x mod D = r" for x :: nat
  by simp

lemma divide_step_inv:
  assumes v: "length v = 12" and d: "0 < unat d" "unat d \<le> 2 ^ 63" and b: "b < 384"
    and inv: "divide_inv (le_val v) (unat d) (Suc b) s"
  shows "divide_inv (le_val v) (unat d) b (divide_step v d b s)"
proof -
  obtain q r where s: "s = (q, r)" by force
  let ?n = "le_val v" and ?D = "unat d"
  let ?m = "?n div 2 ^ Suc b" and ?c = "?n div 2 ^ b mod 2"
  let ?bit = "ucast (drop_bit (b mod 32) (v ! (b div 32)) AND 1) :: u64"
  have q: "length q = 12" "le_val q = 2 ^ Suc b * (?m div ?D)" and r: "unat r = ?m mod ?D"
    using inv by (simp_all add: divide_inv_def s)
  have nb: "?n div 2 ^ b = 2 * ?m + ?c"
    by (metis div_exp_eq Suc_eq_plus1 power_one_right mult_div_mod_eq)
  have idx: "b div 32 < 12" using b by simp
  have bv: "unat ?bit = ?c" by (rule unat_numerator_bit) (simp add: v idx)
  have rd: "unat r < ?D" using r d by simp
  have "push_bit 1 r AND ?bit = 0"
  proof -
    have "?bit = 0 \<or> ?bit = 1" using bv by (metis mod2_eq_if unat_1 unat_eq_0 word_unat_eq_iff)
    then show ?thesis by (rule push_bit_one_and)
  qed
  then have "unat (push_bit 1 r OR ?bit) = unat (push_bit 1 r) + ?c"
    by (simp only: unat_or_disjoint bv)
  also have "unat (push_bit 1 r) = 2 * unat r"
  proof -
    have "2 * unat r < 2 ^ 64" using rd d by simp
    then show ?thesis
      by (simp only: unsigned_push_bit_eq) (simp add: take_bit_eq_mod push_bit_eq_mult mult.commute)
  qed
  finally have r2: "unat (push_bit 1 r OR ?bit) = 2 * unat r + ?c" .
  define r' where "r' = push_bit 1 r OR ?bit"
  have step: "divide_step v d b s = (if d \<le> r'
      then (q[b div 32 := q ! (b div 32) OR push_bit (b mod 32) 1], r' - d) else (q, r'))"
    by (simp only: divide_step_def s r'_def Let_def prod.case)
  have split: "?n div 2 ^ b = 2 * (?m div ?D) * ?D + unat r'"
  proof -
    have "?n div 2 ^ b = 2 * (?m div ?D * ?D + ?m mod ?D) + ?c" by (subst div_mult_mod_eq) (rule nb)
    also have "2 * (?m div ?D * ?D + ?m mod ?D) + ?c = 2 * (?m div ?D) * ?D + (2 * (?m mod ?D) + ?c)"
      by (rule double_rem)
    finally show ?thesis by (simp only: r'_def r2 r)
  qed
  have lt: "unat r' < 2 * ?D" using rd by (simp only: r'_def r2)
  show ?thesis
  proof (cases "d \<le> r'")
    case True
    then have ge: "?D \<le> unat r'" by (simp add: word_le_nat_alt)
    have dm: "?n div 2 ^ b = (2 * (?m div ?D) + 1) * ?D + (unat r' - ?D)"
      using ge split by simp
    have "?n div 2 ^ b div ?D = 2 * (?m div ?D) + 1" "?n div 2 ^ b mod ?D = unat r' - ?D"
      using div_mod_unique [OF dm] lt d by simp_all
    moreover have "le_val (q[b div 32 := q ! (b div 32) OR push_bit (b mod 32) 1]) = le_val q + 2 ^ b"
      using le_val_set_bit [of b q] or_exp_add [of b "le_val q"] q idx by simp
    ultimately show ?thesis
      using True ge q by (simp add: step divide_inv_def unat_sub_if_size word_size word_le_nat_alt)
  next
    case False
    then have "unat r' < ?D" by (simp add: word_le_nat_alt)
    then have "?n div 2 ^ b div ?D = 2 * (?m div ?D)" "?n div 2 ^ b mod ?D = unat r'"
      using div_mod_unique [OF split] d by simp_all
    then show ?thesis using False q by (simp add: step divide_inv_def)
  qed
qed

lemma divide_fold_inv:
  assumes "length v = 12" "0 < unat d" "unat d \<le> 2 ^ 63" "b \<le> 384"
  shows "divide_inv (le_val v) (unat d) b (fold (divide_step v d) (rev [b..<384]) (replicate 12 0, 0))"
  using assms(4)
proof (induction b rule: inc_induct)
  case base
  have "le_val v < 2 ^ 384"
    using le_val_bound [of v] assms(1) by simp
  moreover have "le_val (replicate 12 0 :: u32 list) = 0"
    unfolding le_val_def rev_replicate by (rule be_val_replicate_0)
  ultimately show ?case by (simp add: divide_inv_def del: replicate.simps)
next
  case (step b)
  then have "rev [b..<384] = rev [Suc b..<384] @ [b]"
    by (simp only: upt_conv_Cons rev.simps)
  with step show ?case
    using divide_step_inv [OF assms(1-3) step.hyps(2) step.IH] by (simp only: fold_append fold.simps comp_apply id_apply)
qed

lemma le_val_divide:
  assumes "length v = 12" "0 < unat d" "unat d \<le> 2 ^ 63"
  shows "le_val (divide v d) = le_val v div unat d" "length (divide v d) = 12"
  using divide_fold_inv [OF assms, of 0] by (auto simp: divide_def divide_inv_def split: prod.splits simp del: upt_rec_numeral)

section \<open>Packing and unpacking bytes\<close>

lemma bit_unat_word: "bit (unat (w :: 'a::len word)) k \<longleftrightarrow> bit w k"
  by (auto simp: bit_simps dest: bit_imp_le_length)

lemma length_or_byte [simp]: "length (or_byte t b v) = length v"
  by (simp add: or_byte_def Let_def)

lemma length_fold_or_byte [simp]: "length (fold (or_byte t) bs v) = length v"
  by (induction bs arbitrary: v) simp_all

lemma length_from_target [simp]: "length (from_target t) = 12"
  by (simp add: from_target_def)

lemma from_target_fold_bits:
  "length limbs = 12 \<Longrightarrow> \<forall>b\<in>set bs. b < 32 \<Longrightarrow>
   bit (le_val (fold (or_byte target) bs limbs)) k
   \<longleftrightarrow> bit (le_val limbs) k \<or> (\<exists>b\<in>set bs. k div 8 = 31 - b \<and> bit (target ! b) (k mod 8))"
proof (induction bs arbitrary: limbs)
  case Nil
  then show ?case by simp
next
  case (Cons b bs)
  let ?i = "31 - b" and ?w = "push_bit ((31 - b) mod 4 * 8) (ucast (target ! b)) :: u32"
  have w: "k div 32 = ?i div 4 \<and> bit ?w (k mod 32) \<longleftrightarrow> k div 8 = ?i \<and> bit (target ! b) (k mod 8)"
  proof -
    have k: "k div 32 = k div 8 div 4" "k mod 32 = k mod 8 + 8 * (k div 8 mod 4)"
      using mod_mult2_eq [of k 8 4] div_mult2_eq [of k 8 4] by simp_all
    have "bit ?w (k mod 32) \<longleftrightarrow>
        ?i mod 4 * 8 \<le> k mod 32 \<and> bit (target ! b) (k mod 32 - ?i mod 4 * 8)"
      by (simp only: bit_push_bit_iff bit_unsigned_iff) auto
    also have "\<dots> \<longleftrightarrow> k div 8 mod 4 = ?i mod 4 \<and> bit (target ! b) (k mod 8)"
    proof (cases "k div 8 mod 4" "?i mod 4" rule: linorder_cases)
      case less
      then have "k mod 32 < ?i mod 4 * 8" unfolding k
        using mod_less_divisor [of 8 k] by linarith
      with less show ?thesis by simp
    next
      case equal
      then show ?thesis by (simp add: k)
    next
      case greater
      then have "8 \<le> k mod 32 - ?i mod 4 * 8" unfolding k by linarith
      then have "\<not> bit (target ! b) (k mod 32 - ?i mod 4 * 8)"
        using bit_imp_le_length [of "target ! b"] by force
      with greater show ?thesis by simp
    qed
    finally show ?thesis unfolding k(1) by (metis div_mult_mod_eq)
  qed
  have "bit (le_val (or_byte target b limbs)) k
      \<longleftrightarrow> bit (le_val limbs) k \<or> k div 8 = ?i \<and> bit (target ! b) (k mod 8)"
    using Cons.prems w
    by (simp only: or_byte_def Let_def) (subst bit_le_val_or_update, auto)
  then show ?case
    using Cons.IH [of "or_byte target b limbs"] Cons.prems by auto
qed

lemma le_val_from_target:
  assumes "length t = 32"
  shows "le_val (from_target t) = be_val t"
proof (rule bit_eqI)
  fix k
  have "le_val (replicate 12 0 :: u32 list) = 0"
    unfolding le_val_def rev_replicate by (rule be_val_replicate_0)
  then have "bit (le_val (from_target t)) k \<longleftrightarrow> (\<exists>b\<in>{0..<32}. k div 8 = 31 - b \<and> bit (t ! b) (k mod 8))"
    unfolding from_target_def by (subst from_target_fold_bits) (simp_all del: upt_rec_numeral)
  also have "\<dots> \<longleftrightarrow> k div 8 < 32 \<and> bit (t ! (31 - k div 8)) (k mod 8)"
    by (auto intro!: bexI [of _ "31 - k div 8"])
  also have "\<dots> \<longleftrightarrow> bit (be_val t) k"
    using assms by (simp only: be_val_rev bit_le_val) (auto simp: rev_nth)
  finally show "bit (le_val (from_target t)) k = bit (be_val t) k" .
qed

lemma fold_update_down:
  "length t = n \<Longrightarrow> m \<le> n \<Longrightarrow>
    fold (\<lambda>i t. t[n - 1 - i := g i]) [0..<m] t = take (n - m) t @ rev (map g [0..<m])"
proof (induction m)
  case (Suc m)
  let ?t = "take (n - m) t @ rev (map g [0..<m])"
  have "n - m = Suc (n - Suc m)" using Suc.prems by simp
  then have "take (n - m) t = take (n - Suc m) t @ [t ! (n - Suc m)]"
    using Suc.prems by (simp add: take_Suc_conv_app_nth)
  then have "?t[n - 1 - m := g m] = take (n - Suc m) t @ g m # rev (map g [0..<m])"
    using Suc.prems by (simp add: list_update_append)
  with Suc show ?case by simp
qed simp

definition target_byte :: "u32 list \<Rightarrow> nat \<Rightarrow> u8" where
  "target_byte v i = ucast (drop_bit ((i mod 4) * 8) (v ! (i div 4)))"

lemma le_val_target_bytes:
  assumes "length v = 12" "\<And>i. 8 \<le> i \<Longrightarrow> i < 12 \<Longrightarrow> v ! i = 0"
  shows "le_val (map (target_byte v) [0..<32]) = le_val v"
proof (rule bit_eqI)
  fix k :: nat
  have k: "k div 32 = k div 8 div 4" "k mod 32 = k mod 8 + 8 * (k div 8 mod 4)"
    using mod_mult2_eq [of k 8 4] div_mult2_eq [of k 8 4] by simp_all
  have "bit (target_byte v i) (k mod 8) \<longleftrightarrow> bit (v ! (i div 4)) (i mod 4 * 8 + k mod 8)" for i
    by (simp only: target_byte_def bit_unsigned_iff bit_drop_bit_eq comp_apply) auto
  then have byte: "bit (target_byte v (k div 8)) (k mod 8) \<longleftrightarrow> bit (v ! (k div 32)) (k mod 32)"
    by (simp only: k add.commute mult.commute)
  have "bit (le_val (map (target_byte v) [0..<32])) k \<longleftrightarrow> k div 8 < 32 \<and> bit (target_byte v (k div 8)) (k mod 8)"
    by (simp only: bit_le_val) (auto simp del: upt_rec_numeral)
  note this [unfolded byte]
  moreover have "k div 8 < 32 \<longleftrightarrow> k div 32 < 8"
    using div_less_iff_less_mult [of 8 k 32] div_less_iff_less_mult [of 32 k 8] by simp
  ultimately show "bit (le_val (map (target_byte v) [0..<32])) k = bit (le_val v) k"
    using assms by (auto simp: bit_le_val not_less)
qed

lemma be_val_replicate_ff: "be_val (replicate n (0xff :: u8)) + 1 = 256 ^ n"
  by (induction n) simp_all

lemma max_target: "be_val (replicate 32 (0xff :: u8)) = 2 ^ 256 - 1"
proof -
  have "(256 :: nat) ^ 32 = 2 ^ 256" by simp
  with be_val_replicate_ff [of 32] show ?thesis by (simp only: eq_diff_iff add_diff_cancel_right' flip: diff_eq_eq)
qed

lemma length_lower_target: "length (lower_target v) = 32"
proof -
  have "length (fold (\<lambda>i t. t[31 - i := f i]) is (t :: bytes)) = length t" for f "is" t
    by (induction "is" arbitrary: t) simp_all
  then show ?thesis by (simp add: lower_target_def del: upt_rec_numeral)
qed

lemma be_val_lower_target:
  assumes "length v = 12"
  shows "be_val (lower_target v) = min (2 ^ 256 - 1) (le_val v)"
proof (cases "\<exists>i\<in>set [8..<12]. v ! i \<noteq> 0")
  case True
  then obtain i where i: "8 \<le> i" "i < 12" "v ! i \<noteq> 0"
    by (auto simp del: upt_rec_numeral)
  then obtain j where j: "bit (v ! i) j" by (metis bit_eq_iff bit_0_eq bot_apply bot_bool_def)
  then have "j < 32" by (auto dest: bit_imp_le_length)
  then have "bit (le_val v) (32 * i + j)"
    using i j assms by (simp add: bit_le_val)
  then have "2 ^ (32 * i + j) \<le> le_val v"
    by (metis bit_iff_odd div_less even_zero not_less)
  moreover have "(2::nat) ^ 256 \<le> 2 ^ (32 * i + j)"
    using i by (intro power_increasing) simp_all
  ultimately have "(2::nat) ^ 256 \<le> le_val v" by (rule order_trans [rotated])
  with True assms show ?thesis
    by (simp only: lower_target_def list_ex_iff if_True max_target)
next
  case False
  then have z: "\<And>i. 8 \<le> i \<Longrightarrow> i < 12 \<Longrightarrow> v ! i = 0" by (auto simp del: upt_rec_numeral)
  have "lower_target v = rev (map (target_byte v) [0..<32])"
    using False assms fold_update_down [of "replicate 32 0 :: bytes" 32 32 "target_byte v"]
    by (simp only: lower_target_def list_ex_iff if_False target_byte_def)
      (simp del: upt_rec_numeral add: target_byte_def)
  then have "be_val (lower_target v) = le_val v"
    using le_val_target_bytes [OF assms z] by (simp only: le_val_def)
  moreover have "be_val (lower_target v) < 2 ^ 256"
    using be_val_bound [of "lower_target v"] by (simp add: length_lower_target)
  ultimately show ?thesis by simp
qed

section \<open>Share and compact targets\<close>

definition difficulty_value :: "fdouble \<Rightarrow> real" where
  "difficulty_value d = (case d of FNum s m e \<Rightarrow> (if s then -1 else 1) * real m * 2 powi (e - 53) | _ \<Rightarrow> 0)"

definition diff1_value :: nat where
  "diff1_value = 0xffff * 2 ^ 208"

lemma target_from_hex_Inr_iff:
  "target_from_hex h = Inr t \<longleftrightarrow> from_hex h = Inr t \<and> length t = 32"
  by (auto simp: target_from_hex_def bindE_def split: sum.splits)

lemma diff1_target:
  "\<exists>t. target_from_hex ''00000000ffff0000000000000000000000000000000000000000000000000000'' = Inr t \<and>
     length t = 32 \<and> be_val t = diff1_value"
proof -
  have "target_from_hex ''00000000ffff0000000000000000000000000000000000000000000000000000''
     = Inr ([0,0,0,0,0xff,0xff] @ replicate 26 0)"
    by code_simp
  then show ?thesis
    by (intro exI conjI) (auto simp: diff1_value_def be_val_append)
qed

lemma floor_quotient:
  assumes "0 < m"
  shows "\<lfloor>real n / (real m * 2 powi k)\<rfloor> = int (if k \<le> 0 then n * 2 ^ nat (- k) div m else n div 2 ^ nat k div m)"
proof (cases "k \<le> 0")
  case True
  then have "real n / (real m * 2 powi k) = real (n * 2 ^ nat (- k)) / real m"
    by (simp add: power_int_def field_simps)
  then show ?thesis using True by (simp only: floor_divide_of_nat_eq if_True)
next
  case False
  then have "real n / (real m * 2 powi k) = real n / real (2 ^ nat k * m)"
    by (simp add: power_int_def mult.commute)
  then show ?thesis using False by (simp only: floor_divide_of_nat_eq if_False div_mult2_eq)
qed

lemma share_target_floor:
  assumes "d = FNum False m e" "wf_double d" "-107 \<le> e"
  shows "\<exists>t. share_target_from_difficulty d = Inr t \<and> length t = 32 \<and>
    be_val t = min (2 ^ 256 - 1) (nat \<lfloor>diff1_value / difficulty_value d\<rfloor>)"
proof -
  obtain d1 where d1: "target_from_hex ''00000000ffff0000000000000000000000000000000000000000000000000000'' = Inr d1"
    "length d1 = 32" "be_val d1 = diff1_value"
    using diff1_target by blast
  define num where "num = (if 53 - e \<ge> 0 then shift_left (from_target d1) (nat (53 - e))
                           else shift_right (from_target d1) (nat (- (53 - e))))"
  have m: "unat (of_nat m :: u64) = m" "0 < m" "m \<le> 2 ^ 63"
    using assms by (simp_all add: unat_of_nat)
  have num: "length num = 12" "le_val num = (if e - 53 \<le> 0 then diff1_value * 2 ^ nat (- (e - 53))
      else diff1_value div 2 ^ nat (e - 53))"
  proof -
    show "length num = 12" by (simp add: num_def)
    have "diff1_value * 2 ^ nat (53 - e) < (2 ^ 32) ^ 12" if "e \<le> 53"
    proof -
      have "(2::nat) ^ nat (53 - e) \<le> 2 ^ 160"
        using assms by (intro power_increasing) auto
      then have "diff1_value * 2 ^ nat (53 - e) \<le> diff1_value * 2 ^ 160" by (rule mult_le_mono2)
      also have "\<dots> < (2 ^ 32) ^ 12" by (simp add: diff1_value_def)
      finally show ?thesis .
    qed
    then show "le_val num = (if e - 53 \<le> 0 then diff1_value * 2 ^ nat (- (e - 53))
      else diff1_value div 2 ^ nat (e - 53))"
      by (auto simp: num_def le_val_shift_left le_val_shift_right le_val_from_target d1 mult.commute)
  qed
  have "share_target_from_difficulty d = Inr (lower_target (divide num (of_nat m)))"
    by (simp add: share_target_from_difficulty_def assms(1) d1(1) num_def Let_def)
  moreover have "be_val (lower_target (divide num (of_nat m))) = min (2 ^ 256 - 1) (le_val num div m)"
    using le_val_divide [of num "of_nat m"] num m by (simp add: be_val_lower_target)
  moreover have "le_val num div m = nat \<lfloor>diff1_value / difficulty_value d\<rfloor>"
    using floor_quotient [of m diff1_value "e - 53"] m num
    by (simp add: difficulty_value_def assms(1))
  ultimately show ?thesis by (simp add: length_lower_target)
qed

lemma be_val_pad: "be_val (replicate k 0 @ (xs :: bytes) @ replicate n 0) = be_val xs * 256 ^ n"
  by (simp add: be_val_append)

lemma target_from_nbits_value:
  assumes "from_hex h = Inr [e, a, b, c]" "\<not> bit a 7" "unat e \<le> 32" "3 \<le> unat e"
  shows "\<exists>t. target_from_nbits h = Inr t \<and> length t = 32 \<and>
    be_val t = be_val [a, b, c] * 256 ^ (unat e - 3)"
proof -
  have upd: "fold (\<lambda>i r. r[n + i := [a, b, c] ! i]) [0..<3] (replicate 32 0) =
      replicate n 0 @ [a, b, c] @ replicate (29 - n) 0" if "n \<le> 29" for n
  proof -
    have "replicate 32 (0 :: u8) = replicate n 0 @ [0, 0, 0] @ replicate (29 - n) 0"
      using that by (simp add: replicate_add [symmetric] flip: replicate_Suc)
    then show ?thesis by (simp add: upt_rec list_update_append)
  qed
  have a: "a AND 0x80 = 0"
  proof (rule bit_word_eqI)
    fix n
    have "(0x80 :: u8) = 2 ^ 7" by simp
    then show "bit (a AND 0x80) n = bit (0 :: u8) n"
      using assms(2) by (simp only: bit_and_iff bit_exp_iff) auto
  qed
  show ?thesis
  proof (cases "unat e = 3")
    case True
    then show ?thesis using assms a upd [of 29]
      by (simp add: target_from_nbits_def be_val_append)
  next
    case False
    then have "target_from_nbits h = Inr (replicate (32 - unat e) 0 @ [a, b, c] @ replicate (unat e - 3) 0)"
      using assms a upd [of "32 - unat e"]
      by (simp only: target_from_nbits_def bindE_simps Let_def) auto
    moreover have "length (replicate (32 - unat e) 0 @ [a, b, c] @ replicate (unat e - 3) 0) = 32"
      using assms by simp
    ultimately show ?thesis using be_val_pad by blast
  qed
qed

lemma sign_bit: "(a :: u8) AND 0x80 \<noteq> 0 \<longleftrightarrow> bit a 7"
proof -
  have "(0x80 :: u8) = 2 ^ 7" by simp
  then have "bit (a AND 0x80) n \<longleftrightarrow> n = 7 \<and> bit a 7" for n
    by (simp only: bit_and_iff bit_exp_iff) auto
  then show ?thesis by (metis bit_0_eq bit_eq_iff bot_apply bot_bool_def)
qed

lemma target_from_nbits_error:
  assumes "from_hex h = Inr [e, a, b, c]" "bit a 7 \<or> unat e > 32"
  shows "\<exists>msg. target_from_nbits h = Inl (Invalid_argument msg)"
  using assms sign_bit [of a] by (auto simp: target_from_nbits_def Let_def)

lemma be_val_div_append: "be_val ((xs :: bytes) @ ys) div 256 ^ length ys = be_val xs"
  using be_val_bound [of ys] by (simp add: be_val_append)

lemma mantissa_prefix:
  assumes "k < 3"
  shows "fold (\<lambda>i r. r[32 - k + i := [a, b, c] ! i]) [0..<k] (replicate 32 (0 :: u8))
    = replicate (32 - k) 0 @ take k [a, b, c]"
proof -
  have r: "replicate 32 (0 :: u8) = replicate (32 - k) 0 @ replicate k 0"
    using assms by (simp add: replicate_add [symmetric])
  consider "k = 0" | "k = 1" | "k = 2" using assms by linarith
  then show ?thesis
    unfolding r by cases (simp_all add: upt_rec list_update_append numeral_2_eq_2)
qed

lemma target_from_nbits_small:
  assumes "from_hex h = Inr [e, a, b, c]" "\<not> bit a 7" "unat e < 3"
  shows "\<exists>t. target_from_nbits h = Inr t \<and> length t = 32 \<and>
    be_val t = be_val [a, b, c] div 256 ^ (3 - unat e)"
proof -
  have t: "target_from_nbits h = Inr (replicate (32 - unat e) 0 @ take (unat e) [a, b, c])"
    using assms sign_bit [of a] mantissa_prefix [of "unat e" a b c]
    by (cases "unat e = 0") (simp_all add: target_from_nbits_def Let_def)
  have v: "be_val [a, b, c] div 256 ^ (3 - unat e) = be_val (take (unat e) [a, b, c])"
  proof -
    have "length (drop (unat e) [a, b, c]) = 3 - unat e" by simp
    then show ?thesis
      using be_val_div_append [of "take (unat e) [a, b, c]" "drop (unat e) [a, b, c]"]
      by (simp only: append_take_drop_id)
  qed
  show ?thesis unfolding t v using assms(3) by (simp add: be_val_append)
qed

lemma share_target_overflow:
  assumes "2 ^ 52 \<le> m" "m < 2 ^ 53" "e \<le> -124"
  shows "share_target_from_difficulty (FNum False m e) = Inr (replicate 32 0)"
proof -
  obtain d1 where d1: "target_from_hex ''00000000ffff0000000000000000000000000000000000000000000000000000'' = Inr d1"
    "length d1 = 32" "be_val d1 = diff1_value"
    using diff1_target by blast
  let ?num = "shift_left (from_target d1) (nat (53 - e))"
  let ?t = "lower_target (divide ?num (of_nat m))"
  have m: "unat (of_nat m :: u64) = m" "0 < m" "m \<le> 2 ^ 63"
    using assms by (simp_all add: unat_of_nat)
  obtain k where k: "nat (53 - e) = 176 + k"
  proof -
    have "176 \<le> nat (53 - e)" using assms(3) by simp
    then show ?thesis using that le_Suc_ex by blast
  qed
  have "le_val ?num = 2 ^ (176 + k) * diff1_value mod (2 ^ 32) ^ 12"
    by (simp only: le_val_shift_left le_val_from_target d1 k length_from_target)
  also have "2 ^ (176 + k) * diff1_value = (0xffff * 2 ^ k) * (2 ^ 32) ^ 12"
    by (simp add: power_add diff1_value_def)
  also have "\<dots> mod (2 ^ 32) ^ 12 = 0" by (rule mod_mult_self2_is_0)
  finally have "le_val ?num = 0" .
  then have "be_val ?t = be_val (replicate 32 0 :: bytes)"
    using le_val_divide [of ?num "of_nat m"] m by (simp add: be_val_lower_target)
  then have "?t = replicate 32 0"
    by (subst (asm) be_val_inject) (simp_all add: length_lower_target)
  moreover have "share_target_from_difficulty (FNum False m e) = Inr ?t"
    using assms(3) by (simp add: share_target_from_difficulty_def d1(1) Let_def)
  ultimately show ?thesis by simp
qed

section \<open>Properties\<close>

text \<open>C4: a digest meets a target exactly when its little-endian value is at most the target's
  big-endian value.\<close>

theorem hash_meets_target_numeric:
  assumes "length digest = 32" "length target = 32"
  shows "hash_meets_target digest target \<longleftrightarrow> le_val digest \<le> be_val target"
  using assms by (rule hash_meets_target_iff)

theorem hash_meets_target_numeric_witness:
  "hash_meets_target (replicate 32 0) (replicate 32 0)"
  using hash_meets_target_numeric [of "replicate 32 0" "replicate 32 0"] by (simp add: le_val_def)

text \<open>C23: the compact encoding of four bytes is rejected exactly when its sign bit is set or its
  exponent exceeds 32, and otherwise decodes to the mantissa scaled by 256 to the exponent less
  three, rounded down.\<close>

theorem compact_target_value:
  assumes "from_hex h = Inr [e, a, b, c]"
  shows "if bit a 7 \<or> unat e > 32 then \<exists>msg. target_from_nbits h = Inl (Invalid_argument msg)
    else \<exists>t. target_from_nbits h = Inr t \<and> length t = 32 \<and>
      be_val t = (if 3 \<le> unat e then be_val [a, b, c] * 256 ^ (unat e - 3)
                  else be_val [a, b, c] div 256 ^ (3 - unat e))"
  using target_from_nbits_value [OF assms] target_from_nbits_small [OF assms]
    target_from_nbits_error [OF assms] by (auto simp: not_le)

theorem compact_target_value_witness:
  "\<exists>t. target_from_nbits ''1d00ffff'' = Inr t \<and> be_val t = diff1_value"
proof -
  have "from_hex ''1d00ffff'' = Inr [0x1d, 0, 0xff, 0xff]" by code_simp
  from compact_target_value [OF this] show ?thesis by (auto simp: diff1_value_def)
qed

text \<open>Dividing 384-bit by 64-bit numbers bit by bit gives the quotient, and shifting by any
  number of bits multiplies modulo 2^384 or divides.\<close>

theorem big384_arithmetic:
  assumes "length v = 12" "0 < unat d" "unat d \<le> 2 ^ 63"
  shows "le_val (divide v d) = le_val v div unat d
    \<and> le_val (shift_left v n) = le_val v * 2 ^ n mod 2 ^ 384
    \<and> le_val (shift_right v n) = le_val v div 2 ^ n"
  using le_val_divide(1) [OF assms] le_val_shift_left [of v n] le_val_shift_right [of v n] assms(1)
  by (simp add: mult.commute)

theorem big384_arithmetic_witness:
  "le_val (divide (replicate 12 5) 3) = le_val (replicate 12 (5 :: u32)) div 3"
  using big384_arithmetic [of "replicate 12 5" 3 0] by simp



text \<open>Below that bound the left shift drops the number's high bits: the target of the difficulty
  2^-256 is zero, which no hash but zero meets, where the quotient would be capped at the maximum.\<close>

theorem share_target_underflow:
  "share_target_from_difficulty (FNum False (2 ^ 52) (-255)) = Inr (replicate 32 0)
   \<and> nat \<lfloor>diff1_value / difficulty_value (FNum False (2 ^ 52) (-255))\<rfloor> > 2 ^ 256 - 1"
proof
  show "share_target_from_difficulty (FNum False (2 ^ 52) (-255)) = Inr (replicate 32 0)"
    by (rule share_target_overflow) simp_all
  show "nat \<lfloor>diff1_value / difficulty_value (FNum False (2 ^ 52) (-255))\<rfloor> > 2 ^ 256 - 1"
    using floor_quotient [of "2 ^ 52" diff1_value "-308"]
    by (simp add: difficulty_value_def diff1_value_def)
qed

end
