(* ===== verification/Json_Api.thy ===== *)
theory Json_Api
  imports Target
begin

text \<open>
  The operations of \<^verbatim>\<open>nlohmann::json\<close> that the code calls. The package is not part of the
  repository, so it is a parameter of every definition that uses it: a record of operations on an
  abstract type of JSON values. \<open>json_ok\<close> collects the documented laws the proofs rest on (reading
  back what was stored, lookup after assignment, indexing of arrays). The concrete values at the
  end show that the laws can hold; the witnesses instantiate the parameter with them.
\<close>

section \<open>The operations\<close>

type_synonym i64 = "64 word"
type_synonym u16 = "16 word"

text \<open>
  \<open>j_member o k\<close> is the lookup behind \<^verbatim>\<open>value(key, default)\<close>: it throws when \<open>o\<close> is no object and
  is \<open>None\<close> when the key is absent.
\<close>

record 'j json_api =
  j_parse :: "string \<Rightarrow> 'j outcome"
  j_dump :: "'j \<Rightarrow> string"
  j_dump_indented :: "'j \<Rightarrow> string"
  j_null :: 'j
  j_string :: "string \<Rightarrow> 'j"
  j_unsigned :: "u64 \<Rightarrow> 'j"
  j_signed :: "i64 \<Rightarrow> 'j"
  j_boolean :: "bool \<Rightarrow> 'j"
  j_double :: "fdouble \<Rightarrow> 'j"
  j_array :: "'j list \<Rightarrow> 'j"
  j_object :: "(string \<times> 'j) list \<Rightarrow> 'j"
  j_is_null :: "'j \<Rightarrow> bool"
  j_is_object :: "'j \<Rightarrow> bool"
  j_is_array :: "'j \<Rightarrow> bool"
  j_is_integer :: "'j \<Rightarrow> bool"
  j_is_boolean :: "'j \<Rightarrow> bool"
  j_empty :: "'j \<Rightarrow> bool"
  j_items :: "'j \<Rightarrow> 'j list"
  j_index :: "'j \<Rightarrow> nat \<Rightarrow> 'j outcome"
  j_contains :: "'j \<Rightarrow> string \<Rightarrow> bool"
  j_at :: "'j \<Rightarrow> string \<Rightarrow> 'j outcome"
  j_member :: "'j \<Rightarrow> string \<Rightarrow> 'j option outcome"
  j_set :: "'j \<Rightarrow> string \<Rightarrow> 'j \<Rightarrow> 'j"
  j_merge :: "'j \<Rightarrow> 'j \<Rightarrow> 'j"
  j_get_string :: "'j \<Rightarrow> string outcome"
  j_get_strings :: "'j \<Rightarrow> string list outcome"
  j_get_u64 :: "'j \<Rightarrow> u64 outcome"
  j_get_u32 :: "'j \<Rightarrow> u32 outcome"
  j_get_u16 :: "'j \<Rightarrow> u16 outcome"
  j_get_u32s :: "'j \<Rightarrow> u32 list outcome"
  j_get_i64 :: "'j \<Rightarrow> i64 outcome"
  j_get_bool :: "'j \<Rightarrow> bool outcome"
  j_get_double :: "'j \<Rightarrow> fdouble outcome"

text \<open>The instances of \<^verbatim>\<open>value(key, default)\<close> and of \<^verbatim>\<open>at(key).get<T>()\<close> the code uses.\<close>

definition value_or :: "'j json_api \<Rightarrow> ('j \<Rightarrow> 'a outcome) \<Rightarrow> 'j \<Rightarrow> string \<Rightarrow> 'a \<Rightarrow> 'a outcome" where
  "value_or J get obj key dflt =
    bindE (j_member J obj key) (\<lambda>v. case v of None \<Rightarrow> Inr dflt | Some x \<Rightarrow> get x)"

definition at_get :: "'j json_api \<Rightarrow> ('j \<Rightarrow> 'a outcome) \<Rightarrow> 'j \<Rightarrow> string \<Rightarrow> 'a outcome" where
  "at_get J get obj key = bindE (j_at J obj key) get"

definition index_get :: "'j json_api \<Rightarrow> ('j \<Rightarrow> 'a outcome) \<Rightarrow> 'j \<Rightarrow> nat \<Rightarrow> 'a outcome" where
  "index_get J get arr i = bindE (j_index J arr i) get"

section \<open>The laws\<close>

definition json_ok :: "'j json_api \<Rightarrow> bool" where
  "json_ok J \<longleftrightarrow>
    (\<forall>s. j_get_string J (j_string J s) = Inr s) \<and>
    (\<forall>n. j_get_u64 J (j_unsigned J n) = Inr n) \<and>
    (\<forall>n. j_get_u32 J (j_unsigned J n) = Inr (ucast n)) \<and>
    (\<forall>n. j_get_i64 J (j_signed J n) = Inr n) \<and>
    (\<forall>b. j_get_bool J (j_boolean J b) = Inr b) \<and>
    (\<forall>d. j_get_double J (j_double J d) = Inr d) \<and>
    (\<forall>xs. j_items J (j_array J xs) = xs \<and> j_is_array J (j_array J xs)) \<and>
    (\<forall>n. j_is_integer J (j_signed J n) \<and> \<not> j_is_null J (j_signed J n)) \<and>
    (\<forall>n. \<not> j_is_null J (j_unsigned J n)) \<and>
    j_is_null J (j_null J) \<and>
    (\<forall>kvs. j_is_object J (j_object J kvs)) \<and>
    (\<forall>kvs k. j_member J (j_object J kvs) k = Inr (map_of kvs k)) \<and>
    (\<forall>obj k v. j_is_object J obj \<longrightarrow> j_is_object J (j_set J obj k v)) \<and>
    (\<forall>obj k v k'. j_is_object J obj \<longrightarrow>
       j_member J (j_set J obj k v) k' = (if k' = k then Inr (Some v) else j_member J obj k')) \<and>
    (\<forall>obj k v. j_is_object J obj \<longrightarrow> j_member J obj k = Inr (Some v) \<longrightarrow> j_at J obj k = Inr v) \<and>
    (\<forall>obj k. j_is_object J obj \<longrightarrow> j_contains J obj k = (\<exists>v. j_member J obj k = Inr (Some v))) \<and>
    (\<forall>obj k. j_is_object J obj \<longrightarrow> (\<exists>v. j_member J obj k = Inr v)) \<and>
    (\<forall>obj ext k. j_is_object J obj \<longrightarrow> j_is_object J ext \<longrightarrow>
       j_is_object J (j_merge J obj ext) \<and>
       (j_member J ext k = Inr None \<longrightarrow> j_member J (j_merge J obj ext) k = j_member J obj k))"

named_theorems json_laws

lemma json_ok_simps [json_laws]:
  assumes "json_ok J"
  shows "j_get_string J (j_string J s) = Inr s"
    "j_get_u64 J (j_unsigned J n) = Inr n"
    "j_get_u32 J (j_unsigned J n) = Inr (ucast n)"
    "j_get_i64 J (j_signed J i) = Inr i"
    "j_get_bool J (j_boolean J b) = Inr b"
    "j_get_double J (j_double J x) = Inr x"
    "j_items J (j_array J xs) = xs"
    "j_is_array J (j_array J xs)"
    "j_is_integer J (j_signed J i)"
    "\<not> j_is_null J (j_signed J i)"
    "\<not> j_is_null J (j_unsigned J n)"
    "j_is_null J (j_null J)"
    "j_is_object J (j_object J kvs)"
    "j_member J (j_object J kvs) k = Inr (map_of kvs k)"
    "j_is_object J obj \<Longrightarrow> j_is_object J (j_set J obj k v)"
    "j_is_object J obj \<Longrightarrow>
       j_member J (j_set J obj k v) k' = (if k' = k then Inr (Some v) else j_member J obj k')"
    "j_is_object J obj \<Longrightarrow> j_member J obj k = Inr (Some v) \<Longrightarrow> j_at J obj k = Inr v"
    "j_is_object J obj \<Longrightarrow> j_contains J obj k = (\<exists>v. j_member J obj k = Inr (Some v))"
  using assms unfolding json_ok_def by simp_all

lemma json_ok_merge:
  assumes "json_ok J" "j_is_object J obj" "j_is_object J ext"
  shows "j_is_object J (j_merge J obj ext)"
    "j_member J ext k = Inr None \<Longrightarrow> j_member J (j_merge J obj ext) k = j_member J obj k"
  using assms unfolding json_ok_def by simp_all

lemma json_ok_member: "json_ok J \<Longrightarrow> j_is_object J obj \<Longrightarrow> \<exists>v. j_member J obj k = Inr v"
  unfolding json_ok_def by blast

lemma value_or_set:
  assumes "json_ok J" "j_is_object J obj"
  shows "value_or J get (j_set J obj k v) k' d = (if k' = k then get v else value_or J get obj k' d)"
  using assms by (simp add: value_or_def json_laws)

lemma value_or_object [json_laws]:
  "json_ok J \<Longrightarrow> value_or J get (j_object J kvs) k d = (case map_of kvs k of None \<Rightarrow> Inr d | Some x \<Rightarrow> get x)"
  by (simp add: value_or_def json_laws)

lemma at_get_member:
  "json_ok J \<Longrightarrow> j_is_object J obj \<Longrightarrow> j_member J obj k = Inr (Some v) \<Longrightarrow> at_get J get obj k = get v"
  by (simp add: at_get_def json_laws)

section \<open>Values that satisfy the laws\<close>

text \<open>
  A JSON tree with \<^verbatim>\<open>nlohmann\<close>'s number kinds. Nothing of the development but the witnesses
  depends on it; its parser knows no text, which the laws allow.
\<close>

datatype jtree =
    JNull | JBool bool | JUnsigned u64 | JSigned i64 | JDouble fdouble | JString string
  | JArray "jtree list" | JObject "(string \<times> jtree) list"

fun jt_string :: "jtree \<Rightarrow> string outcome" where
  "jt_string (JString s) = Inr s"
| "jt_string _ = Inl (Json_error ''type must be string'')"

fun jt_u64 :: "jtree \<Rightarrow> u64 outcome" where
  "jt_u64 (JUnsigned n) = Inr n"
| "jt_u64 (JSigned n) = Inr n"
| "jt_u64 _ = Inl (Json_error ''type must be number'')"

fun jt_bool :: "jtree \<Rightarrow> bool outcome" where
  "jt_bool (JBool b) = Inr b"
| "jt_bool _ = Inl (Json_error ''type must be boolean'')"

fun jt_double :: "jtree \<Rightarrow> fdouble outcome" where
  "jt_double (JDouble d) = Inr d"
| "jt_double _ = Inl (Json_error ''type must be number'')"

fun jt_items :: "jtree \<Rightarrow> jtree list" where
  "jt_items (JArray xs) = xs"
| "jt_items (JObject kvs) = List.map snd kvs"
| "jt_items JNull = []"
| "jt_items v = [v]"

fun jt_strings :: "jtree \<Rightarrow> string list outcome" where
  "jt_strings (JArray xs) = mapE jt_string xs"
| "jt_strings _ = Inl (Json_error ''type must be array'')"

fun jt_index :: "jtree \<Rightarrow> nat \<Rightarrow> jtree outcome" where
  "jt_index (JArray xs) i = (if i < length xs then Inr (xs ! i) else Inl (Json_error ''array index is out of range''))"
| "jt_index _ i = Inl (Json_error ''cannot use at()'')"

fun jt_member :: "jtree \<Rightarrow> string \<Rightarrow> jtree option outcome" where
  "jt_member (JObject kvs) k = Inr (map_of kvs k)"
| "jt_member _ k = Inl (Json_error ''cannot use value()'')"

fun jt_at :: "jtree \<Rightarrow> string \<Rightarrow> jtree outcome" where
  "jt_at (JObject kvs) k = (case map_of kvs k of Some v \<Rightarrow> Inr v | None \<Rightarrow> Inl (Json_error ''key not found''))"
| "jt_at _ k = Inl (Json_error ''cannot use at()'')"

fun jt_set :: "jtree \<Rightarrow> string \<Rightarrow> jtree \<Rightarrow> jtree" where
  "jt_set (JObject kvs) k v = JObject ((k, v) # filter (\<lambda>kv. fst kv \<noteq> k) kvs)"
| "jt_set _ k v = JObject [(k, v)]"

fun jt_merge :: "jtree \<Rightarrow> jtree \<Rightarrow> jtree" where
  "jt_merge obj (JObject kvs) = fold (\<lambda>(k, v) o'. jt_set o' k v) kvs obj"
| "jt_merge obj _ = obj"

definition tree_api :: "jtree json_api" where
  "tree_api = \<lparr>
    j_parse = (\<lambda>s. Inl (Json_error ''parse error'')), j_dump = (\<lambda>v. []), j_dump_indented = (\<lambda>v. []),
    j_null = JNull, j_string = JString, j_unsigned = JUnsigned, j_signed = JSigned,
    j_boolean = JBool, j_double = JDouble, j_array = JArray, j_object = JObject,
    j_is_null = (\<lambda>v. v = JNull), j_is_object = (\<lambda>v. case v of JObject _ \<Rightarrow> True | _ \<Rightarrow> False),
    j_is_array = (\<lambda>v. case v of JArray _ \<Rightarrow> True | _ \<Rightarrow> False),
    j_is_integer = (\<lambda>v. case v of JUnsigned _ \<Rightarrow> True | JSigned _ \<Rightarrow> True | _ \<Rightarrow> False),
    j_is_boolean = (\<lambda>v. case v of JBool _ \<Rightarrow> True | _ \<Rightarrow> False),
    j_empty = (\<lambda>v. jt_items v = []), j_items = jt_items, j_index = jt_index,
    j_contains = (\<lambda>v k. case jt_member v k of Inr (Some _) \<Rightarrow> True | _ \<Rightarrow> False),
    j_at = jt_at, j_member = jt_member, j_set = jt_set, j_merge = jt_merge,
    j_get_string = jt_string, j_get_strings = jt_strings, j_get_u64 = jt_u64,
    j_get_u32 = (\<lambda>v. bindE (jt_u64 v) (\<lambda>n. Inr (ucast n))), j_get_u16 = (\<lambda>v. bindE (jt_u64 v) (\<lambda>n. Inr (ucast n))),
    j_get_u32s = (\<lambda>v. mapE (\<lambda>x. bindE (jt_u64 x) (\<lambda>n. Inr (ucast n))) (jt_items v)), j_get_i64 = jt_u64,
    j_get_bool = jt_bool, j_get_double = jt_double \<rparr>"

lemma map_of_filter_key: "map_of (filter (\<lambda>kv. fst kv \<noteq> k) kvs) k' = (if k' = k then None else map_of kvs k')"
  by (induction kvs) auto

lemma jt_merge_member:
  "map_of ext k = None \<Longrightarrow>
    (\<exists>kvs'. jt_merge (JObject kvs) (JObject ext) = JObject kvs' \<and> map_of kvs' k = map_of kvs k)"
proof (induction ext arbitrary: kvs)
  case (Cons e ext)
  obtain k' v where e: "e = (k', v)" by force
  with Cons.prems have "k \<noteq> k'" "map_of ext k = None" by (auto split: if_splits)
  with Cons.IH [of "(k', v) # filter (\<lambda>kv. fst kv \<noteq> k') kvs"] e show ?case
    by (simp add: map_of_filter_key)
qed simp

lemma jt_merge_object: "\<exists>kvs'. jt_merge (JObject kvs) (JObject ext) = JObject kvs'"
  by (induction ext arbitrary: kvs) (auto split: prod.splits)

lemma tree_object: "j_is_object tree_api v \<longleftrightarrow> (\<exists>kvs. v = JObject kvs)"
  by (cases v) (simp_all add: tree_api_def)

lemma tree_merge:
  "j_is_object tree_api (j_merge tree_api (JObject kvs) (JObject ext))"
  "j_member tree_api (JObject ext) k = Inr None \<Longrightarrow>
    j_member tree_api (j_merge tree_api (JObject kvs) (JObject ext)) k = j_member tree_api (JObject kvs) k"
proof -
  show "j_is_object tree_api (j_merge tree_api (JObject kvs) (JObject ext))"
    using jt_merge_object [of kvs ext] unfolding tree_object by (simp add: tree_api_def)
  assume "j_member tree_api (JObject ext) k = Inr None"
  then have "map_of ext k = None" by (simp add: tree_api_def)
  from jt_merge_member [OF this, of kvs]
  show "j_member tree_api (j_merge tree_api (JObject kvs) (JObject ext)) k = j_member tree_api (JObject kvs) k"
    by (auto simp: tree_api_def)
qed

lemma tree_member_set:
  "j_is_object tree_api (j_set tree_api (JObject kvs) k v)"
  "j_member tree_api (j_set tree_api (JObject kvs) k v) k' =
    (if k' = k then Inr (Some v) else j_member tree_api (JObject kvs) k')"
  "j_member tree_api (JObject kvs) k = Inr (Some v) \<Longrightarrow> j_at tree_api (JObject kvs) k = Inr v"
  "j_contains tree_api (JObject kvs) k = (\<exists>v. j_member tree_api (JObject kvs) k = Inr (Some v))"
  "\<exists>v. j_member tree_api (JObject kvs) k = Inr v"
  unfolding tree_object by (auto simp: tree_api_def map_of_filter_key split: option.splits)

lemma json_ok_tree_api: "json_ok tree_api"
proof -
  have vals:
    "j_get_string tree_api (j_string tree_api s) = Inr s"
    "j_get_u64 tree_api (j_unsigned tree_api n) = Inr n"
    "j_get_u32 tree_api (j_unsigned tree_api n) = Inr (ucast n)"
    "j_get_i64 tree_api (j_signed tree_api i) = Inr i"
    "j_get_bool tree_api (j_boolean tree_api b) = Inr b"
    "j_get_double tree_api (j_double tree_api dbl) = Inr dbl"
    "j_items tree_api (j_array tree_api xs) = xs \<and> j_is_array tree_api (j_array tree_api xs)"
    "j_is_integer tree_api (j_signed tree_api i) \<and> \<not> j_is_null tree_api (j_signed tree_api i)"
    "\<not> j_is_null tree_api (j_unsigned tree_api n)"
    "j_is_null tree_api (j_null tree_api)"
    "j_is_object tree_api (j_object tree_api kvs)"
    "j_member tree_api (j_object tree_api kvs) k = Inr (map_of kvs k)" for s n i b dbl xs kvs k
    by (simp_all add: tree_api_def)
  show ?thesis
    unfolding json_ok_def
    by (intro conjI allI impI) (auto simp: vals tree_object tree_member_set
        intro: tree_merge [unfolded tree_object] tree_member_set [unfolded tree_object] vals [unfolded tree_object])
qed

end
