(* ===== verification/Stratum.thy ===== *)
theory Stratum
  imports Header Json_Api
begin

text \<open>
  \<^verbatim>\<open>src/stratum/\<close>: messages, jobs, and the client. A handler returns the callbacks it invoked, in
  order, its outcome (an exception or nothing) and the client's new state; what the callbacks do
  is the controller's model. The socket is a parameter: the lines it delivers, whether a write
  succeeds, and how a session ends. The lemmas show that a job which passes \<^verbatim>\<open>parse_notify\<close> always
  builds, that a submission is answered at most once, and which failures end a session.
\<close>

section \<open>Messages\<close>

record 'j stratum_message =
  sm_raw :: 'j
  sm_id :: "i64 option"
  sm_method :: string
  sm_params :: 'j
  sm_result :: 'j
  sm_error :: 'j

definition is_notification :: "'j stratum_message \<Rightarrow> bool" where
  "is_notification m = (sm_method m \<noteq> [])"

definition is_response :: "'j stratum_message \<Rightarrow> bool" where
  "is_response m = (sm_id m \<noteq> None)"

definition message_id :: "'j json_api \<Rightarrow> 'j \<Rightarrow> i64 option outcome" where
  "message_id J raw =
    (if j_contains J raw ''id'' then
       bindE (j_at J raw ''id'') (\<lambda>v.
         if j_is_null J v then Inr None
         else if \<not> j_is_integer J v
         then Inl (Invalid_argument ''Stratum id must be an integer or null'')
         else bindE (j_get_i64 J v) (\<lambda>n. Inr (Some n)))
     else Inr None)"

definition optional_at :: "'j json_api \<Rightarrow> 'j \<Rightarrow> string \<Rightarrow> 'j \<Rightarrow> 'j outcome" where
  "optional_at J raw key dflt = (if j_contains J raw key then j_at J raw key else Inr dflt)"

definition parse_message :: "'j json_api \<Rightarrow> string \<Rightarrow> 'j stratum_message outcome" where
  "parse_message J line =
    bindE (j_parse J line) (\<lambda>raw.
      if \<not> j_is_object J raw then Inl (Invalid_argument ''Stratum message must be a JSON object'')
      else
        bindE (message_id J raw) (\<lambda>ident.
        bindE (if j_contains J raw ''method'' then at_get J (j_get_string J) raw ''method'' else Inr '''') (\<lambda>meth.
        bindE (optional_at J raw ''params'' (j_array J [])) (\<lambda>params.
        bindE (optional_at J raw ''result'' (j_null J)) (\<lambda>result.
        bindE (optional_at J raw ''error'' (j_null J)) (\<lambda>err.
          if ident = None \<and> meth = ''''
          then Inl (Invalid_argument ''Stratum message is neither response nor notification'')
          else Inr \<lparr>sm_raw = raw, sm_id = ident, sm_method = meth, sm_params = params,
                    sm_result = result, sm_error = err\<rparr>))))))"

definition make_request :: "'j json_api \<Rightarrow> i64 \<Rightarrow> string \<Rightarrow> 'j \<Rightarrow> 'j" where
  "make_request J ident meth params =
    j_object J [(''id'', j_signed J ident), (''method'', j_string J meth), (''params'', params)]"

section \<open>Jobs\<close>

record stratum_job =
  job_id :: string
  prevhash :: string
  coinbase1 :: string
  coinbase2 :: string
  merkle_branches :: "string list"
  version :: string
  nbits :: string
  ntime :: string
  clean_jobs :: bool

definition isxdigit :: "char \<Rightarrow> bool" where
  "isxdigit c =
    (CHR ''0'' \<le> c \<and> c \<le> CHR ''9'' \<or> CHR ''A'' \<le> c \<and> c \<le> CHR ''F'' \<or> CHR ''a'' \<le> c \<and> c \<le> CHR ''f'')"

definition require_hex :: "string \<Rightarrow> string \<Rightarrow> nat \<Rightarrow> unit outcome" where
  "require_hex val name exact_bytes =
    (if length val mod 2 \<noteq> 0 \<or> \<not> list_all isxdigit val
     then Inl (Invalid_argument (name @ '' must be even-length hexadecimal data''))
     else if exact_bytes \<noteq> 0 \<and> length val \<noteq> exact_bytes * 2
     then Inl (Invalid_argument (name @ '' has an invalid byte length''))
     else Inr ())"

definition check_job :: "stratum_job \<Rightarrow> stratum_job outcome" where
  "check_job job =
    (if job_id job = [] then Inl (Invalid_argument ''mining.notify job_id is empty'')
     else
       bindE (require_hex (prevhash job) ''prevhash'' 32) (\<lambda>_.
       bindE (require_hex (coinbase1 job) ''coinbase1'' 0) (\<lambda>_.
       bindE (require_hex (coinbase2 job) ''coinbase2'' 0) (\<lambda>_.
       bindE (require_hex (version job) ''version'' 4) (\<lambda>_.
       bindE (require_hex (nbits job) ''nbits'' 4) (\<lambda>_.
       bindE (require_hex (ntime job) ''ntime'' 4) (\<lambda>_.
       bindE (foldE (\<lambda>branch _. require_hex branch ''merkle branch'' 32) (merkle_branches job) ()) (\<lambda>_.
         Inr job))))))))"

definition parse_notify :: "'j json_api \<Rightarrow> 'j \<Rightarrow> stratum_job outcome" where
  "parse_notify J params =
    (if \<not> j_is_array J params \<or> length (j_items J params) \<noteq> 9
     then Inl (Invalid_argument ''mining.notify must contain exactly nine parameters'')
     else
       bindE (index_get J (j_get_string J) params 0) (\<lambda>p0.
       bindE (index_get J (j_get_string J) params 1) (\<lambda>p1.
       bindE (index_get J (j_get_string J) params 2) (\<lambda>p2.
       bindE (index_get J (j_get_string J) params 3) (\<lambda>p3.
       bindE (index_get J (j_get_strings J) params 4) (\<lambda>p4.
       bindE (index_get J (j_get_string J) params 5) (\<lambda>p5.
       bindE (index_get J (j_get_string J) params 6) (\<lambda>p6.
       bindE (index_get J (j_get_string J) params 7) (\<lambda>p7.
       bindE (index_get J (j_get_bool J) params 8) (\<lambda>p8.
         check_job \<lparr>job_id = p0, prevhash = p1, coinbase1 = p2, coinbase2 = p3,
           merkle_branches = p4, version = p5, nbits = p6, ntime = p7, clean_jobs = p8\<rparr>))))))))))"

record built_work =
  bw_header :: bytes
  bw_merkle_root :: bytes

definition build_work :: "stratum_job \<Rightarrow> string \<Rightarrow> string \<Rightarrow> u32 \<Rightarrow> built_work outcome" where
  "build_work job extranonce1 extranonce2 nonce =
    bindE (coinbase_hash (coinbase1 job) extranonce1 extranonce2 (coinbase2 job)) (\<lambda>coinbase.
    bindE (build_merkle_root coinbase (merkle_branches job)) (\<lambda>merkle.
    bindE (build_stratum_header (version job) (prevhash job) merkle (ntime job) (nbits job) nonce) (\<lambda>header.
      Inr \<lparr>bw_header = header, bw_merkle_root = merkle\<rparr>)))"

section \<open>The client\<close>

definition to_string_i64 :: "i64 \<Rightarrow> string" where
  "to_string_i64 n = (if sint n < 0 then ''-'' @ to_string (nat (- sint n)) else to_string (nat (sint n)))"

text \<open>
  \<^verbatim>\<open>StratumClient::Impl\<close>: \<open>pending\<close> is \<^verbatim>\<open>pending_submissions\<close>, with times in microseconds of the
  steady clock.
\<close>

record client =
  pending :: "i64 \<rightharpoonup> u64"
  is_connected :: bool
  is_authorized :: bool
  next_id :: i64

definition initial_client :: client where
  "initial_client = \<lparr>pending = Map.empty, is_connected = False, is_authorized = False, next_id = 100\<rparr>"

datatype 'j callback =
    Event string
  | Subscribed string u32
  | Authorized bool
  | Difficulty fdouble
  | Job stratum_job
  | Submission i64 bool 'j u64
  | Disconnected

type_synonym 'j handled = "'j callback list \<times> unit outcome \<times> client"

definition handle_notification ::
    "'j json_api \<Rightarrow> (fdouble \<Rightarrow> string) \<Rightarrow> 'j stratum_message \<Rightarrow> 'j callback list \<times> unit outcome" where
  "handle_notification J double_text m =
    (if sm_method m = ''mining.set_difficulty'' then
       (if \<not> j_is_array J (sm_params m) \<or> j_empty J (sm_params m)
        then ([], Inl (Invalid_argument ''invalid mining.set_difficulty''))
        else case index_get J (j_get_double J) (sm_params m) 0 of
            Inl e \<Rightarrow> ([], Inl e)
          | Inr v \<Rightarrow> ([Event (''[CKPOOL] mining.set_difficulty '' @ double_text v), Difficulty v], Inr ()))
     else if sm_method m = ''mining.notify'' then
       (case parse_notify J (sm_params m) of
            Inl e \<Rightarrow> ([], Inl e)
          | Inr job \<Rightarrow> ([Event (''[CKPOOL] mining.notify job_id='' @ job_id job), Job job], Inr ()))
     else if sm_method m = ''client.show_message'' then
       (case (if j_is_array J (sm_params m) \<and> \<not> j_empty J (sm_params m)
              then index_get J (j_get_string J) (sm_params m) 0 else Inr '''') of
            Inl e \<Rightarrow> ([], Inl e)
          | Inr txt \<Rightarrow> ([Event (''[CKPOOL] message: '' @ txt)], Inr ()))
     else ([], Inr ()))"

definition handle_subscribe :: "'j json_api \<Rightarrow> 'j stratum_message \<Rightarrow> 'j callback list \<times> unit outcome" where
  "handle_subscribe J m =
    (if \<not> j_is_null J (sm_error m) \<and> \<not> j_empty J (sm_error m)
     then ([], Inl (Runtime_error (''mining.subscribe rejected: '' @ j_dump J (sm_error m))))
     else if \<not> j_is_array J (sm_result m) \<or> length (j_items J (sm_result m)) < 3
     then ([], Inl (Runtime_error ''invalid mining.subscribe response''))
     else case index_get J (j_get_string J) (sm_result m) 1 of
         Inl e \<Rightarrow> ([], Inl e)
       | Inr extranonce1 \<Rightarrow>
           (case index_get J (j_get_u32 J) (sm_result m) 2 of
              Inl e \<Rightarrow> ([], Inl e)
            | Inr en2_size \<Rightarrow>
                ([Event (''[CKPOOL] abonn'' @ [CHR 0xC3, CHR 0xA9] @ '' extranonce2_size='' @ to_string (unat en2_size)),
                  Subscribed extranonce1 en2_size], Inr ())))"

definition accepted :: "'j json_api \<Rightarrow> 'j stratum_message \<Rightarrow> bool" where
  "accepted J m =
    (j_is_null J (sm_error m) \<and> j_is_boolean J (sm_result m) \<and> j_get_bool J (sm_result m) = Inr True)"

definition handle ::
    "'j json_api \<Rightarrow> (fdouble \<Rightarrow> string) \<Rightarrow> u64 \<Rightarrow> 'j stratum_message \<Rightarrow> client \<Rightarrow> 'j handled" where
  "handle J double_text now m c =
    (if is_notification m then
       (case handle_notification J double_text m of (cbs, r) \<Rightarrow> (cbs, r, c))
     else case sm_id m of
       None \<Rightarrow> ([], Inl (Logic_error ''no id''), c)
     | Some ident \<Rightarrow>
       if ident = 1 then (case handle_subscribe J m of (cbs, r) \<Rightarrow> (cbs, r, c))
       else if ident = 2 then
         (let ok = accepted J m
          in ([Event (if ok then ''[CKPOOL] autoris'' @ [CHR 0xC3, CHR 0xA9]
                      else ''[CKPOOL] autorisation refus'' @ [CHR 0xC3, CHR 0xA9] @ ''e''),
               Authorized ok],
              (if ok then Inr () else Inl (Runtime_error ''CKPool authorization failed'')),
              c\<lparr>is_authorized := ok\<rparr>))
       else (case pending c ident of
           None \<Rightarrow> ([], Inr (), c)
         | Some started \<Rightarrow>
             ([Submission ident (accepted J m) (sm_raw m) (now - started)], Inr (),
              c\<lparr>pending := (pending c)(ident := None)\<rparr>)))"

text \<open>
  One pass of the reading loop: a malformed line is reported and skipped, any other exception
  leaves the loop.
\<close>

definition on_line ::
    "'j json_api \<Rightarrow> (fdouble \<Rightarrow> string) \<Rightarrow> u64 \<Rightarrow> string \<Rightarrow> client \<Rightarrow> 'j handled" where
  "on_line J double_text now line c =
    (if line = [] then ([], Inr (), c)
     else case (case parse_message J line of Inl e \<Rightarrow> ([], Inl e, c) | Inr m \<Rightarrow> handle J double_text now m c) of
       (cbs, r, c') \<Rightarrow>
         (case r of
            Inl (Json_error txt) \<Rightarrow> (cbs @ [Event (''[NETWORK] JSON Stratum invalide: '' @ txt)], Inr (), c')
          | Inl (Invalid_argument txt) \<Rightarrow> (cbs @ [Event (''[NETWORK] message Stratum invalide: '' @ txt)], Inr (), c')
          | _ \<Rightarrow> (cbs, r, c')))"

text \<open>
  A session: the lines that arrive, each with its time, and the error the transport ends with.
\<close>

fun read_lines ::
    "'j json_api \<Rightarrow> (fdouble \<Rightarrow> string) \<Rightarrow> (u64 \<times> string) list \<Rightarrow> exn \<Rightarrow> client \<Rightarrow> 'j callback list \<times> exn \<times> client" where
  "read_lines J dt [] cause c = ([], cause, c)"
| "read_lines J dt ((now, line) # rest) cause c =
    (case on_line J dt now line c of
       (cbs, Inl e, c') \<Rightarrow> (cbs, e, c')
     | (cbs, Inr _, c') \<Rightarrow> (case read_lines J dt rest cause c' of (cbs', e, c'') \<Rightarrow> (cbs @ cbs', e, c'')))"

record ckpool_endpoint =
  ck_host :: string
  ck_port :: nat
  ck_username :: string
  ck_password :: string
  ck_reconnect :: bool
  ck_reconnect_delay_ms :: nat

text \<open>
  What the network does in one connection attempt: it fails to connect, or it connects and lines
  arrive until the transport fails; the flag says whether a stop was requested by then. Whether
  the two opening requests can be written is the parameter \<open>send\<close>.
\<close>

datatype attempt =
    No_connection exn bool
  | Connected "(u64 \<times> string) list" exn bool

definition requests :: "'j json_api \<Rightarrow> ckpool_endpoint \<Rightarrow> 'j list" where
  "requests J cfg =
    [make_request J 1 ''mining.subscribe'' (j_array J [j_string J ''sha256_research_miner/0.1.0'']),
     make_request J 2 ''mining.authorize'' (j_array J [j_string J (ck_username cfg), j_string J (ck_password cfg)])]"

definition disconnected_text :: "exn \<Rightarrow> string" where
  "disconnected_text e = ''[NETWORK] d'' @ [CHR 0xC3, CHR 0xA9] @ ''connexion: '' @ exn_text e"

definition end_attempt ::
    "'j callback list \<Rightarrow> exn \<Rightarrow> bool \<Rightarrow> client \<Rightarrow> 'j callback list \<times> client" where
  "end_attempt cbs e stop c =
    (cbs @ (if stop then [] else [Event (disconnected_text e)]) @ [Disconnected],
     c\<lparr>is_connected := False, is_authorized := False\<rparr>)"

definition run_attempt ::
    "'j json_api \<Rightarrow> (fdouble \<Rightarrow> string) \<Rightarrow> ('j \<Rightarrow> unit outcome) \<Rightarrow> ckpool_endpoint \<Rightarrow> attempt \<Rightarrow> client \<Rightarrow>
      'j callback list \<times> client" where
  "run_attempt J dt send cfg a c =
    (case a of
       No_connection e stop \<Rightarrow> end_attempt [] e stop c
     | Connected lines cause stop \<Rightarrow>
         (let hello = Event (''[CKPOOL] connexion '' @ ck_host cfg @ '':'' @ to_string (ck_port cfg));
              c1 = c\<lparr>is_connected := True\<rparr>
          in case foldE (\<lambda>request _. send request) (requests J cfg) () of
               Inl e \<Rightarrow> end_attempt [hello] e stop c1
             | Inr _ \<Rightarrow> (case read_lines J dt lines cause c1 of
                 (cbs, e, c') \<Rightarrow> end_attempt (hello # cbs) e stop c')))"

fun stop_requested :: "attempt \<Rightarrow> bool" where
  "stop_requested (No_connection e s) = s"
| "stop_requested (Connected ls e s) = s"

text \<open>\<^verbatim>\<open>Impl::run\<close> over the attempts the network offers; it stops early when asked to, or when
  reconnection is off.\<close>

fun run ::
    "'j json_api \<Rightarrow> (fdouble \<Rightarrow> string) \<Rightarrow> ('j \<Rightarrow> unit outcome) \<Rightarrow> ckpool_endpoint \<Rightarrow> attempt list \<Rightarrow> client \<Rightarrow>
      'j callback list \<times> client" where
  "run J dt send cfg [] c = ([], c)"
| "run J dt send cfg (a # as) c =
    (case run_attempt J dt send cfg a c of (cbs, c') \<Rightarrow>
       if stop_requested a \<or> \<not> ck_reconnect cfg then (cbs, c')
       else (case run J dt send cfg as c' of (cbs', c'') \<Rightarrow>
         (cbs @ [Event (''[NETWORK] reconnexion dans '' @ to_string (ck_reconnect_delay_ms cfg) @ '' ms'')] @ cbs', c'')))"

text \<open>\<^verbatim>\<open>StratumClient::submit\<close>; \<open>send\<close> is the outcome of writing the request.\<close>

definition submit ::
    "'j json_api \<Rightarrow> ('j \<Rightarrow> unit outcome) \<Rightarrow> u64 \<Rightarrow> string \<Rightarrow> string \<Rightarrow> string \<Rightarrow> string \<Rightarrow> string \<Rightarrow> client \<Rightarrow>
      'j callback list \<times> i64 outcome \<times> client" where
  "submit J send now username job extranonce2 time nonce c =
    (let ident = next_id c;
         c1 = c\<lparr>next_id := ident + 1, pending := (pending c)(ident := Some
                (case pending c ident of None \<Rightarrow> now | Some t \<Rightarrow> t))\<rparr>;
         request = make_request J ident ''mining.submit''
                     (j_array J (List.map (j_string J) [username, job, extranonce2, time, nonce]))
     in case send request of
          Inl e \<Rightarrow> ([], Inl e, c1\<lparr>pending := (pending c1)(ident := None)\<rparr>)
        | Inr _ \<Rightarrow> ([Event (''[SHARE] soumise id='' @ to_string_i64 ident)], Inr ident, c1))"

section \<open>A checked job builds\<close>

definition hex_field :: "string \<Rightarrow> nat \<Rightarrow> bool" where
  "hex_field s n \<longleftrightarrow> list_all is_hex s \<and> even (length s) \<and> (n \<noteq> 0 \<longrightarrow> length s = 2 * n)"

definition job_ok :: "stratum_job \<Rightarrow> bool" where
  "job_ok job \<longleftrightarrow> job_id job \<noteq> [] \<and> hex_field (prevhash job) 32 \<and> hex_field (coinbase1 job) 0 \<and>
    hex_field (coinbase2 job) 0 \<and> hex_field (version job) 4 \<and> hex_field (nbits job) 4 \<and>
    hex_field (ntime job) 4 \<and> list_all (\<lambda>b. hex_field b 32) (merkle_branches job)"

lemma isxdigit_is_hex: "isxdigit c = is_hex c"
  by (auto simp: isxdigit_def is_hex_def hex_digit_def Let_def)

lemma require_hex_iff: "require_hex s name n = Inr u \<longleftrightarrow> hex_field s n"
  by (auto simp: require_hex_def hex_field_def isxdigit_is_hex[abs_def] even_iff_mod_2_eq_zero)

lemma require_all_iff:
  "foldE (\<lambda>branch _. require_hex branch name n) bs () = Inr u \<longleftrightarrow> list_all (\<lambda>b. hex_field b n) bs"
  by (induction bs) (auto simp: bindE_eq_Inr_iff require_hex_iff)

lemma check_job_iff: "check_job job = Inr job' \<longleftrightarrow> job' = job \<and> job_ok job"
  by (auto simp: check_job_def job_ok_def bindE_eq_Inr_iff require_hex_iff require_all_iff)

lemma parse_notify_ok: "parse_notify J params = Inr job \<Longrightarrow> job_ok job"
  by (auto simp: parse_notify_def bindE_eq_Inr_iff check_job_iff split: if_splits)

lemma hex_field_bytes:
  "hex_field s n \<Longrightarrow> \<exists>bs. from_hex s = Inr bs \<and> (n \<noteq> 0 \<longrightarrow> length bs = n)"
  using from_hex_Inr_iff [of s] from_hex_length [of s] by (auto simp: hex_field_def)

lemma coinbase_hash_total:
  assumes "hex_field c1 0" "hex_field c2 0"
  shows "(\<exists>d. coinbase_hash c1 en1 en2 c2 = Inr d \<and> length d = 32) \<longleftrightarrow> hex_field (en1 @ en2) 0"
proof -
  have "(\<exists>bs. from_hex (c1 @ en1 @ en2 @ c2) = Inr bs) \<longleftrightarrow> hex_field (en1 @ en2) 0"
    using assms unfolding from_hex_Inr_iff hex_field_def by auto
  then show ?thesis
    by (auto simp: coinbase_hash_def build_coinbase_def bindE_eq_Inr_iff Let_def)
qed

lemma coinbase_hash_length: "coinbase_hash c1 en1 en2 c2 = Inr d \<Longrightarrow> length d = 32"
  by (auto simp: coinbase_hash_def bindE_eq_Inr_iff)

lemma build_work_total:
  assumes "job_ok job" "hex_field (en1 @ en2) 0"
  shows "\<exists>w. build_work job en1 en2 nonce = Inr w \<and> length (bw_header w) = 80 \<and>
    get_nonce (bw_header w) = nonce \<and> take 32 (drop 36 (bw_header w)) = bw_merkle_root w"
proof -
  obtain d where d: "coinbase_hash (coinbase1 job) en1 en2 (coinbase2 job) = Inr d" "length d = 32"
    using assms coinbase_hash_total [of "coinbase1 job" "coinbase2 job" en1 en2] unfolding job_ok_def by auto
  have "list_all (\<lambda>b. \<exists>bs. from_hex b = Inr bs \<and> length bs = 32) (merkle_branches job)"
    using assms(1) hex_field_bytes by (auto simp: job_ok_def list_all_iff) fastforce
  then obtain r where r: "build_merkle_root d (merkle_branches job) = Inr r" "length r = 32"
    using build_merkle_root_total d by blast
  obtain v p t b where f: "from_hex (version job) = Inr v" "from_hex (prevhash job) = Inr p"
      "from_hex (ntime job) = Inr t" "from_hex (nbits job) = Inr b"
      and len: "length v = 4" "length p = 32" "length t = 4" "length b = 4"
    using assms(1) hex_field_bytes [of "version job" 4] hex_field_bytes [of "prevhash job" 32]
      hex_field_bytes [of "ntime job" 4] hex_field_bytes [of "nbits job" 4]
    unfolding job_ok_def by auto
  define h where "h = header_layout v p r t b nonce"
  have "h = set_nonce (header_layout v p r t b 0) nonce" "length h = 80" "take 32 (drop 36 h) = r"
    using len r by (simp_all add: h_def header_layout_def length_swap_words set_nonce_eq)
  moreover have "length (header_layout v p r t b 0) = 80"
    using len r by (simp add: header_layout_def length_swap_words)
  moreover have "build_work job en1 en2 nonce = Inr \<lparr>bw_header = h, bw_merkle_root = r\<rparr>"
    using build_stratum_header_bytes [OF f len r(2)] by (simp add: build_work_def d r h_def)
  ultimately show ?thesis by simp
qed

lemma build_work_requires_hex:
  assumes "job_ok job" "build_work job en1 en2 nonce = Inr w"
  shows "hex_field (en1 @ en2) 0"
  using assms coinbase_hash_total [of "coinbase1 job" "coinbase2 job" en1 en2]
  by (auto simp: job_ok_def build_work_def bindE_eq_Inr_iff dest: coinbase_hash_length)

section \<open>Submissions and sessions\<close>

text \<open>The client's invariant: a pending id has been handed out and is none of the two reserved ones.\<close>

definition client_inv :: "client \<Rightarrow> bool" where
  "client_inv c \<longleftrightarrow> 100 \<le> next_id c \<and> (\<forall>i\<in>dom (pending c). 100 \<le> i \<and> i < next_id c)"

lemma client_inv_initial: "client_inv initial_client"
  by (simp add: client_inv_def initial_client_def)

lemma client_inv_handle: "client_inv c \<Longrightarrow> handle J dt now m c = (cbs, r, c') \<Longrightarrow> client_inv c'"
  by (auto simp: handle_def client_inv_def Let_def split: if_splits option.splits prod.splits)

lemma client_inv_on_line: "client_inv c \<Longrightarrow> on_line J dt now line c = (cbs, r, c') \<Longrightarrow> client_inv c'"
  by (auto simp: on_line_def split: if_splits sum.splits exn.splits prod.splits dest: client_inv_handle)

lemma client_inv_read_lines: "client_inv c \<Longrightarrow> read_lines J dt ls cause c = (cbs, e, c') \<Longrightarrow> client_inv c'"
proof (induction ls arbitrary: c cbs)
  case (Cons a ls)
  then show ?case
    by (cases a) (auto split: prod.splits sum.splits dest: client_inv_on_line)
qed auto

lemma client_inv_flags: "client_inv (c\<lparr>is_connected := a\<rparr>) = client_inv c"
  "client_inv (c\<lparr>is_connected := a, is_authorized := b\<rparr>) = client_inv c"
  by (simp_all add: client_inv_def)

lemma client_inv_run_attempt: "client_inv c \<Longrightarrow> run_attempt J dt send cfg a c = (cbs, c') \<Longrightarrow> client_inv c'"
  using client_inv_read_lines [of "c\<lparr>is_connected := True\<rparr>"]
  by (auto simp: run_attempt_def end_attempt_def Let_def client_inv_flags
      split: attempt.splits prod.splits sum.splits)

lemma client_inv_run: "client_inv c \<Longrightarrow> run J dt send cfg as c = (cbs, c') \<Longrightarrow> client_inv c'"
proof (induction as arbitrary: c cbs)
  case (Cons a as)
  then show ?case
    by (auto split: prod.splits if_splits dest: client_inv_run_attempt)
qed auto

lemma next_id_step:
  assumes "next_id c \<noteq> - 1" "100 \<le> next_id c"
  shows "100 \<le> next_id c + 1" "next_id c < next_id c + 1"
proof -
  have "unat (next_id c + 1) = unat (next_id c) + 1"
    using assms(1) by (metis Suc_eq_plus1 add.commute add_eq_0_iff unatSuc)
  with assms(2) show "100 \<le> next_id c + 1" "next_id c < next_id c + 1"
    by (simp_all add: word_le_nat_alt word_less_nat_alt)
qed

lemma client_inv_submit:
  assumes "client_inv c" "next_id c \<noteq> - 1" "submit J send now u job en t n c = (cbs, r, c')"
  shows "client_inv c'"
proof -
  have "i < next_id c + 1" if "pending c i = Some y" for i y
    using assms(1) that next_id_step [of c] assms(2) by (auto simp: client_inv_def intro: order.strict_trans)
  then show ?thesis
    using assms next_id_step [of c]
    by (auto simp: submit_def client_inv_def Let_def split: sum.splits option.splits if_splits)
qed

text \<open>
  Submissions of the worker threads and lines of the network thread, in any interleaving.
\<close>

datatype client_action =
    Submit string string string string string u64
  | Line u64 string

fun client_op ::
    "'j json_api \<Rightarrow> (fdouble \<Rightarrow> string) \<Rightarrow> ('j \<Rightarrow> unit outcome) \<Rightarrow> client_action \<Rightarrow> client \<Rightarrow> 'j callback list \<times> client" where
  "client_op J dt send (Submit u job en t n now) c =
    (case submit J send now u job en t n c of (cbs, r, c') \<Rightarrow> (cbs, c'))"
| "client_op J dt send (Line now line) c =
    (case on_line J dt now line c of (cbs, r, c') \<Rightarrow> (cbs, c'))"

fun client_ops ::
    "'j json_api \<Rightarrow> (fdouble \<Rightarrow> string) \<Rightarrow> ('j \<Rightarrow> unit outcome) \<Rightarrow> client_action list \<Rightarrow> client \<Rightarrow> 'j callback list \<times> client" where
  "client_ops J dt send [] c = ([], c)"
| "client_ops J dt send (x # xs) c =
    (case client_op J dt send x c of (cbs, c') \<Rightarrow>
     case client_ops J dt send xs c' of (cbs', c'') \<Rightarrow> (cbs @ cbs', c''))"

fun answered :: "'j callback list \<Rightarrow> i64 list" where
  "answered [] = []"
| "answered (Submission i b j t # cbs) = i # answered cbs"
| "answered (_ # cbs) = answered cbs"

lemma answered_append [simp]: "answered (xs @ ys) = answered xs @ answered ys"
  by (induction xs rule: answered.induct) simp_all

lemma answered_handle:
  "handle J dt now m c = (cbs, r, c') \<Longrightarrow>
    next_id c' = next_id c \<and>
    (answered cbs = [] \<and> pending c' = pending c \<or>
     (\<exists>i. answered cbs = [i] \<and> i \<in> dom (pending c) \<and> pending c' = (pending c)(i := None)))"
  by (auto simp: handle_def handle_notification_def handle_subscribe_def Let_def
      split: if_splits option.splits prod.splits sum.splits)

lemma answered_on_line:
  "on_line J dt now line c = (cbs, r, c') \<Longrightarrow>
    next_id c' = next_id c \<and>
    (answered cbs = [] \<and> pending c' = pending c \<or>
     (\<exists>i. answered cbs = [i] \<and> i \<in> dom (pending c) \<and> pending c' = (pending c)(i := None)))"
  by (auto simp: on_line_def split: if_splits sum.splits exn.splits prod.splits dest!: answered_handle)

lemma answered_submit:
  "submit J send now u job en t n c = (cbs, r, c') \<Longrightarrow>
    answered cbs = [] \<and> next_id c' = next_id c + 1 \<and>
    dom (pending c') \<subseteq> insert (next_id c) (dom (pending c))"
  by (auto simp: submit_def Let_def split: sum.splits option.splits if_splits)

lemma client_ops_answered:
  assumes "client_inv c" "unat (next_id c) + length xs < 2 ^ 64"
    and "client_ops J dt send xs c = (cbs, c')"
  shows "client_inv c' \<and> distinct (answered cbs) \<and>
    (\<forall>i\<in>set (answered cbs). i \<in> dom (pending c) \<or> next_id c \<le> i) \<and>
    (\<forall>i\<in>dom (pending c'). i \<notin> set (answered cbs) \<and> (i \<in> dom (pending c) \<or> next_id c \<le> i))"
  using assms
proof (induction xs arbitrary: c cbs)
  case Nil
  then show ?case by auto
next
  case (Cons x xs)
  obtain cb c1 where op: "client_op J dt send x c = (cb, c1)" by force
  obtain cbs1 where rest: "client_ops J dt send xs c1 = (cbs1, c')" "cbs = cb @ cbs1"
    using Cons.prems(3) op by (auto split: prod.splits)
  have nm: "next_id c \<noteq> - 1"
    using Cons.prems(2) by (auto simp: unsigned_minus_1_eq_mask mask_eq_exp_minus_1)
  have nxt: "unat (next_id c + 1) = unat (next_id c) + 1"
    using nm by (metis Suc_eq_plus1 add.commute add_eq_0_iff unatSuc)
  show ?case
  proof (cases x)
    case (Submit u job en t n now)
    then obtain r where sub: "submit J send now u job en t n c = (cb, r, c1)"
      using op by (auto split: prod.splits)
    have inv: "client_inv c1" using client_inv_submit [OF Cons.prems(1) nm sub] .
    note a = answered_submit [OF sub]
    have "unat (next_id c1) + length xs < 2 ^ 64" using a nxt Cons.prems(2) by simp
    note IH = Cons.IH [OF inv this rest(1)]
    have up: "next_id c \<le> i" if "next_id c + 1 \<le> i" for i
      using that nxt by (simp add: word_le_nat_alt)
    have cl: "i \<in> dom (pending c) \<or> next_id c \<le> i" if "i \<in> dom (pending c1) \<or> next_id c1 \<le> i" for i
      using that a up by auto
    show ?thesis using IH a cl unfolding rest(2) answered_append by (simp only: append_Nil) blast
  next
    case (Line now line)
    then obtain r where ln: "on_line J dt now line c = (cb, r, c1)"
      using op by (auto split: prod.splits)
    have inv: "client_inv c1" using client_inv_on_line [OF Cons.prems(1) ln] .
    note a = answered_on_line [OF ln]
    have "unat (next_id c1) + length xs < 2 ^ 64" using a Cons.prems(2) by simp
    note IH = Cons.IH [OF inv this rest(1)]
    have low: "i < next_id c" if "i \<in> dom (pending c)" for i
      using Cons.prems(1) that by (simp add: client_inv_def)
    show ?thesis using a
    proof (elim conjE disjE exE)
      assume "answered cb = []" "pending c1 = pending c" "next_id c1 = next_id c"
      then show ?thesis using IH rest(2) by simp
    next
      fix i assume i: "answered cb = [i]" "i \<in> dom (pending c)" "pending c1 = (pending c)(i := None)"
        "next_id c1 = next_id c"
      have i1: "\<not> (i \<in> dom (pending c1) \<or> next_id c1 \<le> i)" using low [OF i(2)] i(3,4) by (simp add: not_le)
      have "i \<notin> set (answered cbs1)" "i \<notin> dom (pending c')" using IH i1 by blast+
      moreover have "j \<in> dom (pending c)" if "j \<in> dom (pending c1)" for j
        using that i(3) by (auto split: if_splits)
      ultimately show ?thesis
        using IH i(1,2,4) unfolding rest(2) answered_append
        by (simp only: append_Cons append_Nil distinct.simps list.simps) blast
    qed
  qed
qed

text \<open>A concrete notification, for the witnesses.\<close>

definition example_notify :: jtree where
  "example_notify = JArray [JString ''1'', JString (replicate 64 CHR ''0''), JString ''01'', JString ''02'',
     JArray [JString (replicate 64 CHR ''a'')], JString ''20000000'', JString ''1d00ffff'', JString ''5f5e1000'', JBool True]"

lemma example_notify_parses: "\<exists>job. parse_notify tree_api example_notify = Inr job"
proof -
  have "(case parse_notify tree_api example_notify of Inl e \<Rightarrow> False | Inr job \<Rightarrow> True)"
    by code_simp
  then show ?thesis by (auto split: sum.splits)
qed

section \<open>Properties\<close>

text \<open>C14: a job that passed \<open>parse_notify\<close> builds a header for every nonce exactly when the two
  extranonces together are an even number of hexadecimal digits; the header then carries the nonce
  and the Merkle root that is returned with it.\<close>

theorem notified_job_builds:
  assumes "parse_notify J params = Inr job"
  shows "if even (length (en1 @ en2)) \<and> list_all is_hex (en1 @ en2)
    then \<exists>w. build_work job en1 en2 nonce = Inr w \<and> length (bw_header w) = 80 \<and>
      get_nonce (bw_header w) = nonce \<and> take 32 (drop 36 (bw_header w)) = bw_merkle_root w
    else \<exists>e. build_work job en1 en2 nonce = Inl e"
proof (cases "hex_field (en1 @ en2) 0")
  case True
  then show ?thesis
    using build_work_total [OF parse_notify_ok [OF assms], of en1 en2 nonce] by (simp add: hex_field_def)
next
  case False
  then have "build_work job en1 en2 nonce \<noteq> Inr w" for w
    using build_work_requires_hex [OF parse_notify_ok [OF assms]] by blast
  with False show ?thesis
    by (cases "build_work job en1 en2 nonce") (auto simp: hex_field_def)
qed

theorem notified_job_builds_witness:
  "\<exists>job. parse_notify tree_api example_notify = Inr job \<and> (\<exists>w. build_work job ''0a'' ''0b'' 7 = Inr w)
     \<and> (\<exists>e. build_work job ''0'' ''0b'' 7 = Inl e)"
proof -
  obtain job where p: "parse_notify tree_api example_notify = Inr job"
    using example_notify_parses by blast
  have "even (length (''0a'' @ ''0b'')) \<and> list_all is_hex (''0a'' @ ''0b'')"
    by (simp add: is_hex_def hex_digit_def)
  then show ?thesis
    using notified_job_builds [OF p, of "''0a''" "''0b''" 7] notified_job_builds [OF p, of "''0''" "''0b''" 7] p
    by auto
qed

text \<open>C11: for any interleaving of submissions and received lines from the initial state, each
  submission is answered at most once, no pending one has been answered, and every answered or
  pending id is one the client handed out, never the two it reserves for its own requests.\<close>

theorem submissions_answered_once:
  assumes "length xs < 2 ^ 64 - 100"
    and "client_ops J dt send xs initial_client = (cbs, c')"
  shows "distinct (answered cbs) \<and> list_all (\<lambda>i. 100 \<le> i) (answered cbs)
    \<and> set (answered cbs) \<inter> dom (pending c') = {} \<and> client_inv c'"
  using client_ops_answered [OF client_inv_initial _ assms(2)] assms(1)
  by (auto simp: initial_client_def list_all_iff)

theorem submissions_answered_once_witness:
  "distinct (answered (fst (client_ops tree_api (\<lambda>d. '''') (\<lambda>j. Inr ())
     [Submit ''u'' ''j'' ''00'' ''t'' ''n'' 5, Line 9 ''x''] initial_client)))"
  using submissions_answered_once
    [of "[Submit ''u'' ''j'' ''00'' ''t'' ''n'' 5, Line 9 ''x'']" tree_api "\<lambda>d. ''''" "\<lambda>j. Inr ()"
      "fst (client_ops tree_api (\<lambda>d. '''') (\<lambda>j. Inr ()) [Submit ''u'' ''j'' ''00'' ''t'' ''n'' 5, Line 9 ''x''] initial_client)"
      "snd (client_ops tree_api (\<lambda>d. '''') (\<lambda>j. Inr ()) [Submit ''u'' ''j'' ''00'' ''t'' ''n'' 5, Line 9 ''x''] initial_client)"]
  by (simp only: prod.collapse) simp

end
