(* ===== verification/State_Store.thy ===== *)
theory State_Store
  imports Json_Api
begin

text \<open>
  \<^verbatim>\<open>src/checkpoint/state_store.cpp\<close>: checkpoints written to a temporary file that then replaces
  the old one. A disk maps paths to contents; a save returns every disk a crash could leave behind,
  in order, and its outcome. What the operating system answers to each call is a parameter
  (\<open>save_env\<close>). Both halves of the \<^verbatim>\<open>#ifdef _WIN32\<close> are modelled and shown to provide the
  interface \<open>atomic_store\<close>; what the rest of the program relies on is proved once, from the
  interface.
\<close>

type_synonym disk = "string \<rightharpoonup> string"

section \<open>The operating system's answers\<close>

text \<open>
  Per call, \<open>None\<close> is success and \<open>Some\<close> an error code, with the directory as displayed for the first. \<^verbatim>\<open>WriteFile\<close> at an offset answers how many
  bytes it wrote and whether it succeeded.
\<close>

record save_env =
  dir_error :: "(string \<times> string) option"
  open_result :: "nat \<Rightarrow> u32 option"
  write_result :: "nat \<Rightarrow> nat \<times> u32 option"
  flush_result :: "u32 option"
  replace_result :: "nat \<Rightarrow> u32 option"

definition ERROR_SHARING_VIOLATION :: u32 where "ERROR_SHARING_VIOLATION = 32"
definition ERROR_ACCESS_DENIED :: u32 where "ERROR_ACCESS_DENIED = 5"
definition ERROR_WRITE_FAULT :: u32 where "ERROR_WRITE_FAULT = 29"
definition DWORD_MAX :: nat where "DWORD_MAX = 2 ^ 32 - 1"

definition transient_lock_error :: "u32 \<Rightarrow> bool" where
  "transient_lock_error code = (code = ERROR_SHARING_VIOLATION \<or> code = ERROR_ACCESS_DENIED)"

definition retry_backoff_ms :: "nat list" where
  "retry_backoff_ms = [0, 10, 25, 50]"

definition throw_win32_error :: "(u32 \<Rightarrow> string) \<Rightarrow> string \<Rightarrow> u32 \<Rightarrow> 'a outcome" where
  "throw_win32_error message operation code =
    Inl (Persistence_error (operation @ '' (Win32 '' @ to_string (unat code) @ ''): '' @ message code))"

text \<open>
  The retry loop both Win32 helpers are: the error it ends with, or success, and the milliseconds
  it slept.
\<close>

fun retry_from :: "(nat \<Rightarrow> u32 option) \<Rightarrow> nat \<Rightarrow> nat list \<Rightarrow> u32 \<Rightarrow> u32 option \<times> nat" where
  "retry_from action attempt [] last_error = (Some last_error, 0)"
| "retry_from action attempt (backoff # rest) last_error =
    (case action attempt of
       None \<Rightarrow> (None, backoff)
     | Some code \<Rightarrow>
         if transient_lock_error code
         then (case retry_from action (attempt + 1) rest code of (r, slept) \<Rightarrow> (r, backoff + slept))
         else (Some code, backoff))"

definition with_retry :: "(nat \<Rightarrow> u32 option) \<Rightarrow> u32 option \<times> nat" where
  "with_retry action = retry_from action 0 retry_backoff_ms 0"

section \<open>Saving\<close>

definition temporary_path :: "string \<Rightarrow> string" where
  "temporary_path path = path @ ''.tmp''"

text \<open>The write loop: the contents the temporary file goes through and the error it ends with.\<close>

function write_chunks :: "save_env \<Rightarrow> string \<Rightarrow> nat \<Rightarrow> string list \<times> u32 option" where
  "write_chunks env payload offset =
    (if offset < length payload then
       (let chunk = min (length payload - offset) DWORD_MAX;
            (written, err) = write_result env offset
        in if err = None \<and> written = chunk
           then (case write_chunks env payload (offset + written) of
                   (ts, r) \<Rightarrow> (take (offset + written) payload # ts, r))
           else ([take (offset + written) payload],
                 Some (case err of None \<Rightarrow> ERROR_WRITE_FAULT | Some e \<Rightarrow> e)))
     else ([], None))"
  by pat_completeness auto
termination
  by (relation "measure (\<lambda>(env, payload, offset). length payload - offset)")
    (auto simp: DWORD_MAX_def)

declare write_chunks.simps [simp del]

definition save_win32 ::
    "(u32 \<Rightarrow> string) \<Rightarrow> save_env \<Rightarrow> string \<Rightarrow> string \<Rightarrow> disk \<Rightarrow> disk list \<times> unit outcome" where
  "save_win32 message env path payload d =
    (case dir_error env of
       Some (directory, detail) \<Rightarrow>
         ([d], Inl (Persistence_error (''cannot create checkpoint directory '' @ directory @ '': '' @ detail)))
     | None \<Rightarrow>
       let temporary = temporary_path path in
       case fst (with_retry (open_result env)) of
         Some code \<Rightarrow> ([d], throw_win32_error message (''cannot create checkpoint temporary file '' @ temporary) code)
       | None \<Rightarrow>
         let opened = d(temporary \<mapsto> []);
             (contents, write_error) = write_chunks env payload 0;
             written = List.map (\<lambda>c. d(temporary \<mapsto> c)) contents
         in case write_error of
              Some code \<Rightarrow>
                ([d, opened] @ written,
                 throw_win32_error message (''cannot write checkpoint temporary file '' @ temporary) code)
            | None \<Rightarrow>
              (case flush_result env of
                 Some code \<Rightarrow>
                   ([d, opened] @ written,
                    throw_win32_error message (''checkpoint FlushFileBuffers failed for '' @ temporary) code)
               | None \<Rightarrow>
                 (case fst (with_retry (replace_result env)) of
                    Some code \<Rightarrow>
                      ([d, opened] @ written,
                       throw_win32_error message (''atomic checkpoint replace failed for '' @ path) code)
                  | None \<Rightarrow>
                      ([d, opened] @ written @ [(d(path \<mapsto> payload))(temporary := None)], Inr ()))))"

text \<open>
  The other half: the stream reports an error after any part of the payload was written.
\<close>

definition save_posix ::
    "(u32 \<Rightarrow> string) \<Rightarrow> save_env \<Rightarrow> string \<Rightarrow> string \<Rightarrow> disk \<Rightarrow> disk list \<times> unit outcome" where
  "save_posix message env path payload d =
    (case dir_error env of
       Some (directory, detail) \<Rightarrow>
         ([d], Inl (Persistence_error (''cannot create checkpoint directory '' @ directory @ '': '' @ detail)))
     | None \<Rightarrow>
       let temporary = temporary_path path in
       case open_result env 0 of
         Some code \<Rightarrow> ([d], Inl (Persistence_error (''cannot create checkpoint temporary file: '' @ temporary)))
       | None \<Rightarrow>
         let opened = d(temporary \<mapsto> []);
             written = d(temporary \<mapsto> take (fst (write_result env 0)) payload);
             flushed = d(temporary \<mapsto> payload)
         in if snd (write_result env 0) \<noteq> None \<or> flush_result env \<noteq> None
            then ([d, opened, written], Inl (Persistence_error (''cannot flush checkpoint temporary file: '' @ temporary)))
            else case replace_result env 0 of
                Some code \<Rightarrow> ([d, opened, written, flushed], Inl (Persistence_error (''atomic checkpoint rename failed: '' @ message code)))
              | None \<Rightarrow> ([d, opened, written, flushed, (d(path \<mapsto> payload))(temporary := None)], Inr ()))"

definition save_payload :: "'j json_api \<Rightarrow> 'j \<Rightarrow> string" where
  "save_payload J state = j_dump_indented J state @ ''\<newline>''"

definition load_or :: "'j json_api \<Rightarrow> disk \<Rightarrow> string \<Rightarrow> 'j \<Rightarrow> 'j outcome" where
  "load_or J d path fallback =
    (case d path of
       None \<Rightarrow> Inr fallback
     | Some input \<Rightarrow>
         (case j_parse J input of
            Inr val \<Rightarrow> Inr val
          | Inl e \<Rightarrow> Inl (Runtime_error (''invalid checkpoint '' @ path @ '': '' @ exn_text e))))"

section \<open>The retry loop\<close>

lemma retry_from_None_iff:
  "fst (retry_from action a bs e) = None \<longleftrightarrow>
    (\<exists>k<length bs. action (a + k) = None \<and> (\<forall>j<k. \<exists>c. action (a + j) = Some c \<and> transient_lock_error c))"
proof (induction bs arbitrary: a e)
  case (Cons b bs)
  show ?case
  proof (cases "action a")
    case None
    then show ?thesis by (auto intro: exI [of _ 0])
  next
    case (Some c)
    have "(\<exists>k<length (b # bs). action (a + k) = None \<and> (\<forall>j<k. \<exists>c. action (a + j) = Some c \<and> transient_lock_error c))
      \<longleftrightarrow> transient_lock_error c \<and>
        (\<exists>k<length bs. action (a + 1 + k) = None \<and> (\<forall>j<k. \<exists>c. action (a + 1 + j) = Some c \<and> transient_lock_error c))"
      (is "?l \<longleftrightarrow> ?t \<and> ?r")
    proof
      assume ?l
      then obtain k where k: "k < Suc (length bs)" "action (a + k) = None"
        "\<forall>j<k. \<exists>c. action (a + j) = Some c \<and> transient_lock_error c" by auto
      with Some obtain m where m: "k = Suc m" by (cases k) auto
      with k(3) have "transient_lock_error c" using Some by force
      moreover have "\<forall>j<m. \<exists>c. action (a + 1 + j) = Some c \<and> transient_lock_error c"
        using k(3) m by (auto dest: spec [of _ "Suc _"])
      ultimately show "?t \<and> ?r" using k m by auto
    next
      assume "?t \<and> ?r"
      then obtain k where k: "?t" "k < length bs" "action (a + 1 + k) = None"
        "\<forall>j<k. \<exists>c. action (a + 1 + j) = Some c \<and> transient_lock_error c" by auto
      have "\<exists>c. action (a + j) = Some c \<and> transient_lock_error c" if "j < Suc k" for j
        using that k Some by (cases j) auto
      with k show ?l by (intro exI [of _ "Suc k"]) auto
    qed
    with Some Cons.IH [of "a + 1" c] show ?thesis by (auto split: prod.splits)
  qed
qed simp

lemma retry_from_sleep: "snd (retry_from action a bs e) \<le> sum_list bs"
  by (induction action a bs e rule: retry_from.induct) (auto split: option.splits prod.splits)

lemma with_retry_None_iff:
  "fst (with_retry action) = None \<longleftrightarrow>
    (\<exists>k<4. action k = None \<and> (\<forall>j<k. \<exists>c. action j = Some c \<and> transient_lock_error c))"
  unfolding with_retry_def retry_from_None_iff by (simp add: retry_backoff_ms_def numeral_eq_Suc)

section \<open>The interface\<close>

text \<open>
  A sequence of saves to one path; the process may crash in any of them and go on from what is
  left.
\<close>

fun after_saves ::
    "(save_env \<Rightarrow> string \<Rightarrow> string \<Rightarrow> disk \<Rightarrow> disk list \<times> unit outcome) \<Rightarrow>
      string \<Rightarrow> (save_env \<times> string \<times> nat) list \<Rightarrow> disk \<Rightarrow> disk" where
  "after_saves save path [] d = d"
| "after_saves save path ((env, payload, crash) # rest) d =
    (let ds = fst (save env path payload d)
     in after_saves save path rest (if crash < length ds then ds ! crash else last ds))"

text \<open>
  Every disk a crash can leave holds, at the destination, the old contents or the whole payload; a
  save that succeeds left the payload, one that throws the old contents; no other file but the
  temporary one changes.
\<close>

locale atomic_store =
  fixes save :: "save_env \<Rightarrow> string \<Rightarrow> string \<Rightarrow> disk \<Rightarrow> disk list \<times> unit outcome"
  assumes states_nonempty: "fst (save env path payload d) \<noteq> []"
    and crash_old_or_new: "d' \<in> set (fst (save env path payload d)) \<Longrightarrow> d' path = d path \<or> d' path = Some payload"
    and last_state: "last (fst (save env path payload d)) path =
      (if snd (save env path payload d) = Inr () then Some payload else d path)"
    and frame: "d' \<in> set (fst (save env path payload d)) \<Longrightarrow> p \<noteq> path \<Longrightarrow> p \<noteq> temporary_path path \<Longrightarrow> d' p = d p"
begin

lemma saves_never_torn:
  "after_saves save path ops d path = d path \<or>
    (\<exists>op\<in>set ops. after_saves save path ops d path = Some (fst (snd op)))"
proof (induction ops arbitrary: d)
  case (Cons op ops)
  obtain env payload crash where op: "op = (env, payload, crash)" by (cases op)
  define d' where "d' = (let ds = fst (save env path payload d)
     in if crash < length ds then ds ! crash else last ds)"
  have "d' \<in> set (fst (save env path payload d))"
    unfolding d'_def using states_nonempty [of env path payload d] by (simp add: Let_def)
  then have d': "d' path = d path \<or> d' path = Some payload" by (rule crash_old_or_new)
  have "after_saves save path (op # ops) d = after_saves save path ops d'"
    by (simp add: op d'_def Let_def)
  moreover have "op \<in> set (op # ops)" "fst (snd op) = payload" by (simp_all add: op)
  ultimately show ?case using Cons.IH [of d'] d' by (metis list.set_intros(2))
qed simp

lemma save_then_load:
  assumes "snd (save env path (save_payload J v) d) = Inr ()"
    and "j_parse J (save_payload J v) = Inr v"
  shows "load_or J (last (fst (save env path (save_payload J v) d))) path fallback = Inr v"
  using last_state [of env path "save_payload J v" d] assms by (simp add: load_or_def)

lemma failed_save_keeps:
  assumes "snd (save env path payload d) = Inl e"
  shows "load_or J (last (fst (save env path payload d))) path fallback = load_or J d path fallback"
  using last_state [of env path payload d] assms by (simp add: load_or_def)

end

lemma temporary_path_neq [simp]: "temporary_path p \<noteq> p" "p \<noteq> temporary_path p"
  by (simp_all add: temporary_path_def)

text \<open>Both halves write only the temporary file until the last step.\<close>

definition staged :: "disk \<Rightarrow> string \<Rightarrow> string \<Rightarrow> disk list \<times> unit outcome \<Rightarrow> bool" where
  "staged d path payload r \<longleftrightarrow>
    (\<exists>cs. (\<exists>e. r = (d # List.map (\<lambda>c. d(temporary_path path \<mapsto> c)) cs, Inl e)) \<or>
      r = (d # List.map (\<lambda>c. d(temporary_path path \<mapsto> c)) cs @ [(d(path \<mapsto> payload))(temporary_path path := None)], Inr ()))"

lemma staged_start [intro!]: "staged d path payload ([d], Inl e)"
  unfolding staged_def by (intro exI [of _ "[]"]) simp

lemma staged_failed [intro!]:
  "staged d path payload (d # d(temporary_path path \<mapsto> c) # List.map (\<lambda>c. d(temporary_path path \<mapsto> c)) cs, Inl e)"
  unfolding staged_def by (intro exI [of _ "c # cs"]) simp

lemma staged_done [intro!]:
  "staged d path payload (d # d(temporary_path path \<mapsto> c) # List.map (\<lambda>c. d(temporary_path path \<mapsto> c)) cs
    @ [(d(path \<mapsto> payload))(temporary_path path := None)], Inr ())"
  unfolding staged_def by (intro exI [of _ "c # cs"]) simp

lemma staged_win32: "staged d path payload (save_win32 message env path payload d)"
  unfolding save_win32_def throw_win32_error_def Let_def
  by (auto split: option.splits prod.splits)

lemma staged_posix: "staged d path payload (save_posix message env path payload d)"
proof -
  note f = staged_failed [of d path payload "[]" "[a]" for a, simplified]
  note g = staged_failed [of d path payload "[]" "[a, b]" for a b, simplified]
  note h = staged_done [of d path payload "[]" "[a, b]" for a b, simplified]
  show ?thesis
    unfolding save_posix_def Let_def by (auto split: option.splits intro!: f g h)
qed

lemma staged_laws:
  assumes "staged d path payload r"
  shows "fst r \<noteq> []"
    and "d' \<in> set (fst r) \<Longrightarrow> d' path = d path \<or> d' path = Some payload"
    and "last (fst r) path = (if snd r = Inr () then Some payload else d path)"
    and "d' \<in> set (fst r) \<Longrightarrow> p \<noteq> path \<Longrightarrow> p \<noteq> temporary_path path \<Longrightarrow> d' p = d p"
  using assms unfolding staged_def by (auto simp: last_map)

interpretation win32: atomic_store "save_win32 message" for message
  by unfold_locales (fact staged_laws [OF staged_win32])+

interpretation posix: atomic_store "save_posix message" for message
  by unfold_locales (fact staged_laws [OF staged_posix])+

text \<open>An environment in which a save of one byte succeeds, for the witnesses.\<close>

definition healthy_disk :: save_env where
  "healthy_disk = \<lparr>dir_error = None, open_result = (\<lambda>_. None), write_result = (\<lambda>_. (1, None)), flush_result = None,
     replace_result = (\<lambda>_. None)\<rparr>"

lemma healthy_save: "snd (save_win32 message healthy_disk path ''\<newline>'' d) = Inr ()"
proof -
  have "with_retry (\<lambda>_. None) = (None, 0)" by (simp add: with_retry_def retry_backoff_ms_def)
  then show ?thesis
    by (simp add: save_win32_def healthy_disk_def write_chunks.simps DWORD_MAX_def Let_def)
qed

section \<open>Properties\<close>

text \<open>C6: whatever the saves to a path do, and wherever the process crashes in any of them, the file
  holds what it held before or the whole of one payload, on Windows as elsewhere.\<close>

theorem checkpoint_never_torn:
  "after_saves (save_win32 message) path ops d path \<in> insert (d path) ((\<lambda>op. Some (fst (snd op))) ` set ops)
   \<and> after_saves (save_posix message) path ops d path \<in> insert (d path) ((\<lambda>op. Some (fst (snd op))) ` set ops)"
  using win32.saves_never_torn [of message path ops d] posix.saves_never_torn [of message path ops d] by auto

text \<open>A save that returns left the payload in the file and no temporary file; a save that throws
  left the file as it was; no other file is touched.\<close>

theorem save_outcome_sound:
  "case save_win32 message env path payload d of (ds, r) \<Rightarrow>
     last ds path = (case r of Inr _ \<Rightarrow> Some payload | Inl _ \<Rightarrow> d path)
     \<and> (p = path \<or> p = temporary_path path \<or> last ds p = d p)"
proof -
  obtain ds r where eq: "save_win32 message env path payload d = (ds, r)" by fastforce
  have "p = path \<or> p = temporary_path path \<or> last ds p = d p"
    using win32.frame [of "last ds" message env path payload d p] win32.states_nonempty [of message env path payload d]
    by (metis eq fst_conv last_in_set)
  moreover have "last ds path = (case r of Inr _ \<Rightarrow> Some payload | Inl _ \<Rightarrow> d path)"
    using win32.last_state [of message env path payload d] by (simp add: eq split: sum.splits)
  ultimately show ?thesis by (simp add: eq)
qed

text \<open>The retry loop succeeds exactly when one of its four attempts does and every attempt before
  failed with a lock that may go away; it gives up at the first other error and sleeps 85 ms at most.\<close>

theorem retry_bounded:
  "(fst (with_retry action) = None \<longleftrightarrow>
     (\<exists>k<4. action k = None \<and> list_all (\<lambda>j. \<exists>c. action j = Some c \<and> transient_lock_error c) [0..<k]))
   \<and> snd (with_retry action) \<le> 85"
proof -
  have "list_all P [0..<k] \<longleftrightarrow> (\<forall>j<k. P j)" for P and k :: nat by (auto simp: list_all_iff)
  moreover have "snd (with_retry action) \<le> sum_list retry_backoff_ms"
    unfolding with_retry_def by (rule retry_from_sleep)
  ultimately show ?thesis by (simp only: with_retry_None_iff) (simp add: retry_backoff_ms_def)
qed

end
