(* ===== verification/Work_Allocator.thy ===== *)
theory Work_Allocator
  imports State_Store
begin

text \<open>
  \<^verbatim>\<open>src/mining/work_allocator.cpp\<close>: the nonce ranges of the current job, the threads' claims on
  them and their persistence. \<^verbatim>\<open>units_\<close> is a list of records in the vector's order, \<^verbatim>\<open>metadata_\<close>
  a JSON object. Every operation returns its outcome and the state it leaves, because an exception
  thrown on the way leaves the changes made before it. The lock makes each operation one step.
\<close>

section \<open>Work units\<close>

datatype work_status = Pending | InProgress | Complete | Stale
datatype worker_kind = Cpu | Gpu

record work_unit =
  u_id :: string
  u_job_id :: string
  u_prevhash :: string
  u_extranonce2 :: string
  u_nonce_start :: u64
  u_nonce_end :: u64
  u_nonce_next :: u64
  u_status :: work_status
  u_worker :: worker_kind
  u_generation :: u64
  u_hashes_tested :: u64
  u_best_hash :: string
  u_best_nonce :: "u32 option"

fun status_name :: "work_status \<Rightarrow> string" where
  "status_name Pending = ''PENDING''"
| "status_name InProgress = ''IN_PROGRESS''"
| "status_name Complete = ''COMPLETE''"
| "status_name Stale = ''STALE''"

definition parse_status :: "string \<Rightarrow> work_status outcome" where
  "parse_status val =
    (if val = ''PENDING'' then Inr Pending
     else if val = ''IN_PROGRESS'' then Inr InProgress
     else if val = ''COMPLETE'' then Inr Complete
     else if val = ''STALE'' then Inr Stale
     else Inl (Invalid_argument (''unknown work status: '' @ val)))"

definition worker_name :: "worker_kind \<Rightarrow> string" where
  "worker_name w = (if w = Cpu then ''CPU'' else ''GPU'')"

definition parse_worker :: "string \<Rightarrow> worker_kind outcome" where
  "parse_worker val =
    (if val = ''CPU'' then Inr Cpu
     else if val = ''GPU'' then Inr Gpu
     else Inl (Invalid_argument (''unknown worker kind: '' @ val)))"

definition nullable_u32 :: "'j json_api \<Rightarrow> u32 option \<Rightarrow> 'j" where
  "nullable_u32 J v = (case v of Some n \<Rightarrow> j_unsigned J (ucast n) | None \<Rightarrow> j_null J)"

definition unit_to_json :: "'j json_api \<Rightarrow> work_unit \<Rightarrow> 'j" where
  "unit_to_json J u =
    j_set J (j_object J
      [(''id'', j_string J (u_id u)), (''job_id'', j_string J (u_job_id u)),
       (''prevhash'', j_string J (u_prevhash u)), (''extranonce2'', j_string J (u_extranonce2 u)),
       (''nonce_start'', j_unsigned J (u_nonce_start u)), (''nonce_end'', j_unsigned J (u_nonce_end u)),
       (''nonce_next'', j_unsigned J (u_nonce_next u)), (''status'', j_string J (status_name (u_status u))),
       (''worker'', j_string J (worker_name (u_worker u))), (''generation'', j_unsigned J (u_generation u)),
       (''hashes_tested'', j_unsigned J (u_hashes_tested u)), (''best_hash'', j_string J (u_best_hash u))])
      ''best_nonce'' (nullable_u32 J (u_best_nonce u))"

definition nonce_from_json :: "'j json_api \<Rightarrow> 'j \<Rightarrow> u32 option outcome" where
  "nonce_from_json J item =
    (if j_contains J item ''best_nonce'' then
       bindE (j_at J item ''best_nonce'') (\<lambda>v.
         if j_is_null J v then Inr None else bindE (j_get_u32 J v) (\<lambda>n. Inr (Some n)))
     else Inr None)"

definition unit_from_json :: "'j json_api \<Rightarrow> 'j \<Rightarrow> work_unit outcome" where
  "unit_from_json J item =
    bindE (at_get J (j_get_string J) item ''id'') (\<lambda>ident.
    bindE (at_get J (j_get_string J) item ''job_id'') (\<lambda>job.
    bindE (value_or J (j_get_string J) item ''prevhash'' '''') (\<lambda>prev.
    bindE (value_or J (j_get_string J) item ''extranonce2'' '''') (\<lambda>en2.
    bindE (at_get J (j_get_u64 J) item ''nonce_start'') (\<lambda>nstart.
    bindE (at_get J (j_get_u64 J) item ''nonce_end'') (\<lambda>nend.
    bindE (at_get J (j_get_u64 J) item ''nonce_next'') (\<lambda>nnext.
    bindE (bindE (at_get J (j_get_string J) item ''status'') parse_status) (\<lambda>st.
    bindE (bindE (value_or J (j_get_string J) item ''worker'' ''CPU'') parse_worker) (\<lambda>wk.
    bindE (value_or J (j_get_u64 J) item ''generation'' 0) (\<lambda>gen.
    bindE (value_or J (j_get_u64 J) item ''hashes_tested'' 0) (\<lambda>tested.
    bindE (value_or J (j_get_string J) item ''best_hash'' '''') (\<lambda>bhash.
    bindE (nonce_from_json J item) (\<lambda>bnonce.
      Inr \<lparr>u_id = ident, u_job_id = job, u_prevhash = prev, u_extranonce2 = en2, u_nonce_start = nstart,
           u_nonce_end = nend, u_nonce_next = nnext, u_status = st, u_worker = wk, u_generation = gen,
           u_hashes_tested = tested, u_best_hash = bhash, u_best_nonce = bnonce\<rparr>)))))))))))))"

section \<open>The allocator\<close>

record 'j allocator =
  wa_mode :: string
  wa_units :: "work_unit list"
  wa_metadata :: 'j

type_synonym ('a, 'j) step = "'a outcome \<times> 'j allocator"

definition empty_state :: "'j json_api \<Rightarrow> string \<Rightarrow> 'j" where
  "empty_state J mode =
    j_object J [(''schema_version'', j_unsigned J 1), (''mode'', j_string J mode), (''work_units'', j_array J [])]"

definition reload_unit :: "work_unit \<Rightarrow> work_unit" where
  "reload_unit u = (if u_status u = InProgress then u\<lparr>u_status := Pending\<rparr> else u)"

definition load_existing :: "'j json_api \<Rightarrow> disk \<Rightarrow> string \<Rightarrow> string \<Rightarrow> 'j allocator outcome" where
  "load_existing J d path mode =
    bindE (load_or J d path (empty_state J mode)) (\<lambda>state.
    bindE (value_or J Inr state ''work_units'' (j_array J [])) (\<lambda>items.
    bindE (mapE (unit_from_json J) (j_items J items)) (\<lambda>us.
      Inr \<lparr>wa_mode = mode, wa_units = List.map reload_unit us, wa_metadata = state\<rparr>)))"

definition encode_extranonce2 :: "u64 \<Rightarrow> u32 \<Rightarrow> string outcome" where
  "encode_extranonce2 val en_size =
    (if en_size = 0 then Inr ''''
     else if en_size > 8
     then Inl (Invalid_argument ''extranonce2_size greater than 8 is not supported by the allocator counter'')
     else if en_size < 8 \<and> val \<ge> push_bit (unat en_size * 8) 1
     then Inl (Overflow_error ''extranonce2 counter exhausted'')
     else Inr (setw_hex (unat en_size * 2) (unat val)))"

definition fresh_unit ::
    "string \<Rightarrow> string \<Rightarrow> string \<Rightarrow> string \<Rightarrow> u64 \<Rightarrow> u64 \<Rightarrow> worker_kind \<Rightarrow> u64 \<Rightarrow> work_unit" where
  "fresh_unit ident job prev en2 nstart nend kind gen =
    \<lparr>u_id = ident, u_job_id = job, u_prevhash = prev, u_extranonce2 = en2, u_nonce_start = nstart,
     u_nonce_end = nend, u_nonce_next = nstart, u_status = Pending, u_worker = kind, u_generation = gen,
     u_hashes_tested = 0, u_best_hash = '''', u_best_nonce = None\<rparr>"

text \<open>The bound \<open>(length * i) / count\<close> of the code's partitions, in 64-bit arithmetic.\<close>

definition chunk_bound :: "u64 \<Rightarrow> u32 \<Rightarrow> u32 \<Rightarrow> u64" where
  "chunk_bound len i count = (len * ucast i) div ucast count"

definition unit_indices :: "u32 \<Rightarrow> u32 list" where
  "unit_indices count = List.map of_nat [0..<unat count]"

definition is_compact :: "'j allocator \<Rightarrow> bool" where
  "is_compact a = (wa_mode a = ''live'' \<or> wa_mode a = ''mock_stratum'')"

definition push_units :: "work_unit list \<Rightarrow> 'j allocator \<Rightarrow> 'j allocator" where
  "push_units us a = a\<lparr>wa_units := wa_units a @ us\<rparr>"

definition set_metadata :: "'j json_api \<Rightarrow> string \<Rightarrow> 'j \<Rightarrow> 'j allocator \<Rightarrow> 'j allocator" where
  "set_metadata J key val a = a\<lparr>wa_metadata := j_set J (wa_metadata a) key val\<rparr>"

definition cpu_group ::
    "string \<Rightarrow> string \<Rightarrow> string \<Rightarrow> string \<Rightarrow> u32 \<Rightarrow> u32 \<Rightarrow> u64 \<Rightarrow> work_unit list" where
  "cpu_group prefix job prev en count partitions gen =
    List.map (\<lambda>i.
      fresh_unit (prefix @ ''-cpu-'' @ to_string (unat i)) job prev en
        (chunk_bound 0x100000000 i partitions) (chunk_bound 0x100000000 (i + 1) partitions) Cpu gen)
      (unit_indices count)"

definition create_units ::
    "'j json_api \<Rightarrow> string \<Rightarrow> string \<Rightarrow> u32 \<Rightarrow> u32 \<Rightarrow> bool \<Rightarrow> u64 \<Rightarrow> 'j allocator \<Rightarrow> (unit, 'j) step" where
  "create_units J job prev en_size cpu_workers gpu gen a =
    (let cpu_count = max 1 cpu_workers;
         shared = (en_size = 0 \<and> gpu);
         partitions = cpu_count + (if shared then 1 else 0)
     in case encode_extranonce2 0 en_size of
          Inl e \<Rightarrow> (Inl e, a)
        | Inr cpu_en \<Rightarrow>
          let a1 = push_units (cpu_group (job @ ''-g'' @ to_string (unat gen)) job prev cpu_en cpu_count partitions gen) a;
              counter = set_metadata J ''next_extranonce2_counter''
                (j_unsigned J (if en_size = 0 then 0 else if gpu then 2 else 1))
          in if gpu then
               (case encode_extranonce2 (if en_size = 0 then 0 else 1) en_size of
                  Inl e \<Rightarrow> (Inl e, a1)
                | Inr gpu_en \<Rightarrow>
                  (Inr (), counter (push_units
                    [fresh_unit (job @ ''-g'' @ to_string (unat gen) @ ''-gpu-0'') job prev gpu_en
                       (if shared then chunk_bound 0x100000000 cpu_count partitions else 0) 0x100000000 Gpu gen] a1)))
             else (Inr (), counter a1))"

definition append_live_group ::
    "worker_kind \<Rightarrow> string \<Rightarrow> string \<Rightarrow> u32 \<Rightarrow> u32 \<Rightarrow> u64 \<Rightarrow> u64 \<Rightarrow> 'j allocator \<Rightarrow> (unit, 'j) step" where
  "append_live_group kind job prev en_size cpu_workers gen counter a =
    (case encode_extranonce2 counter en_size of
       Inl e \<Rightarrow> (Inl e, a)
     | Inr en \<Rightarrow>
       let suffix = ''-g'' @ to_string (unat gen) @ ''-x'' @ en
       in if kind = Gpu
          then (Inr (), push_units [fresh_unit (job @ suffix @ ''-gpu'') job prev en 0 0x100000000 Gpu gen] a)
          else let count = max 1 cpu_workers
            in (Inr (), push_units (cpu_group (job @ suffix) job prev en count count gen) a))"

definition is_open :: "work_unit \<Rightarrow> bool" where
  "is_open u = (u_status u = Pending \<or> u_status u = InProgress)"

definition stale_unless_complete :: "work_unit \<Rightarrow> work_unit" where
  "stale_unless_complete u = (if u_status u \<noteq> Complete then u\<lparr>u_status := Stale\<rparr> else u)"

text \<open>The conjunction of \<^verbatim>\<open>prepare_live_job\<close> evaluates its operands from left to right and stops at
  the first that fails.\<close>

definition and_then :: "bool outcome \<Rightarrow> bool outcome \<Rightarrow> bool outcome" where
  "and_then p q = bindE p (\<lambda>b. if b then q else Inr False)"

definition metadata_is :: "'j json_api \<Rightarrow> ('j \<Rightarrow> 'a outcome) \<Rightarrow> string \<Rightarrow> 'a \<Rightarrow> 'a \<Rightarrow> 'j allocator \<Rightarrow> bool outcome" where
  "metadata_is J get key dflt expected a =
    bindE (value_or J get (wa_metadata a) key dflt) (\<lambda>v. Inr (v = expected))"

definition live_compatible ::
    "'j json_api \<Rightarrow> string \<Rightarrow> string \<Rightarrow> string \<Rightarrow> u32 \<Rightarrow> string \<Rightarrow> 'j allocator \<Rightarrow> bool outcome" where
  "live_compatible J job prev en1 en_size fingerprint a =
    and_then (metadata_is J (j_get_string J) ''last_job_id'' '''' job a)
    (and_then (metadata_is J (j_get_string J) ''last_prevhash'' '''' prev a)
    (and_then (metadata_is J (j_get_string J) ''extranonce1'' '''' en1 a)
    (and_then (metadata_is J (j_get_u32 J) ''extranonce2_size'' 0 en_size a)
    (and_then (metadata_is J (j_get_string J) ''work_fingerprint'' '''' fingerprint a)
      (Inr (list_ex (\<lambda>u. u_job_id u = job \<and> u_status u \<noteq> Stale) (wa_units a)))))))"

text \<open>The first half of the compatible branch: forget what is settled, reopen what was running.\<close>

definition kept_unit :: "string \<Rightarrow> string \<Rightarrow> u32 \<Rightarrow> work_unit \<Rightarrow> bool" where
  "kept_unit job prev en_size u =
    (\<not> (u_status u = Stale \<or> u_job_id u \<noteq> job \<or> u_prevhash u \<noteq> prev \<or>
        (en_size > 0 \<and> u_status u = Complete)))"

definition reopen_unit :: "u64 \<Rightarrow> work_unit \<Rightarrow> work_unit" where
  "reopen_unit gen u =
    (let u1 = (if u_status u = InProgress then u\<lparr>u_status := Pending\<rparr> else u)
     in if u_status u1 = Pending then u1\<lparr>u_generation := gen\<rparr> else u1)"

definition resume_units :: "string \<Rightarrow> string \<Rightarrow> u32 \<Rightarrow> u64 \<Rightarrow> 'j allocator \<Rightarrow> 'j allocator" where
  "resume_units job prev en_size gen a =
    (let kept = (if is_compact a then filter (kept_unit job prev en_size) (wa_units a) else wa_units a)
     in a\<lparr>wa_units := List.map (reopen_unit gen) kept\<rparr>)"

definition has_open_work :: "string \<Rightarrow> worker_kind \<Rightarrow> 'j allocator \<Rightarrow> bool" where
  "has_open_work job kind a =
    list_ex (\<lambda>u. u_job_id u = job \<and> u_worker u = kind \<and> is_open u) (wa_units a)"

text \<open>Its second half: a group with a new extranonce for a kind of worker that has nothing to do.\<close>

definition refill_group ::
    "bool \<Rightarrow> worker_kind \<Rightarrow> string \<Rightarrow> string \<Rightarrow> u32 \<Rightarrow> u32 \<Rightarrow> u64 \<Rightarrow> u64 \<Rightarrow> 'j allocator \<Rightarrow> (u64, 'j) step" where
  "refill_group enabled kind job prev en_size cpu_workers gen counter a =
    (if enabled \<and> \<not> has_open_work job kind a
     then (case append_live_group kind job prev en_size cpu_workers gen counter a of
             (Inl e, a') \<Rightarrow> (Inl e, a')
           | (Inr _, a') \<Rightarrow> (Inr (counter + 1), a'))
     else (Inr counter, a))"

definition resume_live ::
    "'j json_api \<Rightarrow> string \<Rightarrow> string \<Rightarrow> u32 \<Rightarrow> u32 \<Rightarrow> bool \<Rightarrow> u64 \<Rightarrow> 'j allocator \<Rightarrow> (unit, 'j) step" where
  "resume_live J job prev en_size cpu_workers gpu gen a =
    (let a1 = resume_units job prev en_size gen a
     in if en_size > 0 then
          (case value_or J (j_get_u64 J) (wa_metadata a1) ''next_extranonce2_counter'' 0 of
             Inl e \<Rightarrow> (Inl e, a1)
           | Inr counter \<Rightarrow>
             (case refill_group True Cpu job prev en_size cpu_workers gen counter a1 of
                (Inl e, a2) \<Rightarrow> (Inl e, a2)
              | (Inr counter2, a2) \<Rightarrow>
                (case refill_group gpu Gpu job prev en_size cpu_workers gen counter2 a2 of
                   (Inl e, a3) \<Rightarrow> (Inl e, a3)
                 | (Inr counter3, a3) \<Rightarrow>
                   (Inr (), set_metadata J ''next_extranonce2_counter'' (j_unsigned J counter3) a3))))
        else (Inr (), a1))"

definition start_live ::
    "'j json_api \<Rightarrow> string \<Rightarrow> string \<Rightarrow> u32 \<Rightarrow> u32 \<Rightarrow> bool \<Rightarrow> u64 \<Rightarrow> 'j allocator \<Rightarrow> (unit, 'j) step" where
  "start_live J job prev en_size cpu_workers gpu gen a =
    create_units J job prev en_size cpu_workers gpu gen
      (if is_compact a then a\<lparr>wa_units := []\<rparr>
       else a\<lparr>wa_units := List.map stale_unless_complete (wa_units a)\<rparr>)"

definition record_live_job ::
    "'j json_api \<Rightarrow> string \<Rightarrow> string \<Rightarrow> string \<Rightarrow> u32 \<Rightarrow> string \<Rightarrow> u32 \<Rightarrow> bool \<Rightarrow> 'j allocator \<Rightarrow> 'j allocator" where
  "record_live_job J job prev en1 en_size fingerprint cpu_workers gpu a =
    set_metadata J ''gpu_enabled'' (j_boolean J gpu)
    (set_metadata J ''cpu_workers'' (j_unsigned J (ucast cpu_workers))
    (set_metadata J ''work_fingerprint'' (j_string J fingerprint)
    (set_metadata J ''extranonce2_size'' (j_unsigned J (ucast en_size))
    (set_metadata J ''extranonce1'' (j_string J en1)
    (set_metadata J ''last_prevhash'' (j_string J prev)
    (set_metadata J ''last_job_id'' (j_string J job) a))))))"

definition prepare_live_job ::
    "'j json_api \<Rightarrow> string \<Rightarrow> string \<Rightarrow> string \<Rightarrow> u32 \<Rightarrow> string \<Rightarrow> u32 \<Rightarrow> bool \<Rightarrow> u64 \<Rightarrow> 'j allocator \<Rightarrow> (bool, 'j) step" where
  "prepare_live_job J job prev en1 en_size fingerprint cpu_workers gpu gen a =
    (case live_compatible J job prev en1 en_size fingerprint a of
       Inl e \<Rightarrow> (Inl e, a)
     | Inr compatible \<Rightarrow>
       (case (if compatible then resume_live J job prev en_size cpu_workers gpu gen a
              else start_live J job prev en_size cpu_workers gpu gen a) of
          (Inl e, a') \<Rightarrow> (Inl e, a')
        | (Inr _, a') \<Rightarrow> (Inr compatible, record_live_job J job prev en1 en_size fingerprint cpu_workers gpu a')))"

definition historical_compatible ::
    "'j json_api \<Rightarrow> string \<Rightarrow> u64 \<Rightarrow> u64 \<Rightarrow> u32 \<Rightarrow> 'j allocator \<Rightarrow> bool outcome" where
  "historical_compatible J header_id nstart nend hround a =
    and_then (metadata_is J (j_get_string J) ''header_id'' '''' header_id a)
    (and_then (metadata_is J (j_get_u32 J) ''current_round'' 0 hround a)
    (and_then (metadata_is J (j_get_u64 J) ''nonce_start'' 0 nstart a)
    (and_then (metadata_is J (j_get_u64 J) ''nonce_end'' 0 nend a)
      (Inr (list_ex (\<lambda>u. u_job_id u = header_id \<and> u_generation u = ucast hround \<and> u_status u \<noteq> Stale)
        (wa_units a))))))"

definition historical_units :: "string \<Rightarrow> u64 \<Rightarrow> u64 \<Rightarrow> u32 \<Rightarrow> u32 \<Rightarrow> work_unit list" where
  "historical_units header_id nstart nend workers hround =
    (let count = max 1 workers; len = nend - nstart
     in List.map (\<lambda>i.
          fresh_unit (header_id @ ''-r'' @ to_string (unat hround) @ ''-cpu-'' @ to_string (unat i))
            header_id '''' '''' (nstart + chunk_bound len i count) (nstart + chunk_bound len (i + 1) count)
            Cpu (ucast hround))
        (unit_indices count))"

definition prepare_historical ::
    "'j json_api \<Rightarrow> string \<Rightarrow> u64 \<Rightarrow> u64 \<Rightarrow> u32 \<Rightarrow> u32 \<Rightarrow> 'j allocator \<Rightarrow> (bool, 'j) step" where
  "prepare_historical J header_id nstart nend workers hround a =
    (case historical_compatible J header_id nstart nend hround a of
       Inl e \<Rightarrow> (Inl e, a)
     | Inr compatible \<Rightarrow>
       let a1 = (if compatible then a
                 else push_units (historical_units header_id nstart nend workers hround)
                        (a\<lparr>wa_units := List.map stale_unless_complete (wa_units a)\<rparr>))
       in (Inr compatible,
           set_metadata J ''nonce_end'' (j_unsigned J nend)
           (set_metadata J ''nonce_start'' (j_unsigned J nstart)
           (set_metadata J ''current_round'' (j_unsigned J (ucast hround))
           (set_metadata J ''header_id'' (j_string J header_id) a1)))))"

section \<open>Claims\<close>

text \<open>The operations below change the first unit with some property.\<close>

fun update_first :: "('a \<Rightarrow> bool) \<Rightarrow> ('a \<Rightarrow> 'a) \<Rightarrow> 'a list \<Rightarrow> 'a list" where
  "update_first P f [] = []"
| "update_first P f (x # xs) = (if P x then f x # xs else x # update_first P f xs)"

definition available :: "worker_kind \<Rightarrow> work_unit \<Rightarrow> bool" where
  "available kind u = (u_worker u = kind \<and> u_status u = Pending \<and> u_nonce_next u < u_nonce_end u)"

definition acquire :: "worker_kind \<Rightarrow> 'j allocator \<Rightarrow> work_unit option \<times> 'j allocator" where
  "acquire kind a =
    (case find (available kind) (wa_units a) of
       None \<Rightarrow> (None, a)
     | Some u \<Rightarrow> (Some (u\<lparr>u_status := InProgress\<rparr>),
         a\<lparr>wa_units := update_first (available kind) (u_status_update (\<lambda>_. InProgress)) (wa_units a)\<rparr>))"

definition clamp :: "u64 \<Rightarrow> u64 \<Rightarrow> u64 \<Rightarrow> u64" where
  "clamp v lo hi = (if v < lo then lo else if hi < v then hi else v)"

definition progress_unit :: "u64 \<Rightarrow> u64 \<Rightarrow> string \<Rightarrow> u32 option \<Rightarrow> work_unit \<Rightarrow> work_unit" where
  "progress_unit nnext delta bhash bnonce u =
    (if u_status u = Complete \<or> u_status u = Stale then u
     else
       let u1 = u\<lparr>u_nonce_next := clamp nnext (u_nonce_start u) (u_nonce_end u),
                  u_hashes_tested := u_hashes_tested u + delta\<rparr>
       in if bhash \<noteq> '''' \<and> (u_best_hash u1 = '''' \<or> bhash < u_best_hash u1)
          then u1\<lparr>u_best_hash := bhash, u_best_nonce := bnonce\<rparr> else u1)"

definition unknown_unit :: "string \<Rightarrow> 'a outcome" where
  "unknown_unit ident = Inl (Invalid_argument (''unknown work unit: '' @ ident))"

definition update_progress ::
    "string \<Rightarrow> u64 \<Rightarrow> u64 \<Rightarrow> string \<Rightarrow> u32 option \<Rightarrow> 'j allocator \<Rightarrow> (unit, 'j) step" where
  "update_progress ident nnext delta bhash bnonce a =
    (if list_ex (\<lambda>u. u_id u = ident) (wa_units a)
     then (Inr (), a\<lparr>wa_units := update_first (\<lambda>u. u_id u = ident) (progress_unit nnext delta bhash bnonce) (wa_units a)\<rparr>)
     else (unknown_unit ident, a))"

definition complete_unit :: "work_unit \<Rightarrow> work_unit" where
  "complete_unit u = u\<lparr>u_nonce_next := u_nonce_end u, u_status := Complete\<rparr>"

definition drop_completed :: "'j allocator \<Rightarrow> 'j allocator" where
  "drop_completed a = a\<lparr>wa_units := filter (\<lambda>u. u_status u \<noteq> Complete) (wa_units a)\<rparr>"

text \<open>What \<^verbatim>\<open>complete\<close> does next in the live modes: a new group when the unit's kind of worker has
  nothing left in its job and generation, then the completed units go.\<close>

definition replenish :: "'j json_api \<Rightarrow> work_unit \<Rightarrow> 'j allocator \<Rightarrow> (unit, 'j) step" where
  "replenish J u a =
    (if list_ex (\<lambda>c. u_job_id c = u_job_id u \<and> u_generation c = u_generation u \<and> u_worker c = u_worker u \<and> is_open c)
          (wa_units a)
     then (Inr (), drop_completed a)
     else
       case value_or J (j_get_u64 J) (wa_metadata a) ''next_extranonce2_counter'' 0 of
         Inl e \<Rightarrow> (Inl e, a)
       | Inr counter \<Rightarrow>
       case value_or J (j_get_u32 J) (wa_metadata a) ''extranonce2_size'' 0 of
         Inl e \<Rightarrow> (Inl e, a)
       | Inr en_size \<Rightarrow>
       case value_or J (j_get_u32 J) (wa_metadata a) ''cpu_workers'' 1 of
         Inl e \<Rightarrow> (Inl e, a)
       | Inr cpu_workers \<Rightarrow>
       case append_live_group (u_worker u) (u_job_id u) (u_prevhash u) en_size cpu_workers (u_generation u) counter a of
         (Inl e, a') \<Rightarrow> (Inl e, a')
       | (Inr _, a') \<Rightarrow>
         (Inr (), drop_completed
            (set_metadata J ''next_extranonce2_counter'' (j_unsigned J (counter + 1)) a')))"

definition complete :: "'j json_api \<Rightarrow> string \<Rightarrow> 'j allocator \<Rightarrow> (unit, 'j) step" where
  "complete J ident a =
    (case find (\<lambda>u. u_id u = ident) (wa_units a) of
       None \<Rightarrow> (unknown_unit ident, a)
     | Some u \<Rightarrow>
       let a1 = a\<lparr>wa_units := update_first (\<lambda>u. u_id u = ident) complete_unit (wa_units a)\<rparr>
       in if is_compact a1 then
            (case value_or J (j_get_u32 J) (wa_metadata a1) ''extranonce2_size'' 0 of
               Inl e \<Rightarrow> (Inl e, a1)
             | Inr en_size \<Rightarrow> if en_size > 0 then replenish J u a1 else (Inr (), a1))
          else (Inr (), a1))"

definition release :: "string \<Rightarrow> 'j allocator \<Rightarrow> 'j allocator" where
  "release ident a =
    a\<lparr>wa_units := update_first (\<lambda>u. u_id u = ident \<and> u_status u = InProgress)
                  (u_status_update (\<lambda>_. Pending)) (wa_units a)\<rparr>"

definition mark_generation_stale :: "u64 \<Rightarrow> 'j allocator \<Rightarrow> 'j allocator" where
  "mark_generation_stale gen a =
    a\<lparr>wa_units := List.map (\<lambda>u. if u_generation u = gen \<and> u_status u \<noteq> Complete
                               then u\<lparr>u_status := Stale\<rparr> else u) (wa_units a)\<rparr>"

definition mark_all_stale :: "'j allocator \<Rightarrow> 'j allocator" where
  "mark_all_stale a = a\<lparr>wa_units := List.map stale_unless_complete (wa_units a)\<rparr>"

section \<open>Snapshots\<close>

definition best_of_units :: "work_unit list \<Rightarrow> string \<times> u32 option" where
  "best_of_units us =
    fold (\<lambda>u (bhash, bnonce).
      if u_best_hash u \<noteq> '''' \<and> (bhash = '''' \<or> u_best_hash u < bhash)
      then (u_best_hash u, u_best_nonce u) else (bhash, bnonce)) us ('''', None)"

definition completed_range_json :: "'j json_api \<Rightarrow> work_unit \<Rightarrow> 'j" where
  "completed_range_json J u =
    j_object J [(''job_id'', j_string J (u_job_id u)), (''extranonce2'', j_string J (u_extranonce2 u)),
      (''nonce_start'', j_unsigned J (u_nonce_start u)), (''nonce_end'', j_unsigned J (u_nonce_end u))]"

text \<open>The extranonces all of whose units are complete, in the order of the \<^verbatim>\<open>std::map\<close>.\<close>

definition tracked_extranonces :: "work_unit list \<Rightarrow> (string \<times> bool) list" where
  "tracked_extranonces us =
    List.map (\<lambda>en. (en, list_all (\<lambda>u. u_extranonce2 u = en \<longrightarrow> u_status u = Complete \<or> u_status u = Stale) us))
      (sorted_list_of_set (u_extranonce2 ` set (filter (\<lambda>u. u_extranonce2 u \<noteq> '''' \<and> u_status u \<noteq> Stale) us)))"

definition snapshot :: "'j json_api \<Rightarrow> 'j allocator \<Rightarrow> 'j" where
  "snapshot J a =
    (let us = wa_units a;
         (bhash, bnonce) = best_of_units us
     in fold (\<lambda>(k, v) s. j_set J s k v)
          [(''schema_version'', j_unsigned J 1), (''mode'', j_string J (wa_mode a)),
           (''work_units'', j_array J (List.map (unit_to_json J) us)),
           (''hashes_tested'', j_unsigned J (sum_list (List.map u_hashes_tested us))),
           (''best_hash'', j_string J bhash), (''best_nonce'', nullable_u32 J bnonce),
           (''completed_ranges'', j_array J (List.map (completed_range_json J) (filter (\<lambda>u. u_status u = Complete) us))),
           (''completed_extranonce2'', j_array J (List.map (\<lambda>(en, _). j_string J en) (filter snd (tracked_extranonces us))))]
          (wa_metadata a))"

definition checkpoint ::
    "'j json_api \<Rightarrow> (string \<Rightarrow> disk \<Rightarrow> disk list \<times> unit outcome) \<Rightarrow> 'j \<Rightarrow> 'j allocator \<Rightarrow> disk \<Rightarrow> disk list \<times> unit outcome" where
  "checkpoint J save extra a d = save (save_payload J (j_merge J (snapshot J a) extra)) d"

section \<open>Partitions of the nonce space\<close>

text \<open>Ranges that follow one another without a gap from one bound to the other.\<close>

fun chain :: "nat \<Rightarrow> (u64 \<times> u64) list \<Rightarrow> nat \<Rightarrow> bool" where
  "chain lo [] hi = (lo = hi)"
| "chain lo ((s, e) # rs) hi = (unat s = lo \<and> s \<le> e \<and> chain (unat e) rs hi)"

definition unit_range :: "work_unit \<Rightarrow> u64 \<times> u64" where
  "unit_range u = (u_nonce_start u, u_nonce_end u)"

definition in_range :: "nat \<Rightarrow> u64 \<times> u64 \<Rightarrow> bool" where
  "in_range n r = (unat (fst r) \<le> n \<and> n < unat (snd r))"

lemma chain_append: "chain lo (xs @ ys) hi \<longleftrightarrow> (\<exists>m. chain lo xs m \<and> chain m ys hi)"
  by (induction xs arbitrary: lo) (auto split: prod.splits)

lemma chain_bounds: "chain lo rs hi \<Longrightarrow> lo \<le> hi"
  by (induction rs arbitrary: lo) (force simp: word_le_nat_alt split: prod.splits)+

lemma chain_above: "chain m rs hi \<Longrightarrow> n < m \<Longrightarrow> i < length rs \<Longrightarrow> \<not> in_range n (rs ! i)"
proof (induction rs arbitrary: i m)
  case (Cons q qs)
  obtain s e where q: "q = (s, e)" by force
  with Cons.prems have c: "unat s = m" "unat s \<le> unat e" "chain (unat e) qs hi"
    by (simp_all add: word_le_nat_alt)
  show ?case
  proof (cases i)
    case 0
    then show ?thesis using Cons.prems c by (simp add: q in_range_def)
  next
    case (Suc j)
    then show ?thesis using Cons.IH [OF c(3)] Cons.prems c by simp
  qed
qed simp

lemma chain_covers:
  "chain lo rs hi \<Longrightarrow> lo \<le> n \<Longrightarrow> n < hi \<Longrightarrow> \<exists>!i. i < length rs \<and> in_range n (rs ! i)"
proof (induction rs arbitrary: lo)
  case Nil
  then show ?case by simp
next
  case (Cons r rs)
  obtain s e where r: "r = (s, e)" by force
  with Cons.prems have c: "unat s = lo" "unat s \<le> unat e" "chain (unat e) rs hi"
    by (simp_all add: word_le_nat_alt)
  note above = chain_above [OF c(3)]
  show ?case
  proof (cases "n < unat e")
    case True
    show ?thesis
    proof (rule ex1I [of _ 0])
      show "0 < length (r # rs) \<and> in_range n ((r # rs) ! 0)"
        using True Cons.prems c by (simp add: r in_range_def)
      fix i assume "i < length (r # rs) \<and> in_range n ((r # rs) ! i)"
      then show "i = 0" using above True c by (cases i) auto
    qed
  next
    case False
    then obtain i where i: "i < length rs" "in_range n (rs ! i)"
      and u: "\<And>j. j < length rs \<and> in_range n (rs ! j) \<Longrightarrow> j = i"
      using Cons.IH [OF c(3)] Cons.prems by (metis not_le)
    show ?thesis
    proof (rule ex1I [of _ "Suc i"])
      show "Suc i < length (r # rs) \<and> in_range n ((r # rs) ! Suc i)" using i by simp
      fix j assume "j < length (r # rs) \<and> in_range n ((r # rs) ! j)"
      then show "j = Suc i" using u False by (cases j) (auto simp: r in_range_def)
    qed
  qed
qed

lemma chain_map_upt:
  assumes "\<And>i. i < n \<Longrightarrow> unat (f (Suc i)) \<ge> unat (f i)"
  shows "chain (unat (f 0)) (List.map (\<lambda>i. (f i, f (Suc i))) [0..<n]) (unat (f n))"
  using assms
proof (induction n)
  case (Suc n)
  have "chain (unat (f 0)) (List.map (\<lambda>i. (f i, f (Suc i))) [0..<n] @ [(f n, f (Suc n))]) (unat (f (Suc n)))"
    unfolding chain_append using Suc by (auto simp: word_le_nat_alt)
  then show ?case by simp
qed simp

lemma unat_chunk_bound:
  assumes "unat len \<le> 2 ^ 32"
  shows "unat (chunk_bound len i count) = unat len * unat i div unat count"
proof -
  have "unat i < 2 ^ 32" using unsigned_less [of i] by simp
  then have "unat len * unat i < 2 ^ 32 * 2 ^ 32"
    by (meson assms le_less_trans less_le_trans mult_le_mono1 mult_less_mono2 zero_less_numeral zero_less_power)
  then show ?thesis
    by (simp add: chunk_bound_def unat_div unat_word_ariths)
qed

lemma chunks_chain:
  assumes "unat len \<le> 2 ^ 32" "0 < unat count" "n \<le> unat count"
  shows "chain 0 (List.map (\<lambda>i. (chunk_bound len i count, chunk_bound len (i + 1) count)) (List.map of_nat [0..<n]))
    (unat (chunk_bound len (of_nat n) count))"
proof -
  let ?f = "\<lambda>i. chunk_bound len (of_nat i) count"
  have b: "unat (of_nat i :: u32) = i" if "i \<le> n" for i
    using that assms(3) unsigned_less [of count, where ?'a = nat] by (simp add: unat_of_nat)
  have f: "unat (?f i) = unat len * i div unat count" if "i \<le> n" for i
    using that by (simp only: unat_chunk_bound [OF assms(1)] b)
  have "chain (unat (?f 0)) (List.map (\<lambda>i. (?f i, ?f (Suc i))) [0..<n]) (unat (?f n))"
  proof (rule chain_map_upt)
    fix i assume "i < n"
    then show "unat (?f i) \<le> unat (?f (Suc i))"
      by (simp only: f Suc_leI less_imp_le) (simp add: div_le_mono)
  qed
  moreover have "unat (?f 0) = 0" using f [of 0] by simp
  ultimately show ?thesis by (simp add: comp_def add.commute)
qed

lemma unat_max_1: "0 < unat (max 1 (w :: u32))"
  by (metis max_def unat_gt_0 word_le_0_iff zero_neq_one)

lemma full_chunks_chain:
  assumes "0 < unat count"
  shows "chain 0 (List.map (\<lambda>i. (chunk_bound 0x100000000 i count, chunk_bound 0x100000000 (i + 1) count)) (unit_indices count)) (2 ^ 32)"
  using chunks_chain [of "0x100000000" count "unat count"] assms
  by (simp add: unit_indices_def unat_chunk_bound)

section \<open>Live work is never shared\<close>

text \<open>
  What identifies a unit's work: the fields no claim changes. Two units are separate when their
  names differ and no nonce of the same extranonce lies in both their ranges.
\<close>

definition static_part :: "work_unit \<Rightarrow> work_unit" where
  "static_part u = u\<lparr>u_nonce_next := 0, u_status := Pending, u_generation := 0,
     u_hashes_tested := 0, u_best_hash := '''', u_best_nonce := None\<rparr>"

definition disjoint_work :: "work_unit \<Rightarrow> work_unit \<Rightarrow> bool" where
  "disjoint_work u v \<longleftrightarrow> u_extranonce2 u = u_extranonce2 v \<longrightarrow>
    (\<forall>n. \<not> (in_range n (unit_range u) \<and> in_range n (unit_range v)))"

definition separate :: "work_unit \<Rightarrow> work_unit \<Rightarrow> bool" where
  "separate u v \<longleftrightarrow> u_id u \<noteq> u_id v \<and> disjoint_work u v"

named_theorems static_simps

lemma static_fields [static_simps]:
  "u_id (static_part u) = u_id u" "u_job_id (static_part u) = u_job_id u"
  "u_prevhash (static_part u) = u_prevhash u" "u_extranonce2 (static_part u) = u_extranonce2 u"
  "u_worker (static_part u) = u_worker u" "unit_range (static_part u) = unit_range u"
  "u_nonce_end (static_part u) = u_nonce_end u" "u_nonce_start (static_part u) = u_nonce_start u"
  by (simp_all add: static_part_def unit_range_def)

lemma static_ops [static_simps]:
  "static_part (u_status_update f u) = static_part u"
  "static_part (progress_unit n d h b u) = static_part u"
  "static_part (complete_unit u) = static_part u"
  "static_part (stale_unless_complete u) = static_part u"
  "static_part (reopen_unit g u) = static_part u"
  by (simp_all add: static_part_def progress_unit_def complete_unit_def stale_unless_complete_def
      reopen_unit_def Let_def)

lemma separate_static: "separate (static_part u) (static_part v) = separate u v"
  by (simp add: separate_def disjoint_work_def static_simps)

lemma map_update_first: "(\<And>x. g (f x) = g x) \<Longrightarrow> List.map g (update_first P f xs) = List.map g xs"
  by (induction xs) auto

lemma set_update_first: "y \<in> set (update_first P f xs) \<Longrightarrow> y \<in> set xs \<or> (\<exists>x\<in>set xs. P x \<and> y = f x)"
  by (induction xs) (auto split: if_splits)

text \<open>The shape of a live unit: its name starts with the job and a generation and goes on with the
  worker, or with its extranonce; its extranonce encodes a counter below the next one.\<close>

definition live_name :: "string \<Rightarrow> work_unit \<Rightarrow> bool" where
  "live_name job u \<longleftrightarrow> (\<exists>g r. u_id u = job @ ''-g'' @ to_string g @ CHR ''-'' # r \<and>
     (hd r \<noteq> CHR ''x'' \<or> (\<exists>t. r = CHR ''x'' # u_extranonce2 u @ CHR ''-'' # t)))"

definition counter_below :: "u32 \<Rightarrow> u64 \<Rightarrow> string \<Rightarrow> bool" where
  "counter_below en_size c en \<longleftrightarrow>
    (if en_size = 0 then en = '''' else \<exists>k<c. encode_extranonce2 k en_size = Inr en)"

definition live_unit :: "string \<Rightarrow> string \<Rightarrow> u32 \<Rightarrow> u64 \<Rightarrow> work_unit \<Rightarrow> bool" where
  "live_unit job prev en_size c u \<longleftrightarrow> u_job_id u = job \<and> u_prevhash u = prev \<and> live_name job u \<and>
     counter_below en_size c (u_extranonce2 u)"

definition live_units_ok :: "string \<Rightarrow> string \<Rightarrow> u32 \<Rightarrow> u64 \<Rightarrow> work_unit list \<Rightarrow> bool" where
  "live_units_ok job prev en_size c us \<longleftrightarrow>
     (\<forall>u\<in>set us. live_unit job prev en_size c u) \<and> sorted_wrt separate us"

lemma live_unit_static: "live_unit job prev en_size c (static_part u) = live_unit job prev en_size c u"
  by (simp add: live_unit_def live_name_def static_simps)

lemma live_units_ok_map_static:
  "live_units_ok job prev en_size c (List.map static_part us) = live_units_ok job prev en_size c us"
  by (simp add: live_units_ok_def live_unit_static sorted_wrt_map separate_static)

lemma live_units_ok_cong:
  "List.map static_part us = List.map static_part vs \<Longrightarrow>
    live_units_ok job prev en_size c us = live_units_ok job prev en_size c vs"
  by (metis live_units_ok_map_static)

lemma live_units_ok_filter: "live_units_ok job prev en_size c us \<Longrightarrow> live_units_ok job prev en_size c (filter P us)"
  by (auto simp: live_units_ok_def intro: sorted_wrt_filter)

lemma counter_below_mono: "counter_below en_size c en \<Longrightarrow> c \<le> c' \<Longrightarrow> counter_below en_size c' en"
  by (auto simp: counter_below_def intro: order.strict_trans2 split: if_splits)

lemma live_units_ok_mono:
  "live_units_ok job prev en_size c us \<Longrightarrow> c \<le> c' \<Longrightarrow> live_units_ok job prev en_size c' us"
  by (auto simp: live_units_ok_def live_unit_def intro: counter_below_mono)

lemma live_units_ok_append:
  assumes "live_units_ok job prev en_size c us" "live_units_ok job prev en_size c vs"
    and "\<And>u v. u \<in> set us \<Longrightarrow> v \<in> set vs \<Longrightarrow> separate u v"
  shows "live_units_ok job prev en_size c (us @ vs)"
  using assms by (auto simp: live_units_ok_def sorted_wrt_append)

lemma encode_inject:
  assumes "encode_extranonce2 m en_size = Inr a" "encode_extranonce2 n en_size = Inr b" "en_size \<noteq> 0"
  shows "a = b \<longleftrightarrow> m = n" "length a = 2 * unat en_size"
proof -
  have s: "0 < unat en_size" "unat en_size \<le> 8"
    using assms by (auto simp: encode_extranonce2_def word_less_nat_alt unat_gt_0 not_le split: if_splits)
  have b: "unat k < 16 ^ (unat en_size * 2)" if "encode_extranonce2 k en_size = Inr x" for k x
  proof (cases "unat en_size = 8")
    case True
    then show ?thesis using unsigned_less [of k, where ?'a = nat] by simp
  next
    case False
    then have lt: "en_size < 8" "unat en_size * 8 < 64" using s by (simp_all add: word_less_nat_alt)
    then have "k < push_bit (unat en_size * 8) 1"
      using that assms(3) by (auto simp: encode_extranonce2_def split: if_splits)
    moreover have "unat (push_bit (unat en_size * 8) (1 :: u64)) = 2 ^ (unat en_size * 8)"
      using lt(2) by (simp only: unsigned_push_bit_eq) (simp add: push_bit_eq_mult take_bit_nat_eq_self)
    ultimately have "unat k < 2 ^ (unat en_size * 8)" by (simp add: word_less_nat_alt)
    then show ?thesis by (simp add: power_mult power_even_eq mult.commute [of _ 8] mult.commute [of _ 2])
  qed
  have e: "a = setw_hex (unat en_size * 2) (unat m)" "b = setw_hex (unat en_size * 2) (unat n)"
    using assms by (auto simp: encode_extranonce2_def split: if_splits)
  show "a = b \<longleftrightarrow> m = n" "length a = 2 * unat en_size"
    unfolding e using setw_hex_inject [OF b [OF assms(1)] b [OF assms(2)]] s
    by (simp_all add: word_unat_eq_iff)
qed

text \<open>Groups of units.\<close>

lemma fresh_unit_fields [simp]:
  "u_id (fresh_unit i j p e s n k g) = i" "u_job_id (fresh_unit i j p e s n k g) = j"
  "u_prevhash (fresh_unit i j p e s n k g) = p" "u_extranonce2 (fresh_unit i j p e s n k g) = e"
  "unit_range (fresh_unit i j p e s n k g) = (s, n)" "u_worker (fresh_unit i j p e s n k g) = k"
  "u_status (fresh_unit i j p e s n k g) = Pending" "u_generation (fresh_unit i j p e s n k g) = g"
  "u_nonce_start (fresh_unit i j p e s n k g) = s" "u_nonce_end (fresh_unit i j p e s n k g) = n"
  "u_nonce_next (fresh_unit i j p e s n k g) = s"
  by (simp_all add: fresh_unit_def unit_range_def)

lemma separate_sorted_wrt:
  assumes "distinct (List.map u_id us)" "chain lo (List.map unit_range us) hi"
  shows "sorted_wrt separate us"
  using assms
proof (induction us arbitrary: lo)
  case (Cons u us)
  obtain s e where u: "unit_range u = (s, e)" by force
  with Cons.prems have c: "chain (unat e) (List.map unit_range us) hi" by simp
  have "separate u v" if v: "v \<in> set us" for v
  proof -
    obtain i where i: "i < length us" "v = us ! i" using v by (auto simp: in_set_conv_nth)
    have "\<not> (in_range n (unit_range u) \<and> in_range n (unit_range v))" for n
      using chain_above [OF c, of n i] i by (auto simp: u in_range_def)
    then show ?thesis using Cons.prems(1) v by (auto simp: separate_def disjoint_work_def)
  qed
  with Cons.IH [OF _ c] Cons.prems(1) show ?case by simp
qed simp

lemma unat_unit_index: "i < unat (count :: u32) \<Longrightarrow> unat (of_nat i :: u32) = i"
  using unsigned_less [of count, where ?'a = nat] by (simp add: unat_of_nat)

lemma cpu_group_conv:
  "cpu_group prefix job prev en count partitions gen =
    List.map (\<lambda>i. fresh_unit (prefix @ ''-cpu-'' @ to_string i) job prev en
      (chunk_bound 0x100000000 (of_nat i) partitions) (chunk_bound 0x100000000 (of_nat i + 1) partitions) Cpu gen)
    [0..<unat count]"
  by (simp add: cpu_group_def unit_indices_def unat_unit_index)

lemma cpu_group_ids: "distinct (List.map u_id (cpu_group prefix job prev en count partitions gen))"
  by (simp add: cpu_group_conv comp_def distinct_map inj_on_def)

lemma cpu_group_chain:
  assumes "count \<le> partitions" "0 < unat partitions"
  shows "chain 0 (List.map unit_range (cpu_group prefix job prev en count partitions gen))
    (unat (chunk_bound 0x100000000 count partitions))"
proof -
  have "chain 0 (List.map (\<lambda>i. (chunk_bound 0x100000000 i partitions, chunk_bound 0x100000000 (i + 1) partitions))
      (List.map of_nat [0..<unat count])) (unat (chunk_bound 0x100000000 (of_nat (unat count)) partitions))"
    by (rule chunks_chain) (use assms in \<open>simp_all add: word_le_nat_alt\<close>)
  then show ?thesis by (simp add: cpu_group_def unit_indices_def comp_def)
qed

lemma in_cpu_group:
  "u \<in> set (cpu_group prefix job prev en count partitions gen) \<Longrightarrow>
    u_job_id u = job \<and> u_prevhash u = prev \<and> u_extranonce2 u = en \<and> u_worker u = Cpu \<and> u_status u = Pending \<and>
    u_generation u = gen \<and> u_nonce_next u = u_nonce_start u \<and> (\<exists>i. u_id u = prefix @ ''-cpu-'' @ to_string i)"
  by (auto simp: cpu_group_conv)

lemma live_name_cpu:
  "u_id u = (job @ ''-g'' @ to_string g) @ ''-cpu-'' @ t \<Longrightarrow> live_name job u"
  "u_id u = job @ ''-g'' @ to_string g @ ''-gpu-0'' \<Longrightarrow> live_name job u"
  "u_id u = job @ (''-g'' @ to_string g @ ''-x'' @ u_extranonce2 u) @ CHR ''-'' # t \<Longrightarrow> live_name job u"
  unfolding live_name_def
  by (rule exI [of _ g], rule exI [of _ "''cpu-'' @ t"], simp)
    (rule exI [of _ g], rule exI [of _ "''gpu-0''"], simp,
     rule exI [of _ g], rule exI [of _ "CHR ''x'' # u_extranonce2 u @ CHR ''-'' # t"], simp)

lemma dash_no_digit: "CHR ''-'' \<notin> set ''0123456789''"
  by simp

text \<open>A unit of a new group is separate from every older one.\<close>

lemma separate_new_group:
  assumes u: "live_unit job prev en_size c u" and "en_size \<noteq> 0"
    and en: "encode_extranonce2 c en_size = Inr en"
    and v: "u_extranonce2 v = en" "u_id v = job @ (''-g'' @ to_string g @ ''-x'' @ en) @ CHR ''-'' # t"
  shows "separate u v"
proof -
  obtain k where k: "k < c" "encode_extranonce2 k en_size = Inr (u_extranonce2 u)"
    using u assms(2) by (auto simp: live_unit_def counter_below_def)
  have neq: "u_extranonce2 u \<noteq> en" and len: "length (u_extranonce2 u) = length en"
    using encode_inject [OF k(2) en assms(2)] encode_inject(2) [OF en en assms(2)] k(1) by auto
  obtain g' r where r: "u_id u = job @ ''-g'' @ to_string g' @ CHR ''-'' # r"
    "hd r \<noteq> CHR ''x'' \<or> (\<exists>t. r = CHR ''x'' # u_extranonce2 u @ CHR ''-'' # t)"
    using u by (auto simp: live_unit_def live_name_def)
  have "u_id u \<noteq> u_id v"
  proof
    assume "u_id u = u_id v"
    then have "to_string g' @ CHR ''-'' # r = to_string g @ CHR ''-'' # CHR ''x'' # en @ CHR ''-'' # t"
      by (simp add: r v)
    then have "r = CHR ''x'' # en @ CHR ''-'' # t"
      unfolding to_string_append_inject [OF dash_no_digit] by simp
    then show False using r(2) neq len by auto
  qed
  then show ?thesis using neq v by (simp add: separate_def disjoint_work_def)
qed

lemma append_live_group_Inr:
  assumes "append_live_group kind job prev en_size cpu_workers gen c a = (Inr x, a')"
  obtains en us where "encode_extranonce2 c en_size = Inr en" "a' = push_units us a"
    "distinct (List.map u_id us)" "chain 0 (List.map unit_range us) (2 ^ 32)" "us \<noteq> []"
    "\<And>u. u \<in> set us \<Longrightarrow> u_job_id u = job \<and> u_prevhash u = prev \<and> u_extranonce2 u = en \<and> u_worker u = kind \<and>
       u_status u = Pending \<and> u_generation u = gen \<and> u_nonce_next u = u_nonce_start u \<and>
       (\<exists>t. u_id u = job @ (''-g'' @ to_string (unat gen) @ ''-x'' @ en) @ CHR ''-'' # t)"
proof -
  from assms obtain en where en: "encode_extranonce2 c en_size = Inr en"
    by (auto simp: append_live_group_def split: sum.splits)
  let ?suffix = "''-g'' @ to_string (unat gen) @ ''-x'' @ en"
  let ?count = "max 1 cpu_workers"
  show thesis
  proof (cases kind)
    case Gpu
    let ?u = "fresh_unit (job @ ?suffix @ ''-gpu'') job prev en 0 0x100000000 Gpu gen"
    have "a' = push_units [?u] a"
      using assms Gpu by (simp add: append_live_group_def en Let_def)
    moreover have "chain 0 (List.map unit_range [?u]) (2 ^ 32)" by simp
    ultimately show thesis using that [OF en, of "[?u]"] Gpu by simp
  next
    case Cpu
    let ?us = "cpu_group (job @ ?suffix) job prev en ?count ?count gen"
    have "a' = push_units ?us a"
      using assms Cpu by (simp add: append_live_group_def en Let_def)
    moreover have "chain 0 (List.map unit_range ?us) (2 ^ 32)"
      using cpu_group_chain [of ?count ?count "job @ ?suffix" job prev en gen] unat_max_1 [of cpu_workers]
      by (simp add: unat_chunk_bound)
    moreover have "?us \<noteq> []" using unat_max_1 [of cpu_workers] by (simp add: cpu_group_conv)
    moreover have "distinct (List.map u_id ?us)" by (rule cpu_group_ids)
    moreover have "u_job_id u = job \<and> u_prevhash u = prev \<and> u_extranonce2 u = en \<and> u_worker u = kind \<and>
        u_status u = Pending \<and> u_generation u = gen \<and> u_nonce_next u = u_nonce_start u \<and>
        (\<exists>t. u_id u = job @ (''-g'' @ to_string (unat gen) @ ''-x'' @ en) @ CHR ''-'' # t)"
      if "u \<in> set ?us" for u
    proof -
      from in_cpu_group [OF that] obtain i where "u_id u = (job @ ?suffix) @ ''-cpu-'' @ to_string i"
        and rest: "u_job_id u = job" "u_prevhash u = prev" "u_extranonce2 u = en" "u_worker u = Cpu"
          "u_status u = Pending" "u_generation u = gen" "u_nonce_next u = u_nonce_start u" by blast
      then have "u_id u = job @ (''-g'' @ to_string (unat gen) @ ''-x'' @ en) @ CHR ''-'' # ''cpu-'' @ to_string i"
        by simp
      with rest Cpu show ?thesis by blast
    qed
    ultimately show thesis by (intro that [OF en])
  qed
qed

lemma live_units_ok_new_group:
  assumes "live_units_ok job prev en_size c (wa_units a)" "en_size \<noteq> 0" "c \<noteq> - 1"
    and "append_live_group kind job prev en_size cpu_workers gen c a = (Inr x, a')"
  shows "live_units_ok job prev en_size (c + 1) (wa_units a')"
  using assms(4)
proof (rule append_live_group_Inr)
  fix en us
  assume en: "encode_extranonce2 c en_size = Inr en" and a': "a' = push_units us a"
    and d: "distinct (List.map u_id us)" "chain 0 (List.map unit_range us) (2 ^ 32)"
    and us: "\<And>u. u \<in> set us \<Longrightarrow> u_job_id u = job \<and> u_prevhash u = prev \<and> u_extranonce2 u = en \<and> u_worker u = kind \<and>
       u_status u = Pending \<and> u_generation u = gen \<and> u_nonce_next u = u_nonce_start u \<and>
       (\<exists>t. u_id u = job @ (''-g'' @ to_string (unat gen) @ ''-x'' @ en) @ CHR ''-'' # t)"
  have c: "c < c + 1"
    using assms(3) by (rule less_plus_one)
  have "live_unit job prev en_size (c + 1) u" if "u \<in> set us" for u
    using us [OF that] en c assms(2) live_name_cpu(3) [of u job "unat gen"]
    by (auto simp: live_unit_def counter_below_def)
  then have new: "live_units_ok job prev en_size (c + 1) us"
    using separate_sorted_wrt [OF d] by (simp add: live_units_ok_def)
  have old: "live_units_ok job prev en_size (c + 1) (wa_units a)"
    using assms(1) c by (simp add: live_units_ok_mono)
  have "separate u v" if "u \<in> set (wa_units a)" "v \<in> set us" for u v
    using separate_new_group [OF _ assms(2) en] us [OF that(2)] assms(1) that(1)
    by (auto simp: live_units_ok_def)
  then show ?thesis
    using live_units_ok_append [OF old new] by (simp add: a' push_units_def)
qed

definition first_counter :: "u32 \<Rightarrow> bool \<Rightarrow> u64" where
  "first_counter en_size gpu = (if en_size = 0 then 0 else if gpu then 2 else 1)"

lemma create_units_Inr:
  assumes "create_units J job prev en_size cpu_workers gpu gen a = (Inr x, a')" and "cpu_workers \<noteq> - 1"
  obtains cpus gpus cpu_en gpu_en where
    "a' = set_metadata J ''next_extranonce2_counter'' (j_unsigned J (first_counter en_size gpu)) (push_units (cpus @ gpus) a)"
    "encode_extranonce2 0 en_size = Inr cpu_en" "cpus \<noteq> []"
    "gpu \<Longrightarrow> encode_extranonce2 (if en_size = 0 then 0 else 1) en_size = Inr gpu_en"
    "distinct (List.map u_id (cpus @ gpus))"
    "\<And>u. u \<in> set cpus \<Longrightarrow> u_extranonce2 u = cpu_en \<and> u_worker u = Cpu"
    "\<And>u. u \<in> set (cpus @ gpus) \<Longrightarrow> u_job_id u = job \<and> u_prevhash u = prev \<and> live_name job u \<and>
       u_status u = Pending \<and> u_generation u = gen"
    "if gpu then \<exists>g. gpus = [g] \<and> u_extranonce2 g = gpu_en \<and> u_worker g = Gpu else gpus = []"
    "if en_size = 0 then chain 0 (List.map unit_range (cpus @ gpus)) (2 ^ 32)
     else chain 0 (List.map unit_range cpus) (2 ^ 32) \<and> (gpu \<longrightarrow> chain 0 (List.map unit_range gpus) (2 ^ 32))"
proof -
  define cc where "cc = max 1 cpu_workers"
  define shared where "shared = (en_size = 0 \<and> gpu)"
  define parts where "parts = cc + (if shared then 1 else 0)"
  have cc: "0 < unat cc" "cc \<noteq> - 1"
    using unat_max_1 [of cpu_workers] assms(2) by (auto simp: cc_def max_def)
  have parts: "cc \<le> parts" "0 < unat parts" "unat parts = unat cc + (if shared then 1 else 0)"
    using cc unat_plus_one [OF cc(2)] by (auto simp: parts_def word_le_nat_alt)
  obtain cpu_en where ce: "encode_extranonce2 0 en_size = Inr cpu_en"
    using assms(1) by (auto simp: create_units_def Let_def split: sum.splits)
  obtain gpu_en where ge: "gpu \<Longrightarrow> encode_extranonce2 (if en_size = 0 then 0 else 1) en_size = Inr gpu_en"
    using assms(1) by (cases "encode_extranonce2 (if en_size = 0 then 0 else 1) en_size")
      (auto simp: create_units_def Let_def split: sum.splits if_splits)
  let ?pre = "job @ ''-g'' @ to_string (unat gen)"
  define cpus where "cpus = cpu_group ?pre job prev cpu_en cc parts gen"
  define gstart where "gstart = (if shared then chunk_bound 0x100000000 cc parts else 0)"
  define gpus where "gpus = (if gpu then [fresh_unit (job @ ''-g'' @ to_string (unat gen) @ ''-gpu-0'') job prev gpu_en gstart 0x100000000 Gpu gen] else [])"
  have a': "a' = set_metadata J ''next_extranonce2_counter'' (j_unsigned J (first_counter en_size gpu)) (push_units (cpus @ gpus) a)"
    using assms(1) ce ge
    unfolding create_units_def Let_def cc_def [symmetric] shared_def [symmetric] parts_def [symmetric]
    by (auto simp: cpus_def gpus_def gstart_def first_counter_def push_units_def split: if_splits)
  have chain_cpu: "chain 0 (List.map unit_range cpus) (unat (chunk_bound 0x100000000 cc parts))"
    unfolding cpus_def by (rule cpu_group_chain [OF parts(1,2)])
  have full: "\<not> shared \<Longrightarrow> unat (chunk_bound 0x100000000 cc parts) = 2 ^ 32"
    using parts cc by (simp add: unat_chunk_bound)
  have "2 ^ 32 * unat cc div unat parts \<le> 2 ^ 32 * unat parts div unat parts"
    using parts by (intro div_le_mono mult_le_mono2) simp
  also have "\<dots> = 2 ^ 32" by (rule nonzero_mult_div_cancel_right) (use parts(2) in linarith)
  finally have below: "unat (chunk_bound 0x100000000 cc parts) \<le> 2 ^ 32"
    by (simp add: unat_chunk_bound)
  have ids: "u_id u \<noteq> u_id v" if uv: "u \<in> set cpus" "v \<in> set gpus" for u v
  proof -
    obtain i where "u_id u = ?pre @ ''-cpu-'' @ to_string i"
      using in_cpu_group [OF uv(1) [unfolded cpus_def]] by blast
    with uv(2) show ?thesis by (auto simp: gpus_def split: if_splits)
  qed
  show thesis
  proof (rule that [OF a' ce _ ge])
    show "cpus \<noteq> []" using cc by (simp add: cpus_def cpu_group_conv)
    have "distinct (List.map u_id cpus)" "distinct (List.map u_id gpus)"
      using cpu_group_ids [of ?pre job prev cpu_en cc parts gen] by (simp_all add: gpus_def cpus_def)
    moreover have "set (List.map u_id cpus) \<inter> set (List.map u_id gpus) = {}"
      using ids by fastforce
    ultimately show "distinct (List.map u_id (cpus @ gpus))" by simp
    show "u_extranonce2 u = cpu_en \<and> u_worker u = Cpu" if "u \<in> set cpus" for u
      using in_cpu_group [OF that [unfolded cpus_def]] by simp
    show "u_job_id u = job \<and> u_prevhash u = prev \<and> live_name job u \<and> u_status u = Pending \<and> u_generation u = gen"
      if "u \<in> set (cpus @ gpus)" for u
      using that
    proof (simp only: set_append Un_iff, elim disjE)
      assume "u \<in> set cpus"
      from in_cpu_group [OF this [unfolded cpus_def]] show ?thesis
        using live_name_cpu(1) [of u job "unat gen"] by auto
    next
      assume "u \<in> set gpus"
      then show ?thesis
        using live_name_cpu(2) [of u job "unat gen"] by (auto simp: gpus_def split: if_splits)
    qed
    show "if gpu then \<exists>g. gpus = [g] \<and> u_extranonce2 g = gpu_en \<and> u_worker g = Gpu else gpus = []"
      by (simp add: gpus_def)
    show "if en_size = 0 then chain 0 (List.map unit_range (cpus @ gpus)) (2 ^ 32)
     else chain 0 (List.map unit_range cpus) (2 ^ 32) \<and> (gpu \<longrightarrow> chain 0 (List.map unit_range gpus) (2 ^ 32))"
    proof (cases shared)
      case True
      then have "chain (unat (chunk_bound 0x100000000 cc parts)) (List.map unit_range gpus) (2 ^ 32)"
        using below by (simp add: gpus_def gstart_def shared_def word_le_nat_alt)
      with chain_cpu True show ?thesis by (auto simp: chain_append shared_def)
    next
      case False
      then have "chain 0 (List.map unit_range cpus) (2 ^ 32)" using chain_cpu full by simp
      with False show ?thesis by (auto simp: gpus_def gstart_def shared_def)
    qed
  qed
qed

lemma live_units_ok_create:
  assumes "create_units J job prev en_size cpu_workers gpu gen a = (Inr x, a')" "cpu_workers \<noteq> - 1" "wa_units a = []"
  shows "live_units_ok job prev en_size (first_counter en_size gpu) (wa_units a')"
  using assms(1,2)
proof (rule create_units_Inr)
  fix cpus gpus cpu_en gpu_en
  assume a': "a' = set_metadata J ''next_extranonce2_counter'' (j_unsigned J (first_counter en_size gpu)) (push_units (cpus @ gpus) a)"
    and ce: "encode_extranonce2 0 en_size = Inr cpu_en"
    and ge: "gpu \<Longrightarrow> encode_extranonce2 (if en_size = 0 then 0 else 1) en_size = Inr gpu_en"
    and d: "distinct (List.map u_id (cpus @ gpus))"
    and cpus: "\<And>u. u \<in> set cpus \<Longrightarrow> u_extranonce2 u = cpu_en \<and> u_worker u = Cpu"
    and all: "\<And>u. u \<in> set (cpus @ gpus) \<Longrightarrow> u_job_id u = job \<and> u_prevhash u = prev \<and> live_name job u \<and>
       u_status u = Pending \<and> u_generation u = gen"
    and gpus: "if gpu then \<exists>g. gpus = [g] \<and> u_extranonce2 g = gpu_en \<and> u_worker g = Gpu else gpus = []"
    and ch: "if en_size = 0 then chain 0 (List.map unit_range (cpus @ gpus)) (2 ^ 32)
     else chain 0 (List.map unit_range cpus) (2 ^ 32) \<and> (gpu \<longrightarrow> chain 0 (List.map unit_range gpus) (2 ^ 32))"
  have units: "wa_units a' = cpus @ gpus" by (simp add: a' set_metadata_def push_units_def assms(3))
  have en: "counter_below en_size (first_counter en_size gpu) (u_extranonce2 u)" if u_in: "u \<in> set (cpus @ gpus)" for u
  proof (cases "en_size = 0")
    case True
    then show ?thesis
      using u_in cpus gpus ce ge by (auto simp: counter_below_def encode_extranonce2_def split: if_splits)
  next
    case False
    consider "u \<in> set cpus" | "gpu" "u \<in> set gpus" using u_in gpus by (auto split: if_splits)
    then show ?thesis
    proof cases
      case 1
      with False ce cpus show ?thesis
        by (auto simp: counter_below_def first_counter_def intro!: exI [of _ 0])
    next
      case 2
      with False ge gpus show ?thesis
        by (auto simp: counter_below_def first_counter_def intro!: exI [of _ 1])
    qed
  qed
  have "sorted_wrt separate (cpus @ gpus)"
  proof (cases "en_size = 0")
    case True
    with ch d show ?thesis by (intro separate_sorted_wrt) simp_all
  next
    case False
    have c: "sorted_wrt separate cpus"
      using False ch d by (intro separate_sorted_wrt [of cpus 0 "2 ^ 32"]) simp_all
    show ?thesis
    proof (cases gpu)
      case True
      then obtain g where g: "gpus = [g]" "u_extranonce2 g = gpu_en" using gpus by auto
      have "cpu_en \<noteq> gpu_en"
        using encode_inject(1) [OF ce _ False] ge True False by auto
      then have "separate u g" if "u \<in> set cpus" for u
        using that g cpus [OF that] d by (auto simp: separate_def disjoint_work_def image_iff)
      with c g show ?thesis by (simp add: sorted_wrt_append)
    next
      case False
      with c gpus show ?thesis by simp
    qed
  qed
  then show ?thesis using all en by (auto simp: units live_units_ok_def live_unit_def)
qed

section \<open>The live allocator as a transition system\<close>

text \<open>
  Any thread may take any step. Two kinds of run are left out: a counter that has run out, where
  the code throws half-way (\<open>counter_exhaustion\<close> below says what it leaves), and 2^32 - 1 workers.
\<close>

inductive live_step :: "'j json_api \<Rightarrow> 'j allocator \<Rightarrow> 'j allocator \<Rightarrow> bool" for J where
  prepare: "prepare_live_job J job prev en1 en_size fp cpu_workers gpu gen a = (Inr b, a') \<Longrightarrow>
    cpu_workers \<noteq> - 1 \<Longrightarrow> live_step J a a'"
| acquire: "acquire kind a = (r, a') \<Longrightarrow> live_step J a a'"
| progress: "update_progress ident nnext delta bhash bnonce a = (r, a') \<Longrightarrow> live_step J a a'"
| complete: "complete J ident a = (Inr x, a') \<Longrightarrow> live_step J a a'"
| release: "live_step J a (release ident a)"
| stale_generation: "live_step J a (mark_generation_stale gen a)"
| stale_all: "live_step J a (mark_all_stale a)"

inductive_cases live_stepE: "live_step J a a'"

text \<open>The states after \<open>n\<close> steps from an empty allocator.\<close>

inductive live_run :: "'j json_api \<Rightarrow> nat \<Rightarrow> 'j allocator \<Rightarrow> bool" for J where
  start: "is_compact a \<Longrightarrow> wa_units a = [] \<Longrightarrow> j_is_object J (wa_metadata a) \<Longrightarrow> live_run J 0 a"
| step: "live_run J n a \<Longrightarrow> live_step J a a' \<Longrightarrow> live_run J (Suc n) a'"

definition read_size :: "'j json_api \<Rightarrow> 'j allocator \<Rightarrow> u32 outcome" where
  "read_size J a = value_or J (j_get_u32 J) (wa_metadata a) ''extranonce2_size'' 0"

definition read_counter :: "'j json_api \<Rightarrow> 'j allocator \<Rightarrow> u64 outcome" where
  "read_counter J a = value_or J (j_get_u64 J) (wa_metadata a) ''next_extranonce2_counter'' 0"

definition live_inv :: "'j json_api \<Rightarrow> nat \<Rightarrow> 'j allocator \<Rightarrow> bool" where
  "live_inv J n a \<longleftrightarrow> is_compact a \<and> j_is_object J (wa_metadata a) \<and>
    (wa_units a = [] \<or>
     (\<exists>job prev en_size c. read_size J a = Inr en_size \<and> read_counter J a = Inr c \<and>
        unat c \<le> 2 * n \<and> live_units_ok job prev en_size c (wa_units a)))"

lemma metadata_simps [simp]:
  "wa_units (set_metadata J k v a) = wa_units a" "wa_mode (set_metadata J k v a) = wa_mode a"
  "wa_metadata (set_metadata J k v a) = j_set J (wa_metadata a) k v"
  "wa_units (push_units us a) = wa_units a @ us" "wa_mode (push_units us a) = wa_mode a"
  "wa_metadata (push_units us a) = wa_metadata a"
  "is_compact (set_metadata J k v a) = is_compact a" "is_compact (push_units us a) = is_compact a"
  "is_compact (a\<lparr>wa_units := us\<rparr>) = is_compact a"
  "wa_units (drop_completed a) = filter (\<lambda>u. u_status u \<noteq> Complete) (wa_units a)"
  "wa_metadata (drop_completed a) = wa_metadata a" "is_compact (drop_completed a) = is_compact a"
  "read_size J (a\<lparr>wa_units := us\<rparr>) = read_size J a" "read_counter J (a\<lparr>wa_units := us\<rparr>) = read_counter J a"
  "read_size J (push_units us a) = read_size J a" "read_counter J (push_units us a) = read_counter J a"
  "read_size J (drop_completed a) = read_size J a" "read_counter J (drop_completed a) = read_counter J a"
  by (simp_all add: set_metadata_def push_units_def is_compact_def drop_completed_def read_size_def read_counter_def)

lemma read_set_metadata:
  assumes "json_ok J" "j_is_object J (wa_metadata a)"
  shows "read_size J (set_metadata J k v a) = (if k = ''extranonce2_size'' then j_get_u32 J v else read_size J a)"
    "read_counter J (set_metadata J k v a) = (if k = ''next_extranonce2_counter'' then j_get_u64 J v else read_counter J a)"
    "j_is_object J (wa_metadata (set_metadata J k v a))"
  using assms by (simp_all add: read_size_def read_counter_def value_or_set json_laws)

lemma live_invI:
  "is_compact a \<Longrightarrow> j_is_object J (wa_metadata a) \<Longrightarrow> read_size J a = Inr en_size \<Longrightarrow> read_counter J a = Inr c \<Longrightarrow>
    unat c \<le> 2 * n \<Longrightarrow> live_units_ok job prev en_size c (wa_units a) \<Longrightarrow> live_inv J n a"
  by (auto simp: live_inv_def)

lemma live_inv_static:
  assumes "live_inv J n a" "List.map static_part us = List.map static_part (wa_units a)"
  shows "live_inv J n (a\<lparr>wa_units := us\<rparr>)"
proof -
  have "us = [] \<longleftrightarrow> wa_units a = []" using assms(2) by (metis Nil_is_map_conv)
  then show ?thesis
    using assms(1) live_units_ok_cong [OF assms(2)] by (auto simp: live_inv_def)
qed

lemma live_inv_mono: "live_inv J n a \<Longrightarrow> live_inv J (Suc n) a"
  unfolding live_inv_def by fastforce

lemma map_static_map: "(\<And>u. static_part (f u) = static_part u) \<Longrightarrow> List.map static_part (List.map f us) = List.map static_part us"
  by (induction us) simp_all

lemma live_inv_acquire: "live_inv J n a \<Longrightarrow> acquire kind a = (r, a') \<Longrightarrow> live_inv J n a'"
  by (auto simp: acquire_def split: option.splits intro!: live_inv_static map_update_first static_simps)

lemma live_inv_progress: "live_inv J n a \<Longrightarrow> update_progress i m d h b a = (r, a') \<Longrightarrow> live_inv J n a'"
  by (auto simp: update_progress_def split: if_splits intro!: live_inv_static map_update_first static_simps)

lemma live_inv_release: "live_inv J n a \<Longrightarrow> live_inv J n (release i a)"
  unfolding release_def by (auto intro!: live_inv_static map_update_first static_simps)

lemma live_inv_stale:
  "live_inv J n a \<Longrightarrow> live_inv J n (mark_generation_stale g a)"
  "live_inv J n a \<Longrightarrow> live_inv J n (mark_all_stale a)"
  unfolding mark_generation_stale_def mark_all_stale_def
  by (intro live_inv_static map_static_map; simp add: static_simps)+

lemma live_inv_drop: "live_inv J n a \<Longrightarrow> live_inv J n (drop_completed a)"
  unfolding live_inv_def by (elim conjE disjE exE) (auto dest: live_units_ok_filter)

lemma counter_in_range:
  assumes "unat (c :: u64) \<le> 2 * n + 1" "n < 2 ^ 62"
  shows "c \<noteq> - 1" "unat (c + 1) = unat c + 1"
proof -
  show "c \<noteq> - 1"
  proof
    assume "c = - 1"
    then have "unat c = 2 ^ 64 - 1" by (simp add: unsigned_minus_1_eq_mask mask_eq_exp_minus_1)
    with assms show False by simp
  qed
  then show "unat (c + 1) = unat c + 1" by (rule unat_plus_one)
qed

lemma append_live_group_frame:
  "append_live_group kind job prev en_size cpu_workers gen c a = (Inr x, a') \<Longrightarrow>
    wa_metadata a' = wa_metadata a \<and> is_compact a' = is_compact a \<and> read_size J a' = read_size J a \<and>
    read_counter J a' = read_counter J a"
  by (rule append_live_group_Inr) auto

lemma live_inv_complete:
  assumes J: "json_ok J" and inv: "live_inv J n a" and n: "n < 2 ^ 62"
    and c: "complete J ident a = (Inr x, a')"
  shows "live_inv J (Suc n) a'"
proof -
  obtain u where u: "find (\<lambda>u. u_id u = ident) (wa_units a) = Some u"
    using c by (cases "find (\<lambda>u. u_id u = ident) (wa_units a)") (auto simp: complete_def unknown_unit_def)
  define a1 where "a1 = a\<lparr>wa_units := update_first (\<lambda>u. u_id u = ident) complete_unit (wa_units a)\<rparr>"
  have u_in: "u \<in> set (wa_units a)" using u by (auto simp: find_Some_iff)
  have inv1: "live_inv J n a1"
    unfolding a1_def by (rule live_inv_static [OF inv map_update_first]) (simp add: static_simps)
  have same: "List.map static_part (wa_units a1) = List.map static_part (wa_units a)"
    by (simp add: a1_def map_update_first static_simps)
  obtain job prev en_size k where k: "read_size J a1 = Inr en_size" "read_counter J a1 = Inr k" "unat k \<le> 2 * n"
    "live_units_ok job prev en_size k (wa_units a1)"
  proof -
    have "wa_units a1 \<noteq> []" using same u_in by auto
    then show ?thesis using that inv1 by (auto simp: live_inv_def)
  qed
  have job: "u_job_id u = job" "u_prevhash u = prev"
    using k(4) [unfolded live_units_ok_cong [OF same]] u_in by (auto simp: live_units_ok_def live_unit_def)
  have cm: "complete J ident a = (if is_compact a1 then
      (case read_size J a1 of Inl e \<Rightarrow> (Inl e, a1) | Inr s \<Rightarrow> if s > 0 then replenish J u a1 else (Inr (), a1))
      else (Inr (), a1))"
    by (simp add: complete_def u a1_def [symmetric] read_size_def Let_def)
  have obj: "is_compact a1" "j_is_object J (wa_metadata a1)" using inv1 by (simp_all add: live_inv_def)
  show ?thesis
  proof (cases "en_size > 0")
    case False
    then have "a' = a1" using c cm k obj by simp
    with inv1 show ?thesis by (simp add: live_inv_mono)
  next
    case True
    then have rep: "replenish J u a1 = (Inr x, a')" using c cm k obj by simp
    show ?thesis
    proof (cases "list_ex (\<lambda>v. u_job_id v = u_job_id u \<and> u_generation v = u_generation u \<and> u_worker v = u_worker u \<and> is_open v) (wa_units a1)")
      case True
      then have "a' = drop_completed a1" using rep by (simp add: replenish_def)
      with inv1 show ?thesis by (simp add: live_inv_mono live_inv_drop)
    next
      case no_open: False
      obtain w a2 y where app: "append_live_group (u_worker u) (u_job_id u) (u_prevhash u) en_size w (u_generation u) k a1 = (Inr y, a2)"
        and a': "a' = drop_completed (set_metadata J ''next_extranonce2_counter'' (j_unsigned J (k + 1)) a2)"
        using rep no_open k(1,2) unfolding replenish_def read_size_def read_counter_def
        by (auto split: sum.splits prod.splits if_splits)
      have kn: "k \<noteq> - 1" "unat (k + 1) = unat k + 1" using counter_in_range [of k n] k(3) n by simp_all
      have "live_units_ok job prev en_size (k + 1) (wa_units a2)"
        using live_units_ok_new_group [OF k(4) _ kn(1) app [unfolded job]] True by auto
      note ok = live_units_ok_filter [OF this]
      note fr = append_live_group_frame [OF app, of J]
      show ?thesis
        unfolding a'
        by (rule live_invI [where en_size = en_size and c = "k + 1" and job = job and prev = prev])
          (use ok k kn obj J fr in \<open>simp_all add: read_set_metadata json_laws\<close>)
    qed
  qed
qed

lemma and_then_True: "and_then p q = Inr True \<longleftrightarrow> p = Inr True \<and> q = Inr True"
  by (auto simp: and_then_def bindE_eq_Inr_iff)

lemma live_compatible_True:
  assumes "live_compatible J job prev en1 en_size fp a = Inr True"
  shows "read_size J a = Inr en_size" "\<exists>u\<in>set (wa_units a). u_job_id u = job"
  using assms by (auto simp: live_compatible_def and_then_True metadata_is_def bindE_eq_Inr_iff read_size_def list_ex_iff)

lemma live_units_ok_kept:
  assumes "live_units_ok job0 prev0 en_size c us"
  shows "live_units_ok job prev en_size c (filter (kept_unit job prev s) us)"
proof -
  have "u_job_id u = job \<and> u_prevhash u = prev" if "kept_unit job prev s u" for u
    using that by (auto simp: kept_unit_def)
  then show ?thesis
    using live_units_ok_filter [OF assms, of "kept_unit job prev s"]
    by (fastforce simp: live_units_ok_def live_unit_def)
qed

lemma live_units_ok_refill:
  assumes "live_units_ok job prev en_size c (wa_units a)" "en_size \<noteq> 0" "c \<noteq> - 1"
    and "refill_group enabled kind job prev en_size cpu_workers gen c a = (Inr c', a')"
  shows "live_units_ok job prev en_size c' (wa_units a') \<and> (c' = c \<or> c' = c + 1) \<and>
    wa_metadata a' = wa_metadata a \<and> is_compact a' = is_compact a \<and>
    read_size J a' = read_size J a \<and> read_counter J a' = read_counter J a"
proof (cases "enabled \<and> \<not> has_open_work job kind a")
  case True
  then obtain x where app: "append_live_group kind job prev en_size cpu_workers gen c a = (Inr x, a')" "c' = c + 1"
    using assms(4) by (auto simp: refill_group_def split: sum.splits prod.splits)
  then show ?thesis
    using live_units_ok_new_group [OF assms(1-3) app(1)] append_live_group_frame [OF app(1), of J] by simp
next
  case False
  then show ?thesis using assms by (auto simp: refill_group_def)
qed

lemma record_live_job_read:
  assumes "json_ok J" "j_is_object J (wa_metadata a)"
  shows "read_size J (record_live_job J job prev en1 en_size fp w gpu a) = Inr en_size"
    "read_counter J (record_live_job J job prev en1 en_size fp w gpu a) = read_counter J a"
    "j_is_object J (wa_metadata (record_live_job J job prev en1 en_size fp w gpu a))"
    "wa_units (record_live_job J job prev en1 en_size fp w gpu a) = wa_units a"
    "is_compact (record_live_job J job prev en1 en_size fp w gpu a) = is_compact a"
  using assms by (simp_all add: record_live_job_def read_set_metadata json_laws)

lemma create_units_meta:
  assumes "json_ok J" "j_is_object J (wa_metadata a)"
    and "create_units J job prev en_size cpu_workers gpu gen a = (Inr x, a')" "cpu_workers \<noteq> - 1"
  shows "j_is_object J (wa_metadata a')" "read_counter J a' = Inr (first_counter en_size gpu)"
    "is_compact a' = is_compact a"
  using assms(3,4)
  by (rule create_units_Inr, use assms(1,2) in \<open>simp add: read_set_metadata json_laws\<close>)+

lemma live_inv_resume:
  assumes J: "json_ok J" and inv: "live_inv J n a" and n: "n < 2 ^ 62"
    and comp: "live_compatible J job prev en1 en_size fp a = Inr True"
    and r: "resume_live J job prev en_size w gpu gen a = (Inr x, a')"
  shows "\<exists>c. j_is_object J (wa_metadata a') \<and> is_compact a' \<and> read_counter J a' = Inr c \<and> unat c \<le> 2 * Suc n \<and>
    live_units_ok job prev en_size c (wa_units a')"
proof -
  note comp = live_compatible_True [OF comp]
  then obtain job0 prev0 c where k: "read_counter J a = Inr c" "unat c \<le> 2 * n"
    "live_units_ok job0 prev0 en_size c (wa_units a)"
    using inv by (auto simp: live_inv_def)
  have obj: "is_compact a" "j_is_object J (wa_metadata a)" using inv by (simp_all add: live_inv_def)
  define a1 where "a1 = resume_units job prev en_size gen a"
  have a1: "wa_metadata a1 = wa_metadata a" "is_compact a1" "read_counter J a1 = Inr c"
    using obj k by (simp_all add: a1_def resume_units_def Let_def)
  have "List.map static_part (wa_units a1) = List.map static_part (filter (kept_unit job prev en_size) (wa_units a))"
    using obj by (simp add: a1_def resume_units_def static_simps)
  from live_units_ok_cong [OF this] live_units_ok_kept [OF k(3)]
  have ok1: "live_units_ok job prev en_size c (wa_units a1)" by simp
  show ?thesis
  proof (cases "en_size > 0")
    case False
    then have "a' = a1" using r by (simp add: resume_live_def a1_def [symmetric] Let_def)
    with a1 ok1 obj k show ?thesis by auto
  next
    case True
    then have size: "en_size \<noteq> 0" by auto
    from True obtain c2 a2 c3 a3 where
      g1: "refill_group True Cpu job prev en_size w gen c a1 = (Inr c2, a2)" and
      g2: "refill_group gpu Gpu job prev en_size w gen c2 a2 = (Inr c3, a3)" and
      a': "a' = set_metadata J ''next_extranonce2_counter'' (j_unsigned J c3) a3"
      using r a1(3) by (auto simp: resume_live_def a1_def [symmetric] read_counter_def Let_def
          split: sum.splits prod.splits)
    have c: "c \<noteq> - 1" "unat (c + 1) = unat c + 1" using counter_in_range [of c n] k(2) n by simp_all
    note s1 = live_units_ok_refill [OF ok1 size c(1) g1, of J]
    have c2: "c2 \<noteq> - 1" "unat (c2 + 1) = unat c2 + 1" "unat c2 \<le> unat c + 1"
      using counter_in_range [of c2 n] s1 k(2) n c by auto
    note s2 = live_units_ok_refill [OF _ size c2(1) g2, of J]
    have s2: "live_units_ok job prev en_size c3 (wa_units a3)" "c3 = c2 \<or> c3 = c2 + 1"
      "wa_metadata a3 = wa_metadata a" "is_compact a3"
      using s2 s1 a1 by auto
    have "unat c3 \<le> 2 * Suc n" using s2(2) c2 k(2) by auto
    then show ?thesis
      using s2 J obj by (intro exI [of _ c3]) (simp add: a' read_set_metadata json_laws)
  qed
qed

lemma live_inv_prepare:
  assumes J: "json_ok J" and inv: "live_inv J n a" and n: "n < 2 ^ 62"
    and p: "prepare_live_job J job prev en1 en_size fp w gpu gen a = (Inr b, a')" "w \<noteq> - 1"
  shows "live_inv J (Suc n) a'"
proof -
  have obj: "is_compact a" "j_is_object J (wa_metadata a)" using inv by (simp_all add: live_inv_def)
  obtain comp where comp: "live_compatible J job prev en1 en_size fp a = Inr comp"
    using p(1) by (auto simp: prepare_live_job_def split: sum.splits)
  obtain x a2 where r: "(if comp then resume_live J job prev en_size w gpu gen a
      else start_live J job prev en_size w gpu gen a) = (Inr x, a2)"
    and a': "a' = record_live_job J job prev en1 en_size fp w gpu a2"
    using p(1) comp by (auto simp: prepare_live_job_def split: sum.splits prod.splits)
  have "\<exists>c. j_is_object J (wa_metadata a2) \<and> is_compact a2 \<and> read_counter J a2 = Inr c \<and> unat c \<le> 2 * Suc n \<and>
      live_units_ok job prev en_size c (wa_units a2)"
  proof (cases comp)
    case True
    then show ?thesis using live_inv_resume [OF J inv n] comp r by simp
  next
    case False
    define e where "e = a\<lparr>wa_units := []\<rparr>"
    have e: "is_compact e" "j_is_object J (wa_metadata e)" "wa_units e = []"
      using obj by (simp_all add: e_def)
    have cr: "create_units J job prev en_size w gpu gen e = (Inr x, a2)"
      using r False obj by (simp add: start_live_def e_def)
    note m = create_units_meta [OF J e(2) cr p(2)]
    moreover have "live_units_ok job prev en_size (first_counter en_size gpu) (wa_units a2)"
      by (rule live_units_ok_create [OF cr p(2) e(3)])
    moreover have "unat (first_counter en_size gpu) \<le> 2" by (simp add: first_counter_def)
    ultimately show ?thesis using e by (intro exI [of _ "first_counter en_size gpu"]) simp
  qed
  then obtain c where c: "j_is_object J (wa_metadata a2)" "is_compact a2" "read_counter J a2 = Inr c"
    "unat c \<le> 2 * Suc n" "live_units_ok job prev en_size c (wa_units a2)" by blast
  show ?thesis
    unfolding a'
    by (rule live_invI [where c = c and en_size = en_size and job = job and prev = prev])
      (use c J in \<open>simp_all add: record_live_job_read\<close>)
qed

lemma live_run_inv: "live_run J n a \<Longrightarrow> json_ok J \<Longrightarrow> n \<le> 2 ^ 62 \<Longrightarrow> live_inv J n a"
proof (induction rule: live_run.induct)
  case (start a)
  then show ?case by (simp add: live_inv_def)
next
  case (step n a a')
  then have inv: "live_inv J n a" and n: "n < 2 ^ 62" by auto
  from step.hyps(2) show ?case
    using live_inv_prepare [OF step.prems(1) inv n] live_inv_complete [OF step.prems(1) inv n] inv
    by (cases rule: live_step.cases)
      (auto intro: live_inv_mono live_inv_acquire live_inv_progress live_inv_release live_inv_stale)
qed

section \<open>Every operation keeps the ranges well-formed\<close>

definition unit_ok :: "work_unit \<Rightarrow> bool" where
  "unit_ok u \<longleftrightarrow> u_nonce_start u \<le> u_nonce_next u \<and> u_nonce_next u \<le> u_nonce_end u \<and>
    (u_status u = Complete \<longrightarrow> u_nonce_next u = u_nonce_end u)"

text \<open>Any operation, whether it returns or throws.\<close>

inductive alloc_step :: "'j json_api \<Rightarrow> 'j allocator \<Rightarrow> 'j allocator \<Rightarrow> bool" for J where
  prepare_live: "w \<noteq> - 1 \<Longrightarrow> alloc_step J a (snd (prepare_live_job J job prev en1 en_size fp w gpu gen a))"
| prepare_historical: "nstart \<le> nend \<Longrightarrow> unat nend \<le> 2 ^ 32 \<Longrightarrow>
    alloc_step J a (snd (prepare_historical J header_id nstart nend w hround a))"
| acquire: "alloc_step J a (snd (acquire kind a))"
| progress: "alloc_step J a (snd (update_progress ident nnext delta bhash bnonce a))"
| complete: "alloc_step J a (snd (complete J ident a))"
| release: "alloc_step J a (release ident a)"
| stale_generation: "alloc_step J a (mark_generation_stale gen a)"
| stale_all: "alloc_step J a (mark_all_stale a)"

abbreviation units_ok :: "'j allocator \<Rightarrow> bool" where
  "units_ok a \<equiv> list_all unit_ok (wa_units a)"

lemma clamp_bounds: "lo \<le> hi \<Longrightarrow> lo \<le> clamp v lo hi \<and> clamp v lo hi \<le> hi"
  by (auto simp: clamp_def)

lemma unit_ok_ops [simp]:
  "unit_ok u \<Longrightarrow> st \<noteq> Complete \<Longrightarrow> unit_ok (u_status_update (\<lambda>_. st) u)"
  "unit_ok u \<Longrightarrow> unit_ok (progress_unit m d h b u)"
  "unit_ok u \<Longrightarrow> unit_ok (complete_unit u)"
  "unit_ok u \<Longrightarrow> unit_ok (stale_unless_complete u)"
  "unit_ok u \<Longrightarrow> unit_ok (reopen_unit g u)"
  "s \<le> e \<Longrightarrow> unit_ok (fresh_unit i j p x s e k g)"
  using clamp_bounds [of "u_nonce_start u" "u_nonce_end u" m]
  by (auto simp: unit_ok_def progress_unit_def complete_unit_def stale_unless_complete_def reopen_unit_def Let_def)

lemma list_all_update_first: "list_all Q xs \<Longrightarrow> (\<And>x. Q x \<Longrightarrow> Q (f x)) \<Longrightarrow> list_all Q (update_first P f xs)"
  by (induction xs) auto

lemma list_all_mapI: "list_all Q xs \<Longrightarrow> (\<And>x. Q x \<Longrightarrow> Q (f x)) \<Longrightarrow> list_all Q (List.map f xs)"
  by (induction xs) auto

lemma list_all_filterI: "list_all Q xs \<Longrightarrow> list_all Q (filter P xs)"
  by (induction xs) auto

lemma chain_mem: "chain lo rs hi \<Longrightarrow> (s, e) \<in> set rs \<Longrightarrow> s \<le> e"
  by (induction rs arbitrary: lo) (auto split: prod.splits)

lemma cpu_group_ok:
  assumes "count \<le> parts" "0 < unat parts"
  shows "list_all unit_ok (cpu_group prefix job prev en count parts gen)"
proof -
  have "u_nonce_start u \<le> u_nonce_end u" if "u \<in> set (cpu_group prefix job prev en count parts gen)" for u
    using chain_mem [OF cpu_group_chain [OF assms]] that by (force simp: unit_range_def)
  moreover have "u_nonce_next u = u_nonce_start u \<and> u_status u = Pending"
    if "u \<in> set (cpu_group prefix job prev en count parts gen)" for u
    using that by (auto simp: cpu_group_conv)
  ultimately show ?thesis by (simp add: list_all_iff unit_ok_def)
qed

lemma units_ok_create:
  assumes "units_ok a" "w \<noteq> - 1"
  shows "units_ok (snd (create_units J job prev en_size w gpu gen a))"
proof -
  let ?parts = "max 1 w + (if en_size = 0 \<and> gpu then 1 else 0)"
  have c: "max 1 w \<noteq> - 1" "0 < unat (max 1 w)" using assms(2) unat_max_1 [of w] by (auto simp: max_def)
  have p: "max 1 w \<le> ?parts" "0 < unat ?parts"
    using c unat_plus_one [OF c(1)] by (auto simp: word_le_nat_alt)
  have "unat (chunk_bound 0x100000000 (max 1 w) ?parts) \<le> 2 ^ 32"
  proof -
    have "2 ^ 32 * unat (max 1 w) div unat ?parts \<le> 2 ^ 32 * unat ?parts div unat ?parts"
      using p(1) by (intro div_le_mono mult_le_mono2) (simp add: word_le_nat_alt)
    also have "\<dots> = 2 ^ 32" by (rule nonzero_mult_div_cancel_right) (use p(2) in linarith)
    finally show ?thesis by (simp add: unat_chunk_bound)
  qed
  then have g: "chunk_bound 0x100000000 (max 1 w) ?parts \<le> 0x100000000" by (simp add: word_le_nat_alt)
  note ok = cpu_group_ok [OF p]
  show ?thesis
    using assms(1) ok g
    by (auto simp: create_units_def Let_def simp del: max_less_iff_conj split: sum.splits)
qed

lemma units_ok_append_group: "units_ok a \<Longrightarrow> units_ok (snd (append_live_group kind job prev en_size w gen c a))"
  using cpu_group_ok [of "max 1 w" "max 1 w"] unat_max_1 [of w]
  by (auto simp: append_live_group_def Let_def split: sum.splits)

lemma units_ok_refill: "units_ok a \<Longrightarrow> units_ok (snd (refill_group en kind job prev en_size w gen c a))"
  using units_ok_append_group [of a kind job prev en_size w gen c]
  by (auto simp: refill_group_def split: sum.splits prod.splits)

lemma units_ok_resume: "units_ok a \<Longrightarrow> units_ok (snd (resume_live J job prev en_size w gpu gen a))"
proof -
  assume "units_ok a"
  then have a1: "units_ok (resume_units job prev en_size gen a)"
    by (auto simp: resume_units_def Let_def intro!: list_all_mapI list_all_filterI)
  define a1 where "a1 = resume_units job prev en_size gen a"
  have "units_ok (snd (refill_group True Cpu job prev en_size w gen c a1))" for c
    using a1 units_ok_refill by (simp add: a1_def)
  then have "units_ok (snd (refill_group gpu Gpu job prev en_size w gen c' (snd (refill_group True Cpu job prev en_size w gen c a1))))" for c c'
    using units_ok_refill by blast
  with \<open>\<And>c. units_ok (snd (refill_group True Cpu job prev en_size w gen c a1))\<close> a1 show ?thesis
    unfolding resume_live_def a1_def [symmetric] Let_def
    by (auto split: sum.splits prod.splits) (metis snd_conv)+
qed

lemma units_ok_historical:
  assumes "nstart \<le> nend" "unat nend \<le> 2 ^ 32"
  shows "list_all unit_ok (historical_units header_id nstart nend w r)"
proof -
  let ?count = "max 1 w" and ?len = "nend - nstart"
  have len: "unat ?len = unat nend - unat nstart" using assms(1) by (simp add: unat_sub_if_size word_size word_le_nat_alt)
  have "chain 0 (List.map (\<lambda>i. (chunk_bound ?len i ?count, chunk_bound ?len (i + 1) ?count)) (unit_indices ?count))
      (unat (chunk_bound ?len ?count ?count))"
    using chunks_chain [of ?len ?count "unat ?count"] unat_max_1 [of w] len assms(2)
    by (simp add: unit_indices_def)
  from chain_mem [OF this] have mono: "chunk_bound ?len i ?count \<le> chunk_bound ?len (i + 1) ?count"
    if "i \<in> set (unit_indices ?count)" for i using that by force
  have bound: "unat (chunk_bound ?len (i + 1) ?count) \<le> unat ?len" if i_in: "i \<in> set (unit_indices ?count)" for i
  proof -
    obtain k where k: "i = of_nat k" "k < unat ?count" using i_in by (auto simp: unit_indices_def)
    have "unat (i + 1) \<le> unat ?count"
      using k unat_unit_index [of k ?count] unsigned_less [of ?count, where ?'a = nat]
      by (simp add: unat_word_ariths)
    then have "unat ?len * unat (i + 1) div unat ?count \<le> unat ?len * unat ?count div unat ?count"
      by (intro div_le_mono mult_le_mono2)
    also have "\<dots> = unat ?len" by (rule nonzero_mult_div_cancel_right) (use unat_max_1 [of w] in linarith)
    finally show ?thesis using assms(2) len by (simp add: unat_chunk_bound)
  qed
  have "nstart + chunk_bound ?len i ?count \<le> nstart + chunk_bound ?len (i + 1) ?count"
    if "i \<in> set (unit_indices ?count)" for i
    using mono [OF that] bound [OF that] len assms
    by (simp add: word_le_nat_alt unat_word_ariths)
  then show ?thesis by (auto simp: historical_units_def list_all_iff Let_def)
qed

lemma units_ok_step: "alloc_step J a a' \<Longrightarrow> units_ok a \<Longrightarrow> units_ok a'"
proof (induction rule: alloc_step.induct)
  case (prepare_live w a job prev en1 en_size fp gpu gen)
  have s: "units_ok (snd (start_live J job prev en_size w gpu gen a))"
    unfolding start_live_def using prepare_live
    by (intro units_ok_create) (auto intro: list_all_mapI)
  note r = units_ok_resume [OF prepare_live(2), of J job prev en_size w gpu gen]
  have "wa_units (record_live_job J job prev en1 en_size fp w gpu b) = wa_units b" for b
    by (simp add: record_live_job_def)
  with s r prepare_live show ?case
    by (auto simp: prepare_live_job_def split: sum.splits prod.splits)
next
  case (prepare_historical nstart nend a header_id w hround)
  then show ?case
    using units_ok_historical [of nstart nend header_id w hround]
    by (auto simp: prepare_historical_def Let_def intro: list_all_mapI split: sum.splits)
next
  case (acquire a kind)
  then show ?case by (auto simp: acquire_def intro!: list_all_update_first split: option.splits)
next
  case (progress a ident nnext delta bhash bnonce)
  then show ?case by (auto simp: update_progress_def intro!: list_all_update_first)
next
  case (complete a ident)
  have d: "units_ok b \<Longrightarrow> units_ok (drop_completed b)" for b by (simp add: list_all_filterI)
  have rep: "units_ok b \<Longrightarrow> units_ok (snd (replenish J u b))" for u b
  proof -
    assume b: "units_ok b"
    have "units_ok b'" if "append_live_group k j p s w g c b = (x, b')" for k j p s w g c x b'
      using units_ok_append_group [OF b, of k j p s w g c] that by simp
    with b show ?thesis by (auto simp: replenish_def intro: list_all_filterI split: sum.splits prod.splits)
  qed
  have "units_ok (a\<lparr>wa_units := update_first (\<lambda>u. u_id u = ident) complete_unit (wa_units a)\<rparr>)"
    using complete by (auto intro: list_all_update_first)
  with rep complete show ?case
    by (auto simp: complete_def Let_def split: option.splits sum.splits)
next
  case (release a ident)
  then show ?case by (auto simp: release_def intro!: list_all_update_first)
next
  case (stale_generation a gen)
  then show ?case by (auto simp: mark_generation_stale_def intro!: list_all_mapI)
next
  case (stale_all a)
  then show ?case by (auto simp: mark_all_stale_def intro!: list_all_mapI)
qed

section \<open>Claims\<close>

lemma acquire_Some:
  assumes "acquire kind a = (Some v, a')"
  obtains u xs ys where "wa_units a = xs @ u # ys" "list_all (\<lambda>x. \<not> available kind x) xs" "available kind u"
    "v = u\<lparr>u_status := InProgress\<rparr>" "a' = a\<lparr>wa_units := xs @ v # ys\<rparr>"
proof -
  obtain u where u: "find (available kind) (wa_units a) = Some u" "v = u\<lparr>u_status := InProgress\<rparr>"
    and a': "a' = a\<lparr>wa_units := update_first (available kind) (u_status_update (\<lambda>_. InProgress)) (wa_units a)\<rparr>"
    using assms by (auto simp: acquire_def split: option.splits)
  from u(1) obtain xs ys where s: "wa_units a = xs @ u # ys" "list_all (\<lambda>x. \<not> available kind x) xs" "available kind u"
    by (auto simp: find_Some_iff2 find_Some_iff list_all_length)
      (metis (mono_tags, lifting) id_take_nth_drop length_take less_imp_le_nat min.absorb2 nth_take)
  have "update_first P f (xs @ u # ys) = xs @ f u # ys" if "list_all (\<lambda>x. \<not> P x) xs" "P u" for P and f :: "work_unit \<Rightarrow> work_unit"
    using that by (induction xs) auto
  from this [OF s(2,3)] show thesis using that [OF s(1) s(2) s(3) u(2)] a' u(2) s(1) by simp
qed

lemma acquire_None: "acquire kind a = (None, a') \<longleftrightarrow> a' = a \<and> list_all (\<lambda>u. \<not> available kind u) (wa_units a)"
proof (cases "find (available kind) (wa_units a)")
  case None
  moreover from None have "list_all (\<lambda>u. \<not> available kind u) (wa_units a)"
    by (simp add: find_None_iff list_all_iff)
  ultimately show ?thesis by (auto simp: acquire_def)
next
  case (Some u)
  then have "\<not> list_all (\<lambda>u. \<not> available kind u) (wa_units a)"
    by (auto simp: find_Some_iff list_all_length)
  with Some show ?thesis by (simp add: acquire_def)
qed

lemma update_first_none: "list_all (\<lambda>x. \<not> P x) xs \<Longrightarrow> update_first P f xs = xs"
  by (induction xs) auto

lemma update_first_append:
  "update_first P f (xs @ ys) = (if list_ex P xs then update_first P f xs @ ys else xs @ update_first P f ys)"
  by (induction xs) auto

section \<open>Completion and replenishment\<close>

lemma complete_live:
  assumes "find (\<lambda>u. u_id u = ident) (wa_units a) = Some u" "is_compact a" "read_size J a = Inr s" "s > 0"
  shows "complete J ident a =
    replenish J u (a\<lparr>wa_units := update_first (\<lambda>u. u_id u = ident) complete_unit (wa_units a)\<rparr>)"
  using assms by (simp add: complete_def read_size_def Let_def)

lemma open_not_complete: "is_open u \<Longrightarrow> u_status u \<noteq> Complete"
  by (auto simp: is_open_def)

lemma group_available:
  assumes "chain 0 (List.map unit_range us) (2 ^ 32)"
    and "\<And>u. u \<in> set us \<Longrightarrow> u_worker u = kind \<and> u_status u = Pending \<and> u_nonce_next u = u_nonce_start u"
  shows "\<exists>u\<in>set us. available kind u"
proof -
  obtain i where i: "i < length us" "in_range 0 (unit_range (us ! i))"
    using chain_covers [OF assms(1), of 0] by auto
  then show ?thesis
    using assms(2) [of "us ! i"] by (auto simp: available_def in_range_def unit_range_def word_less_nat_alt)
qed

lemma append_group_available:
  assumes "append_live_group kind job prev en_size w gen c a = (Inr x, a')"
  shows "\<exists>v\<in>set (wa_units a'). available kind v \<and> u_job_id v = job \<and> u_generation v = gen"
  using assms
proof (rule append_live_group_Inr)
  fix en us
  assume a': "a' = push_units us a" and ch: "chain 0 (List.map unit_range us) (2 ^ 32)"
    and us: "\<And>u. u \<in> set us \<Longrightarrow> u_job_id u = job \<and> u_prevhash u = prev \<and> u_extranonce2 u = en \<and> u_worker u = kind \<and>
       u_status u = Pending \<and> u_generation u = gen \<and> u_nonce_next u = u_nonce_start u \<and>
       (\<exists>t. u_id u = job @ (''-g'' @ to_string (unat gen) @ ''-x'' @ en) @ CHR ''-'' # t)"
  show ?thesis using group_available [OF ch, of kind] us by (auto simp: a')
qed

lemma find_update_first:
  "find P xs = Some u \<Longrightarrow> f u \<in> set (update_first P f xs)"
  by (induction xs) (auto split: if_splits)

lemma complete_replenishes:
  assumes c: "complete J ident a = (Inr x, a')" and live: "is_compact a" "read_size J a = Inr s" "s > 0"
    and u: "find (\<lambda>u. u_id u = ident) (wa_units a) = Some u"
  shows "\<exists>v\<in>set (wa_units a'). u_job_id v = u_job_id u \<and> u_generation v = u_generation u \<and> u_worker v = u_worker u \<and> is_open v"
proof -
  define a1 where "a1 = a\<lparr>wa_units := update_first (\<lambda>u. u_id u = ident) complete_unit (wa_units a)\<rparr>"
  have rep: "replenish J u a1 = (Inr x, a')" using complete_live [OF u live] c by (simp add: a1_def)
  show ?thesis
  proof (cases "list_ex (\<lambda>v. u_job_id v = u_job_id u \<and> u_generation v = u_generation u \<and> u_worker v = u_worker u \<and> is_open v) (wa_units a1)")
    case True
    then have "a' = drop_completed a1" using rep by (simp add: replenish_def)
    with True show ?thesis by (auto simp: list_ex_iff open_not_complete)
  next
    case False
    then obtain k w y a2 where app: "append_live_group (u_worker u) (u_job_id u) (u_prevhash u) s w (u_generation u) k a1 = (Inr y, a2)"
      and a': "a' = drop_completed (set_metadata J ''next_extranonce2_counter'' (j_unsigned J (k + 1)) a2)"
      using rep live(2) unfolding replenish_def read_size_def a1_def
      by (auto split: sum.splits prod.splits if_splits)
    show ?thesis
      using append_group_available [OF app] unfolding a'
      by (auto simp: available_def is_open_def)
  qed
qed

lemma complete_exhausted:
  assumes c: "complete J ident a = (Inl (Overflow_error msg), a')"
    and live: "is_compact a" "read_size J a = Inr s" "s > 0" "s \<le> 8"
    and counter: "read_counter J a = Inr k" "encode_extranonce2 k s = Inl e"
    and u: "find (\<lambda>u. u_id u = ident) (wa_units a) = Some u"
  shows "wa_units a' = update_first (\<lambda>u. u_id u = ident) complete_unit (wa_units a)
    \<and> (\<forall>v\<in>set (wa_units a'). \<not> (u_job_id v = u_job_id u \<and> u_generation v = u_generation u \<and> u_worker v = u_worker u \<and> is_open v))"
proof -
  define a1 where "a1 = a\<lparr>wa_units := update_first (\<lambda>u. u_id u = ident) complete_unit (wa_units a)\<rparr>"
  have rep: "replenish J u a1 = (Inl (Overflow_error msg), a')"
    using complete_live [OF u live(1-3)] c by (simp add: a1_def)
  then have no: "\<not> list_ex (\<lambda>v. u_job_id v = u_job_id u \<and> u_generation v = u_generation u \<and> u_worker v = u_worker u \<and> is_open v) (wa_units a1)"
    by (auto simp: replenish_def)
  have "a' = a1"
    using rep no live(2) counter unfolding replenish_def read_size_def read_counter_def a1_def
    by (auto simp: append_live_group_def split: sum.splits prod.splits if_splits)
  with no show ?thesis by (auto simp: a1_def list_ex_iff)
qed

section \<open>Reruns over another nonce range\<close>

lemma historical_ids:
  "List.map u_id (historical_units h s1 e1 w r) = List.map u_id (historical_units h s2 e2 w r)"
  by (simp add: historical_units_def Let_def)

lemma update_first_prefix:
  assumes "List.map u_id xs = List.map u_id ys"
  shows "drop (length xs) (update_first (\<lambda>u. u_id u = i) f (xs @ ys)) = ys"
proof (cases "list_ex (\<lambda>u. u_id u = i) xs")
  case True
  moreover have "length (update_first P f xs) = length xs" for P by (induction xs) auto
  ultimately show ?thesis by (simp add: update_first_append)
next
  case False
  then have "\<not> list_ex (\<lambda>u. u_id u = i) ys"
    using assms by (metis (no_types, lifting) list_ex_iff image_iff list.set_map)
  then have "update_first (\<lambda>u. u_id u = i) f ys = ys"
    by (intro update_first_none) (simp add: list_all_iff list_ex_iff)
  with False show ?thesis by (simp add: update_first_append)
qed

lemma historical_rerun_units:
  assumes J: "json_ok J" "j_is_object J (wa_metadata a)" and empty: "wa_units a = []"
    and first: "prepare_historical J h s1 e1 w r a = (Inr False, a1)"
    and ran: "List.map static_part (wa_units b) = List.map static_part (wa_units a1)"
      "wa_metadata b = wa_metadata a1"
    and other: "(s1, e1) \<noteq> (s2, e2)"
  shows "\<exists>a2 old. prepare_historical J h s2 e2 w r b = (Inr False, a2) \<and>
    wa_units a2 = old @ historical_units h s2 e2 w r \<and>
    List.map u_id old = List.map u_id (historical_units h s2 e2 w r)"
proof -
  have a1: "wa_units a1 = historical_units h s1 e1 w r"
    and meta: "wa_metadata a1 = j_set J (j_set J (j_set J (j_set J (wa_metadata a) ''header_id'' (j_string J h))
      ''current_round'' (j_unsigned J (ucast r))) ''nonce_start'' (j_unsigned J s1)) ''nonce_end'' (j_unsigned J e1)"
    using first empty by (auto simp: prepare_historical_def Let_def split: sum.splits)
  have "historical_compatible J h s2 e2 r b = Inr False"
    using J other unfolding historical_compatible_def metadata_is_def ran(2) meta
    by (auto simp: value_or_set json_laws and_then_def)
  then have p: "prepare_historical J h s2 e2 w r b = (Inr False,
      set_metadata J ''nonce_end'' (j_unsigned J e2) (set_metadata J ''nonce_start'' (j_unsigned J s2)
      (set_metadata J ''current_round'' (j_unsigned J (ucast r)) (set_metadata J ''header_id'' (j_string J h)
      (push_units (historical_units h s2 e2 w r) (b\<lparr>wa_units := List.map stale_unless_complete (wa_units b)\<rparr>))))))"
    by (simp add: prepare_historical_def Let_def)
  have "List.map u_id (wa_units b) = List.map u_id (wa_units a1)"
    using arg_cong [OF ran(1), of "List.map u_id"] by (simp add: comp_def static_simps)
  moreover have "u_id (stale_unless_complete u) = u_id u" for u by (simp add: stale_unless_complete_def)
  ultimately have "List.map u_id (List.map stale_unless_complete (wa_units b)) = List.map u_id (historical_units h s2 e2 w r)"
    using a1 historical_ids by (simp add: comp_def)
  with p show ?thesis by (intro exI conjI) (assumption, simp, assumption)
qed

section \<open>Persistence\<close>

lemma parse_status_name [simp]: "parse_status (status_name s) = Inr s"
  by (cases s) (simp_all add: parse_status_def)

lemma parse_worker_name [simp]: "parse_worker (worker_name w) = Inr w"
  by (cases w) (simp_all add: parse_worker_def worker_name_def)

lemma unit_json_round_trip:
  assumes J: "json_ok J"
  shows "unit_from_json J (unit_to_json J u) = Inr u"
proof -
  let ?kvs = "[(''id'', j_string J (u_id u)), (''job_id'', j_string J (u_job_id u)),
       (''prevhash'', j_string J (u_prevhash u)), (''extranonce2'', j_string J (u_extranonce2 u)),
       (''nonce_start'', j_unsigned J (u_nonce_start u)), (''nonce_end'', j_unsigned J (u_nonce_end u)),
       (''nonce_next'', j_unsigned J (u_nonce_next u)), (''status'', j_string J (status_name (u_status u))),
       (''worker'', j_string J (worker_name (u_worker u))), (''generation'', j_unsigned J (u_generation u)),
       (''hashes_tested'', j_unsigned J (u_hashes_tested u)), (''best_hash'', j_string J (u_best_hash u))]"
  let ?o = "unit_to_json J u"
  have o: "?o = j_set J (j_object J ?kvs) ''best_nonce'' (nullable_u32 J (u_best_nonce u))"
    by (simp only: unit_to_json_def)
  have mem: "j_is_object J ?o" "j_member J ?o k = (if k = ''best_nonce'' then Inr (Some (nullable_u32 J (u_best_nonce u)))
      else Inr (map_of ?kvs k))" for k
    unfolding o using J by (simp_all add: json_laws del: map_of.simps)
  have at: "at_get J get ?o k = get v" if "k \<noteq> ''best_nonce''" "map_of ?kvs k = Some v" for k v and get :: "'a \<Rightarrow> 'b outcome"
    by (rule at_get_member [OF J mem(1)]) (simp only: mem that if_False)
  have vo: "value_or J get ?o k d = get v" if "k \<noteq> ''best_nonce''" "map_of ?kvs k = Some v" for k v d and get :: "'a \<Rightarrow> 'b outcome"
    by (simp only: value_or_def mem that if_False bindE_simps option.case)
  have "j_contains J ?o ''best_nonce''" using J mem by (simp add: json_laws)
  moreover have "j_at J ?o ''best_nonce'' = Inr (nullable_u32 J (u_best_nonce u))"
    using J mem by (simp add: json_laws)
  ultimately have nonce: "nonce_from_json J ?o = Inr (u_best_nonce u)"
    using J by (simp add: nonce_from_json_def nullable_u32_def json_laws split: option.splits)
  show ?thesis
    unfolding unit_from_json_def nonce
    by (simp add: at vo json_laws [OF J])
qed

lemma units_json_round_trip:
  "json_ok J \<Longrightarrow> mapE (unit_from_json J) (List.map (unit_to_json J) us) = Inr us"
  by (induction us) (simp_all add: unit_json_round_trip)

lemma snapshot_units:
  assumes "json_ok J" "j_is_object J (wa_metadata a)"
  shows "j_is_object J (snapshot J a)"
    "j_member J (snapshot J a) ''work_units'' = Inr (Some (j_array J (List.map (unit_to_json J) (wa_units a))))"
  using assms by (simp_all add: snapshot_def Let_def json_laws split: prod.splits)

lemma reload_after_checkpoint:
  assumes J: "json_ok J" "j_is_object J (wa_metadata a)" "j_is_object J extra" "j_member J extra ''work_units'' = Inr None"
    and load: "load_or J d path (empty_state J mode) = Inr (j_merge J (snapshot J a) extra)"
  shows "load_existing J d path mode = Inr \<lparr>wa_mode = mode, wa_units = List.map reload_unit (wa_units a),
    wa_metadata = j_merge J (snapshot J a) extra\<rparr>"
proof -
  note s = snapshot_units [OF J(1,2)]
  have "j_member J (j_merge J (snapshot J a) extra) ''work_units'' = Inr (Some (j_array J (List.map (unit_to_json J) (wa_units a))))"
    using json_ok_merge(2) [OF J(1) s(1) J(3,4)] s(2) by simp
  then show ?thesis
    using load J(1) by (simp add: load_existing_def value_or_def json_laws units_json_round_trip)
qed

section \<open>Properties\<close>

text \<open>C2: in every live run, of any length up to 2^62 steps of any threads, no two units have the same
  name and no nonce of one extranonce lies in the ranges of two units: no hash is handed out twice.\<close>

theorem live_work_never_shared:
  assumes "json_ok J" "live_run J n a" "n \<le> 2 ^ 62" and "i < j" "j < length (wa_units a)"
  shows "u_id (wa_units a ! i) \<noteq> u_id (wa_units a ! j)
    \<and> (u_extranonce2 (wa_units a ! i) \<noteq> u_extranonce2 (wa_units a ! j)
       \<or> \<not> (in_range m (unit_range (wa_units a ! i)) \<and> in_range m (unit_range (wa_units a ! j))))"
proof -
  have "sorted_wrt separate (wa_units a)"
    using live_run_inv [OF assms(2,1,3)] by (auto simp: live_inv_def live_units_ok_def)
  from sorted_wrt_nth_less [OF this assms(4,5)] show ?thesis
    by (auto simp: separate_def disjoint_work_def)
qed

definition example_allocator :: "jtree allocator" where
  "example_allocator = \<lparr>wa_mode = ''live'', wa_units = [], wa_metadata = JObject []\<rparr>"

definition example_prepared :: "jtree allocator" where
  "example_prepared = snd (prepare_live_job tree_api ''j'' ''p'' ''aa'' 4 ''f'' 2 True 7 example_allocator)"

lemma example_run: "live_run tree_api 1 example_prepared" "length (wa_units example_prepared) = 3"
proof -
  have "fst (prepare_live_job tree_api ''j'' ''p'' ''aa'' 4 ''f'' 2 True 7 example_allocator) = Inr False"
    by code_simp
  then have "prepare_live_job tree_api ''j'' ''p'' ''aa'' 4 ''f'' 2 True 7 example_allocator = (Inr False, example_prepared)"
    by (metis example_prepared_def prod.collapse)
  then have step: "live_step tree_api example_allocator example_prepared" by (rule live_step.prepare) simp
  have start: "live_run tree_api 0 example_allocator"
    by (rule live_run.start) (simp_all add: example_allocator_def is_compact_def tree_api_def)
  from live_run.step [OF start step] show "live_run tree_api 1 example_prepared" by simp
  show "length (wa_units example_prepared) = 3" by code_simp
qed

theorem live_work_never_shared_witness:
  "u_id (wa_units example_prepared ! 0) \<noteq> u_id (wa_units example_prepared ! 2)"
  using live_work_never_shared [OF json_ok_tree_api example_run(1), of 0 2 0] example_run(2) by simp

text \<open>C31: a new live job splits the nonce space without gap or overlap: every 32-bit nonce is in
  exactly one CPU unit, or, when there is no extranonce to tell the GPU's work apart, in exactly
  one unit of either kind.\<close>

theorem new_job_partitions_nonces:
  assumes "create_units J job prev en_size cpu_workers gpu gen a = (Inr x, a')" "cpu_workers \<noteq> - 1"
    and "wa_units a = []" "m < 2 ^ 32"
  shows "\<exists>!i. i < length (wa_units a') \<and> in_range m (unit_range (wa_units a' ! i)) \<and>
    (en_size = 0 \<or> u_worker (wa_units a' ! i) = Cpu)"
  using assms(1,2)
proof (rule create_units_Inr)
  fix cpus gpus cpu_en gpu_en
  assume a': "a' = set_metadata J ''next_extranonce2_counter'' (j_unsigned J (first_counter en_size gpu)) (push_units (cpus @ gpus) a)"
    and cpus: "\<And>u. u \<in> set cpus \<Longrightarrow> u_extranonce2 u = cpu_en \<and> u_worker u = Cpu"
    and gpus: "if gpu then \<exists>g. gpus = [g] \<and> u_extranonce2 g = gpu_en \<and> u_worker g = Gpu else gpus = []"
    and ch: "if en_size = 0 then chain 0 (List.map unit_range (cpus @ gpus)) (2 ^ 32)
     else chain 0 (List.map unit_range cpus) (2 ^ 32) \<and> (gpu \<longrightarrow> chain 0 (List.map unit_range gpus) (2 ^ 32))"
  have units: "wa_units a' = cpus @ gpus" by (simp add: a' assms(3))
  show ?thesis
  proof (cases "en_size = 0")
    case True
    with ch chain_covers [of 0 "List.map unit_range (cpus @ gpus)" "2 ^ 32" m] assms(4)
    have "\<exists>!i. i < length (List.map unit_range (cpus @ gpus)) \<and> in_range m (List.map unit_range (cpus @ gpus) ! i)"
      by simp
    then show ?thesis using True unfolding units by (simp del: map_append cong: conj_cong)
  next
    case False
    obtain i where i: "i < length cpus" "in_range m (unit_range (cpus ! i))"
      and unique: "\<And>k. k < length cpus \<Longrightarrow> in_range m (unit_range (cpus ! k)) \<Longrightarrow> k = i"
      using False ch chain_covers [of 0 "List.map unit_range cpus" "2 ^ 32" m] assms(4) by auto
    have gpu_only: "u_worker ((cpus @ gpus) ! k) = Gpu" if "length cpus \<le> k" "k < length (cpus @ gpus)" for k
      using that gpus by (auto simp: nth_append split: if_splits)
    show ?thesis
    proof (rule ex1I [of _ i])
      show "i < length (wa_units a') \<and> in_range m (unit_range (wa_units a' ! i)) \<and> (en_size = 0 \<or> u_worker (wa_units a' ! i) = Cpu)"
        using i cpus by (simp add: units nth_append)
      fix k assume k: "k < length (wa_units a') \<and> in_range m (unit_range (wa_units a' ! k)) \<and> (en_size = 0 \<or> u_worker (wa_units a' ! k) = Cpu)"
      then have "k < length cpus" using gpu_only [of k] False by (force simp: units not_less)
      with k show "k = i" by (intro unique) (simp_all add: units nth_append)
    qed
  qed
qed

theorem new_job_partitions_nonces_witness:
  "\<exists>!i. i < length (wa_units (snd (create_units tree_api ''j'' ''p'' 0 3 True 1 example_allocator))) \<and>
     in_range 5 (unit_range (wa_units (snd (create_units tree_api ''j'' ''p'' 0 3 True 1 example_allocator)) ! i))"
proof -
  have "fst (create_units tree_api ''j'' ''p'' 0 3 True 1 example_allocator) = Inr ()" by code_simp
  then have "create_units tree_api ''j'' ''p'' 0 3 True 1 example_allocator
    = (Inr (), snd (create_units tree_api ''j'' ''p'' 0 3 True 1 example_allocator))" by (metis prod.collapse)
  from new_job_partitions_nonces [OF this, of 5] show ?thesis
    by (simp add: example_allocator_def)
qed

text \<open>C32: every operation, returning or throwing, keeps every unit's position within its range and
  every completed unit at its end.\<close>

theorem ranges_stay_well_formed:
  assumes "alloc_step J a a'" "list_all unit_ok (wa_units a)"
  shows "list_all unit_ok (wa_units a')"
  using units_ok_step [OF assms] .

theorem ranges_stay_well_formed_witness:
  "list_all unit_ok (wa_units (mark_all_stale (example_allocator\<lparr>wa_units := [fresh_unit ''i'' ''j'' ''p'' '''' 3 9 Cpu 1]\<rparr>)))"
  using ranges_stay_well_formed [OF alloc_step.stale_all [of tree_api "example_allocator\<lparr>wa_units := [fresh_unit ''i'' ''j'' ''p'' '''' 3 9 Cpu 1]\<rparr>"]]
  by simp

text \<open>\<open>acquire\<close> hands out the first pending unit of the kind with nonces left, marks it as running
  and changes no other; with nothing to hand out it changes nothing; a running unit is not handed
  out again.\<close>

theorem acquire_exclusive:
  "case acquire kind a of
     (None, a') \<Rightarrow> a' = a \<and> list_all (\<lambda>u. \<not> available kind u) (wa_units a)
   | (Some v, a') \<Rightarrow> \<exists>u xs ys. wa_units a = xs @ u # ys \<and> list_all (\<lambda>x. \<not> available kind x) xs \<and>
       u_worker u = kind \<and> u_status u = Pending \<and> u_nonce_next u < u_nonce_end u \<and>
       v = u\<lparr>u_status := InProgress\<rparr> \<and> a' = a\<lparr>wa_units := xs @ v # ys\<rparr> \<and> \<not> available kind v"
proof (cases "acquire kind a")
  case (Pair r a')
  show ?thesis
  proof (cases r)
    case None
    then show ?thesis using acquire_None [of kind a a'] Pair by simp
  next
    case (Some v)
    then have acq: "acquire kind a = (Some v, a')" using Pair by simp
    then show ?thesis
      by (rule acquire_Some) (simp add: Pair Some, auto simp: available_def)
  qed
qed




definition example_exhausted :: "jtree allocator" where
  "example_exhausted = \<lparr>wa_mode = ''live'',
     wa_units = [fresh_unit ''i'' ''j'' ''p'' ''ff'' 0 9 Cpu 1],
     wa_metadata = JObject [(''extranonce2_size'', JUnsigned 1), (''next_extranonce2_counter'', JUnsigned 256)]\<rparr>"



definition example_history :: "jtree allocator" where
  "example_history = \<lparr>wa_mode = ''historical'', wa_units = [], wa_metadata = JObject []\<rparr>"


text \<open>C19: what a successful checkpoint wrote, a restarted allocator reads back: the same units in the
  same order, those that were running pending again.\<close>

theorem checkpoint_round_trip:
  assumes "json_ok J" "j_is_object J (wa_metadata a)" "j_is_object J extra" "j_member J extra ''work_units'' = Inr None"
    and "checkpoint J (save_win32 message env path) extra a d = (ds, Inr ())"
    and "j_parse J (save_payload J (j_merge J (snapshot J a) extra)) = Inr (j_merge J (snapshot J a) extra)"
  shows "\<exists>b. load_existing J (last ds) path (wa_mode a) = Inr b \<and> wa_mode b = wa_mode a \<and>
    wa_units b = List.map reload_unit (wa_units a)"
proof -
  have "load_or J (last ds) path (empty_state J (wa_mode a)) = Inr (j_merge J (snapshot J a) extra)"
    using win32.save_then_load [of message env path J "j_merge J (snapshot J a) extra" d] assms(5,6)
    by (simp add: checkpoint_def)
  from reload_after_checkpoint [OF assms(1-4) this] show ?thesis by simp
qed

lemma snapshot_parse_update: "snapshot (J\<lparr>j_parse := q\<rparr>) a = snapshot J a"
proof -
  have n: "nullable_u32 (J\<lparr>j_parse := q\<rparr>) = nullable_u32 J"
    by (rule ext) (simp add: nullable_u32_def split: option.splits)
  then have "unit_to_json (J\<lparr>j_parse := q\<rparr>) = unit_to_json J"
    by (intro ext) (simp add: unit_to_json_def Let_def)
  moreover have "completed_range_json (J\<lparr>j_parse := q\<rparr>) = completed_range_json J"
    by (intro ext) (simp add: completed_range_json_def)
  ultimately show ?thesis by (simp add: snapshot_def Let_def n split: prod.splits option.splits)
qed

definition example_api :: "jtree json_api" where
  "example_api = tree_api\<lparr>j_parse := (\<lambda>s. Inr (snapshot tree_api example_exhausted))\<rparr>"

theorem checkpoint_round_trip_witness:
  "\<exists>b. load_existing example_api (last (fst (checkpoint example_api (save_win32 (\<lambda>_. '''') healthy_disk ''s'') (JObject []) example_exhausted Map.empty)))
     ''s'' ''live'' = Inr b \<and> wa_units b = [fresh_unit ''i'' ''j'' ''p'' ''ff'' 0 9 Cpu 1]"
proof -
  let ?save = "save_win32 (\<lambda>_. '''') healthy_disk ''s''"
  have J: "json_ok example_api"
    using json_ok_tree_api by (simp add: example_api_def json_ok_def)
  have snap: "snapshot example_api example_exhausted = snapshot tree_api example_exhausted"
    by (simp only: example_api_def snapshot_parse_update)
  have merge: "j_merge example_api v (JObject []) = v" for v
    by (simp add: example_api_def tree_api_def)
  have payload: "save_payload example_api v = ''\<newline>''" for v
    by (simp add: save_payload_def example_api_def tree_api_def)
  have "checkpoint example_api ?save (JObject []) example_exhausted Map.empty
    = (fst (checkpoint example_api ?save (JObject []) example_exhausted Map.empty), Inr ())"
    by (simp add: checkpoint_def payload prod_eq_iff healthy_save)
  moreover have "j_parse example_api s = Inr (snapshot tree_api example_exhausted)" for s
    by (simp add: example_api_def)
  moreover have "j_is_object example_api (wa_metadata example_exhausted)" "j_is_object example_api (JObject [])"
      "j_member example_api (JObject []) ''work_units'' = Inr None"
    by (simp_all add: example_api_def tree_api_def example_exhausted_def)
  moreover have "List.map reload_unit (wa_units example_exhausted) = [fresh_unit ''i'' ''j'' ''p'' ''ff'' 0 9 Cpu 1]"
      "wa_mode example_exhausted = ''live''"
    by (simp_all add: example_exhausted_def reload_unit_def fresh_unit_def)
  ultimately show ?thesis
    using checkpoint_round_trip [OF J, of example_exhausted "JObject []"] by (metis merge snap)
qed

end
