(* ===== verification/Best.thy ===== *)
theory Best
  imports Hex
begin

text \<open>
  The interface the program's running minima share. Four components keep the best hash seen so far
  by replacing it whenever their own comparison says so: bytes from the end of the digest (CPU
  worker), displayed strings (telemetry), words with the nonce as tie-break (zone scanner), target
  bytes (record tracker). The contract \<open>ranked\<close> is that such a comparison is the strict order of
  some rank on the values that occur; from it, once, follow the facts on \<open>keep_best\<close>.
\<close>

definition keep_best :: "('a \<Rightarrow> 'a \<Rightarrow> bool) \<Rightarrow> 'a \<Rightarrow> 'a \<Rightarrow> 'a" where
  "keep_best better candidate best = (if better candidate best then candidate else best)"

locale ranked =
  fixes better :: "'a \<Rightarrow> 'a \<Rightarrow> bool" and valid :: "'a \<Rightarrow> bool" and rank :: "'a \<Rightarrow> 'r::linorder"
  assumes better_rank: "valid x \<Longrightarrow> valid y \<Longrightarrow> better x y \<longleftrightarrow> rank x < rank y"
begin

lemma keep_best_valid [simp]: "valid x \<Longrightarrow> valid b \<Longrightarrow> valid (keep_best better x b)"
  by (simp add: keep_best_def)

lemma rank_keep_best: "valid x \<Longrightarrow> valid b \<Longrightarrow> rank (keep_best better x b) = min (rank x) (rank b)"
  by (auto simp: keep_best_def better_rank min_def)

lemma fold_valid: "list_all valid xs \<Longrightarrow> valid b \<Longrightarrow> valid (fold (keep_best better) xs b)"
  by (induction xs arbitrary: b) simp_all

lemma rank_fold:
  "list_all valid xs \<Longrightarrow> valid b \<Longrightarrow> rank (fold (keep_best better) xs b) = Min (rank ` insert b (set xs))"
proof (induction xs arbitrary: b)
  case (Cons x xs)
  then have "rank (fold (keep_best better) (x # xs) b) = Min (rank ` insert (keep_best better x b) (set xs))" by simp
  also have "\<dots> = Min (insert (min (rank x) (rank b)) (rank ` set xs))"
    using Cons.prems by (simp add: rank_keep_best)
  also have "\<dots> = Min (rank ` insert b (set (x # xs)))"
    by (cases "xs = []") (simp_all add: min.assoc min.left_commute min.commute)
  finally show ?case .
qed simp

lemma fold_member: "fold (keep_best better) xs b \<in> insert b (set xs)"
  by (induction xs arbitrary: b) (auto simp: keep_best_def split: if_splits)

lemma fold_best:
  assumes "list_all valid xs" "valid b" "x \<in> insert b (set xs)"
  shows "rank (fold (keep_best better) xs b) \<le> rank x"
  using assms by (simp only: rank_fold) (rule Min_le, auto)

text \<open>The first of several equally good values is kept: nothing replaces a value by its equal.\<close>

lemma fold_unbeaten:
  assumes "list_all valid xs" "valid b" "\<And>x. x \<in> set xs \<Longrightarrow> rank b \<le> rank x"
  shows "fold (keep_best better) xs b = b"
  using assms by (induction xs arbitrary: b) (simp_all add: keep_best_def better_rank not_less [symmetric])

end

end
