(* ===== verification/Double.thy ===== *)
theory Double
  imports Target
begin

text \<open>
  Floating point as the code uses it: the exact rational result of an operation, rounded to the
  nearest representable number, ties to even. \<open>round_digits p k x\<close> is that rounding for \<open>p\<close>
  significant bits and the least exponent \<open>k\<close>; a \<^verbatim>\<open>double\<close> is \<open>p = 53\<close>, \<open>k = -1074\<close>, and
  the \<^verbatim>\<open>long double\<close> of \<^verbatim>\<open>src/bitcoin/difficulty.cpp\<close> has a number of bits the compiler chooses,
  so that number is an argument. The rounding is monotone; the difficulty computed from a target
  is therefore antitone in the target.
\<close>

section \<open>Rounding\<close>

fun nat_log2 :: "nat \<Rightarrow> int" where
  "nat_log2 n = (if n < 2 then 0 else nat_log2 (n div 2) + 1)"

declare nat_log2.simps [simp del]

text \<open>The binary logarithm of a positive number, rounded down.\<close>

definition ilog2 :: "rat \<Rightarrow> int" where
  "ilog2 x =
    (let (a, b) = quotient_of x; e = nat_log2 (nat a) - nat_log2 (nat b)
     in if x < 2 powi e then e - 1 else e)"

definition round_even :: "rat \<Rightarrow> int" where
  "round_even x =
    (let n = \<lfloor>x\<rfloor>; r = x - of_int n
     in if r < 1 / 2 \<or> r = 1 / 2 \<and> even n then n else n + 1)"

definition ulp_exponent :: "nat \<Rightarrow> int \<Rightarrow> rat \<Rightarrow> int" where
  "ulp_exponent p k x = max k (ilog2 x - int p + 1)"

definition round_digits :: "nat \<Rightarrow> int \<Rightarrow> rat \<Rightarrow> rat" where
  "round_digits p k x =
    (if x = 0 then 0
     else let u = 2 powi ulp_exponent p k \<bar>x\<bar> in sgn x * of_int (round_even (\<bar>x\<bar> / u)) * u)"

section \<open>Doubles\<close>

definition double_of_rat :: "rat \<Rightarrow> fdouble" where
  "double_of_rat x =
    (let y = \<bar>round_digits 53 (-1074) x\<bar>; s = (x < 0)
     in if y = 0 then FZero s
        else if y \<ge> 2 ^ 1024 then FInf s
        else FNum s (nat \<lfloor>y / 2 powi (ilog2 y - 52)\<rfloor>) (ilog2 y + 1))"

definition sign_of :: "fdouble \<Rightarrow> bool" where
  "sign_of d = (case d of FNaN \<Rightarrow> False | FInf s \<Rightarrow> s | FZero s \<Rightarrow> s | FNum s m e \<Rightarrow> s)"

definition rat_of_double :: "fdouble \<Rightarrow> rat" where
  "rat_of_double d =
    (case d of FNum s m e \<Rightarrow> (if s then -1 else 1) * of_nat m * 2 powi (e - 53) | _ \<Rightarrow> 0)"

text \<open>The comparison \<^verbatim>\<open><\<close> and \<^verbatim>\<open>std::isfinite\<close>.\<close>

fun double_less :: "fdouble \<Rightarrow> fdouble \<Rightarrow> bool" where
  "double_less FNaN b = False"
| "double_less a FNaN = False"
| "double_less (FInf s) (FInf t) = (s \<and> \<not> t)"
| "double_less (FInf s) b = s"
| "double_less a (FInf t) = (\<not> t)"
| "double_less a b = (rat_of_double a < rat_of_double b)"

fun is_finite_double :: "fdouble \<Rightarrow> bool" where
  "is_finite_double FNaN = False"
| "is_finite_double (FInf s) = False"
| "is_finite_double d = True"

abbreviation double_zero :: fdouble where "double_zero \<equiv> FZero False"

definition double_of_nat :: "nat \<Rightarrow> fdouble" where
  "double_of_nat n = double_of_rat (of_nat n)"

text \<open>Division, with the special cases of IEEE 754.\<close>

fun double_div :: "fdouble \<Rightarrow> fdouble \<Rightarrow> fdouble" where
  "double_div FNaN b = FNaN"
| "double_div a FNaN = FNaN"
| "double_div (FInf s) (FInf t) = FNaN"
| "double_div (FInf s) b = FInf (s \<noteq> sign_of b)"
| "double_div a (FInf t) = FZero (sign_of a \<noteq> t)"
| "double_div (FZero s) (FZero t) = FNaN"
| "double_div a (FZero t) = FInf (sign_of a \<noteq> t)"
| "double_div (FZero s) b = FZero (s \<noteq> sign_of b)"
| "double_div a b = double_of_rat (rat_of_double a / rat_of_double b)"

fun double_mul :: "fdouble \<Rightarrow> fdouble \<Rightarrow> fdouble" where
  "double_mul FNaN b = FNaN"
| "double_mul a FNaN = FNaN"
| "double_mul (FInf s) (FZero t) = FNaN"
| "double_mul (FZero s) (FInf t) = FNaN"
| "double_mul (FInf s) b = FInf (s \<noteq> sign_of b)"
| "double_mul a (FInf t) = FInf (sign_of a \<noteq> t)"
| "double_mul (FZero s) b = FZero (s \<noteq> sign_of b)"
| "double_mul a (FZero t) = FZero (sign_of a \<noteq> t)"
| "double_mul a b = double_of_rat (rat_of_double a * rat_of_double b)"

text \<open>Addition rounds the exact sum; a sum of two zeros is negative only if both are.\<close>

fun double_add :: "fdouble \<Rightarrow> fdouble \<Rightarrow> fdouble" where
  "double_add FNaN b = FNaN"
| "double_add a FNaN = FNaN"
| "double_add (FInf s) (FInf t) = (if s = t then FInf s else FNaN)"
| "double_add (FInf s) b = FInf s"
| "double_add a (FInf t) = FInf t"
| "double_add (FZero s) (FZero t) = FZero (s \<and> t)"
| "double_add a b = double_of_rat (rat_of_double a + rat_of_double b)"

section \<open>The difficulty of a target\<close>

text \<open>
  One step of the two conversion loops of \<^verbatim>\<open>difficulty_from_target\<close> in a \<^verbatim>\<open>long double\<close> of \<open>p\<close>
  bits; the exponents stay far inside its range.
\<close>

definition long_min :: int where "long_min = -16445"

definition long_step :: "nat \<Rightarrow> u8 \<Rightarrow> rat \<Rightarrow> rat" where
  "long_step p b acc = round_digits p long_min (round_digits p long_min (acc * 256) + of_nat (unat b))"

definition long_value :: "nat \<Rightarrow> bytes \<Rightarrow> rat" where
  "long_value p bs = fold (long_step p) bs 0"

definition difficulty_from_target :: "nat \<Rightarrow> bytes \<Rightarrow> fdouble outcome" where
  "difficulty_from_target p target =
    bindE (target_from_hex ''00000000ffff0000000000000000000000000000000000000000000000000000'') (\<lambda>diff1.
      let numerator = long_value p diff1; denominator = long_value p target
      in if denominator = 0 then Inr (FInf False)
         else Inr (double_of_rat (round_digits p long_min (numerator / denominator))))"

definition difficulty_from_hash :: "nat \<Rightarrow> bytes \<Rightarrow> fdouble outcome" where
  "difficulty_from_hash p digest = difficulty_from_target p (List.map (\<lambda>i. digest ! (31 - i)) [0..<32])"
section \<open>Rounding is monotone\<close>

lemma nat_log2_bounds: "0 < n \<Longrightarrow> 2 powi nat_log2 n \<le> (of_nat n :: rat) \<and> (of_nat n :: rat) < 2 powi (nat_log2 n + 1)"
proof (induction n rule: nat_log2.induct)
  case (1 n)
  show ?case
  proof (cases "n < 2")
    case True
    with 1 have "n = 1" by simp
    then show ?thesis by (simp add: nat_log2.simps)
  next
    case False
    then have IH: "2 powi nat_log2 (n div 2) \<le> (of_nat (n div 2) :: rat)"
        "(of_nat (n div 2) :: rat) < 2 powi (nat_log2 (n div 2) + 1)"
      using 1 by auto
    have up: "(of_nat (n div 2) :: rat) + 1 \<le> 2 powi (nat_log2 (n div 2) + 1)"
    proof -
      have nn: "0 \<le> nat_log2 m" for m
      proof (induction m rule: nat_log2.induct)
        case (1 m)
        then show ?case by (subst nat_log2.simps) auto
      qed
      define k where "k = nat (nat_log2 (n div 2) + 1)"
      have k: "(2 :: rat) powi (nat_log2 (n div 2) + 1) = of_nat (2 ^ k)"
        using nn [of "n div 2"] by (simp add: k_def power_int_def)
      with IH have "n div 2 < 2 ^ k" by (simp only: of_nat_less_iff)
      then have "of_nat (n div 2 + 1) \<le> (of_nat (2 ^ k) :: rat)" by (subst of_nat_le_iff) simp
      then show ?thesis using k by simp
    qed
    have n: "(of_nat n :: rat) = 2 * of_nat (n div 2) + of_nat (n mod 2)"
      by (metis of_nat_add of_nat_mult of_nat_numeral mult_div_mod_eq)
    have m: "0 \<le> (of_nat (n mod 2) :: rat)" "(of_nat (n mod 2) :: rat) < 2" by simp_all
    have e: "nat_log2 n = nat_log2 (n div 2) + 1" using False by (subst nat_log2.simps) simp
    have d: "2 powi (i + 1) = 2 * (2 powi i :: rat)" for i by (simp add: power_int_add)
    show ?thesis unfolding e d [of "nat_log2 (n div 2) + 1"] unfolding n
      using IH up m d [of "nat_log2 (n div 2)"] by linarith
  qed
qed

lemma ilog2_bounds:
  assumes "0 < x" shows "2 powi ilog2 x \<le> x" "x < 2 powi (ilog2 x + 1)"
proof -
  obtain a b where q: "quotient_of x = (a, b)" by fastforce
  have b: "0 < b" and x: "x = of_int a / of_int b"
    using q quotient_of_denom_pos quotient_of_div by blast+
  then have a: "0 < a" using assms by (simp add: zero_less_divide_iff)
  define i j where "i = nat_log2 (nat a)" and "j = nat_log2 (nat b)"
  have A: "2 powi i \<le> (of_int a :: rat)" "of_int a < (2 powi (i + 1) :: rat)"
    using nat_log2_bounds [of "nat a"] a by (simp_all add: i_def)
  have B: "2 powi j \<le> (of_int b :: rat)" "of_int b < (2 powi (j + 1) :: rat)"
    using nat_log2_bounds [of "nat b"] b by (simp_all add: j_def)
  have pos: "0 < (2 powi k :: rat)" for k by simp
  have "2 powi i / 2 powi (j + 1) < x"
    unfolding x using A B b pos by (intro frac_less2) auto
  then have lo: "2 powi (i - j - 1) < x"
    by (simp add: power_int_diff power_int_add field_simps)
  have "x < 2 powi (i + 1) / 2 powi j"
    unfolding x using A B b pos a by (intro frac_less) auto
  then have hi: "x < 2 powi (i - j + 1)"
    by (simp add: power_int_diff power_int_add field_simps)
  have "ilog2 x = (if x < 2 powi (i - j) then i - j - 1 else i - j)"
    by (simp add: ilog2_def q i_def j_def Let_def)
  then show "2 powi ilog2 x \<le> x" "x < 2 powi (ilog2 x + 1)" using lo hi by auto
qed

lemma powi_less_cancel: "(2 :: rat) powi i < 2 powi j \<Longrightarrow> i < j"
  by (metis linorder_not_less power_int_increasing one_le_numeral)

lemma ilog2_unique: "2 powi i \<le> x \<Longrightarrow> x < 2 powi (i + 1) \<Longrightarrow> ilog2 x = i"
proof -
  assume x: "2 powi i \<le> x" "x < 2 powi (i + 1)"
  then have "0 < x" by (meson less_le_trans zero_less_power_int zero_less_numeral)
  from ilog2_bounds [OF this] x have "(2 :: rat) powi i < 2 powi (ilog2 x + 1)" "(2 :: rat) powi ilog2 x < 2 powi (i + 1)"
    by (meson le_less_trans)+
  then show ?thesis by (auto dest!: powi_less_cancel)
qed

lemma ilog2_mono: "0 < x \<Longrightarrow> x \<le> y \<Longrightarrow> ilog2 x \<le> ilog2 y"
proof -
  assume "0 < x" "x \<le> y"
  then have "(2 :: rat) powi ilog2 x < 2 powi (ilog2 y + 1)"
    using ilog2_bounds [of x] ilog2_bounds [of y] by linarith
  then show ?thesis using powi_less_cancel by fastforce
qed

lemma round_even_of_int [simp]: "round_even (of_int n) = n"
  by (simp add: round_even_def)

lemma round_even_mono: assumes "x \<le> y" shows "round_even x \<le> round_even y"
proof (cases "\<lfloor>x\<rfloor> = \<lfloor>y\<rfloor>")
  case True
  then show ?thesis using assms by (auto simp: round_even_def Let_def)
next
  case False
  then have "\<lfloor>x\<rfloor> + 1 \<le> \<lfloor>y\<rfloor>" using floor_mono [OF assms] by linarith
  then show ?thesis by (auto simp: round_even_def Let_def)
qed

lemma round_even_le: "x \<le> of_int n \<Longrightarrow> round_even x \<le> n"
  using round_even_mono [of x "of_int n"] by simp

lemma round_even_ge: "of_int n \<le> x \<Longrightarrow> n \<le> round_even x"
  using round_even_mono [of "of_int n" x] by simp

lemma round_digits_pos:
  assumes "0 < x"
  shows "round_digits p k x = of_int (round_even (x / 2 powi ulp_exponent p k x)) * 2 powi ulp_exponent p k x"
  using assms by (simp add: round_digits_def Let_def)

lemma round_digits_0 [simp]: "round_digits p k 0 = 0"
  by (simp add: round_digits_def)

lemma round_digits_nonneg: "0 \<le> x \<Longrightarrow> 0 \<le> round_digits p k x"
proof (cases "x = 0")
  case False
  assume "0 \<le> x"
  with False have x: "0 < x" by simp
  then have "0 \<le> round_even (x / 2 powi ulp_exponent p k x)" by (intro round_even_ge) simp
  then show ?thesis unfolding round_digits_pos [OF x] by simp
qed simp

text \<open>Rounding does not cross a multiple of the unit in the last place, such as the next power of two.\<close>

lemma powi_nat: "0 \<le> i \<Longrightarrow> (2 :: rat) powi i = of_int (2 ^ nat i)"
  by (simp add: power_int_def)

lemma powi_split: "(2 :: rat) powi i = 2 powi (i - j) * 2 powi j"
  by (simp add: power_int_add [symmetric])

lemma round_digits_le_power:
  assumes "0 < x" "x \<le> 2 powi i" "ulp_exponent p k x \<le> i"
  shows "round_digits p k x \<le> 2 powi i"
proof -
  let ?u = "ulp_exponent p k x"
  have "x / 2 powi ?u \<le> 2 powi (i - ?u)"
    using assms(2) by (simp add: divide_le_eq powi_split [of i ?u])
  also have "\<dots> = of_int (2 ^ nat (i - ?u))" using assms(3) by (intro powi_nat) simp
  finally have "round_even (x / 2 powi ?u) \<le> 2 ^ nat (i - ?u)" by (rule round_even_le)
  then have "of_int (round_even (x / 2 powi ?u)) \<le> (of_int (2 ^ nat (i - ?u)) :: rat)"
    unfolding of_int_le_iff .
  then have "of_int (round_even (x / 2 powi ?u)) \<le> (2 powi (i - ?u) :: rat)"
    using assms(3) by (simp add: powi_nat)
  from mult_right_mono [OF this, of "2 powi ?u"]
  show ?thesis unfolding round_digits_pos [OF assms(1)] by (simp add: powi_split [of i ?u])
qed

lemma round_digits_ge_power:
  assumes "0 < x" "2 powi i \<le> x" "ulp_exponent p k x \<le> i"
  shows "2 powi i \<le> round_digits p k x"
proof -
  let ?u = "ulp_exponent p k x"
  have "of_int (2 ^ nat (i - ?u)) = (2 powi (i - ?u) :: rat)" using assms(3) by (simp add: powi_nat)
  also have "\<dots> \<le> x / 2 powi ?u"
    using assms(2) by (simp add: le_divide_eq powi_split [of i ?u])
  finally have "2 ^ nat (i - ?u) \<le> round_even (x / 2 powi ?u)" by (rule round_even_ge)
  then have "(of_int (2 ^ nat (i - ?u)) :: rat) \<le> of_int (round_even (x / 2 powi ?u))"
    unfolding of_int_le_iff .
  then have "(2 powi (i - ?u) :: rat) \<le> of_int (round_even (x / 2 powi ?u))"
    using assms(3) by (simp add: powi_nat)
  from mult_right_mono [OF this, of "2 powi ?u"]
  show ?thesis unfolding round_digits_pos [OF assms(1)] by (simp add: powi_split [of i ?u])
qed

lemma round_digits_mono:
  assumes "0 \<le> x" "x \<le> y" "0 < p"
  shows "round_digits p k x \<le> round_digits p k y"
proof (cases "x = 0")
  case True
  then show ?thesis using assms by (simp add: round_digits_nonneg)
next
  case False
  then have x: "0 < x" and y: "0 < y" using assms by auto
  have le: "ilog2 x \<le> ilog2 y" using x assms by (intro ilog2_mono) auto
  show ?thesis
  proof (cases "ulp_exponent p k x = ulp_exponent p k y")
    case True
    then show ?thesis unfolding round_digits_pos [OF x] round_digits_pos [OF y]
      using assms by (simp add: mult_right_mono round_even_mono divide_right_mono)
  next
    case False
    then have s: "ilog2 x < ilog2 y" "ulp_exponent p k y \<le> ilog2 y" "ulp_exponent p k x \<le> ilog2 y"
      using le assms(3) by (auto simp: ulp_exponent_def max_def split: if_splits)
    have "x \<le> 2 powi ilog2 y"
      using ilog2_bounds(2) [OF x] s(1) power_int_increasing [of "ilog2 x + 1" "ilog2 y" "2 :: rat"] by simp
    then have "round_digits p k x \<le> 2 powi ilog2 y"
      using x s by (intro round_digits_le_power) auto
    also have "\<dots> \<le> round_digits p k y"
      using ilog2_bounds(1) [OF y] y s by (intro round_digits_ge_power) auto
    finally show ?thesis .
  qed
qed
section \<open>Numbers the format represents\<close>

definition represented :: "nat \<Rightarrow> int \<Rightarrow> rat \<Rightarrow> bool" where
  "represented p k x \<longleftrightarrow> (\<exists>n e. n \<le> 2 ^ p \<and> k \<le> e \<and> x = of_nat n * 2 powi e)"

lemma represented_nonneg: "represented p k x \<Longrightarrow> 0 \<le> x"
  by (auto simp: represented_def)

lemma represented_scale: "represented p k x \<Longrightarrow> 0 \<le> i \<Longrightarrow> represented p k (x * 2 powi i)"
  unfolding represented_def
  by (metis (no_types, opaque_lifting) add_increasing2 mult.assoc power_int_add zero_neq_numeral)

lemma exact_multiple:
  assumes "0 < x" "x = of_int n * 2 powi e" "ulp_exponent p k x \<le> e"
  shows "round_digits p k x = x"
proof -
  let ?u = "ulp_exponent p k x"
  have "(2 :: rat) powi e = of_int (2 ^ nat (e - ?u)) * 2 powi ?u"
    using assms(3) powi_nat [of "e - ?u"] powi_split [of e ?u] by simp
  then have "x = of_int (n * 2 ^ nat (e - ?u)) * 2 powi ?u"
    unfolding of_int_mult mult.assoc by (subst assms(2)) simp
  then have q: "x / 2 powi ?u = of_int (n * 2 ^ nat (e - ?u))" by (simp add: field_simps)
  show ?thesis unfolding round_digits_pos [OF assms(1)] q round_even_of_int
    using \<open>x = of_int (n * 2 ^ nat (e - ?u)) * 2 powi ?u\<close> by simp
qed

lemma ilog2_scale: "0 < x \<Longrightarrow> ilog2 (x * 2 powi i) = ilog2 x + i"
  by (rule ilog2_unique) (use ilog2_bounds [of x] in \<open>simp_all add: power_int_add add.commute add.left_commute mult.commute\<close>)

lemma ilog2_le: "0 < x \<Longrightarrow> x < 2 powi i \<Longrightarrow> ilog2 x < i"
  using ilog2_bounds(1) [of x] powi_less_cancel by (meson le_less_trans)

lemma le_ilog2: "0 < x \<Longrightarrow> 2 powi i \<le> x \<Longrightarrow> i \<le> ilog2 x"
  using ilog2_bounds(2) [of x] powi_less_cancel [of i "ilog2 x + 1"] by force

lemma round_represented:
  assumes "represented p k x" "0 < p" shows "round_digits p k x = x"
proof (cases "x = 0")
  case False
  obtain n e where n: "n \<le> 2 ^ p" "k \<le> e" "x = of_nat n * 2 powi e"
    using assms(1) by (auto simp: represented_def)
  have x: "0 < x" using False assms(1) represented_nonneg by fastforce
  then have n0: "0 < (of_nat n :: rat)" unfolding n(3) by (simp add: zero_less_mult_iff)
  show ?thesis
  proof (cases "n = 2 ^ p")
    case True
    then have xe: "x = of_int 1 * 2 powi (int p + e)" using n by (simp add: power_int_add)
    then have "ilog2 x = int p + e" by (intro ilog2_unique) (simp_all add: power_int_add)
    then show ?thesis using assms(2) n(2) by (intro exact_multiple [OF x xe]) (simp add: ulp_exponent_def)
  next
    case False
    then have "n < 2 ^ p" using n by simp
    then have "of_nat n < (of_nat (2 ^ p) :: rat)" unfolding of_nat_less_iff .
    then have "ilog2 (of_nat n) < int p" using n0 by (intro ilog2_le) simp_all
    then have "ulp_exponent p k x \<le> e"
      using n(2) ilog2_scale [OF n0, of e] by (simp add: ulp_exponent_def n(3))
    then show ?thesis using n(3) by (intro exact_multiple [OF x, of "int n" e]) simp_all
  qed
qed simp

lemma represented_round:
  assumes "0 \<le> x" "0 < p" shows "represented p k (round_digits p k x)"
proof (cases "x = 0")
  case True
  have "represented p k 0" unfolding represented_def by (intro exI [of _ 0] exI [of _ k]) simp
  then show ?thesis using True by simp
next
  case False
  then have x: "0 < x" using assms by simp
  let ?u = "ulp_exponent p k x"
  have "ilog2 x + 1 \<le> int p + ?u" by (simp add: ulp_exponent_def)
  then have "x < 2 powi (int p + ?u)"
    using ilog2_bounds(2) [OF x] power_int_increasing [of "ilog2 x + 1" "int p + ?u" "2 :: rat"] by simp
  then have "x / 2 powi ?u \<le> of_int (2 ^ p)" by (simp add: power_int_add field_simps)
  then have "round_even (x / 2 powi ?u) \<le> 2 ^ p" by (rule round_even_le)
  moreover have "0 \<le> round_even (x / 2 powi ?u)" using x by (intro round_even_ge) simp
  ultimately have "nat (round_even (x / 2 powi ?u)) \<le> 2 ^ p"
    "of_int (round_even (x / 2 powi ?u)) = (of_nat (nat (round_even (x / 2 powi ?u))) :: rat)"
    by (simp_all add: nat_le_iff)
  moreover have "k \<le> ?u" by (simp add: ulp_exponent_def)
  ultimately show ?thesis unfolding represented_def round_digits_pos [OF x] by metis
qed

section \<open>The conversion loop preserves the order\<close>

lemma round_small: "n \<le> 2 ^ p \<Longrightarrow> 0 < p \<Longrightarrow> k \<le> 0 \<Longrightarrow> round_digits p k (of_nat n) = of_nat n"
  unfolding represented_def by (intro round_represented [unfolded represented_def] exI [of _ n] exI [of _ 0]) simp_all

lemma round_nat: assumes "0 < p" "k \<le> 0" shows "\<exists>m. round_digits p k (of_nat n) = of_nat m"
proof (cases "n \<le> 2 ^ p")
  case True
  then show ?thesis using assms by (intro exI [of _ n] round_small)
next
  case False
  let ?x = "of_nat n :: rat"
  have "(of_nat (2 ^ p) :: rat) \<le> ?x" using False unfolding of_nat_le_iff by simp
  then have x: "0 < ?x" and "int p \<le> ilog2 ?x"
    using False by (auto intro!: le_ilog2 simp: not_le)
  then have u: "0 \<le> ulp_exponent p k ?x" by (simp add: ulp_exponent_def)
  have "0 \<le> round_even (?x / 2 powi ulp_exponent p k ?x)" by (intro round_even_ge) simp
  then have "round_digits p k ?x =
      of_nat (nat (round_even (?x / 2 powi ulp_exponent p k ?x)) * 2 ^ nat (ulp_exponent p k ?x))"
    unfolding round_digits_pos [OF x] using u by (simp add: power_int_def)
  then show ?thesis by blast
qed

lemma round_nat_eq:
  assumes "m < n" "round_digits p k (of_nat m) = round_digits p k (of_nat n)" "0 < p" "k \<le> 0"
  shows "2 ^ p \<le> round_digits p k (of_nat n)"
proof -
  have "\<not> n \<le> 2 ^ p" using assms round_small [of n p k] round_small [of m p k] by auto
  then have "round_digits p k (of_nat (2 ^ p)) \<le> round_digits p k (of_nat n)"
    using assms by (intro round_digits_mono) simp_all
  then show ?thesis using round_small [of "2 ^ p" p k] assms by simp
qed

text \<open>Beyond \<open>2^p\<close> another byte is below half a unit in the last place.\<close>

lemma round_absorbs:
  assumes A: "represented p k A" "2 ^ p \<le> A" and p: "0 < p" and k: "k \<le> 0" and b: "b < 256"
  shows "round_digits p k (A * 256 + of_nat b) = A * 256"
proof -
  define a where "a = ilog2 A - int p + 1"
  have A0: "0 < A" using A(2) by (meson less_le_trans zero_less_numeral zero_less_power)
  have "int p \<le> ilog2 A" using A by (intro le_ilog2 A0) simp
  then have a: "1 \<le> a" and ua: "ulp_exponent p k A = a" using k by (simp_all add: a_def ulp_exponent_def)
  have "A = of_int (round_even (A / 2 powi a)) * 2 powi a"
    using round_represented [OF A(1) p] round_digits_pos [OF A0] ua by metis
  then obtain n where n: "A = of_int n * 2 powi a" by blast
  define y where "y = A * 256 + of_nat b"
  have y0: "0 < y" using A0 by (simp add: y_def add_pos_nonneg)
  have "b \<le> 255" using b by simp
  then have "(of_nat b :: rat) \<le> of_nat 255" unfolding of_nat_le_iff .
  then have b2: "(of_nat b :: rat) \<le> 255" by simp
  have u2: "(2 :: rat) \<le> 2 powi a" using a power_int_increasing [of 1 a "2 :: rat"] by simp
  have top: "A + 2 powi a \<le> 2 powi (ilog2 A + 1)"
  proof -
    have e: "(2 :: rat) powi (ilog2 A + 1) = of_int (2 ^ p) * 2 powi a"
      using powi_split [of "ilog2 A + 1" a] powi_nat [of "int p"] by (simp add: a_def)
    have "of_int n * 2 powi a < (of_int (2 ^ p) * 2 powi a :: rat)"
      using ilog2_bounds(2) [OF A0] n e by simp
    then have "(of_int n :: rat) < of_int (2 ^ p)" by simp
    then have "n + 1 \<le> 2 ^ p" unfolding of_int_less_iff by simp
    then have "(of_int (n + 1) :: rat) \<le> of_int (2 ^ p)" unfolding of_int_le_iff .
    from mult_right_mono [OF this, of "2 powi a"] show ?thesis unfolding e by (simp add: n algebra_simps)
  qed
  have "ilog2 y = ilog2 A + 8"
  proof (rule ilog2_unique)
    have s: "(2 :: rat) powi (i + 8) = 2 powi i * 256" for i by (simp add: power_int_add)
    show "2 powi (ilog2 A + 8) \<le> y" using ilog2_bounds(1) [OF A0] unfolding s y_def by simp
    have "y < (A + 2 powi a) * 256" using b2 u2 unfolding y_def by simp
    also have "\<dots> \<le> 2 powi (ilog2 A + 1) * 256" using top by simp
    finally show "y < 2 powi (ilog2 A + 8 + 1)" using s [of "ilog2 A + 1"] by (simp add: add.commute)
  qed
  then have uy: "ulp_exponent p k y = a + 8" using a k by (simp add: ulp_exponent_def a_def)
  have w: "(2 :: rat) powi (a + 8) = 2 powi a * 256" by (simp add: power_int_add)
  have q: "y / 2 powi (a + 8) = of_int n + of_nat b / 2 powi (a + 8)"
    unfolding y_def n w by (simp add: field_simps)
  have r: "0 \<le> (of_nat b :: rat) / 2 powi (a + 8)" "(of_nat b :: rat) / 2 powi (a + 8) < 1 / 2"
    using b2 u2 unfolding w by (simp_all add: field_simps)
  have f: "\<lfloor>y / 2 powi (a + 8)\<rfloor> = n" unfolding q using r by (simp add: floor_unique)
  have "round_even (y / 2 powi (a + 8)) = n"
    unfolding round_even_def f Let_def using r by (simp add: q)
  then show ?thesis using round_digits_pos [OF y0, of p k] unfolding uy y_def [symmetric] w by (simp add: n)
qed
text \<open>
  Of two byte strings that first differ in a smaller byte, the loop keeps the smaller one behind:
  strictly, or so high that no later byte counts.
\<close>

definition natural :: "nat \<Rightarrow> rat \<Rightarrow> bool" where
  "natural p A \<longleftrightarrow> represented p long_min A \<and> (\<exists>n. A = of_nat n)"

definition behind :: "nat \<Rightarrow> rat \<Rightarrow> rat \<Rightarrow> bool" where
  "behind p A B \<longleftrightarrow> natural p A \<and> natural p B \<and> (A < B \<or> A = B \<and> 2 ^ p \<le> A)"

lemma long_min_neg: "long_min \<le> 0"
  by (simp add: long_min_def)

lemma long_step_natural:
  assumes "natural p A" "0 < p"
  shows "long_step p b A = round_digits p long_min (A * 256 + of_nat (unat b))" "natural p (long_step p b A)"
proof -
  obtain n where n: "A = of_nat n" using assms by (auto simp: natural_def)
  have "represented p long_min (A * 256)"
    using represented_scale [of p long_min A 8] assms by (simp add: natural_def)
  then show s: "long_step p b A = round_digits p long_min (A * 256 + of_nat (unat b))"
    using assms(2) by (simp add: long_step_def round_represented)
  have "A * 256 + of_nat (unat b) = of_nat (n * 256 + unat b)" by (simp add: n)
  then show "natural p (long_step p b A)"
    unfolding natural_def s using assms(2) round_nat [OF assms(2) long_min_neg]
    by (simp only: represented_round of_nat_0_le_iff simp_thms)
qed

lemma byte_less: "unat (b :: u8) < 256"
  using unsigned_less [of b, where ?'a = nat] by simp

lemma long_step_behind:
  assumes "behind p A B \<or> natural p A \<and> A = B \<and> a < b" "0 < p"
  shows "behind p (long_step p a A) (long_step p b B)"
proof -
  have nat: "natural p A" "natural p B" using assms(1) by (auto simp: behind_def)
  note s = long_step_natural [OF nat(1) assms(2)] long_step_natural [OF nat(2) assms(2)]
  obtain m n where mn: "A = of_nat m" "B = of_nat n" using nat by (auto simp: natural_def)
  show ?thesis
  proof (cases "A = B \<and> 2 ^ p \<le> A")
    case True
    then have "long_step p c A = A * 256" for c
      using round_absorbs [of p long_min A "unat c"] nat(1) assms(2) long_min_neg byte_less [of c]
      by (simp add: s natural_def)
    moreover have "2 ^ p \<le> A * 256"
      using True represented_nonneg [of p long_min A] nat(1) by (simp add: natural_def)
    ultimately show ?thesis using s True by (simp add: behind_def)
  next
    case False
    then have "m < n \<or> m = n \<and> a < b" using assms(1) mn by (auto simp: behind_def)
    then have lt: "m * 256 + unat a < n * 256 + unat b"
      using byte_less [of a] by (auto simp: word_less_nat_alt)
    have ab: "A * 256 + of_nat (unat a) = of_nat (m * 256 + unat a)"
      "B * 256 + of_nat (unat b) = of_nat (n * 256 + unat b)" by (simp_all add: mn)
    have "long_step p a A \<le> long_step p b B"
      unfolding s(1,3) ab using lt assms(2)
      by (intro round_digits_mono of_nat_0_le_iff) (simp_all only: of_nat_le_iff)
    moreover have "2 ^ p \<le> long_step p b B" if "long_step p a A = long_step p b B"
      using round_nat_eq [OF lt _ assms(2) long_min_neg] that unfolding s(1,3) ab by simp
    ultimately show ?thesis using s(2,4) by (auto simp: behind_def)
  qed
qed

lemma long_fold_behind:
  "behind p A B \<Longrightarrow> length as = length bs \<Longrightarrow> 0 < p \<Longrightarrow> behind p (fold (long_step p) as A) (fold (long_step p) bs B)"
proof (induction as arbitrary: bs A B)
  case (Cons a as)
  then show ?case by (cases bs) (simp_all add: long_step_behind)
qed simp

lemma long_fold_less:
  "as < bs \<Longrightarrow> length as = length bs \<Longrightarrow> natural p A \<Longrightarrow> 0 < p \<Longrightarrow>
    behind p (fold (long_step p) as A) (fold (long_step p) bs A)"
proof (induction as arbitrary: bs A)
  case Nil
  then show ?case by simp
next
  case (Cons a as)
  obtain b bs' where bs: "bs = b # bs'" using Cons.prems(2) by (cases bs) auto
  show ?case
  proof (cases "a = b")
    case True
    then show ?thesis using Cons long_step_natural(2) by (auto simp: bs)
  next
    case False
    then have "a < b" using Cons.prems(1) by (auto simp: bs)
    then have "behind p (long_step p a A) (long_step p b A)"
      using Cons.prems by (intro long_step_behind) auto
    then show ?thesis using Cons.prems by (simp add: bs long_fold_behind)
  qed
qed

lemma natural_0: "natural p 0"
  unfolding natural_def represented_def
  by (intro conjI exI [of _ 0] exI [of _ long_min]) simp_all

lemma long_value_mono:
  assumes "length as = length bs" "be_val as \<le> be_val bs" "0 < p"
  shows "long_value p as \<le> long_value p bs"
proof (cases "be_val as = be_val bs")
  case True
  then have "\<not> as < bs" "\<not> bs < as" using assms(1) be_val_less_iff [of as bs] be_val_less_iff [of bs as] by auto
  then show ?thesis by simp
next
  case False
  then have "as < bs" using assms be_val_less_iff [of as bs] by simp
  from long_fold_less [OF this assms(1) natural_0 assms(3)] show ?thesis
    by (auto simp: behind_def long_value_def)
qed

lemma long_fold_zero: "fold (long_step p) (replicate n 0) 0 = 0"
proof -
  have "long_step p 0 0 = 0" by (simp add: long_step_def)
  then show ?thesis by (induction n) (simp_all del: fold_replicate)
qed

lemma long_value_pos:
  assumes "0 < be_val bs" "0 < p"
  shows "0 < long_value p bs"
proof -
  let ?z = "replicate (length bs) 0 :: bytes"
  have "?z < bs" using assms(1) be_val_less_iff [of ?z bs] by simp
  then have "behind p (fold (long_step p) ?z 0) (long_value p bs)"
    unfolding long_value_def using natural_0 assms(2) by (intro long_fold_less) simp_all
  moreover have "\<not> 2 ^ p \<le> (0 :: rat)" by (simp add: not_le)
  ultimately show ?thesis unfolding long_fold_zero behind_def by blast
qed

lemma long_value_zero: "be_val bs = 0 \<Longrightarrow> 0 < p \<Longrightarrow> long_value p bs = 0"
proof -
  assume "be_val bs = 0" "0 < p"
  then have "long_value p bs \<le> long_value p (replicate (length bs) 0)"
    "long_value p (replicate (length bs) 0) \<le> long_value p bs"
    using long_value_mono [of bs "replicate (length bs) 0" p] long_value_mono [of "replicate (length bs) 0" bs p] by simp_all
  then show ?thesis using long_fold_zero [of p "length bs"] unfolding long_value_def by linarith
qed
section \<open>The order of doubles\<close>

lemma rat_of_double_of_rat:
  assumes "0 < x" "round_digits 53 (-1074) x < 2 ^ 1024"
  shows "rat_of_double (double_of_rat x) = round_digits 53 (-1074) x"
proof -
  define y where "y = round_digits 53 (-1074) x"
  have y0: "0 \<le> y" using assms(1) by (simp add: y_def round_digits_nonneg)
  show ?thesis
  proof (cases "y = 0")
    case True
    then show ?thesis by (simp add: double_of_rat_def rat_of_double_def Let_def y_def [symmetric])
  next
    case False
    then have y: "0 < y" using y0 by simp
    have "represented 53 (-1074) y" unfolding y_def using assms(1) by (intro represented_round) simp_all
    then obtain n e where n: "n \<le> 2 ^ 53" "y = of_nat n * 2 powi e" by (auto simp: represented_def)
    have n0: "0 < (of_nat n :: rat)" using y unfolding n(2) by (simp add: zero_less_mult_iff)
    have le: "ilog2 (of_nat n) \<le> 53"
      using ilog2_mono [OF n0, of "of_nat (2 ^ 53)"] n(1) ilog2_unique [of 53 "2 ^ 53"]
      unfolding of_nat_le_iff by simp
    have ly: "ilog2 y = ilog2 (of_nat n) + e" unfolding n(2) by (rule ilog2_scale [OF n0])
    have "\<exists>m :: int. y / 2 powi (ilog2 y - 52) = of_int m"
    proof (cases "ilog2 (of_nat n) = 53")
      case True
      then have "(2 :: rat) ^ 53 \<le> of_nat n" using ilog2_bounds(1) [OF n0] by simp
      then have "n = 2 ^ 53" using n(1) by (metis le_antisym of_nat_le_iff of_nat_numeral of_nat_power)
      then have "y / 2 powi (ilog2 y - 52) = of_int (2 ^ 52)"
        unfolding ly True by (simp add: n(2) power_int_diff power_int_add)
      then show ?thesis by blast
    next
      case False
      define d where "d = 52 - ilog2 (of_nat n)"
      have d: "0 \<le> d" using False le by (simp add: d_def)
      have "y / 2 powi (ilog2 y - 52) = of_nat n * 2 powi d"
        unfolding ly d_def by (simp add: n(2) power_int_diff power_int_add)
      also have "\<dots> = of_int (int n * 2 ^ nat d)" using powi_nat [OF d] by simp
      finally show ?thesis by blast
    qed
    then obtain m :: int where m: "y / 2 powi (ilog2 y - 52) = of_int m" by blast
    have "0 < (of_int m :: rat)" unfolding m [symmetric] using y by simp
    moreover have "y = of_int m * 2 powi (ilog2 y - 52)" using m by (simp add: divide_eq_eq)
    ultimately have "of_nat (nat \<lfloor>y / 2 powi (ilog2 y - 52)\<rfloor>) * 2 powi (ilog2 y - 52) = y"
      unfolding m by simp
    moreover have "double_of_rat x = FNum False (nat \<lfloor>y / 2 powi (ilog2 y - 52)\<rfloor>) (ilog2 y + 1)"
      using y assms by (simp add: double_of_rat_def Let_def y_def [symmetric])
    ultimately show ?thesis by (simp add: rat_of_double_def y_def)
  qed
qed

lemma double_of_rat_cases:
  assumes "0 < x"
  obtains (finite) "round_digits 53 (-1074) x < 2 ^ 1024" "is_finite_double (double_of_rat x)"
    "rat_of_double (double_of_rat x) = round_digits 53 (-1074) x"
  | (overflow) "2 ^ 1024 \<le> round_digits 53 (-1074) x" "double_of_rat x = FInf False"
proof -
  have nn: "0 \<le> round_digits 53 (-1074) x" using assms by (simp add: round_digits_nonneg)
  show ?thesis
  proof (cases "round_digits 53 (-1074) x < 2 ^ 1024")
    case True
    then have "is_finite_double (double_of_rat x)" using nn by (simp add: double_of_rat_def Let_def)
    then show ?thesis using True finite rat_of_double_of_rat [OF assms] by blast
  next
    case False
    then have ge: "2 ^ 1024 \<le> round_digits 53 (-1074) x" by simp
    have "(0 :: rat) < 2 ^ 1024" by simp
    with ge have "round_digits 53 (-1074) x \<noteq> 0" by linarith
    then have "double_of_rat x = FInf False" using ge nn assms by (simp add: double_of_rat_def Let_def)
    then show ?thesis using overflow ge by blast
  qed
qed

lemma double_less_finite:
  "is_finite_double a \<Longrightarrow> is_finite_double b \<Longrightarrow> double_less a b \<longleftrightarrow> rat_of_double a < rat_of_double b"
  by (cases a; cases b) simp_all

lemma double_less_infinity: "\<not> double_less (FInf False) d"
  by (cases d) simp_all

lemma double_of_rat_0 [simp]: "double_of_rat 0 = FZero False"
  by (simp add: double_of_rat_def)

lemma double_of_rat_mono:
  assumes "0 \<le> x" "x \<le> y"
  shows "\<not> double_less (double_of_rat y) (double_of_rat x)"
proof (cases "y = 0")
  case True
  then show ?thesis using assms by simp
next
  case False
  then have y: "0 < y" using assms by simp
  have le: "round_digits 53 (-1074) x \<le> round_digits 53 (-1074) y" using assms by (intro round_digits_mono) simp_all
  have x: "is_finite_double (double_of_rat x) \<and> rat_of_double (double_of_rat x) = round_digits 53 (-1074) x"
    if "round_digits 53 (-1074) x < 2 ^ 1024"
  proof (cases "x = 0")
    case False
    then show ?thesis using assms(1) that double_of_rat_cases [of x] by (metis le_less linorder_not_le)
  qed (simp add: rat_of_double_def)
  from double_of_rat_cases [OF y] show ?thesis
  proof cases
    case 1
    then have "round_digits 53 (-1074) x < 2 ^ 1024" using le_less_trans [OF le] by simp
    from x [OF this] 1 le show ?thesis by (simp add: double_less_finite)
  next
    case 2
    then show ?thesis by (simp add: double_less_infinity)
  qed
qed

lemma difficulty_from_target_Inr:
  obtains d1 where "length d1 = 32" "be_val d1 = diff1_value"
    "\<And>p t. difficulty_from_target p t = Inr (if long_value p t = 0 then FInf False
       else double_of_rat (round_digits p long_min (long_value p d1 / long_value p t)))"
  using diff1_target by (auto simp: difficulty_from_target_def Let_def)

lemma difficulty_antitone_pair:
  assumes "length s = 32" "length t = 32" "be_val s \<le> be_val t" "0 < p"
  shows "\<exists>ds dt. difficulty_from_target p s = Inr ds \<and> difficulty_from_target p t = Inr dt \<and> \<not> double_less ds dt"
proof -
  obtain d1 where d1: "length d1 = 32" "be_val d1 = diff1_value"
    and eq: "\<And>t. difficulty_from_target p t = Inr (if long_value p t = 0 then FInf False
       else double_of_rat (round_digits p long_min (long_value p d1 / long_value p t)))"
    by (rule difficulty_from_target_Inr) blast
  show ?thesis
  proof (cases "be_val s = 0")
    case True
    then show ?thesis using assms(4) by (simp add: eq long_value_zero double_less_infinity)
  next
    case False
    then have pos: "0 < long_value p s" "0 < long_value p t" "0 < long_value p d1"
      using assms d1 by (simp_all add: long_value_pos diff1_value_def)
    have "long_value p d1 / long_value p t \<le> long_value p d1 / long_value p s"
      using pos long_value_mono [of s t p] assms by (intro divide_left_mono) simp_all
    then have le: "round_digits p long_min (long_value p d1 / long_value p t)
        \<le> round_digits p long_min (long_value p d1 / long_value p s)"
      using pos assms(4) by (intro round_digits_mono) simp_all
    have "0 \<le> round_digits p long_min (long_value p d1 / long_value p t)"
      using pos by (intro round_digits_nonneg) simp
    from double_of_rat_mono [OF this le] show ?thesis using pos by (simp add: eq)
  qed
qed

section \<open>Properties\<close>

text \<open>The difficulty of a target never throws and never decreases when the target decreases, for
  a \<^verbatim>\<open>long double\<close> of any precision: a better hash is never displayed with a lower difficulty,
  although each of the 64 conversion steps, the quotient and the final conversion are rounded.\<close>

theorem difficulty_antitone:
  assumes "length s = 32" "length t = 32" "be_val s \<le> be_val t" "0 < p"
  shows "\<exists>ds dt. difficulty_from_target p s = Inr ds \<and> difficulty_from_target p t = Inr dt \<and> \<not> double_less ds dt"
  using assms by (rule difficulty_antitone_pair)

theorem difficulty_antitone_witness:
  "\<exists>ds dt. difficulty_from_target 64 (replicate 6 0 @ [1] @ replicate 25 0) = Inr ds \<and>
     difficulty_from_target 64 (replicate 4 0 @ [0xff, 0xff] @ replicate 26 0) = Inr dt \<and> \<not> double_less ds dt"
  using difficulty_antitone [of "replicate 6 0 @ [1] @ replicate 25 0" "replicate 4 0 @ [0xff, 0xff] @ replicate 26 0" 64]
  by (simp add: be_val_append)

end
