(* ===== verification/Result_Logger.thy ===== *)
theory Result_Logger
  imports Double State_Store
begin

text \<open>
  \<^verbatim>\<open>src/logging/result_logger.cpp\<close> with the \<^verbatim>\<open>Solution\<close> of \<^verbatim>\<open>include/mining/solution.h\<close>: the audit
  trail of shares and block candidates. Clock readings and what the file system answers are
  parameters; a logger operation returns the disk it leaves and its outcome. Candidates are saved
  through the checkpoint store, everything else is appended.
\<close>

section \<open>Solutions\<close>

record 'j solution =
  s_job_id :: string
  s_username :: string
  s_extranonce1 :: string
  s_extranonce2 :: string
  s_extranonce2_size :: u32
  s_clean_jobs :: bool
  s_coinbase1 :: string
  s_coinbase2 :: string
  s_merkle_branches :: "string list"
  s_work_fingerprint :: string
  s_version :: string
  s_prevhash :: string
  s_merkle_root :: string
  s_ntime :: string
  s_nbits :: string
  s_nonce :: string
  s_nonce_value :: u32
  s_nonce_header_le :: string
  s_header_hex :: string
  s_hash :: string
  s_network_target :: string
  s_share_target :: string
  s_share_difficulty :: fdouble
  s_hash_difficulty :: fdouble
  s_network_difficulty :: fdouble
  s_network_difficulty_ratio :: fdouble
  s_worker :: string
  s_total_hashes :: u64
  s_uptime_ms :: u64
  s_detected :: string
  s_submitted :: string
  s_response :: string
  s_status :: string
  s_submission_id :: "i64 option"
  s_accepted :: "bool option"
  s_latency_us :: u64
  s_server_response :: "'j option"
  s_local_error :: "string option"
  s_network_candidate :: bool
  s_share_candidate :: bool
  s_personal_record :: bool
  s_offline :: bool
  s_result_file :: string
  s_share_audit_file :: string

definition detected_solution :: "'j solution" where
  "detected_solution = \<lparr>s_job_id = '''', s_username = '''', s_extranonce1 = '''', s_extranonce2 = '''',
    s_extranonce2_size = 0, s_clean_jobs = False, s_coinbase1 = '''', s_coinbase2 = '''', s_merkle_branches = [],
    s_work_fingerprint = '''', s_version = '''', s_prevhash = '''', s_merkle_root = '''', s_ntime = '''',
    s_nbits = '''', s_nonce = '''', s_nonce_value = 0, s_nonce_header_le = '''', s_header_hex = '''', s_hash = '''',
    s_network_target = '''', s_share_target = '''', s_share_difficulty = double_zero, s_hash_difficulty = double_zero,
    s_network_difficulty = double_zero, s_network_difficulty_ratio = double_zero, s_worker = '''',
    s_total_hashes = 0, s_uptime_ms = 0, s_detected = '''', s_submitted = '''', s_response = '''',
    s_status = ''detected'', s_submission_id = None, s_accepted = None, s_latency_us = 0, s_server_response = None,
    s_local_error = None, s_network_candidate = False, s_share_candidate = True, s_personal_record = False,
    s_offline = False, s_result_file = '''', s_share_audit_file = ''''\<rparr>"

section \<open>Their JSON\<close>

definition j_text_or_null :: "'j json_api \<Rightarrow> string \<Rightarrow> 'j" where
  "j_text_or_null J text = (if text = [] then j_null J else j_string J text)"

definition j_nullable :: "'j json_api \<Rightarrow> ('a \<Rightarrow> 'j) \<Rightarrow> 'a option \<Rightarrow> 'j" where
  "j_nullable J f v = (case v of Some x \<Rightarrow> f x | None \<Rightarrow> j_null J)"

definition candidate_json :: "'j json_api \<Rightarrow> 'j solution \<Rightarrow> 'j" where
  "candidate_json J v =
    fold (\<lambda>(k, x) r. j_set J r k x)
      [(''submission_id'', j_nullable J (j_signed J) (s_submission_id v)),
       (''accepted'', j_nullable J (j_boolean J) (s_accepted v)),
       (''server_response'', j_nullable J id (s_server_response v)),
       (''local_submission_error'', j_nullable J (j_string J) (s_local_error v))]
      (j_object J
        [(''job_id'', j_string J (s_job_id v)), (''username'', j_string J (s_username v)),
         (''extranonce1'', j_string J (s_extranonce1 v)), (''extranonce2'', j_string J (s_extranonce2 v)),
         (''version'', j_string J (s_version v)), (''prevhash'', j_string J (s_prevhash v)),
         (''merkle_root'', j_string J (s_merkle_root v)), (''ntime'', j_string J (s_ntime v)),
         (''nbits'', j_string J (s_nbits v)), (''nonce'', j_string J (s_nonce v)),
         (''nonce_uint32'', j_unsigned J (ucast (s_nonce_value v))),
         (''nonce_header_le'', j_string J (s_nonce_header_le v)), (''header_hex'', j_string J (s_header_hex v)),
         (''hash'', j_string J (s_hash v)), (''network_target'', j_string J (s_network_target v)),
         (''share_target'', j_string J (s_share_target v)), (''hash_difficulty'', j_double J (s_hash_difficulty v)),
         (''network_difficulty'', j_double J (s_network_difficulty v)),
         (''best_to_network_ratio'', j_double J (s_network_difficulty_ratio v)),
         (''worker'', j_string J (s_worker v)), (''detected_timestamp_utc'', j_string J (s_detected v)),
         (''submitted_timestamp_utc'', j_text_or_null J (s_submitted v)),
         (''response_timestamp_utc'', j_text_or_null J (s_response v)),
         (''submission_status'', j_string J (s_status v)), (''submission_latency_us'', j_unsigned J (s_latency_us v)),
         (''network_candidate'', j_boolean J (s_network_candidate v)),
         (''share_candidate'', j_boolean J (s_share_candidate v)),
         (''personal_record'', j_boolean J (s_personal_record v)), (''offline'', j_boolean J (s_offline v))])"

definition share_audit_json :: "'j json_api \<Rightarrow> 'j solution \<Rightarrow> 'j" where
  "share_audit_json J v =
    j_object J
      [(''schema_version'', j_unsigned J 1),
       (''metadata'', j_object J
          [(''detected_timestamp_utc'', j_string J (s_detected v)),
           (''submitted_timestamp_utc'', j_text_or_null J (s_submitted v)),
           (''response_timestamp_utc'', j_text_or_null J (s_response v))]),
       (''stratum_job'', j_object J
          [(''job_id'', j_string J (s_job_id v)), (''clean_jobs'', j_boolean J (s_clean_jobs v)),
           (''prevhash'', j_string J (s_prevhash v)), (''coinbase1'', j_string J (s_coinbase1 v)),
           (''coinbase2'', j_string J (s_coinbase2 v)),
           (''merkle_branches'', j_array J (List.map (j_string J) (s_merkle_branches v))),
           (''version'', j_string J (s_version v)), (''nbits'', j_string J (s_nbits v)),
           (''ntime'', j_string J (s_ntime v)), (''extranonce1'', j_string J (s_extranonce1 v)),
           (''extranonce2'', j_string J (s_extranonce2 v)),
           (''extranonce2_size'', j_unsigned J (ucast (s_extranonce2_size v))),
           (''work_fingerprint'', j_string J (s_work_fingerprint v))]),
       (''targets'', j_object J
          [(''share_difficulty'', j_double J (s_share_difficulty v)), (''share_target'', j_string J (s_share_target v)),
           (''network_target'', j_string J (s_network_target v)), (''hash_difficulty'', j_double J (s_hash_difficulty v)),
           (''network_difficulty'', j_double J (s_network_difficulty v))]),
       (''work'', j_object J
          [(''merkle_root'', j_string J (s_merkle_root v)), (''header_hex'', j_string J (s_header_hex v)),
           (''hash_bitcoin_display'', j_string J (s_hash v)),
           (''network_candidate'', j_boolean J (s_network_candidate v)),
           (''share_candidate'', j_boolean J (s_share_candidate v)),
           (''personal_record'', j_boolean J (s_personal_record v)), (''worker'', j_string J (s_worker v))]),
       (''nonce'', j_object J
          [(''uint32'', j_unsigned J (ucast (s_nonce_value v))), (''stratum_hex'', j_string J (s_nonce v)),
           (''header_little_endian_hex'', j_string J (s_nonce_header_le v))]),
       (''submission'', j_object J
          [(''status'', j_string J (s_status v)), (''username'', j_string J (s_username v)),
           (''job_id'', j_string J (s_job_id v)), (''extranonce2'', j_string J (s_extranonce2 v)),
           (''ntime'', j_string J (s_ntime v)), (''nonce'', j_string J (s_nonce v)),
           (''submission_id'', j_nullable J (j_signed J) (s_submission_id v)),
           (''accepted'', j_nullable J (j_boolean J) (s_accepted v)),
           (''server_response'', j_nullable J id (s_server_response v)),
           (''submission_latency_us'',
              if s_response v = [] then j_null J else j_unsigned J (s_latency_us v)),
           (''local_error'', j_nullable J (j_string J) (s_local_error v))])]"

section \<open>Files\<close>

text \<open>
  \<^verbatim>\<open>operator/\<close> with a relative right-hand side.
\<close>

definition path_join :: "string \<Rightarrow> string \<Rightarrow> string" where
  "path_join dir name = (if dir = [] \<or> last dir = CHR ''/'' then dir @ name else dir @ ''/'' @ name)"

text \<open>
  What one append does: the directory cannot be created, the file cannot be opened, the stream
  fails after some of the text, or all of it is written.
\<close>

datatype append_env = No_directory | No_file | Failed_after nat | Appended

definition old_text :: "disk \<Rightarrow> string \<Rightarrow> string" where
  "old_text d path = (case d path of Some c \<Rightarrow> c | None \<Rightarrow> [])"

record append_errors =
  ae_directory :: exn
  ae_open :: exn
  ae_flush :: exn

definition append_text :: "append_errors \<Rightarrow> append_env \<Rightarrow> string \<Rightarrow> string \<Rightarrow> disk \<Rightarrow> disk \<times> unit outcome" where
  "append_text errs env path text d =
    (case env of
       No_directory \<Rightarrow> (d, Inl (ae_directory errs))
     | No_file \<Rightarrow> (d, Inl (ae_open errs))
     | Failed_after k \<Rightarrow> (d(path \<mapsto> old_text d path @ take k text), Inl (ae_flush errs))
     | Appended \<Rightarrow> (d(path \<mapsto> old_text d path @ text), Inr ()))"

section \<open>The logger\<close>

record logger =
  lg_directory :: string
  lg_session_path :: string
  lg_session_log :: bool
  lg_block_candidates :: bool
  lg_share_audits :: bool
  lg_retention_hours :: u32
  lg_threshold :: fdouble

text \<open>\<^verbatim>\<open>event\<close> ignores the state of its stream; an append that creates no directory and reports nothing.\<close>

definition log_event :: "logger \<Rightarrow> append_env \<Rightarrow> string \<Rightarrow> string \<Rightarrow> disk \<Rightarrow> disk" where
  "log_event lg env utc_now text d =
    (if \<not> lg_session_log lg then d
     else fst (append_text \<lparr>ae_directory = Runtime_error [], ae_open = Runtime_error [], ae_flush = Runtime_error []\<rparr>
            env (lg_session_path lg) (utc_now @ '' '' @ text @ ''\<newline>'') d))"

text \<open>
  The loop of \<^verbatim>\<open>unique_result_path\<close>, with the successive readings of the clock and, for each, the
  error \<^verbatim>\<open>exists\<close> reports if any: None when the readings run out before an unused name comes up.
\<close>

fun unique_result_path :: "logger \<Rightarrow> string \<Rightarrow> (string \<times> string option) list \<Rightarrow> disk \<Rightarrow> string outcome option" where
  "unique_result_path lg prefix [] d = None"
| "unique_result_path lg prefix ((stamp, err) # stamps) d =
    (let path = path_join (lg_directory lg) (prefix @ stamp @ ''.json'')
     in case err of
          Some e \<Rightarrow> Some (Inl (Persistence_error (''cannot inspect result path '' @ path @ '': '' @ e)))
        | None \<Rightarrow> if d path = None then Some (Inr path) else unique_result_path lg prefix stamps d)"

definition save_candidate ::
    "'j json_api \<Rightarrow> (string \<Rightarrow> string \<Rightarrow> disk \<Rightarrow> disk list \<times> unit outcome) \<Rightarrow> logger \<Rightarrow>
      (string \<times> string option) list \<Rightarrow> 'j solution \<Rightarrow> disk \<Rightarrow> (disk list \<times> 'j solution \<times> string outcome) option" where
  "save_candidate J save lg stamps sol d =
    (if \<not> lg_block_candidates lg then Some ([d], sol, Inr [])
     else case unique_result_path lg ''block_candidate_'' stamps d of
       None \<Rightarrow> None
     | Some (Inl e) \<Rightarrow> Some ([d], sol, Inl e)
     | Some (Inr path) \<Rightarrow>
         let sol1 = sol\<lparr>s_result_file := path\<rparr>
         in case save path (save_payload J (candidate_json J sol1)) d of
              (ds, r) \<Rightarrow> Some (ds, sol1, bindE r (\<lambda>_. Inr path)))"

definition update_candidate ::
    "'j json_api \<Rightarrow> (string \<Rightarrow> string \<Rightarrow> disk \<Rightarrow> disk list \<times> unit outcome) \<Rightarrow> 'j solution \<Rightarrow> disk \<Rightarrow> disk list \<times> unit outcome" where
  "update_candidate J save sol d =
    (if s_result_file sol = [] then ([d], Inr ())
     else save (s_result_file sol) (save_payload J (candidate_json J sol)) d)"

definition share_audit_errors :: append_errors where
  "share_audit_errors =
    \<lparr>ae_directory = Persistence_error ''cannot create recent share audit directory'',
     ae_open = Persistence_error ''cannot append recent share audit segment'',
     ae_flush = Persistence_error ''cannot flush recent share audit segment''\<rparr>"

definition audit_line :: "'j json_api \<Rightarrow> string \<Rightarrow> 'j solution \<Rightarrow> string" where
  "audit_line J event sol = j_dump J (j_set J (share_audit_json J sol) ''lifecycle_event'' (j_string J event)) @ ''\<newline>''"

definition save_share_audit ::
    "'j json_api \<Rightarrow> logger \<Rightarrow> append_env \<Rightarrow> string \<Rightarrow> 'j solution \<Rightarrow> disk \<Rightarrow> disk \<times> 'j solution \<times> string outcome" where
  "save_share_audit J lg env timestamp sol d =
    (if \<not> lg_share_audits lg then (d, sol, Inr [])
     else
       let segment = take 11 timestamp @ ''00'';
           file = path_join (path_join (lg_directory lg) ''share_audit_recent'') (''shares_'' @ segment @ ''.jsonl'');
           sol1 = sol\<lparr>s_share_audit_file := file\<rparr>
       in case append_text share_audit_errors env file (audit_line J ''detected'' sol1) d of
            (d1, r) \<Rightarrow> (d1, sol1, bindE r (\<lambda>_. Inr file)))"

text \<open>\<^verbatim>\<open>update_share_audit\<close> creates no directory: \<open>No_directory\<close> is an open that fails.\<close>

definition update_share_audit :: "'j json_api \<Rightarrow> append_env \<Rightarrow> 'j solution \<Rightarrow> disk \<Rightarrow> disk \<times> unit outcome" where
  "update_share_audit J env sol d =
    (if s_share_audit_file sol = [] then (d, Inr ())
     else append_text
       \<lparr>ae_directory = Persistence_error ''cannot update recent share audit segment'',
        ae_open = Persistence_error ''cannot update recent share audit segment'',
        ae_flush = Persistence_error ''cannot flush recent share audit update''\<rparr>
       env (s_share_audit_file sol) (audit_line J ''submission_update'' sol) d)"

text \<open>\<open>parent\<close> is \<^verbatim>\<open>parent_path\<close>, used in a message only.\<close>

definition append_jsonl ::
    "'j json_api \<Rightarrow> (string \<Rightarrow> string) \<Rightarrow> logger \<Rightarrow> append_env \<Rightarrow> string \<Rightarrow> 'j \<Rightarrow> disk \<Rightarrow> disk \<times> unit outcome" where
  "append_jsonl J parent lg env filename val d =
    (let path = path_join (lg_directory lg) filename
     in append_text
       \<lparr>ae_directory = Persistence_error (''cannot create JSONL archive directory '' @ parent path),
        ae_open = Persistence_error (''cannot open JSONL archive '' @ path),
        ae_flush = Persistence_error (''cannot append JSONL archive '' @ path)\<rparr>
       env path (j_dump J val @ ''\<newline>'') d)"

definition save_permanent_event ::
    "'j json_api \<Rightarrow> (string \<Rightarrow> string) \<Rightarrow> logger \<Rightarrow> append_env \<Rightarrow> string \<Rightarrow> 'j solution \<Rightarrow> disk \<Rightarrow> disk \<times> unit outcome" where
  "save_permanent_event J parent lg env reason sol d =
    (if \<not> s_network_candidate sol \<and> \<not> s_personal_record sol \<and> double_less (s_hash_difficulty sol) (lg_threshold lg)
     then (d, Inr ())
     else append_jsonl J parent lg env (path_join ''statistics'' ''high_difficulty_shares.jsonl'')
       (j_set J (j_set J (share_audit_json J sol) ''schema_version'' (j_unsigned J 1))
         ''permanent_reason'' (j_string J reason)) d)"

definition save_json_atomic ::
    "'j json_api \<Rightarrow> (string \<Rightarrow> string \<Rightarrow> disk \<Rightarrow> disk list \<times> unit outcome) \<Rightarrow> string \<Rightarrow> 'j \<Rightarrow> disk \<Rightarrow> disk list \<times> unit outcome" where
  "save_json_atomic J save path val d = save path (save_payload J val) d"

section \<open>Purging\<close>

text \<open>
  One entry of a directory: its file name, whether it is a regular file, its modification time
  unless reading it fails, and whether the removal succeeds.
\<close>

record dir_entry =
  de_name :: string
  de_regular :: bool
  de_modified :: "int option"
  de_removable :: bool

definition purge_entry :: "string \<Rightarrow> bool \<Rightarrow> int \<Rightarrow> dir_entry \<Rightarrow> disk \<times> nat \<Rightarrow> disk \<times> nat" where
  "purge_entry dir legacy_only cutoff e = (\<lambda>(d, removed).
    (if \<not> de_regular e then (d, removed)
     else if legacy_only \<and> take 12 (de_name e) \<noteq> ''share_audit_'' then (d, removed)
     else case de_modified e of
       None \<Rightarrow> (d, removed)
     | Some modified \<Rightarrow>
         if modified \<ge> cutoff then (d, removed)
         else if de_removable e then (d(path_join dir (de_name e) := None), removed + 1)
         else (d, removed)))"

text \<open>The entries the iteration reaches; None when the directory does not exist.\<close>

definition purge_directory :: "string \<Rightarrow> bool \<Rightarrow> int \<Rightarrow> dir_entry list option \<Rightarrow> disk \<times> nat \<Rightarrow> disk \<times> nat" where
  "purge_directory dir legacy_only cutoff entries =
    (case entries of None \<Rightarrow> id | Some es \<Rightarrow> fold (purge_entry dir legacy_only cutoff) es)"

definition purge_expired_share_audits ::
    "logger \<Rightarrow> int \<Rightarrow> int \<Rightarrow> dir_entry list option \<Rightarrow> dir_entry list option \<Rightarrow> disk \<Rightarrow> disk \<times> nat" where
  "purge_expired_share_audits lg now hour recent legacy d =
    (if lg_retention_hours lg = 0 then (d, 0)
     else
       let cutoff = now - int (unat (lg_retention_hours lg)) * hour
       in purge_directory (lg_directory lg) True cutoff legacy
            (purge_directory (path_join (lg_directory lg) ''share_audit_recent'') False cutoff recent (d, 0)))"

text \<open>The constructor; \<open>dir_error\<close> is the error of \<^verbatim>\<open>create_directories\<close>.\<close>

definition make_logger ::
    "string option \<Rightarrow> string \<Rightarrow> string \<Rightarrow> bool \<Rightarrow> bool \<Rightarrow> bool \<Rightarrow> u32 \<Rightarrow> fdouble \<Rightarrow> int \<Rightarrow> int \<Rightarrow>
      dir_entry list option \<Rightarrow> dir_entry list option \<Rightarrow> disk \<Rightarrow> (disk \<times> logger) outcome" where
  "make_logger dir_err dir timestamp session blocks audits hours threshold now hour recent legacy d =
    (case dir_err of
       Some e \<Rightarrow> Inl (Persistence_error (''cannot create result directory '' @ dir @ '': '' @ e))
     | None \<Rightarrow>
         let lg = \<lparr>lg_directory = dir, lg_session_path = path_join dir (''session_'' @ timestamp @ ''.log''),
                   lg_session_log = session, lg_block_candidates = blocks, lg_share_audits = audits,
                   lg_retention_hours = hours, lg_threshold = threshold\<rparr>
         in Inr (fst (purge_expired_share_audits lg now hour recent legacy d), lg))"
section \<open>Appending\<close>

text \<open>No file loses a byte: what was there is a prefix of what is there.\<close>

definition extends_disk :: "disk \<Rightarrow> disk \<Rightarrow> bool" where
  "extends_disk d d' \<longleftrightarrow> (\<forall>p c. d p = Some c \<longrightarrow> (\<exists>x. d' p = Some (c @ x)))"

lemma extends_disk_refl [simp]: "extends_disk d d"
  unfolding extends_disk_def by (metis append_Nil2)

lemma extends_disk_trans: "extends_disk d d' \<Longrightarrow> extends_disk d' d'' \<Longrightarrow> extends_disk d d''"
  unfolding extends_disk_def by (metis append.assoc)

lemma append_text_extends [simp]: "extends_disk d (fst (append_text errs env path text d))"
  by (auto simp: extends_disk_def append_text_def old_text_def split: append_env.splits option.splits)

lemma append_text_extendsD: "append_text errs env path text d = (d', r) \<Longrightarrow> extends_disk d d'"
  by (metis append_text_extends fst_conv)

lemma append_text_other: "p \<noteq> path \<Longrightarrow> fst (append_text errs env path text d) p = d p"
  by (simp add: append_text_def split: append_env.splits)

lemma append_text_Inr: "append_text errs env path text d = (d', Inr u) \<Longrightarrow> d' path = Some (old_text d path @ text)"
  by (auto simp: append_text_def split: append_env.splits)

lemma path_join_inject [simp]: "path_join dir a = path_join dir b \<longleftrightarrow> a = b"
  by (simp add: path_join_def)

section \<open>Candidate files\<close>

lemma unique_result_path_new:
  "unique_result_path lg prefix stamps d = Some (Inr path) \<Longrightarrow>
    d path = None \<and> (\<exists>stamp. path = path_join (lg_directory lg) (prefix @ stamp @ ''.json''))"
  by (induction lg prefix stamps d rule: unique_result_path.induct) (auto simp: Let_def split: option.splits if_splits)

lemma save_candidate_facts:
  assumes "save_candidate J (save_win32 message env) lg stamps sol d = Some (ds, sol', Inr path)" "lg_block_candidates lg"
  shows "d path = None" "s_result_file sol' = path"
    "last ds path = Some (save_payload J (candidate_json J sol'))"
    "q \<noteq> path \<Longrightarrow> q \<noteq> temporary_path path \<Longrightarrow> last ds q = d q"
proof -
  obtain r where u: "unique_result_path lg ''block_candidate_'' stamps d = Some (Inr path)"
    and sol': "sol' = sol\<lparr>s_result_file := path\<rparr>"
    and s: "save_win32 message env path (save_payload J (candidate_json J sol')) d = (ds, r)" "r = Inr ()"
    using assms by (auto simp: save_candidate_def Let_def bindE_eq_Inr_iff split: option.splits sum.splits prod.splits)
  show "d path = None" using unique_result_path_new [OF u] by blast
  show "s_result_file sol' = path" by (simp add: sol')
  show "last ds path = Some (save_payload J (candidate_json J sol'))"
    using win32.last_state [of message env path "save_payload J (candidate_json J sol')" d] s by simp
  have "last ds \<in> set ds"
    using win32.states_nonempty [of message env path "save_payload J (candidate_json J sol')" d] s by simp
  then show "q \<noteq> path \<Longrightarrow> q \<noteq> temporary_path path \<Longrightarrow> last ds q = d q"
    using win32.frame [of "last ds" message env path "save_payload J (candidate_json J sol')" d q] s by simp
qed

section \<open>Purging\<close>

definition expired_entry :: "string \<Rightarrow> bool \<Rightarrow> int \<Rightarrow> string \<Rightarrow> dir_entry \<Rightarrow> bool" where
  "expired_entry dir legacy_only cutoff p e \<longleftrightarrow>
    de_regular e \<and> (legacy_only \<longrightarrow> take 12 (de_name e) = ''share_audit_'') \<and>
    (case de_modified e of Some m \<Rightarrow> m < cutoff | None \<Rightarrow> False) \<and> p = path_join dir (de_name e)"

lemma purge_entry_keeps:
  "fst (purge_entry dir legacy_only cutoff e (d, n)) p = d p \<or> expired_entry dir legacy_only cutoff p e"
  by (auto simp: purge_entry_def expired_entry_def split: option.splits)

lemma purge_fold_keeps:
  "fst (fold (purge_entry dir legacy_only cutoff) es (d, n)) p = d p \<or> list_ex (expired_entry dir legacy_only cutoff p) es"
proof (induction es arbitrary: d n)
  case (Cons e es)
  obtain d1 n1 where "purge_entry dir legacy_only cutoff e (d, n) = (d1, n1)" by fastforce
  then show ?case using Cons [of d1 n1] purge_entry_keeps [of dir legacy_only cutoff e d n p] by auto
qed simp

lemma purge_directory_keeps:
  "fst (purge_directory dir legacy_only cutoff entries (d, n)) p = d p \<or>
    list_ex (expired_entry dir legacy_only cutoff p) (case entries of None \<Rightarrow> [] | Some es \<Rightarrow> es)"
  using purge_fold_keeps by (auto simp: purge_directory_def split: option.splits)

section \<open>Properties\<close>


text \<open>C22: a block candidate is saved under a name no file had, completely, and no other file is
  touched but its temporary one.\<close>

theorem candidate_never_overwrites:
  assumes "save_candidate J (save_win32 message env) lg stamps sol d = Some (ds, sol', Inr path)" "lg_block_candidates lg"
  shows "d path = None \<and> last ds path = Some (save_payload J (candidate_json J sol'))
    \<and> (last ds q = d q \<or> q = path \<or> q = temporary_path path)"
  using save_candidate_facts [OF assms] by blast

text \<open>Purging touches only audit files older than the retention time: those of the audit directory
  and, elsewhere, only names that start like the old audit files.\<close>

theorem purge_only_expired:
  "fst (purge_expired_share_audits lg now hour recent legacy d) p = d p
   \<or> list_ex (expired_entry (path_join (lg_directory lg) ''share_audit_recent'') False
       (now - int (unat (lg_retention_hours lg)) * hour) p) (case recent of None \<Rightarrow> [] | Some es \<Rightarrow> es)
   \<or> list_ex (expired_entry (lg_directory lg) True (now - int (unat (lg_retention_hours lg)) * hour) p)
       (case legacy of None \<Rightarrow> [] | Some es \<Rightarrow> es)"
proof -
  define cutoff where "cutoff = now - int (unat (lg_retention_hours lg)) * hour"
  obtain d1 n1 where r: "purge_directory (path_join (lg_directory lg) ''share_audit_recent'') False cutoff recent (d, 0) = (d1, n1)"
    by fastforce
  show ?thesis
    using purge_directory_keeps [of "path_join (lg_directory lg) ''share_audit_recent''" False cutoff recent d 0 p]
      purge_directory_keeps [of "lg_directory lg" True cutoff legacy d1 n1 p]
    unfolding purge_expired_share_audits_def Let_def cutoff_def [symmetric] r by (auto simp del: of_nat_unat)
qed
theorem candidate_never_overwrites_witness:
  "\<exists>ds sol' path. save_candidate tree_api (save_win32 (\<lambda>_. '''') healthy_disk)
      \<lparr>lg_directory = ''r'', lg_session_path = '''', lg_session_log = False, lg_block_candidates = True,
       lg_share_audits = True, lg_retention_hours = 24, lg_threshold = double_zero\<rparr>
      [(''t'', None)] detected_solution Map.empty = Some (ds, sol', Inr path)
    \<and> last ds path = Some ''\<newline>''"
proof -
  let ?lg = "\<lparr>lg_directory = ''r'', lg_session_path = '''', lg_session_log = False, lg_block_candidates = True,
       lg_share_audits = True, lg_retention_hours = 24, lg_threshold = double_zero\<rparr>"
  let ?save = "save_win32 (\<lambda>_. '''') healthy_disk"
  have p: "save_payload tree_api v = ''\<newline>''" for v by (simp add: save_payload_def tree_api_def)
  obtain ds where ds: "?save ''r/block_candidate_t.json'' ''\<newline>'' Map.empty = (ds, Inr ())"
    using healthy_save by (metis prod.collapse)
  have s: "save_candidate tree_api ?save ?lg [(''t'', None)] detected_solution Map.empty =
      Some (ds, detected_solution\<lparr>s_result_file := ''r/block_candidate_t.json''\<rparr>, Inr ''r/block_candidate_t.json'')"
    by (simp add: save_candidate_def path_join_def p ds Let_def)
  from candidate_never_overwrites [OF s] show ?thesis using s by (simp add: p)
qed

end
