(* ===== verification/Best_Pow.thy ===== *)
theory Best_Pow
  imports Best Result_Logger
begin

text \<open>
  \<^verbatim>\<open>src/logging/best_pow_tracker.cpp\<close>: the best proof of work ever seen. The current record is a JSON
  object kept in memory, in \<^verbatim>\<open>best_pow_all_time.json\<close> and, with every earlier one, in
  \<^verbatim>\<open>best_pow_records.jsonl\<close>. The number of bits of a \<^verbatim>\<open>long double\<close> is the argument \<open>p\<close>; clock
  readings are nanoseconds.
\<close>

section \<open>The tracker\<close>

record 'j tracker =
  bp_statistics :: string
  bp_current :: 'j
  bp_last_time :: int
  bp_seen :: bool

definition current_path :: "'j tracker \<Rightarrow> string" where
  "current_path t = path_join (bp_statistics t) ''best_pow_all_time.json''"

definition records_path :: "'j tracker \<Rightarrow> string" where
  "records_path t = path_join (bp_statistics t) ''best_pow_records.jsonl''"

definition make_tracker :: "'j json_api \<Rightarrow> string \<Rightarrow> disk \<Rightarrow> 'j tracker outcome" where
  "make_tracker J results d =
    (let stats = path_join results ''statistics'';
         t = \<lparr>bp_statistics = stats, bp_current = j_object J [], bp_last_time = 0, bp_seen = False\<rparr>
     in bindE (load_or J d (current_path t) (j_object J [])) (\<lambda>current.
        bindE (value_or J (j_get_string J) current ''hash'' '''') (\<lambda>h.
          if h \<noteq> [] \<and> length h \<noteq> 64
          then Inl (Runtime_error (''invalid persisted best PoW hash in '' @ current_path t))
          else Inr (t\<lparr>bp_current := current\<rparr>))))"

definition best_hash :: "'j json_api \<Rightarrow> 'j tracker \<Rightarrow> string outcome" where
  "best_hash J t = value_or J (j_get_string J) (bp_current t) ''hash'' ''''"

definition record_json ::
    "'j json_api \<Rightarrow> 'j solution \<Rightarrow> string \<Rightarrow> fdouble \<Rightarrow> u64 \<Rightarrow> fdouble \<Rightarrow> 'j" where
  "record_json J v previous_hash previous_difficulty hashes_since seconds_since =
    j_object J
      [(''schema_version'', j_unsigned J 1),
       (''timestamp_utc'', j_string J (s_detected v)),
       (''hash'', j_string J (s_hash v)),
       (''hash_difficulty'', j_double J (s_hash_difficulty v)),
       (''network_difficulty'', j_double J (s_network_difficulty v)),
       (''best_to_network_ratio'', j_double J (s_network_difficulty_ratio v)),
       (''network_candidate'', j_boolean J (s_network_candidate v)),
       (''share_candidate'', j_boolean J (s_share_candidate v)),
       (''total_hashes_at_record'', j_unsigned J (s_total_hashes v)),
       (''uptime_ms_at_record'', j_unsigned J (s_uptime_ms v)),
       (''worker'', j_string J (s_worker v)),
       (''job_id'', j_string J (s_job_id v)),
       (''work_fingerprint'', j_text_or_null J (s_work_fingerprint v)),
       (''prevhash'', j_text_or_null J (s_prevhash v)),
       (''version'', j_text_or_null J (s_version v)),
       (''nbits'', j_text_or_null J (s_nbits v)),
       (''ntime'', j_text_or_null J (s_ntime v)),
       (''extranonce1'', j_text_or_null J (s_extranonce1 v)),
       (''extranonce2'', j_text_or_null J (s_extranonce2 v)),
       (''extranonce2_size'', j_unsigned J (ucast (s_extranonce2_size v))),
       (''nonce'', j_string J (s_nonce v)),
       (''nonce_uint32'', j_unsigned J (ucast (s_nonce_value v))),
       (''nonce_header_le'', j_string J (s_nonce_header_le v)),
       (''header_hex'', j_string J (s_header_hex v)),
       (''merkle_root'', j_text_or_null J (s_merkle_root v)),
       (''previous_best_hash'', j_text_or_null J previous_hash),
       (''previous_best_difficulty'', if previous_hash = [] then j_null J else j_double J previous_difficulty),
       (''hashes_since_previous_record'', if previous_hash = [] then j_null J else j_unsigned J hashes_since),
       (''seconds_since_previous_record'',
          if previous_hash = [] \<or> double_less seconds_since double_zero then j_null J else j_double J seconds_since),
       (''improvement_ratio'',
          if double_less double_zero previous_difficulty
          then j_double J (double_div (s_hash_difficulty v) previous_difficulty) else j_null J)]"

definition record_errors :: append_errors where
  "record_errors =
    \<lparr>ae_directory = Persistence_error ''cannot create statistics directory'',
     ae_open = Persistence_error ''cannot append best PoW record history'',
     ae_flush = Persistence_error ''cannot flush best PoW record history''\<rparr>"

definition append_record :: "'j json_api \<Rightarrow> append_env \<Rightarrow> 'j tracker \<Rightarrow> 'j \<Rightarrow> disk \<Rightarrow> disk \<times> unit outcome" where
  "append_record J env t val d = append_text record_errors env (records_path t) (j_dump J val @ ''\<newline>'') d"

record pow_update =
  pu_is_record :: bool
  pu_previous_hash :: string
  pu_previous_difficulty :: fdouble

definition no_record :: pow_update where
  "no_record = \<lparr>pu_is_record = False, pu_previous_hash = '''', pu_previous_difficulty = double_zero\<rparr>"

text \<open>
  \<open>pow_better\<close> is the comparison of the two targets as byte arrays.
\<close>

definition pow_better :: "bytes \<Rightarrow> bytes \<Rightarrow> bool" where
  "pow_better hash_target previous_target = (hash_target < previous_target)"

text \<open>The first half of \<^verbatim>\<open>observe\<close>: the record to beat, and None when it stands.\<close>

definition beats_current :: "'j json_api \<Rightarrow> 'j tracker \<Rightarrow> string \<Rightarrow> (bytes \<times> string) option outcome" where
  "beats_current J t hash_text =
    (if length hash_text \<noteq> 64 then Inl (Invalid_argument ''best PoW hash must contain 64 hex characters'')
     else
       bindE (target_from_hex hash_text) (\<lambda>hash_target.
       bindE (value_or J (j_get_string J) (bp_current t) ''hash'' '''') (\<lambda>previous_hash.
         if previous_hash = [] then Inr (Some (hash_target, previous_hash))
         else bindE (target_from_hex previous_hash) (\<lambda>previous_target.
           if \<not> pow_better hash_target previous_target then Inr None
           else Inr (Some (hash_target, previous_hash))))))"

text \<open>The fields of the solution it fills in; the one that throws leaves the earlier ones set.\<close>

definition grade :: "nat \<Rightarrow> bytes \<Rightarrow> u64 \<Rightarrow> u64 \<Rightarrow> 'j solution \<Rightarrow> 'j solution \<times> unit outcome" where
  "grade p hash_target total_hashes uptime_ms sol =
    (case difficulty_from_target p hash_target of
       Inl e \<Rightarrow> (sol, Inl e)
     | Inr hdiff \<Rightarrow>
       let sol1 = sol\<lparr>s_hash_difficulty := hdiff\<rparr>
       in case bindE (target_from_hex (s_network_target sol1)) (difficulty_from_target p) of
            Inl e \<Rightarrow> (sol1, Inl e)
          | Inr ndiff \<Rightarrow>
            (sol1\<lparr>s_network_difficulty := ndiff,
                  s_network_difficulty_ratio := (if double_less double_zero ndiff then double_div hdiff ndiff else double_zero),
                  s_total_hashes := total_hashes, s_uptime_ms := uptime_ms, s_personal_record := True\<rparr>, Inr ()))"

text \<open>The record built from the graded solution and the previous record.\<close>

definition seconds_between :: "int \<Rightarrow> int \<Rightarrow> fdouble" where
  "seconds_between from_ns to_ns = double_div (double_of_rat (of_int (to_ns - from_ns))) (double_of_rat 1000000000)"

definition next_record :: "'j json_api \<Rightarrow> 'j tracker \<Rightarrow> string \<Rightarrow> u64 \<Rightarrow> int \<Rightarrow> 'j solution \<Rightarrow> ('j \<times> fdouble) outcome" where
  "next_record J t previous_hash total_hashes now sol =
    bindE (value_or J (j_get_double J) (bp_current t) ''hash_difficulty'' double_zero) (\<lambda>previous_difficulty.
    bindE (value_or J (j_get_u64 J) (bp_current t) ''total_hashes_at_record'' 0) (\<lambda>previous_total.
      let hashes_since = (if total_hashes \<ge> previous_total then total_hashes - previous_total else 0);
          seconds_since = (if bp_seen t then seconds_between (bp_last_time t) now else double_of_rat (- 1))
      in Inr (record_json J sol previous_hash previous_difficulty hashes_since seconds_since, previous_difficulty)))"

text \<open>Saving: the file is replaced before memory is, and the history comes last.\<close>

definition commit_record ::
    "'j json_api \<Rightarrow> (string \<Rightarrow> string \<Rightarrow> disk \<Rightarrow> disk list \<times> unit outcome) \<Rightarrow> append_env \<Rightarrow> int \<Rightarrow> 'j \<Rightarrow>
      'j tracker \<Rightarrow> disk \<Rightarrow> disk list \<times> 'j tracker \<times> unit outcome" where
  "commit_record J save env now rec t d =
    (case save (current_path t) (save_payload J rec) d of
       (ds, Inl e) \<Rightarrow> (ds, t, Inl e)
     | (ds, Inr _) \<Rightarrow>
         let t1 = t\<lparr>bp_current := rec\<rparr>
         in case append_record J env t1 rec (last ds) of
              (d1, Inl e) \<Rightarrow> (ds @ [d1], t1, Inl e)
            | (d1, Inr _) \<Rightarrow> (ds @ [d1], t1\<lparr>bp_last_time := now, bp_seen := True\<rparr>, Inr ()))"

definition observe ::
    "nat \<Rightarrow> 'j json_api \<Rightarrow> (string \<Rightarrow> string \<Rightarrow> disk \<Rightarrow> disk list \<times> unit outcome) \<Rightarrow> append_env \<Rightarrow> int \<Rightarrow>
      u64 \<Rightarrow> u64 \<Rightarrow> 'j solution \<Rightarrow> 'j tracker \<Rightarrow> disk \<Rightarrow> disk list \<times> 'j solution \<times> 'j tracker \<times> pow_update outcome" where
  "observe p J save env now total_hashes uptime_ms sol t d =
    (case beats_current J t (s_hash sol) of
       Inl e \<Rightarrow> ([d], sol, t, Inl e)
     | Inr None \<Rightarrow> ([d], sol, t, Inr no_record)
     | Inr (Some (hash_target, previous_hash)) \<Rightarrow>
       case grade p hash_target total_hashes uptime_ms sol of
         (sol1, Inl e) \<Rightarrow> ([d], sol1, t, Inl e)
       | (sol1, Inr _) \<Rightarrow>
         case next_record J t previous_hash total_hashes now sol1 of
           Inl e \<Rightarrow> ([d], sol1, t, Inl e)
         | Inr (rec, previous_difficulty) \<Rightarrow>
           case commit_record J save env now rec t d of
             (ds, t1, Inl e) \<Rightarrow> (ds, sol1, t1, Inl e)
           | (ds, t1, Inr _) \<Rightarrow>
             (ds, sol1, t1, Inr \<lparr>pu_is_record = True, pu_previous_hash = previous_hash,
                                pu_previous_difficulty = previous_difficulty\<rparr>))"
section \<open>The record to beat\<close>

interpretation targets: ranked pow_better "\<lambda>t. length t = 32" be_val
  by unfold_locales (simp add: pow_better_def be_val_less_iff)

definition current_target :: "'j json_api \<Rightarrow> 'j tracker \<Rightarrow> bytes option" where
  "current_target J t =
    (case best_hash J t of Inl e \<Rightarrow> None | Inr h \<Rightarrow> (case target_from_hex h of Inl e \<Rightarrow> None | Inr b \<Rightarrow> Some b))"

lemma target_from_hex_length: "target_from_hex h = Inr b \<Longrightarrow> length b = 32"
  by (simp add: target_from_hex_Inr_iff)

lemma beats_current_cases:
  assumes "beats_current J t h = Inr v"
  shows "\<exists>b. target_from_hex h = Inr b \<and>
    (case v of
       None \<Rightarrow> (\<exists>old. current_target J t = Some old \<and> \<not> pow_better b old)
     | Some (hash_target, previous_hash) \<Rightarrow> hash_target = b \<and> best_hash J t = Inr previous_hash \<and>
         (previous_hash = [] \<or> (\<exists>old. current_target J t = Some old \<and> pow_better b old)))"
  using assms
  by (auto simp: beats_current_def current_target_def best_hash_def bindE_eq_Inr_iff split: if_splits)

lemma grade_facts:
  assumes "grade p b tot uptime sol = (sol', Inr u)"
  shows "s_hash sol' = s_hash sol" "difficulty_from_target p b = Inr (s_hash_difficulty sol')"
    "s_personal_record sol'" "s_total_hashes sol' = tot"
  using assms by (auto simp: grade_def Let_def split: sum.splits)

lemma record_json_fields:
  assumes "json_ok J"
  shows "value_or J (j_get_string J) (record_json J v ph pd hs ss) ''hash'' '''' = Inr (s_hash v)"
    "value_or J (j_get_double J) (record_json J v ph pd hs ss) ''hash_difficulty'' double_zero = Inr (s_hash_difficulty v)"
    "value_or J (j_get_u64 J) (record_json J v ph pd hs ss) ''total_hashes_at_record'' 0 = Inr (s_total_hashes v)"
  using assms by (simp_all add: record_json_def json_laws)

lemma next_record_facts:
  assumes "next_record J t ph tot now sol = Inr (rec, pd)"
  shows "value_or J (j_get_double J) (bp_current t) ''hash_difficulty'' double_zero = Inr pd"
    "\<exists>hs ss. rec = record_json J sol ph pd hs ss"
  using assms by (auto simp: next_record_def Let_def bindE_eq_Inr_iff)

lemma commit_record_facts:
  assumes "commit_record J save env now rec t d = (ds, t', r)"
  shows "bp_current t' = bp_current t \<or> bp_current t' = rec" "r = Inr u \<Longrightarrow> bp_current t' = rec"
    "bp_statistics t' = bp_statistics t"
  using assms by (auto simp: commit_record_def Let_def split: sum.splits prod.splits)

text \<open>
  What an observation can do: nothing to the record, or a new record with the solution's hash,
  difficulty and total, smaller than the old one.
\<close>

lemma observe_cases:
  assumes "observe p J save env now tot uptime sol t d = (ds, sol', t', r)"
  obtains (failed) e where "r = Inl e" "t' = t" "ds = [d]"
  | (stands) "beats_current J t (s_hash sol) = Inr None" "r = Inr no_record" "t' = t" "ds = [d]"
  | (beaten) b ph rec pd cr where "beats_current J t (s_hash sol) = Inr (Some (b, ph))"
      "grade p b tot uptime sol = (sol', Inr ())" "next_record J t ph tot now sol' = Inr (rec, pd)"
      "commit_record J save env now rec t d = (ds, t', cr)"
      "r = bindE cr (\<lambda>_. Inr \<lparr>pu_is_record = True, pu_previous_hash = ph, pu_previous_difficulty = pd\<rparr>)"
proof (cases "beats_current J t (s_hash sol)")
  case (Inl e)
  then show thesis using assms failed by (auto simp: observe_def)
next
  case (Inr v)
  show thesis
  proof (cases v)
    case None
    then have "r = Inr no_record" "t' = t" "ds = [d]" using assms by (simp_all add: observe_def Inr)
    then show thesis using stands Inr None by simp
  next
    case (Some bp)
    obtain b ph where bp: "bp = (b, ph)" by fastforce
    obtain sol1 gr where g: "grade p b tot uptime sol = (sol1, gr)" by fastforce
    show thesis
    proof (cases gr)
      case (Inl e)
      then show thesis using assms failed Inr Some g bp by (auto simp: observe_def)
    next
      case gok: (Inr u)
      show thesis
      proof (cases "next_record J t ph tot now sol1")
        case (Inl e)
        then show thesis using assms failed Inr Some g bp gok by (auto simp: observe_def)
      next
        case nr: (Inr rp)
        obtain rec pd where rp: "rp = (rec, pd)" by fastforce
        obtain ds1 t1 cr where c: "commit_record J save env now rec t d = (ds1, t1, cr)" by (metis prod_cases3)
        have "observe p J save env now tot uptime sol t d = (ds1, sol1, t1,
            bindE cr (\<lambda>_. Inr \<lparr>pu_is_record = True, pu_previous_hash = ph, pu_previous_difficulty = pd\<rparr>))"
          unfolding observe_def Inr Some bp sum.case option.case prod.case g gok nr rp c
          by (cases cr) (simp_all only: sum.case bindE_simps)
        then have eq: "ds = ds1" "sol' = sol1" "t' = t1"
            "r = bindE cr (\<lambda>_. Inr \<lparr>pu_is_record = True, pu_previous_hash = ph, pu_previous_difficulty = pd\<rparr>)"
          using assms by (simp_all only: prod.inject simp_thms)
        have "grade p b tot uptime sol = (sol1, Inr ())" using g gok by simp
        then show thesis using eq beaten [of b ph rec pd cr] Inr Some bp nr rp c by (simp only:)
      qed
    qed
  qed
qed

text \<open>
  What an observation can do: nothing to the record, or a new record with the solution's hash and
  difficulty, smaller than the old one. One that returns leaves nothing better to be the record.
\<close>

lemma beaten_facts:
  assumes J: "json_ok J" and "beats_current J t (s_hash sol) = Inr (Some (b, ph))"
    and "grade p b tot uptime sol = (sol', Inr ())" and "next_record J t ph tot now sol' = Inr (rec, pd)"
  shows "target_from_hex (s_hash sol) = Inr b" "best_hash J t = Inr ph"
    "ph = [] \<or> (\<exists>old. current_target J t = Some old \<and> pow_better b old)"
    "difficulty_from_target p b = Inr (s_hash_difficulty sol')"
    "value_or J (j_get_double J) (bp_current t) ''hash_difficulty'' double_zero = Inr pd"
    "bp_current t' = rec \<Longrightarrow> best_hash J t' = Inr (s_hash sol)"
    "bp_current t' = rec \<Longrightarrow> current_target J t' = Some b"
    "bp_current t' = rec \<Longrightarrow>
      value_or J (j_get_double J) (bp_current t') ''hash_difficulty'' double_zero = Inr (s_hash_difficulty sol')"
proof -
  note bc = beats_current_cases [OF assms(2)]
  note g = grade_facts [OF assms(3)]
  obtain hs ss where rec: "rec = record_json J sol' ph pd hs ss" using next_record_facts(2) [OF assms(4)] by blast
  show tb: "target_from_hex (s_hash sol) = Inr b" "best_hash J t = Inr ph"
    "ph = [] \<or> (\<exists>old. current_target J t = Some old \<and> pow_better b old)" using bc by auto
  show "difficulty_from_target p b = Inr (s_hash_difficulty sol')" by (rule g(2))
  show "value_or J (j_get_double J) (bp_current t) ''hash_difficulty'' double_zero = Inr pd"
    by (rule next_record_facts(1) [OF assms(4)])
  assume t': "bp_current t' = rec"
  show bh: "best_hash J t' = Inr (s_hash sol)"
    using record_json_fields(1) [OF J] g(1) by (simp add: best_hash_def t' rec)
  show "current_target J t' = Some b" by (simp add: current_target_def bh tb(1))
  show "value_or J (j_get_double J) (bp_current t') ''hash_difficulty'' double_zero = Inr (s_hash_difficulty sol')"
    using record_json_fields(2) [OF J] by (simp add: t' rec)
qed

text \<open>The persisted difficulty is the difficulty of the persisted hash.\<close>

definition graded :: "nat \<Rightarrow> 'j json_api \<Rightarrow> 'j tracker \<Rightarrow> bool" where
  "graded p J t \<longleftrightarrow>
    (case current_target J t of None \<Rightarrow> best_hash J t = Inr []
     | Some b \<Rightarrow> value_or J (j_get_double J) (bp_current t) ''hash_difficulty'' double_zero = difficulty_from_target p b)"

text \<open>
  What an observation can do: nothing to the record, or a new record with the solution's hash and
  difficulty, smaller than the old one. One that returns leaves nothing better to be the record.
\<close>

lemma current_target_cong: "bp_current t' = bp_current t \<Longrightarrow> current_target J t' = current_target J t \<and> best_hash J t' = best_hash J t"
  by (simp add: current_target_def best_hash_def)

lemma observe_step:
  assumes "observe p J save env now tot uptime sol t d = (ds, sol', t', r)" "json_ok J"
  shows "bp_current t' = bp_current t \<or>
    (\<exists>b. target_from_hex (s_hash sol) = Inr b \<and> current_target J t' = Some b \<and>
      value_or J (j_get_double J) (bp_current t') ''hash_difficulty'' double_zero = difficulty_from_target p b \<and>
      (best_hash J t = Inr [] \<or> (\<exists>old. current_target J t = Some old \<and> pow_better b old)))"
proof (rule observe_cases [OF assms(1)])
  fix b ph rec pd cr
  assume a: "beats_current J t (s_hash sol) = Inr (Some (b, ph))"
      "grade p b tot uptime sol = (sol', Inr ())" "next_record J t ph tot now sol' = Inr (rec, pd)"
      "commit_record J save env now rec t d = (ds, t', cr)"
  note f = beaten_facts [OF assms(2) a(1-3)]
  show ?thesis using commit_record_facts(1) [OF a(4)] f by metis
qed simp_all

lemma observe_returns:
  assumes "observe p J save env now tot uptime sol t d = (ds, sol', t', Inr w)" "json_ok J"
  shows "\<exists>b m. target_from_hex (s_hash sol) = Inr b \<and> current_target J t' = Some m \<and> \<not> pow_better b m"
proof (rule observe_cases [OF assms(1)])
  assume "beats_current J t (s_hash sol) = Inr None" "t' = t"
  then show ?thesis using beats_current_cases by fastforce
next
  fix b ph rec pd cr
  assume a: "beats_current J t (s_hash sol) = Inr (Some (b, ph))"
      "grade p b tot uptime sol = (sol', Inr ())" "next_record J t ph tot now sol' = Inr (rec, pd)"
      "commit_record J save env now rec t d = (ds, t', cr)"
      "Inr w = bindE cr (\<lambda>_. Inr \<lparr>pu_is_record = True, pu_previous_hash = ph, pu_previous_difficulty = pd\<rparr>)"
  note f = beaten_facts [OF assms(2) a(1-3)]
  from a(5) obtain u where "cr = Inr u" by (cases cr) auto
  then have "bp_current t' = rec" using commit_record_facts(2) [OF a(4)] by blast
  then show ?thesis using f(1,7) by (auto simp: pow_better_def)
qed simp

lemma observe_record:
  assumes "observe p J save env now tot uptime sol t d = (ds, sol', t', Inr w)" "json_ok J" "pu_is_record w"
  shows "\<exists>b. target_from_hex (s_hash sol) = Inr b \<and> difficulty_from_target p b = Inr (s_hash_difficulty sol') \<and>
      current_target J t' = Some b \<and>
      value_or J (j_get_double J) (bp_current t) ''hash_difficulty'' double_zero = Inr (pu_previous_difficulty w) \<and>
      best_hash J t = Inr (pu_previous_hash w) \<and>
      (pu_previous_hash w = [] \<or> (\<exists>old. current_target J t = Some old \<and> pow_better b old))"
proof (rule observe_cases [OF assms(1)])
  assume "Inr w = Inr no_record"
  then show ?thesis using assms(3) by (simp add: no_record_def)
next
  fix b ph rec pd cr
  assume a: "beats_current J t (s_hash sol) = Inr (Some (b, ph))"
      "grade p b tot uptime sol = (sol', Inr ())" "next_record J t ph tot now sol' = Inr (rec, pd)"
      "commit_record J save env now rec t d = (ds, t', cr)"
      "Inr w = bindE cr (\<lambda>_. Inr \<lparr>pu_is_record = True, pu_previous_hash = ph, pu_previous_difficulty = pd\<rparr>)"
  note f = beaten_facts [OF assms(2) a(1-3)]
  from a(5) obtain u where u: "cr = Inr u" by (cases cr) auto
  then have "bp_current t' = rec" using commit_record_facts(2) [OF a(4)] by blast
  moreover have "pu_previous_hash w = ph" "pu_previous_difficulty w = pd" using a(5) u by simp_all
  ultimately show ?thesis using f by auto
qed simp

section \<open>Sequences of observations\<close>

record 'j observation =
  ob_save :: save_env
  ob_append :: append_env
  ob_now :: int
  ob_total :: u64
  ob_uptime :: u64
  ob_solution :: "'j solution"

fun observe_all ::
    "nat \<Rightarrow> 'j json_api \<Rightarrow> (u32 \<Rightarrow> string) \<Rightarrow> 'j observation list \<Rightarrow> 'j tracker \<Rightarrow> disk \<Rightarrow>
      pow_update outcome list \<times> 'j tracker \<times> disk" where
  "observe_all p J message [] t d = ([], t, d)"
| "observe_all p J message (ob # obs) t d =
    (case observe p J (save_win32 message (ob_save ob)) (ob_append ob) (ob_now ob) (ob_total ob) (ob_uptime ob)
            (ob_solution ob) t d of
       (ds, sol, t1, r) \<Rightarrow>
         (case observe_all p J message obs t1 (last ds) of (rs, t2, d2) \<Rightarrow> (r # rs, t2, d2)))"

definition at_least :: "'j json_api \<Rightarrow> 'j tracker \<Rightarrow> bytes \<Rightarrow> bool" where
  "at_least J t b = (case current_target J t of None \<Rightarrow> False | Some m \<Rightarrow> be_val m \<le> be_val b)"

lemma current_target_length: "current_target J t = Some m \<Longrightarrow> length m = 32"
  by (auto simp: current_target_def target_from_hex_Inr_iff split: sum.splits)

lemma observe_keeps_bound:
  assumes "observe p J save env now tot uptime sol t d = (ds, sol', t', r)" "json_ok J" "at_least J t b"
  shows "at_least J t' b"
proof -
  obtain m where m: "current_target J t = Some m" "be_val m \<le> be_val b"
    using assms(3) by (auto simp: at_least_def split: option.splits)
  from observe_step [OF assms(1,2)] show ?thesis
  proof (elim disjE exE conjE)
    assume "bp_current t' = bp_current t"
    then show ?thesis using assms(3) current_target_cong [of t' t J] by (simp add: at_least_def)
  next
    fix c assume "best_hash J t = Inr []"
    then show ?thesis using m(1) by (simp add: current_target_def target_from_hex_def from_hex_def)
  next
    fix c old assume "current_target J t' = Some c" "current_target J t = Some old" "pow_better c old"
    then show ?thesis using m targets.better_rank [of c old] current_target_length
      by (fastforce simp: at_least_def)
  qed
qed

lemma observe_all_keeps_bound:
  assumes "json_ok J" "at_least J t b" "observe_all p J message obs t d = (rs, t', d')"
  shows "at_least J t' b"
  using assms(2,3)
proof (induction obs arbitrary: t d rs)
  case (Cons ob obs)
  obtain ds sol t1 r where o: "observe p J (save_win32 message (ob_save ob)) (ob_append ob) (ob_now ob) (ob_total ob) (ob_uptime ob)
            (ob_solution ob) t d = (ds, sol, t1, r)" by (metis prod_cases4)
  obtain rs2 t2 d2 where a: "observe_all p J message obs t1 (last ds) = (rs2, t2, d2)" by (metis prod_cases3)
  have "at_least J t1 b" by (rule observe_keeps_bound [OF o assms(1) Cons.prems(1)])
  moreover have "t2 = t'" "d2 = d'" using Cons.prems(2) o a by simp_all
  ultimately show ?case using Cons.IH a by blast
qed simp
lemma graded_step:
  assumes "observe p J save env now tot uptime sol t d = (ds, sol', t', r)" "json_ok J" "graded p J t"
  shows "graded p J t'"
  using observe_step [OF assms(1,2)]
proof
  assume c: "bp_current t' = bp_current t"
  then show ?thesis using assms(3) current_target_cong [OF c, of J] by (simp add: graded_def c split: option.splits)
qed (auto simp: graded_def)

lemma graded_initial:
  assumes "json_ok J" "d (path_join (path_join results ''statistics'') ''best_pow_all_time.json'') = None"
  shows "\<exists>t. make_tracker J results d = Inr t \<and> graded p J t"
proof -
  have "target_from_hex [] = Inl (Invalid_argument ''target must contain exactly 32 bytes'')" by code_simp
  then show ?thesis
    using assms by (simp add: make_tracker_def current_path_def load_or_def Let_def json_laws graded_def
        current_target_def best_hash_def)
qed

lemma paths_differ [simp]:
  "records_path t \<noteq> current_path t" "current_path t \<noteq> records_path t"
  "records_path t \<noteq> temporary_path (current_path t)" "temporary_path (current_path t) \<noteq> records_path t"
  by (simp_all add: records_path_def current_path_def temporary_path_def path_join_def)

lemma commit_record_disks:
  assumes "commit_record J (save_win32 message senv) aenv now rec t d = (ds, t', r)"
  shows "d' \<in> set ds \<Longrightarrow> d' (current_path t) = d (current_path t) \<or> d' (current_path t) = Some (save_payload J rec)"
    and "r = Inr u \<Longrightarrow> last ds (current_path t) = Some (save_payload J rec) \<and>
      last ds (records_path t) = Some (old_text d (records_path t) @ j_dump J rec @ ''\<newline>'')"
proof -
  obtain ss sr where s: "save_win32 message senv (current_path t) (save_payload J rec) d = (ss, sr)" by fastforce
  note laws = win32.crash_old_or_new [of _ message senv "current_path t" "save_payload J rec" d, unfolded s fst_conv]
    win32.last_state [of message senv "current_path t" "save_payload J rec" d, unfolded s fst_conv snd_conv]
    win32.states_nonempty [of message senv "current_path t" "save_payload J rec" d, unfolded s fst_conv]
    win32.frame [of _ message senv "current_path t" "save_payload J rec" d "records_path t", unfolded s fst_conv]
  obtain d1 ar where a: "append_record J aenv (t\<lparr>bp_current := rec\<rparr>) rec (last ss) = (d1, ar)" by fastforce
  have rp: "records_path (t\<lparr>bp_current := rec\<rparr>) = records_path t" by (simp add: records_path_def)
  have d1: "d1 (current_path t) = last ss (current_path t)"
    using a append_text_other [of "current_path t" "records_path t"] unfolding append_record_def rp
    by (metis fst_conv paths_differ(2))
  have cases: "(\<exists>e. sr = Inl e) \<and> ds = ss \<and> (\<exists>e. r = Inl e) \<or> sr = Inr () \<and> ds = ss @ [d1] \<and> r = ar"
    using assms by (cases sr; cases ar) (auto simp: commit_record_def s a Let_def)
  show "d' (current_path t) = d (current_path t) \<or> d' (current_path t) = Some (save_payload J rec)" if "d' \<in> set ds"
    using that cases laws(1) d1 last_in_set [OF laws(3)] by fastforce
  show "last ds (current_path t) = Some (save_payload J rec) \<and>
      last ds (records_path t) = Some (old_text d (records_path t) @ j_dump J rec @ ''\<newline>'')" if "r = Inr u"
  proof -
    have c: "sr = Inr ()" "ds = ss @ [d1]" "ar = Inr u" using cases that by auto
    have "d1 (records_path t) = Some (old_text (last ss) (records_path t) @ j_dump J rec @ ''\<newline>'')"
      using a c(3) append_text_Inr unfolding append_record_def rp by metis
    moreover have "old_text (last ss) (records_path t) = old_text d (records_path t)"
      using laws(4) [OF last_in_set [OF laws(3)]] by (simp add: old_text_def)
    ultimately show ?thesis using c laws(2) d1 by simp
  qed
qed

section \<open>Properties\<close>


text \<open>The record's persisted difficulty is always that of its hash, and a new record never has a
  smaller difficulty than the one it replaces: no improvement ratio is below one.\<close>

theorem record_difficulty_monotone:
  assumes "json_ok J" "0 < p" "graded p J t"
    and "observe p J save env now tot uptime sol t d = (ds, sol', t', Inr w)" "pu_is_record w" "pu_previous_hash w \<noteq> []"
  shows "graded p J t' \<and> \<not> double_less (s_hash_difficulty sol') (pu_previous_difficulty w)"
proof -
  obtain b old where b: "difficulty_from_target p b = Inr (s_hash_difficulty sol')" "current_target J t = Some old" "pow_better b old"
    "value_or J (j_get_double J) (bp_current t) ''hash_difficulty'' double_zero = Inr (pu_previous_difficulty w)"
    "length b = 32"
    using observe_record [OF assms(4,1,5)] assms(6) target_from_hex_length by blast
  have "difficulty_from_target p old = Inr (pu_previous_difficulty w)"
    using assms(3) b(2,4) by (simp add: graded_def)
  moreover have "be_val b \<le> be_val old"
    using targets.better_rank [of b old] b(3,5) current_target_length [OF b(2)] by (simp add: less_imp_le)
  ultimately show ?thesis
    using difficulty_antitone_pair [of b old p] b current_target_length [OF b(2)] assms(2) graded_step [OF assms(4,1,3)] by auto
qed

lemma observe_succeeds:
  assumes "beats_current J t (s_hash sol) = Inr (Some (b, ph))" "grade p b tot uptime sol = (sol', Inr ())"
    and "next_record J t ph tot now sol' = Inr (rec, pd)"
    and "snd (save (current_path t) (save_payload J rec) d) = Inr ()"
  shows "\<exists>ds t'. observe p J save Appended now tot uptime sol t d =
    (ds, sol', t', Inr \<lparr>pu_is_record = True, pu_previous_hash = ph, pu_previous_difficulty = pd\<rparr>)"
proof -
  obtain ds where s: "save (current_path t) (save_payload J rec) d = (ds, Inr ())"
    using assms(4) by (metis prod.collapse)
  show ?thesis
    by (simp add: observe_def assms(1-3) commit_record_def s append_record_def append_text_def Let_def)
qed

definition example_difficulty :: fdouble where
  "example_difficulty = (case difficulty_from_target 64 (replicate 32 0xff) of Inr x \<Rightarrow> x | Inl e \<Rightarrow> FNaN)"

definition example_tracker :: "jtree tracker" where
  "example_tracker = \<lparr>bp_statistics = ''s'',
     bp_current = JObject [(''hash'', JString (replicate 64 CHR ''f'')), (''hash_difficulty'', JDouble example_difficulty)],
     bp_last_time = 0, bp_seen = False\<rparr>"

definition example_solution :: "jtree solution" where
  "example_solution = detected_solution\<lparr>s_hash := replicate 64 CHR ''0'', s_network_target := replicate 64 CHR ''f''\<rparr>"

lemma example_targets:
  "target_from_hex (replicate 64 CHR ''f'') = Inr (replicate 32 0xff)"
  "target_from_hex (replicate 64 CHR ''0'') = Inr (replicate 32 0)"
  by code_simp+

lemma example_difficulty: "difficulty_from_target 64 (replicate 32 0xff) = Inr example_difficulty"
  by (rule difficulty_from_target_Inr) (simp add: example_difficulty_def)

lemma example_current:
  "best_hash tree_api example_tracker = Inr (replicate 64 CHR ''f'')"
  "current_target tree_api example_tracker = Some (replicate 32 0xff)"
  "value_or tree_api (j_get_double tree_api) (bp_current example_tracker) ''hash_difficulty'' double_zero = Inr example_difficulty"
proof -
  show h: "best_hash tree_api example_tracker = Inr (replicate 64 CHR ''f'')"
    by (simp add: best_hash_def example_tracker_def value_or_def tree_api_def)
  then show "current_target tree_api example_tracker = Some (replicate 32 0xff)"
    by (simp add: current_target_def example_targets)
  show "value_or tree_api (j_get_double tree_api) (bp_current example_tracker) ''hash_difficulty'' double_zero = Inr example_difficulty"
    by (simp add: example_tracker_def value_or_def tree_api_def)
qed

lemma example_observe:
  "\<exists>ds sol' t' w. observe 64 tree_api (save_win32 (\<lambda>_. '''') healthy_disk) Appended 0 0 0 example_solution example_tracker Map.empty
      = (ds, sol', t', Inr w) \<and> pu_is_record w \<and> pu_previous_hash w = replicate 64 CHR ''f''"
proof -
  have sol: "s_hash example_solution = replicate 64 CHR ''0''" "s_network_target example_solution = replicate 64 CHR ''f''"
    by (simp_all add: example_solution_def detected_solution_def)
  have better: "pow_better (replicate 32 0) (replicate 32 0xff)" by code_simp
  have b: "beats_current tree_api example_tracker (s_hash example_solution) =
      Inr (Some (replicate 32 0, replicate 64 CHR ''f''))"
    using example_current(1) better
    by (simp add: beats_current_def sol example_targets best_hash_def del: replicate.simps)
  obtain sol' where g: "grade 64 (replicate 32 0) 0 0 example_solution = (sol', Inr ())"
    by (rule difficulty_from_target_Inr)
      (auto simp: grade_def sol example_targets example_difficulty Let_def split: sum.splits)
  obtain rec pd where n: "next_record tree_api example_tracker (replicate 64 CHR ''f'') 0 0 sol' = Inr (rec, pd)"
    using example_current(3) by (auto simp: next_record_def example_tracker_def value_or_def tree_api_def)
  have "save_payload tree_api rec = ''\<newline>''" by (simp add: save_payload_def tree_api_def)
  with observe_succeeds [OF b g n, of "save_win32 (\<lambda>_. '''') healthy_disk" Map.empty] show ?thesis
    by (fastforce simp: healthy_save)
qed


theorem record_difficulty_monotone_witness:
  "\<exists>ds sol' t' w. observe 64 tree_api (save_win32 (\<lambda>_. '''') healthy_disk) Appended 0 0 0 example_solution example_tracker Map.empty
      = (ds, sol', t', Inr w) \<and> \<not> double_less (s_hash_difficulty sol') (pu_previous_difficulty w)"
proof -
  obtain ds sol' t' w where o: "observe 64 tree_api (save_win32 (\<lambda>_. '''') healthy_disk) Appended 0 0 0 example_solution
      example_tracker Map.empty = (ds, sol', t', Inr w)" "pu_is_record w" "pu_previous_hash w = replicate 64 CHR ''f''"
    using example_observe by blast
  have "graded 64 tree_api example_tracker" by (simp add: graded_def example_current example_difficulty)
  from record_difficulty_monotone [OF json_ok_tree_api _ this o(1,2)] o(1,3) show ?thesis by simp
qed


end
