(* ===== verification/Cpu_Miner.thy ===== *)
theory Cpu_Miner
  imports Best Work_Allocator Stratum
begin

text \<open>
  \<^verbatim>\<open>src/mining/cpu_miner.cpp\<close>: the worker thread. What other threads do is a parameter: at each
  nonce, whether a test of the stop token and the active generation would end the unit (\<open>halt\<close>), and
  whether the generation is still the job's when a hit is about to be handed on (\<open>live\<close>). What the
  worker does to the allocator, the telemetry and the candidate handler is the list of its calls,
  in order. Starting and joining the threads is not modelled.
\<close>

section \<open>Jobs and candidates\<close>

record live_mining_job =
  lm_job :: stratum_job
  lm_extranonce1 :: string
  lm_share_target :: bytes
  lm_network_target :: bytes
  lm_share_difficulty :: fdouble
  lm_extranonce2_size :: u32
  lm_work_fingerprint :: string
  lm_generation :: u64

record candidate =
  cd_context :: live_mining_job
  cd_extranonce2 :: string
  cd_header :: bytes
  cd_merkle_root :: bytes
  cd_digest :: bytes
  cd_nonce :: u32
  cd_share :: bool
  cd_network :: bool
  cd_worker :: string

fun better_from :: "bytes \<Rightarrow> bytes \<Rightarrow> nat list \<Rightarrow> bool" where
  "better_from candidate best [] = False"
| "better_from candidate best (i # is) =
    (let left = candidate ! (length candidate - 1 - i); right = best ! (length best - 1 - i)
     in if left \<noteq> right then left < right else better_from candidate best is)"

definition better_hash :: "bytes \<Rightarrow> bytes \<Rightarrow> bool" where
  "better_hash candidate best = better_from candidate best [0..<length candidate]"

section \<open>The worker\<close>

datatype worker_call =
    Acquire_unit
  | Set_extranonce string
  | Handle candidate
  | Progress string u64 u64 string u32
  | Add_hashes u64
  | Observe_best string
  | Complete_unit string
  | Header_complete
  | Release_unit string

text \<open>The locals of the loop over a unit's nonces.\<close>

record scan =
  sc_header :: bytes
  sc_best :: bytes
  sc_best_nonce :: u32
  sc_reported :: string
  sc_pending :: u64

definition checkpoint_batch :: u64 where "checkpoint_batch = 65536"

definition report_personal_best :: "live_mining_job \<Rightarrow> work_unit \<Rightarrow> bytes \<Rightarrow> scan \<Rightarrow> worker_call list \<times> scan" where
  "report_personal_best job u merkle s =
    (let best_text = bitcoin_hash_hex (sc_best s)
     in if best_text = sc_reported s then ([], s)
        else ([Handle \<lparr>cd_context = job, cd_extranonce2 = u_extranonce2 u,
                 cd_header = set_nonce (sc_header s) (sc_best_nonce s), cd_merkle_root = merkle,
                 cd_digest = sc_best s, cd_nonce = sc_best_nonce s, cd_share = False,
                 cd_network = hash_meets_target (sc_best s) (lm_network_target job), cd_worker = ''CPU''\<rparr>],
              s\<lparr>sc_reported := best_text\<rparr>))"

definition report :: "live_mining_job \<Rightarrow> work_unit \<Rightarrow> bytes \<Rightarrow> u64 \<Rightarrow> scan \<Rightarrow> worker_call list \<times> scan" where
  "report job u merkle position s =
    (let best_text = bitcoin_hash_hex (sc_best s); (calls, s') = report_personal_best job u merkle s
     in ([Progress (u_id u) position (sc_pending s) best_text (sc_best_nonce s), Add_hashes (sc_pending s),
          Observe_best best_text] @ calls, s'))"

definition hash_nonce ::
    "live_mining_job \<Rightarrow> work_unit \<Rightarrow> bytes \<Rightarrow> (u64 \<Rightarrow> bool) \<Rightarrow> u64 \<Rightarrow> scan \<Rightarrow> worker_call list \<times> scan" where
  "hash_nonce job u merkle live nonce s =
    (let header = set_nonce (sc_header s) (ucast nonce);
         digest = sha256d header;
         s1 = s\<lparr>sc_header := header, sc_pending := sc_pending s + 1\<rparr>;
         s2 = (if better_hash digest (sc_best s1) then s1\<lparr>sc_best := digest, sc_best_nonce := ucast nonce\<rparr> else s1);
         share = hash_meets_target digest (lm_share_target job);
         network = hash_meets_target digest (lm_network_target job);
         hit = (if (share \<or> network) \<and> live nonce
                then [Handle \<lparr>cd_context = job, cd_extranonce2 = u_extranonce2 u, cd_header = header,
                        cd_merkle_root = merkle, cd_digest = digest, cd_nonce = ucast nonce, cd_share = True,
                        cd_network = network, cd_worker = ''CPU''\<rparr>]
                else [])
     in if sc_pending s2 \<ge> checkpoint_batch
        then case report job u merkle (nonce + 1) s2 of (calls, s3) \<Rightarrow> (hit @ calls, s3\<lparr>sc_pending := 0\<rparr>)
        else (hit, s2))"

lemma unat_Suc_less: "unat (n :: u64) < unat (e :: u64) \<Longrightarrow> unat e - unat (n + 1) < unat e - unat n"
  using unsigned_less [of e, where ?'a = nat] by (simp add: unat_word_ariths(1))

lemma unat_Suc_bound: "(n :: u64) < (e :: u64) \<Longrightarrow> unat (n + 1) = unat n + 1"
  using unsigned_less [of e, where ?'a = nat] by (simp add: unat_word_ariths(1) word_less_nat_alt)

function scan_nonces ::
    "live_mining_job \<Rightarrow> work_unit \<Rightarrow> bytes \<Rightarrow> (u64 \<Rightarrow> bool) \<Rightarrow> (u64 \<Rightarrow> bool) \<Rightarrow> u64 \<Rightarrow> scan \<Rightarrow>
      worker_call list \<times> u64 \<times> scan" where
  "scan_nonces job u merkle halt live nonce s =
    (if nonce < u_nonce_end u then
       (if sc_pending s AND 4095 = 0 \<and> halt nonce then ([], nonce, s)
        else case hash_nonce job u merkle live nonce s of (calls, s1) \<Rightarrow>
             case scan_nonces job u merkle halt live (nonce + 1) s1 of (rest, n, s2) \<Rightarrow> (calls @ rest, n, s2))
     else ([], nonce, s))"
  by pat_completeness auto
termination
  by (relation "measure (\<lambda>(job, u, merkle, halt, live, nonce, s). unat (u_nonce_end u) - unat nonce)")
    (auto simp: word_less_nat_alt unat_Suc_less)

declare scan_nonces.simps [simp del]

definition initial_scan :: "work_unit \<Rightarrow> bytes \<Rightarrow> scan" where
  "initial_scan u header =
    \<lparr>sc_header = header, sc_best = replicate 32 0xff, sc_best_nonce = ucast (u_nonce_next u),
     sc_reported = '''', sc_pending = 0\<rparr>"

text \<open>One acquired unit, from the built header to its completion or release.\<close>

definition work_unit_calls ::
    "live_mining_job \<Rightarrow> work_unit \<Rightarrow> built_work \<Rightarrow> (u64 \<Rightarrow> bool) \<Rightarrow> (u64 \<Rightarrow> bool) \<Rightarrow> worker_call list" where
  "work_unit_calls job u built halt live =
    (case scan_nonces job u (bw_merkle_root built) halt live (u_nonce_next u) (initial_scan u (bw_header built)) of
       (calls, nonce, s) \<Rightarrow>
         calls @
         (if sc_pending s \<noteq> 0 then fst (report job u (bw_merkle_root built) nonce s) else []) @
         (if nonce \<ge> u_nonce_end u then [Complete_unit (u_id u), Header_complete] else [Release_unit (u_id u)]))"

text \<open>
  The outer loop, given for each of its rounds the stop token, the active generation, the
  allocator's answer and the signals during the unit. An exception of \<^verbatim>\<open>build_work\<close> leaves the
  thread function.
\<close>

record worker_round =
  wr_stop :: bool
  wr_generation :: u64
  wr_unit :: "work_unit option"
  wr_halt :: "u64 \<Rightarrow> bool"
  wr_live :: "u64 \<Rightarrow> bool"

fun worker :: "live_mining_job \<Rightarrow> worker_round list \<Rightarrow> worker_call list \<times> unit outcome" where
  "worker job [] = ([], Inr ())"
| "worker job (r # rs) =
    (if wr_stop r \<or> wr_generation r \<noteq> lm_generation job then ([], Inr ())
     else case wr_unit r of
       None \<Rightarrow> ([Acquire_unit], Inr ())
     | Some u \<Rightarrow>
       case build_work (lm_job job) (lm_extranonce1 job) (u_extranonce2 u) 0 of
         Inl e \<Rightarrow> ([Acquire_unit, Set_extranonce (u_extranonce2 u)], Inl e)
       | Inr built \<Rightarrow>
         case worker job rs of (rest, result) \<Rightarrow>
           (Acquire_unit # Set_extranonce (u_extranonce2 u)
              # work_unit_calls job u built (wr_halt r) (wr_live r) @ rest, result))"
section \<open>The comparison\<close>

lemma better_from_lex:
  "better_from c b is = (List.map (\<lambda>i. c ! (length c - 1 - i)) is < List.map (\<lambda>i. b ! (length b - 1 - i)) is)"
  by (induction "is") (auto simp: Let_def)

lemma better_hash_rev: "length c = length b \<Longrightarrow> better_hash c b \<longleftrightarrow> rev c < rev b"
proof -
  assume "length c = length b"
  moreover have "List.map (\<lambda>i. x ! (length x - 1 - i)) [0..<length x] = rev x" for x :: bytes
    by (intro nth_equalityI) (simp_all add: rev_nth)
  ultimately show ?thesis unfolding better_hash_def better_from_lex by metis
qed

interpretation digests: ranked better_hash "\<lambda>d. length d = 32" le_val
  by unfold_locales (simp add: better_hash_rev le_val_def be_val_less_iff)

section \<open>One nonce\<close>

fun handled :: "worker_call list \<Rightarrow> candidate list" where
  "handled [] = []"
| "handled (Handle c # cs) = c # handled cs"
| "handled (_ # cs) = handled cs"

fun hashes_added :: "worker_call list \<Rightarrow> u64" where
  "hashes_added [] = 0"
| "hashes_added (Add_hashes n # cs) = n + hashes_added cs"
| "hashes_added (_ # cs) = hashes_added cs"

lemma handled_append [simp]: "handled (xs @ ys) = handled xs @ handled ys"
  by (induction xs rule: handled.induct) simp_all

lemma hashes_added_append [simp]: "hashes_added (xs @ ys) = hashes_added xs + hashes_added ys"
  by (induction xs rule: hashes_added.induct) (simp_all add: add.assoc)

definition digest_at :: "bytes \<Rightarrow> u64 \<Rightarrow> bytes" where
  "digest_at header nonce = sha256d (set_nonce header (ucast nonce))"

definition is_hit :: "live_mining_job \<Rightarrow> bytes \<Rightarrow> u64 \<Rightarrow> bool" where
  "is_hit job header nonce \<longleftrightarrow>
    hash_meets_target (digest_at header nonce) (lm_share_target job) \<or>
    hash_meets_target (digest_at header nonce) (lm_network_target job)"

definition hit_candidate :: "live_mining_job \<Rightarrow> work_unit \<Rightarrow> built_work \<Rightarrow> u64 \<Rightarrow> candidate" where
  "hit_candidate job u built nonce =
    \<lparr>cd_context = job, cd_extranonce2 = u_extranonce2 u, cd_header = set_nonce (bw_header built) (ucast nonce),
     cd_merkle_root = bw_merkle_root built, cd_digest = digest_at (bw_header built) nonce, cd_nonce = ucast nonce,
     cd_share = True, cd_network = hash_meets_target (digest_at (bw_header built) nonce) (lm_network_target job),
     cd_worker = ''CPU''\<rparr>"

definition bookkeeping :: "worker_call \<Rightarrow> bool" where
  "bookkeeping c = (case c of Complete_unit i \<Rightarrow> False | Release_unit i \<Rightarrow> False | Header_complete \<Rightarrow> False | _ \<Rightarrow> True)"

text \<open>What the report adds: no share, the pending count, the best text; it keeps all but what was reported.\<close>

lemma report_facts:
  assumes "report job u merkle position s = (calls, s')"
  shows "filter cd_share (handled calls) = []" "hashes_added calls = sc_pending s"
    "Observe_best (bitcoin_hash_hex (sc_best s)) \<in> set calls" "list_all bookkeeping calls"
    "sc_header s' = sc_header s" "sc_best s' = sc_best s" "sc_pending s' = sc_pending s"
  using assms by (auto simp: report_def report_personal_best_def Let_def bookkeeping_def split: if_splits)

lemma hash_nonce_facts:
  assumes "hash_nonce job u (bw_merkle_root built) live nonce s = (calls, s')"
    and "length (bw_header built) = 80" "sc_pending s < 65536"
    and "set_nonce (sc_header s) (ucast nonce) = set_nonce (bw_header built) (ucast nonce)"
  shows "filter cd_share (handled calls) =
      (if is_hit job (bw_header built) nonce \<and> live nonce then [hit_candidate job u built nonce] else [])"
    and "hashes_added calls + sc_pending s' = sc_pending s + 1"
    and "sc_header s' = set_nonce (bw_header built) (ucast nonce)"
    and "sc_best s' = keep_best better_hash (digest_at (bw_header built) nonce) (sc_best s)"
    and "sc_pending s' = 0 \<Longrightarrow> Observe_best (bitcoin_hash_hex (sc_best s')) \<in> set calls"
    and "sc_pending s' < 65536" "unat (sc_pending s') mod 4096 = (unat (sc_pending s) + 1) mod 4096"
    and "list_all bookkeeping calls"
proof -
  define s2 where "s2 = (let s1 = s\<lparr>sc_header := set_nonce (bw_header built) (ucast nonce), sc_pending := sc_pending s + 1\<rparr>
    in if better_hash (digest_at (bw_header built) nonce) (sc_best s1)
       then s1\<lparr>sc_best := digest_at (bw_header built) nonce, sc_best_nonce := ucast nonce\<rparr> else s1)"
  define hit where "hit = (if is_hit job (bw_header built) nonce \<and> live nonce then [Handle (hit_candidate job u built nonce)] else [])"
  have s2: "sc_pending s2 = sc_pending s + 1" "sc_header s2 = set_nonce (bw_header built) (ucast nonce)"
    "sc_best s2 = keep_best better_hash (digest_at (bw_header built) nonce) (sc_best s)"
    by (simp_all add: s2_def keep_best_def Let_def)
  have result: "(calls, s') = (if sc_pending s2 \<ge> checkpoint_batch
        then case report job u (bw_merkle_root built) (nonce + 1) s2 of (calls, s3) \<Rightarrow> (hit @ calls, s3\<lparr>sc_pending := 0\<rparr>)
        else (hit, s2))"
    using assms(1) unfolding hash_nonce_def assms(4) s2_def hit_def is_hit_def hit_candidate_def digest_at_def Let_def
    by simp
  have p: "unat (sc_pending s + 1) = unat (sc_pending s) + 1"
    using assms(3) by (intro unat_Suc_bound) (auto intro: less_trans)
  have hit: "filter cd_share (handled hit) = (if is_hit job (bw_header built) nonce \<and> live nonce then [hit_candidate job u built nonce] else [])"
    "hashes_added hit = 0" "list_all bookkeeping hit"
    by (simp_all add: hit_def hit_candidate_def bookkeeping_def)
  have small: "unat (sc_pending s) < 65536" using assms(3) by (simp add: word_less_nat_alt)
  obtain more s3 where r: "report job u (bw_merkle_root built) (nonce + 1) s2 = (more, s3)" by fastforce
  note rf = report_facts [OF r]
  have cs: "calls = hit @ more \<and> s' = s3\<lparr>sc_pending := 0\<rparr> \<or> calls = hit \<and> s' = s2"
    using result by (simp add: r split: if_splits)
  show "filter cd_share (handled calls) =
      (if is_hit job (bw_header built) nonce \<and> live nonce then [hit_candidate job u built nonce] else [])"
    using cs hit(1) rf(1) by auto
  show "hashes_added calls + sc_pending s' = sc_pending s + 1" using cs hit(2) rf(2) s2(1) by auto
  show "sc_header s' = set_nonce (bw_header built) (ucast nonce)" using cs rf(5) s2(2) by auto
  show "sc_best s' = keep_best better_hash (digest_at (bw_header built) nonce) (sc_best s)" using cs rf(6) s2(3) by auto
  show "list_all bookkeeping calls" using cs hit(3) rf(4) by auto
  have flush: "sc_pending s' = 0 \<and> Observe_best (bitcoin_hash_hex (sc_best s')) \<in> set calls" if "sc_pending s2 \<ge> checkpoint_batch"
    using that result rf(3,6) by (simp add: r)
  have keep: "sc_pending s' = sc_pending s + 1" if "\<not> sc_pending s2 \<ge> checkpoint_batch"
    using that result s2 by simp
  have full: "checkpoint_batch \<le> sc_pending s2 \<longleftrightarrow> unat (sc_pending s) = 65535"
    using small p unfolding s2 by (auto simp: word_le_nat_alt checkpoint_batch_def)
  have nz: "sc_pending s + 1 \<noteq> 0" using p by (metis add_is_0 unsigned_0 zero_neq_one)
  show "Observe_best (bitcoin_hash_hex (sc_best s')) \<in> set calls" if "sc_pending s' = 0"
    using that flush keep nz by metis
  show "sc_pending s' < 65536" "unat (sc_pending s') mod 4096 = (unat (sc_pending s) + 1) mod 4096"
    using flush keep full p small by (cases "checkpoint_batch \<le> sc_pending s2"; simp add: word_less_nat_alt)+
qed
section \<open>One unit\<close>

definition nonce_range :: "u64 \<Rightarrow> u64 \<Rightarrow> u64 list" where
  "nonce_range lo hi = List.map of_nat [unat lo..<unat hi]"

lemma nonce_range_Nil [simp]: "nonce_range a a = []"
  by (simp add: nonce_range_def)

lemma nonce_range_Cons: "a < b \<Longrightarrow> nonce_range a b = a # nonce_range (a + 1) b"
  by (simp add: nonce_range_def unat_Suc_bound upt_conv_Cons word_less_nat_alt)

lemma set_nonce_range: "n \<in> set (nonce_range a b) \<longleftrightarrow> a \<le> n \<and> n < b"
proof -
  have "unat (of_nat m :: u64) = m" if "m < unat b" for m
    using that unsigned_less [of b, where ?'a = nat] by (simp add: unat_of_nat)
  then have "n \<in> of_nat ` {unat a..<unat b} \<longleftrightarrow> unat a \<le> unat n \<and> unat n < unat b"
    by (auto intro: image_eqI [of _ _ "unat n"])
  then show ?thesis by (simp add: nonce_range_def word_le_nat_alt word_less_nat_alt)
qed

text \<open>The facts of a scan from a position with well-formed locals.\<close>

definition scan_ok :: "bytes \<Rightarrow> scan \<Rightarrow> bool" where
  "scan_ok header s \<longleftrightarrow> (\<forall>n. set_nonce (sc_header s) n = set_nonce header n) \<and> sc_pending s < 65536"

lemma hash_nonce_ok:
  fixes built :: built_work
  assumes "hash_nonce job u (bw_merkle_root built) live nonce s = (calls, s')"
    and "length (bw_header built) = 80" "scan_ok (bw_header built) s"
  shows "scan_ok (bw_header built) s'"
  using hash_nonce_facts [OF assms(1,2)] assms(2,3) by (auto simp: scan_ok_def)

lemma scan_stays:
  "scan_nonces job u merkle halt live nonce s = (calls, n, s') \<Longrightarrow> nonce \<le> n \<and> (n = nonce \<longrightarrow> calls = [] \<and> s' = s)"
proof (induction job u merkle halt live nonce s arbitrary: calls n s' rule: scan_nonces.induct)
  case (1 job u merkle halt live nonce s)
  show ?case
  proof (cases "nonce < u_nonce_end u \<and> \<not> (sc_pending s AND 4095 = 0 \<and> halt nonce)")
    case False
    then show ?thesis using 1(2) by (auto simp: scan_nonces.simps split: if_splits)
  next
    case True
    obtain c1 s1 where h: "hash_nonce job u merkle live nonce s = (c1, s1)" by fastforce
    obtain c2 n2 s2 where r: "scan_nonces job u merkle halt live (nonce + 1) s1 = (c2, n2, s2)"
      by (metis prod_cases3)
    have "n = n2" using 1(2) True by (auto simp: scan_nonces.simps [of _ _ _ _ _ nonce] h r)
    moreover have "nonce + 1 \<le> n2" using 1(1) [OF _ _ h [symmetric] r] True by blast
    ultimately show ?thesis
      using True unat_Suc_bound [of nonce "u_nonce_end u"] by (auto simp: word_le_nat_alt word_less_nat_alt)
  qed
qed

lemma scan_facts:
  assumes "scan_nonces job u (bw_merkle_root built) halt live nonce s = (calls, n, s')"
    and "length (bw_header built) = 80" "scan_ok (bw_header built) s" "nonce \<le> u_nonce_end u"
  shows "nonce \<le> n \<and> n \<le> u_nonce_end u \<and> scan_ok (bw_header built) s' \<and> list_all bookkeeping calls
    \<and> filter cd_share (handled calls) = List.map (hit_candidate job u built)
        (filter (\<lambda>k. is_hit job (bw_header built) k \<and> live k) (nonce_range nonce n))
    \<and> hashes_added calls + sc_pending s' = sc_pending s + (n - nonce)
    \<and> sc_best s' = fold (keep_best better_hash) (List.map (digest_at (bw_header built)) (nonce_range nonce n)) (sc_best s)
    \<and> (sc_pending s' = 0 \<longrightarrow> nonce < n \<longrightarrow> Observe_best (bitcoin_hash_hex (sc_best s')) \<in> set calls)"
  using assms
proof (induction job u "bw_merkle_root built" halt live nonce s arbitrary: calls n s' rule: scan_nonces.induct)
  case (1 job u halt live nonce s)
  show ?case
  proof (cases "nonce < u_nonce_end u \<and> \<not> (sc_pending s AND 4095 = 0 \<and> halt nonce)")
    case False
    then have "calls = [] \<and> n = nonce \<and> s' = s" using 1(2) by (auto simp: scan_nonces.simps split: if_splits)
    then show ?thesis using 1 by simp
  next
    case True
    obtain c1 s1 where h: "hash_nonce job u (bw_merkle_root built) live nonce s = (c1, s1)" by fastforce
    obtain c2 n2 s2 where r: "scan_nonces job u (bw_merkle_root built) halt live (nonce + 1) s1 = (c2, n2, s2)"
      by (metis prod_cases3)
    have res: "calls = c1 @ c2" "n = n2" "s' = s2"
      using 1(2) True by (auto simp: scan_nonces.simps [of _ _ _ _ _ nonce] h r)
    note hf = hash_nonce_facts [OF h 1(3)]
    have ok: "sc_pending s < 65536" "set_nonce (sc_header s) (ucast nonce) = set_nonce (bw_header built) (ucast nonce)"
      using 1(4) by (simp_all add: scan_ok_def)
    have le: "nonce + 1 \<le> u_nonce_end u" using True unat_Suc_bound [of nonce "u_nonce_end u"]
      by (simp add: word_le_nat_alt word_less_nat_alt)
    from 1(1) [OF _ _ h [symmetric] r 1(3) hash_nonce_ok [OF h 1(3,4)] le] True
    have IH: "nonce + 1 \<le> n2" "n2 \<le> u_nonce_end u" "scan_ok (bw_header built) s2" "list_all bookkeeping c2"
      "filter cd_share (handled c2) = List.map (hit_candidate job u built)
        (filter (\<lambda>k. is_hit job (bw_header built) k \<and> live k) (nonce_range (nonce + 1) n2))"
      "hashes_added c2 + sc_pending s2 = sc_pending s1 + (n2 - (nonce + 1))"
      "sc_best s2 = fold (keep_best better_hash) (List.map (digest_at (bw_header built)) (nonce_range (nonce + 1) n2)) (sc_best s1)"
      "sc_pending s2 = 0 \<longrightarrow> nonce + 1 < n2 \<longrightarrow> Observe_best (bitcoin_hash_hex (sc_best s2)) \<in> set c2"
      by blast+
    have lt: "nonce < n2"
      using IH(1) unat_Suc_bound [of nonce "u_nonce_end u"] True by (simp add: word_le_nat_alt word_less_nat_alt)
    have at_once: "s2 = s1" "c2 = []" if "n2 = nonce + 1"
    proof -
      show "s2 = s1" "c2 = []"
        using r that IH(1) lt scan_stays [OF r] by blast+
    qed
    have obs: "sc_pending s2 = 0 \<longrightarrow> Observe_best (bitcoin_hash_hex (sc_best s2)) \<in> set (c1 @ c2)"
      using IH(1,8) hf(5) [OF ok] at_once by (cases "nonce + 1 < n2") (auto simp: not_less)
    have "hashes_added (c1 @ c2) + sc_pending s2 = (hashes_added c1 + sc_pending s1) + (n2 - (nonce + 1))"
      using IH(6) by (simp only: hashes_added_append add.assoc)
    then have sum: "hashes_added (c1 @ c2) + sc_pending s2 = sc_pending s + (n2 - nonce)"
      unfolding hf(2) [OF ok] by simp
    show ?thesis
      unfolding res
      using IH(1-5,7) hf(1,8) [OF ok] lt less_imp_le [OF lt] obs sum hf(4) [OF ok]
      by (simp add: nonce_range_Cons)
  qed
qed
text \<open>A scan that is told to stop at some nonce hashes at most 4095 more.\<close>

lemma pending_and: "(p :: u64) AND 4095 = 0 \<longleftrightarrow> unat p mod 4096 = 0"
proof -
  have "p AND 4095 = take_bit 12 p" by (simp add: take_bit_eq_mask mask_eq_exp_minus_1)
  moreover have "unat (take_bit 12 p) = unat p mod 4096" using take_bit_eq_mod [of 12 "unat p"] by (simp only: unsigned_take_bit_eq) simp
  ultimately show ?thesis by (metis unat_eq_zero)
qed

definition stop_bound :: "nat \<Rightarrow> nat \<Rightarrow> nat \<Rightarrow> nat" where
  "stop_bound h nonce k = (if h \<le> nonce then nonce + (4096 - k) mod 4096 else h + 4095)"

lemma stop_bound_step:
  "k < 4096 \<Longrightarrow> h \<le> nonce \<Longrightarrow> k \<noteq> 0 \<Longrightarrow> stop_bound h (nonce + 1) ((k + 1) mod 4096) \<le> stop_bound h nonce k"
  by (cases "k = 4095") (simp_all add: stop_bound_def)

lemma stop_bound_early: "nonce < h \<Longrightarrow> stop_bound h (nonce + 1) k \<le> stop_bound h nonce k'"
  using mod_less_divisor [of 4096 "4096 - k"] by (auto simp: stop_bound_def)

lemma scan_stops:
  fixes built :: built_work
  assumes "scan_nonces job u (bw_merkle_root built) halt live nonce s = (calls, n, s')"
    and "length (bw_header built) = 80" "scan_ok (bw_header built) s"
    and "\<forall>k. h \<le> unat k \<longrightarrow> halt k"
  shows "unat n \<le> stop_bound h (unat nonce) (unat (sc_pending s) mod 4096)"
  using assms
proof (induction job u "bw_merkle_root built" halt live nonce s arbitrary: calls n s' rule: scan_nonces.induct)
  case (1 job u halt live nonce s)
  let ?k = "unat (sc_pending s) mod 4096"
  show ?case
  proof (cases "nonce < u_nonce_end u \<and> \<not> (sc_pending s AND 4095 = 0 \<and> halt nonce)")
    case False
    then have "n = nonce" using 1(2) by (auto simp: scan_nonces.simps split: if_splits)
    then show ?thesis by (simp add: stop_bound_def)
  next
    case True
    obtain c1 s1 where h: "hash_nonce job u (bw_merkle_root built) live nonce s = (c1, s1)" by fastforce
    obtain c2 n2 s2 where r: "scan_nonces job u (bw_merkle_root built) halt live (nonce + 1) s1 = (c2, n2, s2)"
      by (metis prod_cases3)
    have n: "n = n2" using 1(2) True by (auto simp: scan_nonces.simps [of _ _ _ _ _ nonce] h r)
    have ok: "sc_pending s < 65536" "set_nonce (sc_header s) (ucast nonce) = set_nonce (bw_header built) (ucast nonce)"
      using 1(4) by (simp_all add: scan_ok_def)
    have k1: "unat (sc_pending s1) mod 4096 = (?k + 1) mod 4096"
      using hash_nonce_facts(7) [OF h 1(3) ok] by (simp add: mod_simps)
    have "unat (nonce + 1) = unat nonce + 1" using True by (blast intro: unat_Suc_bound)
    with 1(1) [OF _ _ h [symmetric] r 1(3) hash_nonce_ok [OF h 1(3,4)] 1(5)] True k1
    have IH: "unat n2 \<le> stop_bound h (unat nonce + 1) ((?k + 1) mod 4096)" by metis
    have "stop_bound h (unat nonce + 1) ((?k + 1) mod 4096) \<le> stop_bound h (unat nonce) ?k"
    proof (cases "h \<le> unat nonce")
      case reached: True
      then have "?k \<noteq> 0" using True 1(5) by (auto simp: pending_and)
      then show ?thesis using reached by (intro stop_bound_step) simp_all
    next
      case False
      then show ?thesis by (intro stop_bound_early) simp
    qed
    then show ?thesis using IH le_trans unfolding n by blast
  qed
qed

text \<open>A scan that nothing stops reaches the end.\<close>

lemma scan_completes:
  assumes "scan_nonces job u merkle halt live nonce s = (calls, n, s')" "\<forall>k. \<not> halt k" "nonce \<le> u_nonce_end u"
  shows "n = u_nonce_end u"
  using assms
proof (induction job u merkle halt live nonce s arbitrary: calls n s' rule: scan_nonces.induct)
  case (1 job u merkle halt live nonce s)
  show ?case
  proof (cases "nonce < u_nonce_end u")
    case False
    then show ?thesis using 1(2,4) by (auto simp: scan_nonces.simps)
  next
    case True
    obtain c1 s1 where h: "hash_nonce job u merkle live nonce s = (c1, s1)" by fastforce
    obtain c2 n2 s2 where r: "scan_nonces job u merkle halt live (nonce + 1) s1 = (c2, n2, s2)"
      by (metis prod_cases3)
    have "\<not> halt nonce" using 1(3) by blast
    then have "n = n2" using 1(2) True by (auto simp: scan_nonces.simps [of _ _ _ _ _ nonce] h r)
    moreover have "nonce + 1 \<le> u_nonce_end u"
      using True unat_Suc_bound [OF True] by (simp add: word_le_nat_alt word_less_nat_alt)
    ultimately show ?thesis using 1(1) [OF True _ h [symmetric] r 1(3)] 1(3) by blast
  qed
qed

text \<open>All of a unit's calls.\<close>

lemma unit_calls:
  fixes built :: built_work
  assumes "length (bw_header built) = 80" "u_nonce_next u \<le> u_nonce_end u"
  obtains n s calls tail where
    "scan_nonces job u (bw_merkle_root built) halt live (u_nonce_next u) (initial_scan u (bw_header built)) = (calls, n, s)"
    "u_nonce_next u \<le> n" "n \<le> u_nonce_end u"
    "work_unit_calls job u built halt live = calls @ tail @
       (if n = u_nonce_end u then [Complete_unit (u_id u), Header_complete] else [Release_unit (u_id u)])"
    "list_all bookkeeping (calls @ tail)" "filter cd_share (handled tail) = []"
    "filter cd_share (handled calls) = List.map (hit_candidate job u built)
        (filter (\<lambda>k. is_hit job (bw_header built) k \<and> live k) (nonce_range (u_nonce_next u) n))"
    "hashes_added (calls @ tail) = n - u_nonce_next u"
    "u_nonce_next u < n \<Longrightarrow> Observe_best (bitcoin_hash_hex (fold (keep_best better_hash)
       (List.map (digest_at (bw_header built)) (nonce_range (u_nonce_next u) n)) (replicate 32 0xff))) \<in> set (calls @ tail)"
proof -
  let ?s0 = "initial_scan u (bw_header built)"
  obtain calls n s where r: "scan_nonces job u (bw_merkle_root built) halt live (u_nonce_next u) ?s0 = (calls, n, s)"
    by (metis prod_cases3)
  have ok: "scan_ok (bw_header built) ?s0" by (simp add: scan_ok_def initial_scan_def)
  note f = scan_facts [OF r assms(1) ok assms(2)]
  define tail where "tail = (if sc_pending s \<noteq> 0 then fst (report job u (bw_merkle_root built) n s) else [])"
  obtain cs s1 where rep: "report job u (bw_merkle_root built) n s = (cs, s1)" by fastforce
  have t: "filter cd_share (handled tail) = []" "hashes_added tail = sc_pending s" "list_all bookkeeping tail"
    "sc_pending s \<noteq> 0 \<Longrightarrow> Observe_best (bitcoin_hash_hex (sc_best s)) \<in> set tail"
    using report_facts [OF rep] by (auto simp: tail_def rep)
  have "work_unit_calls job u built halt live = calls @ tail @
       (if n = u_nonce_end u then [Complete_unit (u_id u), Header_complete] else [Release_unit (u_id u)])"
    using f antisym [of n "u_nonce_end u"] unfolding work_unit_calls_def r tail_def by auto
  then show thesis
    using f t by (intro that [OF r]) (auto simp: initial_scan_def)
qed

section \<open>Properties\<close>


text \<open>C35: once the stop token or a new generation is there to be seen, from nonce \<open>h\<close> on, the worker
  gives the unit up after at most 4095 more hashes.\<close>

theorem stop_latency_bounded:
  assumes "length (bw_header built) = 80" "u_nonce_next u \<le> u_nonce_end u" "unat (u_nonce_next u) \<le> h"
    and "halt = (\<lambda>k. h \<le> unat k)"
  shows "unat (hashes_added (work_unit_calls job u built halt live)) \<le> h + 4095 - unat (u_nonce_next u)"
proof (rule unit_calls [OF assms(1,2), of job halt live])
  fix n s calls tail
  assume r: "scan_nonces job u (bw_merkle_root built) halt live (u_nonce_next u) (initial_scan u (bw_header built)) = (calls, n, s)"
    and c: "work_unit_calls job u built halt live = calls @ tail @
       (if n = u_nonce_end u then [Complete_unit (u_id u), Header_complete] else [Release_unit (u_id u)])"
    and n: "hashes_added (calls @ tail) = n - u_nonce_next u" "u_nonce_next u \<le> n"
  have "scan_ok (bw_header built) (initial_scan u (bw_header built))" by (simp add: scan_ok_def initial_scan_def)
  from scan_stops [OF r assms(1) this, of h] have "unat n \<le> h + 4095"
    using assms(3,4) by (auto simp: stop_bound_def initial_scan_def split: if_splits)
  moreover have "hashes_added (work_unit_calls job u built halt live) = n - u_nonce_next u"
    using n(1) by (simp add: c)
  ultimately show ?thesis using unat_sub [OF n(2)] by simp
qed

text \<open>The worker's running minimum is right: after any part of a unit, complete or not, the
  telemetry was told of a hash that is the least of all those tried, in the displayed order.\<close>

theorem best_hash_reported:
  assumes "length (bw_header built) = 80" "u_nonce_next u \<le> u_nonce_end u"
    and "scan_nonces job u (bw_merkle_root built) halt live (u_nonce_next u) (initial_scan u (bw_header built)) = (calls, n, s)"
    and "u_nonce_next u \<le> k" "k < n"
  shows "\<exists>t. Observe_best t \<in> set (work_unit_calls job u built halt live)
    \<and> \<not> bitcoin_hash_hex (digest_at (bw_header built) k) < t"
proof (rule unit_calls [OF assms(1,2), of job halt live])
  fix n' s' calls' tail
  let ?ds = "List.map (digest_at (bw_header built)) (nonce_range (u_nonce_next u) n)"
  let ?best = "fold (keep_best better_hash) ?ds (replicate 32 0xff)"
  assume r: "scan_nonces job u (bw_merkle_root built) halt live (u_nonce_next u) (initial_scan u (bw_header built)) = (calls', n', s')"
    and c: "work_unit_calls job u built halt live = calls' @ tail @
       (if n' = u_nonce_end u then [Complete_unit (u_id u), Header_complete] else [Release_unit (u_id u)])"
    and o: "u_nonce_next u < n' \<Longrightarrow> Observe_best (bitcoin_hash_hex (fold (keep_best better_hash)
       (List.map (digest_at (bw_header built)) (nonce_range (u_nonce_next u) n')) (replicate 32 0xff))) \<in> set (calls' @ tail)"
  have n: "n' = n" using r assms(3) by simp
  have "u_nonce_next u < n" using assms(4,5) by simp
  then have obs: "Observe_best (bitcoin_hash_hex ?best) \<in> set (work_unit_calls job u built halt live)"
    using o by (auto simp: c n)
  have valid: "list_all (\<lambda>d. length d = 32) ?ds" by (simp add: list_all_iff digest_at_def sha256d_def)
  have "digest_at (bw_header built) k \<in> insert (replicate 32 0xff) (set ?ds)"
    using assms(4,5) by (simp add: set_nonce_range)
  from digests.fold_best [OF valid _ this]
  have "le_val ?best \<le> le_val (digest_at (bw_header built) k)" by simp
  moreover have "length ?best = 32" using digests.fold_valid [OF valid] by simp
  ultimately have "\<not> bitcoin_hash_hex (digest_at (bw_header built) k) < bitcoin_hash_hex ?best"
    using bitcoin_hash_hex_less_iff [of "digest_at (bw_header built) k" ?best]
    by (simp add: digest_at_def sha256d_def)
  with obs show ?thesis by blast
qed

definition example_unit :: work_unit where
  "example_unit = fresh_unit ''i'' ''j'' ''p'' '''' 5 8 Cpu 1"

definition example_built :: built_work where
  "example_built = \<lparr>bw_header = replicate 80 0, bw_merkle_root = replicate 32 0\<rparr>"

definition example_job :: live_mining_job where
  "example_job = \<lparr>lm_job = \<lparr>job_id = ''j'', prevhash = '''', coinbase1 = '''', coinbase2 = '''', merkle_branches = [],
     version = '''', nbits = '''', ntime = '''', clean_jobs = True\<rparr>,
     lm_extranonce1 = '''', lm_share_target = replicate 32 0xff, lm_network_target = replicate 32 0,
     lm_share_difficulty = FNum False (2 ^ 52) 1, lm_extranonce2_size = 0, lm_work_fingerprint = '''', lm_generation = 1\<rparr>"

lemma example_facts:
  "length (bw_header example_built) = 80" "u_nonce_next example_unit = 5" "u_nonce_end example_unit = 8"
  by (simp_all add: example_unit_def example_built_def fresh_unit_def)

lemma example_scan:
  "\<exists>calls s. scan_nonces job example_unit merkle (\<lambda>_. False) live 5 s0 = (calls, 8, s)"
  using scan_completes [of job example_unit merkle "\<lambda>_. False" live 5 s0] example_facts
  by (cases "scan_nonces job example_unit merkle (\<lambda>_. False) live 5 s0") simp


theorem stop_latency_bounded_witness:
  "unat (hashes_added (work_unit_calls example_job example_unit example_built (\<lambda>k. 6 \<le> unat k) (\<lambda>_. True))) \<le> 4096"
  using stop_latency_bounded [OF example_facts(1), of example_unit 6 "\<lambda>k. 6 \<le> unat k" example_job "\<lambda>_. True"]
  by (simp add: example_facts)

theorem best_hash_reported_witness:
  "\<exists>t. Observe_best t \<in> set (work_unit_calls example_job example_unit example_built (\<lambda>_. False) (\<lambda>_. True))
    \<and> \<not> bitcoin_hash_hex (digest_at (bw_header example_built) 6) < t"
proof -
  obtain calls s where "scan_nonces example_job example_unit (bw_merkle_root example_built) (\<lambda>_. False) (\<lambda>_. True)
      (u_nonce_next example_unit) (initial_scan example_unit (bw_header example_built)) = (calls, 8, s)"
    using example_scan by (metis example_facts(2))
  from best_hash_reported [OF example_facts(1) _ this, of 6] show ?thesis by (simp add: example_facts)
qed

end
