(* ===== verification/Header_Space.thy ===== *)
theory Header_Space
  imports Cpu_Miner
begin

text \<open>
  \<^verbatim>\<open>src/research/header_space.cpp\<close>: the exhaustive scan of the nonces of one header, by zones and by
  sparse capture. A \<^verbatim>\<open>PowValue\<close> is the list of its eight words, \<^verbatim>\<open>std::size_t\<close> is 64 bits wide.
  The measured times and the device description of a result are left out. The lemmas show that the
  zones tile the range, that the statistics do not depend on the tiling, and that the capture loop
  ends with exactly the hits.
\<close>

section \<open>Data\<close>

type_synonym pow_words = "u32 list"

definition nonce_space_size :: u64 where "nonce_space_size = 0x100000000"

definition threshold_bits_list :: "nat list" where
  "threshold_bits_list = [26, 28, 30, 32, 34, 36, 38]"

record header_metadata =
  hm_version :: u32
  hm_previous_block_hash :: string
  hm_merkle_root :: string
  hm_ntime :: u32
  hm_nbits :: u32
  hm_prefix_hex :: string
  hm_template_hex :: string

record zone_range =
  zr_index :: u64
  zr_start :: u64
  zr_end :: u64
  zr_count :: u64

record zone_stats =
  zs_range :: zone_range
  zs_minimum :: pow_words
  zs_minimum_nonce :: u32
  zs_counts :: "u64 list"
  zs_network_hits :: u64

record global_stats =
  gs_total :: u64
  gs_minimum :: pow_words
  gs_minimum_nonce :: u32
  gs_minimum_zone :: u64
  gs_counts :: "u64 list"
  gs_network_hits :: u64

record sparse_hits =
  sh_nonces :: "u32 list"
  sh_nonce_count :: u64
  sh_total_hit_count :: u64
  sh_captured_count :: u64
  sh_capacity :: u64
  sh_threshold_bits :: u32
  sh_overflow :: bool
  sh_retries :: u64

record genesis_validation =
  gv_header_serialization :: bool
  gv_nonce_little_endian :: bool
  gv_known_hash :: bool
  gv_pow_target :: bool
  gv_displayed_hash :: string
  gv_target :: string

section \<open>Headers\<close>

definition read_le32 :: "bytes \<Rightarrow> nat \<Rightarrow> u32" where
  "read_le32 bs off =
    ucast (bs ! off) OR push_bit 8 (ucast (bs ! (off + 1))) OR
    push_bit 16 (ucast (bs ! (off + 2))) OR push_bit 24 (ucast (bs ! (off + 3)))"

definition reversed_hex :: "bytes \<Rightarrow> string" where
  "reversed_hex bs = to_hex (rev bs)"

definition hex_u32 :: "u32 \<Rightarrow> string" where
  "hex_u32 val = setw_hex 8 (unat val)"

definition header_from_hex :: "string \<Rightarrow> bytes outcome" where
  "header_from_hex hex =
    bindE (from_hex hex) (\<lambda>bs.
      if length bs \<noteq> 80
      then Inl (Invalid_argument ''--header-hex must contain exactly 160 hexadecimal characters'')
      else Inr bs)"

definition genesis_header :: "bytes outcome" where
  "genesis_header = header_from_hex
    (''01000000'' @
     ''0000000000000000000000000000000000000000000000000000000000000000'' @
     ''3ba3edfd7a7b12b27ac72c3e67768f617fc81bc3888a51323a9fb8aa4b1e5e4a'' @
     ''29ab5f49'' @ ''ffff001d'' @ ''1dac2b7c'')"

definition decode_header :: "bytes \<Rightarrow> header_metadata" where
  "decode_header input =
    (let header = set_nonce input 0
     in \<lparr>hm_version = read_le32 header 0,
         hm_previous_block_hash = reversed_hex (take 32 (drop 4 header)),
         hm_merkle_root = reversed_hex (take 32 (drop 36 header)),
         hm_ntime = read_le32 header 68,
         hm_nbits = read_le32 header 72,
         hm_prefix_hex = to_hex (take 76 header),
         hm_template_hex = header_hex header\<rparr>)"

section \<open>Proof-of-work values\<close>

definition pow_word :: "bytes \<Rightarrow> nat \<Rightarrow> u32" where
  "pow_word d k =
    (let l = length d - 1 - k * 4
     in push_bit 24 (ucast (d ! l)) OR push_bit 16 (ucast (d ! (l - 1))) OR
        push_bit 8 (ucast (d ! (l - 2))) OR ucast (d ! (l - 3)))"

definition pow_value :: "bytes \<Rightarrow> pow_words" where
  "pow_value raw_digest = List.map (pow_word raw_digest) [0..<8]"

definition pow_value_hex :: "pow_words \<Rightarrow> string" where
  "pow_value_hex val = concat (List.map (\<lambda>w. setw_hex 8 (unat w)) val)"

text \<open>\<^verbatim>\<open>std::countl_zero\<close>.\<close>

definition countl_zero :: "u32 \<Rightarrow> nat" where
  "countl_zero w = length (takeWhile (\<lambda>i. \<not> bit w i) (rev [0..<32]))"

fun leading_zero_bits :: "pow_words \<Rightarrow> nat" where
  "leading_zero_bits [] = 0"
| "leading_zero_bits (w # ws) =
    (let zeros = countl_zero w in if zeros \<noteq> 32 then zeros else zeros + leading_zero_bits ws)"

definition below_power_of_two_threshold :: "pow_words \<Rightarrow> u32 \<Rightarrow> bool outcome" where
  "below_power_of_two_threshold val threshold_bits =
    (if threshold_bits = 0 \<or> threshold_bits > 256
     then Inl (Invalid_argument ''threshold_bits must be in [1,256]'')
     else Inr (leading_zero_bits val \<ge> unat threshold_bits))"

definition classify_tail :: "pow_words \<Rightarrow> u64 list" where
  "classify_tail val =
    (let zeros = leading_zero_bits val
     in List.map (\<lambda>bits. if zeros \<ge> bits then 1 else 0) threshold_bits_list)"

definition minimum_precedes :: "pow_words \<Rightarrow> u32 \<Rightarrow> pow_words \<Rightarrow> u32 \<Rightarrow> bool" where
  "minimum_precedes left left_nonce right right_nonce =
    (if left < right then True else if right < left then False else left_nonce < right_nonce)"

section \<open>Zones\<close>

definition zone_at :: "u64 \<Rightarrow> u64 \<Rightarrow> u64 \<Rightarrow> u64 \<Rightarrow> zone_range" where
  "zone_at nonce_start range_end zone_size index =
    (let natural_start = index * zone_size;
         natural_end = min nonce_space_size (natural_start + zone_size);
         zstart = max nonce_start natural_start;
         zend = min range_end natural_end
     in \<lparr>zr_index = index, zr_start = zstart, zr_end = zend - 1, zr_count = zend - zstart\<rparr>)"

definition make_zone_layout :: "u64 \<Rightarrow> u64 \<Rightarrow> u64 \<Rightarrow> zone_range list outcome" where
  "make_zone_layout nonce_start nonce_count zone_size =
    (if nonce_count = 0 then Inl (Invalid_argument ''nonce_count must be positive'')
     else if zone_size = 0 \<or> zone_size > nonce_space_size
     then Inl (Invalid_argument ''zone_size must be in [1, 2^32]'')
     else if nonce_start \<ge> nonce_space_size \<or> nonce_count > nonce_space_size - nonce_start
     then Inl (Invalid_argument ''nonce range exceeds uint32 nonce space'')
     else
       let range_end = nonce_start + nonce_count;
           first_zone = nonce_start div zone_size;
           last_zone = (range_end - 1) div zone_size
       in Inr (List.map (zone_at nonce_start range_end zone_size) (nonce_range first_zone (last_zone + 1))))"

definition empty_zone :: "zone_range \<Rightarrow> zone_stats" where
  "empty_zone zrange =
    \<lparr>zs_range = zrange, zs_minimum = replicate 8 0xffffffff, zs_minimum_nonce = 0xffffffff,
     zs_counts = replicate 7 0, zs_network_hits = 0\<rparr>"

definition add_counts :: "u64 list \<Rightarrow> u64 list \<Rightarrow> u64 list" where
  "add_counts xs ys = map2 (+) xs ys"

text \<open>One nonce; the header is the loop's own copy.\<close>

definition scan_zone_nonce :: "bytes \<Rightarrow> u64 \<Rightarrow> bytes \<times> zone_stats \<Rightarrow> bytes \<times> zone_stats" where
  "scan_zone_nonce network_target nonce64 = (\<lambda>(header, zone).
    (let nonce = ucast nonce64;
         header = set_nonce header nonce;
         digest = sha256d header;
         val = pow_value digest;
         zone = zone\<lparr>zs_counts := add_counts (zs_counts zone) (classify_tail val)\<rparr>;
         zone = (if hash_meets_target digest network_target
                 then zone\<lparr>zs_network_hits := zs_network_hits zone + 1\<rparr> else zone)
     in (header,
         if minimum_precedes val nonce (zs_minimum zone) (zs_minimum_nonce zone)
         then zone\<lparr>zs_minimum := val, zs_minimum_nonce := nonce\<rparr> else zone)))"

text \<open>The loop over a zone runs to \<^verbatim>\<open>range.nonce_end\<close> included.\<close>

definition scan_zone :: "bytes \<Rightarrow> zone_range \<Rightarrow> bytes \<times> zone_stats list \<Rightarrow> bytes \<times> zone_stats list" where
  "scan_zone network_target zrange = (\<lambda>(header, done).
    (case fold (scan_zone_nonce network_target) (nonce_range (zr_start zrange) (zr_end zrange + 1)) (header, empty_zone zrange) of
       (header', zone) \<Rightarrow> (header', done @ [zone])))"

definition scan_cpu :: "bytes \<Rightarrow> u64 \<Rightarrow> u64 \<Rightarrow> u64 \<Rightarrow> zone_stats list outcome" where
  "scan_cpu input nonce_start nonce_count zone_size =
    bindE (make_zone_layout nonce_start nonce_count zone_size) (\<lambda>layout.
    bindE (target_from_nbits (hex_u32 (hm_nbits (decode_header input)))) (\<lambda>network_target.
      Inr (snd (fold (scan_zone network_target) layout (input, [])))))"

definition aggregate_step :: "zone_stats \<Rightarrow> global_stats \<Rightarrow> global_stats" where
  "aggregate_step zone result =
    (let result = result\<lparr>gs_total := gs_total result + zr_count (zs_range zone),
                         gs_counts := add_counts (gs_counts result) (zs_counts zone),
                         gs_network_hits := gs_network_hits result + zs_network_hits zone\<rparr>
     in if minimum_precedes (zs_minimum zone) (zs_minimum_nonce zone) (gs_minimum result) (gs_minimum_nonce result)
        then result\<lparr>gs_minimum := zs_minimum zone, gs_minimum_nonce := zs_minimum_nonce zone,
                    gs_minimum_zone := zr_index (zs_range zone)\<rparr>
        else result)"

definition aggregate_zones :: "zone_stats list \<Rightarrow> global_stats outcome" where
  "aggregate_zones zones =
    (case zones of
       [] \<Rightarrow> Inl (Invalid_argument ''cannot aggregate an empty zone collection'')
     | z # _ \<Rightarrow> Inr (fold aggregate_step zones
         \<lparr>gs_total = 0, gs_minimum = replicate 8 0xffffffff, gs_minimum_nonce = 0xffffffff,
          gs_minimum_zone = zr_index (zs_range z), gs_counts = replicate 7 0, gs_network_hits = 0\<rparr>))"

definition same_zone :: "zone_stats \<Rightarrow> zone_stats \<Rightarrow> bool" where
  "same_zone a b =
    (\<not> (zr_index (zs_range a) \<noteq> zr_index (zs_range b) \<or> zr_start (zs_range a) \<noteq> zr_start (zs_range b) \<or>
        zr_end (zs_range a) \<noteq> zr_end (zs_range b) \<or> zr_count (zs_range a) \<noteq> zr_count (zs_range b) \<or>
        zs_minimum a \<noteq> zs_minimum b \<or> zs_minimum_nonce a \<noteq> zs_minimum_nonce b \<or>
        zs_counts a \<noteq> zs_counts b \<or> zs_network_hits a \<noteq> zs_network_hits b))"

definition same_statistics :: "zone_stats list \<Rightarrow> zone_stats list \<Rightarrow> bool" where
  "same_statistics left right = (length left = length right \<and> list_all2 same_zone left right)"

section \<open>Sparse capture\<close>

definition capture_nonce ::
    "u32 \<Rightarrow> u64 \<Rightarrow> u64 \<Rightarrow> bytes \<times> u64 \<times> u32 list \<Rightarrow> (bytes \<times> u64 \<times> u32 list) outcome" where
  "capture_nonce threshold_bits capacity nonce64 = (\<lambda>(header, total_hits, nonces).
    (let nonce = ucast nonce64;
         header = set_nonce header nonce;
         val = pow_value (sha256d header)
     in bindE (below_power_of_two_threshold val threshold_bits) (\<lambda>below.
          if \<not> below then Inr (header, total_hits, nonces)
          else Inr (header, total_hits + 1, if length nonces < unat capacity then nonces @ [nonce] else nonces))))"

definition scan_sparse_hits_cpu :: "bytes \<Rightarrow> u64 \<Rightarrow> u64 \<Rightarrow> u32 \<Rightarrow> u64 \<Rightarrow> sparse_hits outcome" where
  "scan_sparse_hits_cpu input nonce_start nonce_count threshold_bits capacity =
    bindE (make_zone_layout nonce_start nonce_count nonce_count) (\<lambda>_.
      if capacity = 0 then Inl (Invalid_argument ''sparse capacity must be positive'')
      else
        bindE (below_power_of_two_threshold (replicate 8 0) threshold_bits) (\<lambda>_.
        bindE (foldE (capture_nonce threshold_bits capacity) (nonce_range nonce_start (nonce_start + nonce_count)) (input, 0, []))
          (\<lambda>(header, total_hits, nonces).
            Inr \<lparr>sh_nonces = nonces, sh_nonce_count = nonce_count, sh_total_hit_count = total_hits,
                 sh_captured_count = of_nat (length nonces), sh_capacity = capacity, sh_threshold_bits = threshold_bits,
                 sh_overflow = (total_hits > of_nat (length nonces)), sh_retries = 0\<rparr>)))"

lemma scan_sparse_capacity: "scan_sparse_hits_cpu h s c b capacity = Inr r \<Longrightarrow> capacity \<noteq> 0"
  by (auto simp: scan_sparse_hits_cpu_def bindE_eq_Inr_iff)

text \<open>The retry loop doubles the capacity, so it ends: the capacity grows up to half the largest size.\<close>

definition half_max :: u64 where "half_max = (- 1) div 2"

lemma doubling_grows: "capacity \<noteq> 0 \<Longrightarrow> \<not> half_max < capacity \<Longrightarrow> unat (capacity * 2) = unat capacity * 2 \<and> 0 < unat capacity"
proof -
  assume c: "capacity \<noteq> 0" "\<not> half_max < capacity"
  have "unat half_max = 2 ^ 63 - 1" by (simp add: half_max_def unat_div unsigned_minus_1_eq_mask mask_eq_exp_minus_1)
  with c(2) have "unat capacity \<le> 2 ^ 63 - 1" by (simp add: word_less_nat_alt)
  then have "unat capacity * 2 < 2 ^ 64" by simp
  then show ?thesis using c(1) by (simp add: unat_word_ariths(2) unat_gt_0)
qed

lemma sparse_measure: "capacity \<noteq> 0 \<Longrightarrow> \<not> half_max < capacity \<Longrightarrow> 18446744073709551616 - unat (capacity * 2) < 18446744073709551616 - unat capacity"
  using doubling_grows [of capacity] unsigned_less [of capacity, where ?'a = nat] by (intro diff_less_mono2) simp_all

function scan_sparse_complete_from :: "bytes \<Rightarrow> u64 \<Rightarrow> u64 \<Rightarrow> u32 \<Rightarrow> u64 \<Rightarrow> u64 \<Rightarrow> sparse_hits outcome" where
  "scan_sparse_complete_from header nonce_start nonce_count threshold_bits capacity retries =
    (case scan_sparse_hits_cpu header nonce_start nonce_count threshold_bits capacity of
       Inl e \<Rightarrow> Inl e
     | Inr result \<Rightarrow>
         if \<not> sh_overflow result then Inr (result\<lparr>sh_retries := retries\<rparr>)
         else if capacity > half_max then Inl (Overflow_error ''sparse capture capacity cannot be doubled'')
         else scan_sparse_complete_from header nonce_start nonce_count threshold_bits (capacity * 2) (retries + 1))"
  by pat_completeness auto
termination
  by (relation "measure (\<lambda>(h, s, c, b, capacity, r). 2 ^ 64 - unat capacity)")
    (auto dest!: scan_sparse_capacity simp: sparse_measure)

definition scan_sparse_hits_cpu_complete :: "bytes \<Rightarrow> u64 \<Rightarrow> u64 \<Rightarrow> u32 \<Rightarrow> u64 \<Rightarrow> sparse_hits outcome" where
  "scan_sparse_hits_cpu_complete header nonce_start nonce_count threshold_bits initial_capacity =
    scan_sparse_complete_from header nonce_start nonce_count threshold_bits initial_capacity 0"

declare scan_sparse_complete_from.simps [simp del]

section \<open>The genesis block\<close>

definition validate_genesis :: "genesis_validation outcome" where
  "validate_genesis =
    (let expected_header =
           ''0100000000000000000000000000000000000000000000000000000000000000'' @
           ''000000003ba3edfd7a7b12b27ac72c3e67768f617fc81bc3888a51323a9fb8aa'' @
           ''4b1e5e4a29ab5f49ffff001d1dac2b7c'';
         expected_hash = ''000000000019d6689c085ae165831e934ff763ae46a2a6c172b3f1b60a8ce26f''
     in bindE genesis_header (\<lambda>header.
        bindE (target_from_nbits ''1d00ffff'') (\<lambda>target.
          let digest = sha256d header; displayed = bitcoin_hash_hex digest
          in Inr \<lparr>gv_header_serialization = (header_hex header = expected_header),
                  gv_nonce_little_endian = (get_nonce header = 2083236893 \<and>
                    header ! 76 = 0x1d \<and> header ! 77 = 0xac \<and> header ! 78 = 0x2b \<and> header ! 79 = 0x7c),
                  gv_known_hash = (displayed = expected_hash \<and> pow_value_hex (pow_value digest) = expected_hash),
                  gv_pow_target = hash_meets_target digest target,
                  gv_displayed_hash = displayed, gv_target = target_hex target\<rparr>)))"

definition passed :: "genesis_validation \<Rightarrow> bool" where
  "passed v = (gv_header_serialization v \<and> gv_nonce_little_endian v \<and> gv_known_hash v \<and> gv_pow_target v)"
section \<open>Values as numbers\<close>

lemma takeWhile_length_ge: "k \<le> length xs \<Longrightarrow> k \<le> length (takeWhile P xs) \<longleftrightarrow> list_all P (take k xs)"
proof (induction xs arbitrary: k)
  case (Cons x xs)
  then show ?case by (cases k) auto
qed simp

lemma countl_zero_ge:
  assumes "k \<le> 32" shows "k \<le> countl_zero w \<longleftrightarrow> unat w < 2 ^ (32 - k)"
proof -
  have "k \<le> countl_zero w \<longleftrightarrow> list_all (\<lambda>i. \<not> bit w i) (take k (rev [0..<32]))"
    unfolding countl_zero_def using assms by (intro takeWhile_length_ge) simp
  also have "take k (rev [0..<32]) = rev [32 - k..<32]"
    using assms by (simp add: take_rev drop_upt)
  also have "list_all (\<lambda>i. \<not> bit w i) (rev [32 - k..<32]) \<longleftrightarrow> take_bit (32 - k) w = w"
    by (auto simp: list_all_iff bit_eq_iff bit_simps not_le dest: bit_imp_le_length)
  also have "\<dots> \<longleftrightarrow> take_bit (32 - k) (unat w) = unat w"
    unfolding word_unat_eq_iff by (simp only: unsigned_take_bit_eq)
  also have "\<dots> \<longleftrightarrow> unat w < 2 ^ (32 - k)" by (rule take_bit_nat_eq_self_iff)
  finally show ?thesis .
qed

lemma countl_zero_le: "countl_zero w \<le> 32"
proof -
  have "countl_zero w \<le> length (rev [0..<32])" unfolding countl_zero_def by (rule length_takeWhile_le)
  then show ?thesis unfolding length_rev length_upt by simp
qed

lemma countl_zero_32: "countl_zero w = 32 \<longleftrightarrow> w = 0"
proof -
  have "countl_zero w = 32 \<longleftrightarrow> 32 \<le> countl_zero w" using countl_zero_le [of w] by linarith
  also have "\<dots> \<longleftrightarrow> unat w < 2 ^ (32 - 32)" by (rule countl_zero_ge) simp
  finally show ?thesis by (simp add: unat_eq_zero)
qed

lemma leading_zero_bits_ge:
  "k \<le> 32 * length ws \<Longrightarrow> k \<le> leading_zero_bits ws \<longleftrightarrow> be_val ws < 2 ^ (32 * length ws - k)"
proof (induction ws arbitrary: k)
  case (Cons w ws)
  let ?n = "length ws"
  have r: "be_val ws < 2 ^ (32 * ?n)" using be_val_bound [of ws] by (simp add: power_mult)
  have v: "be_val (w # ws) = unat w * 2 ^ (32 * ?n) + be_val ws" by (simp add: power_mult)
  show ?case
  proof (cases "w = 0")
    case True
    then have lz: "leading_zero_bits (w # ws) = 32 + leading_zero_bits ws" using countl_zero_32 [of 0] by (simp add: Let_def)
    show ?thesis
    proof (cases "k \<le> 32")
      case small: True
      have "be_val ws < 2 ^ (32 * length (w # ws) - k)"
        using small by (intro less_le_trans [OF r] power_increasing) simp_all
      then show ?thesis using lz True small v by simp
    next
      case False
      then have e: "32 * length (w # ws) - k = 32 * ?n - (k - 32)" by simp
      have "k - 32 \<le> leading_zero_bits ws \<longleftrightarrow> be_val ws < 2 ^ (32 * ?n - (k - 32))"
        using Cons.prems False by (intro Cons.IH) simp
      moreover have "k \<le> 32 + leading_zero_bits ws \<longleftrightarrow> k - 32 \<le> leading_zero_bits ws" using False by linarith
      moreover have "be_val (w # ws) = be_val ws" using True v by simp
      ultimately show ?thesis unfolding lz e by simp
    qed
  next
    case False
    then have lz: "leading_zero_bits (w # ws) = countl_zero w" "countl_zero w < 32"
      using countl_zero_32 [of w] countl_zero_le [of w] by (simp_all add: Let_def)
    show ?thesis
    proof (cases "k < 32")
      case True
      then have e: "2 ^ (32 * length (w # ws) - k) = 2 ^ (32 - k) * (2 :: nat) ^ (32 * ?n)"
        by (simp add: power_add [symmetric])
      have "be_val (w # ws) < 2 ^ (32 - k) * 2 ^ (32 * ?n) \<longleftrightarrow> unat w < 2 ^ (32 - k)"
      proof
        assume "be_val (w # ws) < 2 ^ (32 - k) * 2 ^ (32 * ?n)"
        then have "unat w * 2 ^ (32 * ?n) < 2 ^ (32 - k) * 2 ^ (32 * ?n)" unfolding v by linarith
        then show "unat w < 2 ^ (32 - k)" by simp
      next
        assume "unat w < 2 ^ (32 - k)"
        then have "(unat w + 1) * 2 ^ (32 * ?n) \<le> 2 ^ (32 - k) * 2 ^ (32 * ?n)" by (intro mult_right_mono) simp_all
        then show "be_val (w # ws) < 2 ^ (32 - k) * 2 ^ (32 * ?n)" using r unfolding v by (simp add: algebra_simps)
      qed
      then show ?thesis using countl_zero_ge [of k w] True unfolding e lz by simp
    next
      case big: False
      have "1 * 2 ^ (32 * ?n) \<le> unat w * 2 ^ (32 * ?n)" using False by (intro mult_right_mono) (simp_all add: unat_gt_0 Suc_leI)
      moreover have "(2::nat) ^ (32 * length (w # ws) - k) \<le> 2 ^ (32 * ?n)" using big by (intro power_increasing) simp_all
      ultimately have "\<not> be_val (w # ws) < 2 ^ (32 * length (w # ws) - k)" unfolding v by linarith
      then show ?thesis using lz big by simp
    qed
  qed
qed simp

lemma pow_word_value:
  "unat (push_bit 24 (ucast a) OR push_bit 16 (ucast b) OR push_bit 8 (ucast c) OR ucast d :: u32) =
    ((unat a * 256 + unat b) * 256 + unat c) * 256 + unat (d :: u8)" for a b c :: u8
proof -
  define x y z where "x = (push_bit 8 (ucast c) OR ucast d :: u32)" and "y = (push_bit 16 (ucast b) :: u32)"
    and "z = (push_bit 24 (ucast a) :: u32)"
  have cd: "(push_bit 8 (ucast c) :: u32) AND ucast d = 0" by (rule bit_word_eqI) (auto simp: bit_simps dest: bit_imp_le_length)
  have yx: "y AND x = 0" unfolding x_def y_def by (rule bit_word_eqI) (auto simp: bit_simps dest: bit_imp_le_length)
  have zyx: "z AND (y OR x) = 0" unfolding x_def y_def z_def by (rule bit_word_eqI) (auto simp: bit_simps dest: bit_imp_le_length)
  have lt: "unat (v :: u8) < 256" for v using unsigned_less [of v, where ?'a = nat] by simp
  have u: "unat (push_bit n (ucast v) :: u32) = unat v * 2 ^ n" if "n \<le> 24" for n and v :: u8
  proof -
    have "unat v * 2 ^ n < 2 ^ 8 * 2 ^ 24" using lt [of v] that by (intro mult_less_le_imp_less power_increasing) simp_all
    moreover have "unat (push_bit n (ucast v) :: u32) = take_bit LENGTH(32) (push_bit n (unat (ucast v :: u32)))"
      by (rule unsigned_push_bit_eq)
    moreover have "unat (ucast v :: u32) = unat v"
      by (simp add: unsigned_ucast_eq take_bit_eq_mod less_trans [OF lt])
    ultimately show ?thesis by (simp add: push_bit_eq_mult [of n "unat v"] take_bit_eq_mod)
  qed
  have p: "unat (push_bit 8 (ucast c) :: u32) = unat c * 256" "unat y = unat b * 65536" "unat z = unat a * 16777216"
    "unat (ucast d :: u32) = unat d"
    using u [of 8 c] u [of 16 b] u [of 24 a] u [of 0 d] by (simp_all add: y_def z_def)
  have "unat (z OR (y OR x)) = unat z + (unat y + (unat (push_bit 8 (ucast c) :: u32) + unat (ucast d :: u32)))"
    using unat_or_disjoint [OF zyx] unat_or_disjoint [OF yx] unat_or_disjoint [OF cd] by (simp add: x_def)
  then show ?thesis unfolding p by (simp add: x_def y_def z_def or.assoc)
qed

lemma be_val_four:
  "be_val (xs @ [p, q, r, s :: u8]) = be_val xs * 256 ^ 4 + (((unat p * 256 + unat q) * 256 + unat r) * 256 + unat s)"
  unfolding be_val_append by simp

lemma be_val_words:
  assumes "\<And>k. k < n \<Longrightarrow> unat (W k :: u32) =
    ((unat (b (4 * k) :: u8) * 256 + unat (b (4 * k + 1))) * 256 + unat (b (4 * k + 2))) * 256 + unat (b (4 * k + 3))"
  shows "be_val (List.map W [0..<n]) = be_val (List.map b [0..<4 * n])"
  using assms
proof (induction n)
  case (Suc n)
  have "[m..<m + 4] = [m, m + 1, m + 2, m + 3]" for m by (simp add: upt_conv_Cons numeral_eq_Suc)
  moreover have "[0..<4 * Suc n] = [0..<4 * n] @ [4 * n..<4 * n + 4]"
    using upt_add_eq_append [of 0 "4 * n" 4] by (simp add: add.commute)
  ultimately have "[0..<4 * Suc n] = [0..<4 * n] @ [4 * n, 4 * n + 1, 4 * n + 2, 4 * n + 3]" by simp
  then have r: "be_val (List.map b [0..<4 * Suc n]) = be_val (List.map b [0..<4 * n]) * 256 ^ 4 +
      (((unat (b (4 * n)) * 256 + unat (b (4 * n + 1))) * 256 + unat (b (4 * n + 2))) * 256 + unat (b (4 * n + 3)))"
    by (simp only: map_append list.map be_val_four)
  have l: "be_val (List.map W [0..<Suc n]) = be_val (List.map W [0..<n]) * 256 ^ 4 + unat (W n)"
    unfolding upt_Suc_append [OF le0] map_append be_val_append by simp
  have "be_val (List.map W [0..<n]) = be_val (List.map b [0..<4 * n])" using Suc by simp
  then show ?case unfolding l r using Suc.prems [of n] by simp
qed simp

lemma be_val_pow_value: "length d = 32 \<Longrightarrow> be_val (pow_value d) = le_val d"
proof -
  assume d: "length d = 32"
  have "rev d = List.map (\<lambda>i. d ! (31 - i)) [0..<32]"
    using d by (intro nth_equalityI) (simp_all add: rev_nth)
  moreover have "be_val (List.map (pow_word d) [0..<8]) = be_val (List.map (\<lambda>i. d ! (31 - i)) [0..<4 * 8])"
  proof (rule be_val_words)
    fix k :: nat assume k: "k < 8"
    have "31 - k * 4 - 1 = 31 - (4 * k + 1)" "31 - k * 4 - 2 = 31 - (4 * k + 2)" "31 - k * 4 - 3 = 31 - (4 * k + 3)" "31 - k * 4 = 31 - 4 * k"
      by simp_all
    then show "unat (pow_word d k) = ((unat (d ! (31 - 4 * k)) * 256 + unat (d ! (31 - (4 * k + 1)))) * 256 +
      unat (d ! (31 - (4 * k + 2)))) * 256 + unat (d ! (31 - (4 * k + 3)))"
      unfolding pow_word_def Let_def using d by (simp only: pow_word_value) (simp add: pow_word_value)
  qed
  ultimately show ?thesis by (simp add: le_val_def pow_value_def)
qed
section \<open>The zones tile the range\<close>

lemma tile_upto:
  assumes "s < e" "0 < z" "s div z < j" "j \<le> (e - 1) div z + 1"
  shows "concat (List.map (\<lambda>i. [max s (i * z)..<min e ((i + 1) * z)]) [s div z..<j]) = [s..<min e (j * z)]"
  using assms(3,4)
proof (induction j)
  case (Suc j)
  have lt: "s < (s div z + 1) * z" using assms(2) by (metis add.commute dividend_less_div_times mult_Suc plus_1_eq_Suc)
  show ?case
  proof (cases "j = s div z")
    case True
    have "s div z * z \<le> s" by simp
    then show ?thesis using True by (simp add: max_absorb1)
  next
    case False
    then have j: "s div z < j" "j \<le> (e - 1) div z" using Suc.prems by simp_all
    have "(s div z + 1) * z \<le> j * z" using j by (intro mult_le_mono1) simp
    then have sj: "s \<le> j * z" using lt by linarith
    have "j * z \<le> e - 1" using j(2) assms(2) by (simp add: less_eq_div_iff_mult_less_eq)
    then have je: "j * z < e" using assms(1) by linarith
    have "concat (List.map (\<lambda>i. [max s (i * z)..<min e ((i + 1) * z)]) [s div z..<Suc j]) =
        [s..<j * z] @ [j * z..<min e ((j + 1) * z)]"
      using Suc.IH [OF j(1)] j sj je by (simp add: max_absorb2 min_absorb2)
    also have "\<dots> = [s..<min e ((j + 1) * z)]"
      using sj je by (metis le_add_diff_inverse min.bounded_iff less_imp_le mult_le_mono1 le_add1 upt_add_eq_append)
    finally show ?thesis by simp
  qed
qed simp

lemma tile:
  assumes "s < e" "0 < z"
  shows "concat (List.map (\<lambda>i. [max s (i * z)..<min e ((i + 1) * z)]) [s div z..<(e - 1) div z + 1]) = [s..<e]"
proof -
  have "s div z \<le> (e - 1) div z" using assms by (intro div_le_mono) simp
  moreover have "e - 1 < ((e - 1) div z + 1) * z" using assms(2) by (metis add.commute dividend_less_div_times mult_Suc plus_1_eq_Suc)
  ultimately show ?thesis using tile_upto [OF assms, of "(e - 1) div z + 1"] by (simp add: min_absorb1)
qed

lemma unat_min: "unat (min a b) = min (unat a) (unat (b :: 'a::len word))"
  by (simp add: min_def word_le_nat_alt)

lemma unat_max: "unat (max a b) = max (unat a) (unat (b :: 'a::len word))"
  by (simp add: max_def word_le_nat_alt)

lemma unat_mult_small: "unat a * unat b < 2 ^ 64 \<Longrightarrow> unat (a * b :: u64) = unat a * unat b"
  by (simp add: unat_word_ariths(2))

lemma unat_add_small: "unat a + unat b < 2 ^ 64 \<Longrightarrow> unat (a + b :: u64) = unat a + unat b"
  by (simp add: unat_word_ariths(1))

lemma zone_at_facts:
  assumes "unat e \<le> 2 ^ 32" "unat z \<le> 2 ^ 32" "unat i * unat z < unat e" "s < e" "unat s < (unat i + 1) * unat z"
  shows "nonce_range (zr_start (zone_at s e z i)) (zr_end (zone_at s e z i) + 1) =
      List.map of_nat [max (unat s) (unat i * unat z)..<min (unat e) ((unat i + 1) * unat z)]"
    and "zr_count (zone_at s e z i) =
      of_nat (length [max (unat s) (unat i * unat z)..<min (unat e) ((unat i + 1) * unat z)])"
    and "zr_end (zone_at s e z i) + 1 \<noteq> 0"
proof -
  have iz: "unat (i * z) = unat i * unat z" using assms(1,3) by (intro unat_mult_small) simp
  have nend: "unat (i * z + z) = (unat i + 1) * unat z"
    using assms iz by (subst unat_add_small) simp_all
  have space: "unat nonce_space_size = 2 ^ 32" by (simp add: nonce_space_size_def)
  let ?zend = "min e (min nonce_space_size (i * z + z))" and ?zstart = "max s (i * z)"
  have zend: "unat ?zend = min (unat e) ((unat i + 1) * unat z)"
    using assms(1) by (simp add: unat_min nend space)
  have zstart: "unat ?zstart = max (unat s) (unat i * unat z)" by (simp add: unat_max iz)
  have z0: "0 < unat z" using assms(5) by (cases "unat z") auto
  have "max (unat s) (unat i * unat z) < min (unat e) ((unat i + 1) * unat z)"
    using assms(3,4,5) z0 by (simp add: word_less_nat_alt)
  then have lt: "unat ?zstart < unat ?zend" by (simp only: zstart zend)
  have f: "zr_start (zone_at s e z i) = ?zstart" "zr_end (zone_at s e z i) = ?zend - 1" "zr_count (zone_at s e z i) = ?zend - ?zstart"
    by (simp_all add: zone_at_def Let_def)
  show "nonce_range (zr_start (zone_at s e z i)) (zr_end (zone_at s e z i) + 1) =
      List.map of_nat [max (unat s) (unat i * unat z)..<min (unat e) ((unat i + 1) * unat z)]"
    by (simp only: f nonce_range_def zstart zend diff_add_cancel)
  have "?zend - ?zstart = of_nat (unat ?zend - unat ?zstart)"
  proof -
    have "unat (?zend - ?zstart) = unat ?zend - unat ?zstart" using lt by (intro unat_sub) (simp add: word_le_nat_alt)
    moreover have "of_nat (unat (?zend - ?zstart)) = ?zend - ?zstart" by simp
    ultimately show ?thesis by (simp only:)
  qed
  then show "zr_count (zone_at s e z i) = of_nat (length [max (unat s) (unat i * unat z)..<min (unat e) ((unat i + 1) * unat z)])"
    by (simp only: f zstart zend length_upt)
  show "zr_end (zone_at s e z i) + 1 \<noteq> 0" using lt by (auto simp: f)
qed

text \<open>A valid range: what the checks of \<^verbatim>\<open>make_zone_layout\<close> leave.\<close>

definition valid_range :: "u64 \<Rightarrow> u64 \<Rightarrow> u64 \<Rightarrow> bool" where
  "valid_range s c z \<longleftrightarrow> 0 < unat c \<and> 0 < unat z \<and> unat z \<le> 2 ^ 32 \<and> unat s + unat c \<le> 2 ^ 32"

lemma make_zone_layout_Inr_iff:
  "(\<exists>layout. make_zone_layout s c z = Inr layout) \<longleftrightarrow> valid_range s c z"
proof -
  have space: "unat nonce_space_size = 2 ^ 32" by (simp add: nonce_space_size_def)
  show ?thesis
  proof (cases "unat s < 2 ^ 32")
    case True
    then have "unat (nonce_space_size - s) = 2 ^ 32 - unat s" by (subst unat_sub) (simp_all add: space word_le_nat_alt)
    then show ?thesis
      using True by (auto simp: make_zone_layout_def valid_range_def Let_def space word_le_nat_alt word_less_nat_alt unat_gt_0)
  next
    case False
    then have "\<not> valid_range s c z" unfolding valid_range_def by linarith
    then show ?thesis
      using False by (auto simp: make_zone_layout_def space word_le_nat_alt word_less_nat_alt)
  qed
qed

lemma zone_layout_tiles:
  assumes "make_zone_layout s c z = Inr layout"
  shows "concat (List.map (\<lambda>r. nonce_range (zr_start r) (zr_end r + 1)) layout) = nonce_range s (s + c)"
    and "list_all (\<lambda>r. zr_count r = of_nat (length (nonce_range (zr_start r) (zr_end r + 1)))) layout"
    and "layout \<noteq> []"
proof -
  have v: "valid_range s c z" using assms make_zone_layout_Inr_iff by blast
  define e where "e = s + c"
  have e: "unat e = unat s + unat c" unfolding e_def using v by (intro unat_add_small) (simp add: valid_range_def)
  then have se: "unat s < unat e" "unat e \<le> 2 ^ 32" "0 < unat z" "unat z \<le> 2 ^ 32" using v by (simp_all add: valid_range_def)
  let ?f = "s div z" and ?l = "(e - 1) div z"
  have e1: "unat (e - 1) = unat e - 1" using se by (subst unat_sub) (simp_all add: word_le_nat_alt)
  have fl: "unat ?f = unat s div unat z" "unat ?l = (unat e - 1) div unat z" by (simp_all add: unat_div e1)
  have "(unat e - 1) div unat z \<le> unat e - 1" by (rule div_le_dividend)
  then have "(unat e - 1) div unat z < 2 ^ 32" using se by linarith
  then have l1: "unat (?l + 1) = (unat e - 1) div unat z + 1"
    by (subst unat_add_small) (simp_all add: fl)
  have layout: "layout = List.map (zone_at s e z) (List.map of_nat [unat s div unat z..<(unat e - 1) div unat z + 1])"
    using assms by (simp add: make_zone_layout_def Let_def nonce_range_def e_def [symmetric] l1 fl split: if_splits)
  have z: "nonce_range (zr_start (zone_at s e z (of_nat i))) (zr_end (zone_at s e z (of_nat i)) + 1) =
      List.map of_nat [max (unat s) (i * unat z)..<min (unat e) ((i + 1) * unat z)]"
    "zr_count (zone_at s e z (of_nat i)) = of_nat (length [max (unat s) (i * unat z)..<min (unat e) ((i + 1) * unat z)])"
    if i: "i \<in> set [unat s div unat z..<(unat e - 1) div unat z + 1]" for i
  proof -
    have il: "i \<le> (unat e - 1) div unat z" "unat s div unat z \<le> i" using i by auto
    then have "i \<le> unat e - 1" by (meson div_le_dividend le_trans)
    then have iu: "unat (of_nat i :: u64) = i" using se by (simp add: unat_of_nat)
    have "i * unat z \<le> unat e - 1" using il(1) se(3) by (simp add: less_eq_div_iff_mult_less_eq)
    then have 1: "unat (of_nat i :: u64) * unat z < unat e" using se iu by simp
    have "unat s < (unat s div unat z + 1) * unat z"
      using se(3) by (metis add.commute dividend_less_div_times mult_Suc plus_1_eq_Suc)
    also have "\<dots> \<le> (i + 1) * unat z" using il(2) by (intro mult_le_mono1) simp
    finally have 2: "unat s < (unat (of_nat i :: u64) + 1) * unat z" using iu by simp
    show "nonce_range (zr_start (zone_at s e z (of_nat i))) (zr_end (zone_at s e z (of_nat i)) + 1) =
      List.map of_nat [max (unat s) (i * unat z)..<min (unat e) ((i + 1) * unat z)]"
      "zr_count (zone_at s e z (of_nat i)) = of_nat (length [max (unat s) (i * unat z)..<min (unat e) ((i + 1) * unat z)])"
      using zone_at_facts(1,2) [OF se(2,4) 1 _ 2] se(1) unfolding iu by (simp_all add: word_less_nat_alt)
  qed
  have "concat (List.map (\<lambda>r. nonce_range (zr_start r) (zr_end r + 1)) layout) =
      List.map of_nat (concat (List.map (\<lambda>i. [max (unat s) (i * unat z)..<min (unat e) ((i + 1) * unat z)])
        [unat s div unat z..<(unat e - 1) div unat z + 1]))"
  proof -
    have "List.map (\<lambda>r. nonce_range (zr_start r) (zr_end r + 1)) layout =
        List.map (\<lambda>i. List.map of_nat [max (unat s) (i * unat z)..<min (unat e) ((i + 1) * unat z)])
          [unat s div unat z..<(unat e - 1) div unat z + 1]"
      unfolding layout map_map comp_def by (rule map_cong [OF refl z(1)])
    then show ?thesis by (simp only: map_concat map_map comp_def)
  qed
  also have "\<dots> = nonce_range s (s + c)"
    unfolding tile [OF se(1,3)] nonce_range_def by (simp add: e_def)
  finally show "concat (List.map (\<lambda>r. nonce_range (zr_start r) (zr_end r + 1)) layout) = nonce_range s (s + c)" .
  show "list_all (\<lambda>r. zr_count r = of_nat (length (nonce_range (zr_start r) (zr_end r + 1)))) layout"
    unfolding layout list_all_iff using z by (auto simp del: length_upt)
  have "unat s div unat z \<le> (unat e - 1) div unat z" using se by (intro div_le_mono) simp
  then show "layout \<noteq> []" by (simp add: layout)
qed
section \<open>One zone\<close>

definition hit_value :: "bytes \<Rightarrow> u64 \<Rightarrow> pow_words" where
  "hit_value input nonce = pow_value (digest_at input nonce)"

definition below_bits :: "bytes \<Rightarrow> nat \<Rightarrow> u64 \<Rightarrow> bool" where
  "below_bits input bits nonce \<longleftrightarrow> bits \<le> leading_zero_bits (hit_value input nonce)"

definition count_where :: "(u64 \<Rightarrow> bool) \<Rightarrow> u64 list \<Rightarrow> u64" where
  "count_where P ns = of_nat (length (filter P ns))"

lemma count_where_simps [simp]:
  "count_where P [] = 0" "count_where P (n # ns) = (if P n then 1 else 0) + count_where P ns"
  "count_where P (xs @ ys) = count_where P xs + count_where P ys"
  by (simp_all add: count_where_def)

abbreviation precedes :: "pow_words \<times> u32 \<Rightarrow> pow_words \<times> u32 \<Rightarrow> bool" where
  "precedes a b \<equiv> minimum_precedes (fst a) (snd a) (fst b) (snd b)"

definition pair_rank :: "pow_words \<times> u32 \<Rightarrow> nat" where
  "pair_rank a = be_val (fst a) * 2 ^ 32 + unat (snd a)"

lemma rank_less: "x < B \<Longrightarrow> y < B \<Longrightarrow> a * B + x < b * B + y \<longleftrightarrow> a < b \<or> a = b \<and> x < (y :: nat)"
proof -
  assume xy: "x < B" "y < B"
  have "a * B + x < b * B + y" if "a < b"
  proof -
    have "(a + 1) * B \<le> b * B" using that by (intro mult_right_mono) simp_all
    then show ?thesis using xy by (simp add: algebra_simps)
  qed
  moreover have "\<not> a * B + x < b * B + y" if "b < a"
  proof -
    have "(b + 1) * B \<le> a * B" using that by (intro mult_right_mono) simp_all
    then show ?thesis using xy by (simp add: algebra_simps)
  qed
  ultimately show ?thesis by (metis add_less_cancel_left linorder_neqE_nat)
qed

interpretation minima: ranked precedes "\<lambda>a. length (fst a) = 8" pair_rank
proof
  fix a b :: "pow_words \<times> u32"
  assume "length (fst a) = 8" "length (fst b) = 8"
  then have v: "fst a < fst b \<longleftrightarrow> be_val (fst a) < be_val (fst b)" "fst b < fst a \<longleftrightarrow> be_val (fst b) < be_val (fst a)"
    by (simp_all add: be_val_less_iff)
  have n: "unat (snd x) < 2 ^ 32" for x :: "pow_words \<times> u32" using unsigned_less [of "snd x", where ?'a = nat] by simp
  show "precedes a b \<longleftrightarrow> pair_rank a < pair_rank b"
    unfolding pair_rank_def rank_less [OF n n] minimum_precedes_def v word_less_nat_alt by auto
qed

lemma classify_below:
  "classify_tail (hit_value input n) = List.map (\<lambda>b. if below_bits input b n then 1 else 0) threshold_bits_list"
  by (simp add: classify_tail_def below_bits_def Let_def)

lemma add_counts_map: "add_counts (List.map f bs) (List.map g bs) = List.map (\<lambda>b. f b + g b) bs"
  by (induction bs) (simp_all add: add_counts_def)

lemma scan_zone_nonce_eq:
  assumes "\<And>k. set_nonce header k = set_nonce input k"
  shows "scan_zone_nonce target n (header, z) = (set_nonce input (ucast n),
    z\<lparr>zs_counts := add_counts (zs_counts z) (List.map (\<lambda>b. if below_bits input b n then 1 else 0) threshold_bits_list),
      zs_network_hits := zs_network_hits z + (if hash_meets_target (digest_at input n) target then 1 else 0),
      zs_minimum := fst (keep_best precedes (hit_value input n, ucast n) (zs_minimum z, zs_minimum_nonce z)),
      zs_minimum_nonce := snd (keep_best precedes (hit_value input n, ucast n) (zs_minimum z, zs_minimum_nonce z))\<rparr>)"
proof -
  have "pow_value (sha256d (set_nonce header (ucast n))) = hit_value input n"
    "sha256d (set_nonce header (ucast n)) = digest_at input n"
    by (simp_all add: assms hit_value_def digest_at_def)
  then show ?thesis
    unfolding scan_zone_nonce_def Let_def prod.case by (simp add: assms keep_best_def classify_below)
qed

text \<open>The zone after a list of nonces.\<close>

definition zone_after :: "bytes \<Rightarrow> bytes \<Rightarrow> u64 list \<Rightarrow> (nat \<Rightarrow> u64) \<Rightarrow> u64 \<Rightarrow> pow_words \<times> u32 \<Rightarrow> zone_range \<Rightarrow> zone_stats" where
  "zone_after input target ns c h m r =
    (let m' = fold (keep_best precedes) (List.map (\<lambda>n. (hit_value input n, ucast n)) ns) m
     in \<lparr>zs_range = r, zs_minimum = fst m', zs_minimum_nonce = snd m',
         zs_counts = List.map (\<lambda>b. c b + count_where (below_bits input b) ns) threshold_bits_list,
         zs_network_hits = h + count_where (\<lambda>n. hash_meets_target (digest_at input n) target) ns\<rparr>)"

lemma scan_zone_fold:
  assumes "length input = 80" "\<And>k. set_nonce header k = set_nonce input k"
  shows "\<exists>header'. fold (scan_zone_nonce target) ns
      (header, \<lparr>zs_range = r, zs_minimum = fst m, zs_minimum_nonce = snd m, zs_counts = List.map c threshold_bits_list,
        zs_network_hits = h\<rparr>) = (header', zone_after input target ns c h m r) \<and> (\<forall>k. set_nonce header' k = set_nonce input k)"
  using assms(2)
proof (induction ns arbitrary: header c h m)
  case Nil
  then show ?case by (auto simp: zone_after_def)
next
  case (Cons n ns)
  let ?m = "keep_best precedes (hit_value input n, ucast n) m"
  have "\<And>k. set_nonce (set_nonce input (ucast n)) k = set_nonce input k" using assms(1) by simp
  from Cons.IH [OF this, where c = "\<lambda>b. c b + (if below_bits input b n then 1 else 0)" and
      h = "h + (if hash_meets_target (digest_at input n) target then 1 else 0)" and m = ?m]
  show ?case
    by (simp add: scan_zone_nonce_eq [OF Cons.prems] add_counts_map zone_after_def Let_def add.assoc)
qed

definition top_pair :: "pow_words \<times> u32" where "top_pair = (replicate 8 0xffffffff, 0xffffffff)"

lemma empty_zone_form:
  "empty_zone r = \<lparr>zs_range = r, zs_minimum = fst top_pair, zs_minimum_nonce = snd top_pair,
     zs_counts = List.map (\<lambda>_. 0) threshold_bits_list, zs_network_hits = 0\<rparr>"
  by (simp add: empty_zone_def threshold_bits_list_def top_pair_def numeral_eq_Suc)

definition zone_nonces :: "zone_range \<Rightarrow> u64 list" where
  "zone_nonces r = nonce_range (zr_start r) (zr_end r + 1)"

lemma scan_zones:
  assumes "length input = 80" "\<And>k. set_nonce header k = set_nonce input k"
  shows "snd (fold (scan_zone target) layout (header, zs)) =
    zs @ List.map (\<lambda>r. zone_after input target (zone_nonces r) (\<lambda>_. 0) 0 top_pair r) layout"
  using assms(2)
proof (induction layout arbitrary: header zs)
  case (Cons r layout)
  from scan_zone_fold [OF assms(1) Cons.prems, where target = target and ns = "zone_nonces r" and r = r and m = top_pair and c = "\<lambda>_. 0" and h = 0]
  obtain header' where "fold (scan_zone_nonce target) (zone_nonces r) (header, empty_zone r) =
      (header', zone_after input target (zone_nonces r) (\<lambda>_. 0) 0 top_pair r)" "\<And>k. set_nonce header' k = set_nonce input k"
    unfolding empty_zone_form by blast
  then show ?case using Cons.IH [of header' "zs @ [zone_after input target (zone_nonces r) (\<lambda>_. 0) 0 top_pair r]"]
    by (simp add: scan_zone_def zone_nonces_def)
qed simp

section \<open>All zones together\<close>

text \<open>What \<^verbatim>\<open>aggregate_zones\<close> keeps of the zones seen so far, as values of all their nonces.\<close>

definition aggregates :: "bytes \<Rightarrow> bytes \<Rightarrow> u64 list \<Rightarrow> global_stats \<Rightarrow> bool" where
  "aggregates input target ns g \<longleftrightarrow>
    gs_counts g = List.map (\<lambda>b. count_where (below_bits input b) ns) threshold_bits_list \<and>
    gs_network_hits g = count_where (\<lambda>n. hash_meets_target (digest_at input n) target) ns \<and>
    gs_total g = of_nat (length ns) \<and>
    (gs_minimum g, gs_minimum_nonce g) \<in> insert top_pair ((\<lambda>n. (hit_value input n, ucast n)) ` set ns) \<and>
    (\<forall>n\<in>set ns. pair_rank (gs_minimum g, gs_minimum_nonce g) \<le> pair_rank (hit_value input n, ucast n))"

lemma length_hit_value [simp]: "length (hit_value input n) = 8"
  by (simp add: hit_value_def pow_value_def)

lemma zone_after_minimum:
  fixes input
  defines "vals \<equiv> \<lambda>n. (hit_value input n, ucast n :: u32)"
  shows "(zs_minimum (zone_after input target ns c h top_pair r), zs_minimum_nonce (zone_after input target ns c h top_pair r))
      \<in> insert top_pair (vals ` set ns)"
    and "n \<in> set ns \<Longrightarrow> pair_rank (zs_minimum (zone_after input target ns c h top_pair r),
      zs_minimum_nonce (zone_after input target ns c h top_pair r)) \<le> pair_rank (vals n)"
proof -
  have v: "list_all (\<lambda>a. length (fst a) = 8) (List.map vals ns)" "length (fst top_pair) = 8"
    by (simp_all add: vals_def list_all_iff top_pair_def)
  show "(zs_minimum (zone_after input target ns c h top_pair r), zs_minimum_nonce (zone_after input target ns c h top_pair r))
      \<in> insert top_pair (vals ` set ns)"
    using minima.fold_member [of "List.map vals ns" top_pair] by (simp add: zone_after_def Let_def vals_def)
  show "n \<in> set ns \<Longrightarrow> pair_rank (zs_minimum (zone_after input target ns c h top_pair r),
      zs_minimum_nonce (zone_after input target ns c h top_pair r)) \<le> pair_rank (vals n)"
    using minima.fold_best [OF v, of "vals n"] by (simp add: zone_after_def Let_def vals_def)
qed

lemma aggregate_step_extends:
  assumes "aggregates input target ns g" "zr_count r = of_nat (length (zone_nonces r))"
  shows "aggregates input target (ns @ zone_nonces r)
    (aggregate_step (zone_after input target (zone_nonces r) (\<lambda>_. 0) 0 top_pair r) g)"
proof -
  define z where "z = zone_after input target (zone_nonces r) (\<lambda>_. 0) 0 top_pair r"
  define g' where "g' = aggregate_step z g"
  let ?vals = "\<lambda>n. (hit_value input n, ucast n :: u32)"
  note zm = zone_after_minimum [where target = target and ns = "zone_nonces r" and input = input and c = "\<lambda>_. 0" and h = 0 and r = r,
      folded z_def]
  have len: "length (fst a) = 8" if "a \<in> insert top_pair (?vals ` S)" for a S
    using that by (auto simp: top_pair_def)
  have pair: "(gs_minimum g', gs_minimum_nonce g') =
      keep_best precedes (zs_minimum z, zs_minimum_nonce z) (gs_minimum g, gs_minimum_nonce g)"
    by (simp add: g'_def aggregate_step_def keep_best_def Let_def)
  have rank: "pair_rank (gs_minimum g', gs_minimum_nonce g') =
      min (pair_rank (zs_minimum z, zs_minimum_nonce z)) (pair_rank (gs_minimum g, gs_minimum_nonce g))"
    unfolding pair using len [OF zm(1)] len assms(1) unfolding aggregates_def by (intro minima.rank_keep_best) blast+
  have "(gs_minimum g', gs_minimum_nonce g') \<in> insert top_pair (?vals ` set (ns @ zone_nonces r))"
    unfolding pair keep_best_def using zm(1) assms(1) unfolding aggregates_def by auto
  moreover have "\<forall>n\<in>set (ns @ zone_nonces r). pair_rank (gs_minimum g', gs_minimum_nonce g') \<le> pair_rank (?vals n)"
    unfolding rank using zm(2) assms(1) by (auto simp: aggregates_def min.coboundedI1 min.coboundedI2)
  moreover have "gs_counts g' = List.map (\<lambda>b. count_where (below_bits input b) (ns @ zone_nonces r)) threshold_bits_list"
    "gs_network_hits g' = count_where (\<lambda>n. hash_meets_target (digest_at input n) target) (ns @ zone_nonces r)"
    "gs_total g' = of_nat (length (ns @ zone_nonces r))"
    using assms by (simp_all add: g'_def aggregate_step_def Let_def aggregates_def z_def zone_after_def add_counts_map)
  ultimately show ?thesis unfolding aggregates_def g'_def z_def by blast
qed

lemma aggregate_fold:
  assumes "aggregates input target ns g" "list_all (\<lambda>r. zr_count r = of_nat (length (zone_nonces r))) layout"
  shows "aggregates input target (ns @ concat (List.map zone_nonces layout))
    (fold aggregate_step (List.map (\<lambda>r. zone_after input target (zone_nonces r) (\<lambda>_. 0) 0 top_pair r) layout) g)"
  using assms
proof (induction layout arbitrary: ns g)
  case (Cons r layout)
  from Cons.IH [OF aggregate_step_extends [OF Cons.prems(1)]] Cons.prems(2) show ?case by simp
qed simp

section \<open>Properties\<close>

lemma valid_range_sum: "valid_range s c z \<Longrightarrow> unat (s + c) = unat s + unat c"
  unfolding valid_range_def by (intro unat_add_small) simp

lemma nonce_range_nat:
  "valid_range s c z \<Longrightarrow> List.map unat (nonce_range s (s + c)) = [unat s..<unat s + unat c]"
proof -
  assume v: "valid_range s c z"
  have "unat (of_nat k :: u64) = k" if "k \<in> set [unat s..<unat s + unat c]" for k
    using that v by (simp add: valid_range_def unat_of_nat)
  then show ?thesis unfolding nonce_range_def valid_range_sum [OF v] map_map by (intro map_idI) simp
qed

text \<open>Whenever the layout is asked for a non-empty range of the 2^32 nonces and a zone size between 1 and 2^32 it
  is built, and for nothing else; the zones, read in order with their inclusive ends, list every nonce of the range
  once, and each counts its own nonces. No machine addition of the code wraps on the way.\<close>

theorem zones_partition_range:
  "(\<forall>e. make_zone_layout s c z = Inl e \<longrightarrow> \<not> valid_range s c z) \<and>
   (\<forall>layout. make_zone_layout s c z = Inr layout \<longrightarrow> valid_range s c z \<and>
    List.map unat (concat (List.map zone_nonces layout)) = [unat s..<unat s + unat c] \<and>
    list_all (\<lambda>r. unat (zr_count r) = length (zone_nonces r)) layout)"
proof (intro conjI allI impI)
  show "\<not> valid_range s c z" if "make_zone_layout s c z = Inl e" for e
    using that make_zone_layout_Inr_iff [of s c z] by simp
  fix layout
  assume l: "make_zone_layout s c z = Inr layout"
  then have v: "valid_range s c z" using make_zone_layout_Inr_iff by blast
  note t = zone_layout_tiles [OF l, folded zone_nonces_def]
  have all: "List.map unat (concat (List.map zone_nonces layout)) = [unat s..<unat s + unat c]"
    using t(1) nonce_range_nat [OF v] by simp
  have "length (zone_nonces r) \<le> unat c" if r: "r \<in> set layout" for r
  proof -
    have "length (concat (List.map zone_nonces layout)) = unat c" using arg_cong [OF all, of length] by simp
    then show ?thesis using r member_le_sum_list [of "length (zone_nonces r)" "List.map length (List.map zone_nonces layout)"]
      by (simp add: length_concat comp_def)
  qed
  then have "unat (of_nat (length (zone_nonces r)) :: u64) = length (zone_nonces r)" if "r \<in> set layout" for r
    using that v by (fastforce simp: valid_range_def unat_of_nat)
  then have "list_all (\<lambda>r. unat (zr_count r) = length (zone_nonces r)) layout"
    using t(2) by (auto simp: list_all_iff)
  with all v show "valid_range s c z" "List.map unat (concat (List.map zone_nonces layout)) = [unat s..<unat s + unat c]"
    "list_all (\<lambda>r. unat (zr_count r) = length (zone_nonces r)) layout" by blast+
qed

lemma zones_partition_range_witness:
  "\<exists>layout. make_zone_layout 5 10 4 = Inr layout \<and> length layout = 3 \<and>
    List.map unat (concat (List.map zone_nonces layout)) = [unat (5 :: u64)..<unat (5 :: u64) + unat (10 :: u64)]"
proof -
  have "make_zone_layout 5 10 4 = Inr (List.map (zone_at 5 15 4) [1, 2, 3])"
    by code_simp
  with zones_partition_range [of 5 10 4] show ?thesis by simp
qed

text \<open>The comparison with a power-of-two threshold looks at leading zero bits of the eight words only; it decides
  whether the digest, read as a 256-bit little-endian number, is below 2^(256 - bits), and rejects the other bit
  counts.\<close>

theorem threshold_is_numeric:
  assumes "length digest = 32"
  shows "below_power_of_two_threshold (pow_value digest) bits =
    (if bits = 0 \<or> 256 < bits then Inl (Invalid_argument ''threshold_bits must be in [1,256]'')
     else Inr (le_val digest < 2 ^ (256 - unat bits)))"
proof -
  have "unat bits \<le> 256" if "\<not> 256 < bits" using that by (simp add: word_less_nat_alt)
  moreover have "length (pow_value digest) = 8" by (simp add: pow_value_def)
  ultimately show ?thesis
    using leading_zero_bits_ge [of "unat bits" "pow_value digest"] be_val_pow_value [OF assms]
    by (simp add: below_power_of_two_threshold_def)
qed

lemma be_val_zeros: "be_val (replicate n (0 :: u8)) = 0"
  by (induction n) simp_all

lemma threshold_is_numeric_witness:
  "below_power_of_two_threshold (pow_value (1 # replicate 31 0)) 256 = Inr False"
  using threshold_is_numeric [of "1 # replicate 31 0" 256]
  by (simp add: le_val_def be_val_append be_val_zeros)

text \<open>The counters of a scan, of the nonces in a list.\<close>

definition hits_below :: "bytes \<Rightarrow> nat \<Rightarrow> u64 list \<Rightarrow> u64 list" where
  "hits_below input bits ns = filter (\<lambda>n. le_val (digest_at input n) < 2 ^ (256 - bits)) ns"

lemma length_digest_at [simp]: "length (digest_at input n) = 32"
  by (simp add: digest_at_def)

lemma be_val_hit_value: "be_val (hit_value input n) = le_val (digest_at input n)"
  by (simp add: hit_value_def be_val_pow_value)

lemma below_bits_numeric: "b \<le> 256 \<Longrightarrow> below_bits input b n \<longleftrightarrow> le_val (digest_at input n) < 2 ^ (256 - b)"
  using leading_zero_bits_ge [of b "hit_value input n"] by (simp add: below_bits_def be_val_hit_value)

lemma hits_below_eq: "b \<le> 256 \<Longrightarrow> filter (below_bits input b) ns = hits_below input b ns"
  unfolding hits_below_def by (rule filter_cong) (simp_all add: below_bits_numeric)

lemma pair_rank_le:
  "pair_rank (v, m) \<le> pair_rank (w, n) \<longleftrightarrow> be_val v < be_val w \<or> be_val v = be_val w \<and> m \<le> n"
proof -
  have "unat n < 2 ^ 32" "unat m < 2 ^ 32" using unsigned_less [where ?'a = nat, of n] unsigned_less [where ?'a = nat, of m] by simp_all
  note less = rank_less [OF this, of "be_val w" "be_val v"]
  have "pair_rank (v, m) \<le> pair_rank (w, n) \<longleftrightarrow> \<not> pair_rank (w, n) < pair_rank (v, m)"
    by (rule linorder_not_less [symmetric])
  also have "\<dots> \<longleftrightarrow> \<not> (be_val w < be_val v \<or> be_val w = be_val v \<and> unat n < unat m)"
    unfolding pair_rank_def fst_conv snd_conv less by (rule refl)
  also have "\<dots> \<longleftrightarrow> be_val v < be_val w \<or> be_val v = be_val w \<and> m \<le> n"
    unfolding word_le_nat_alt by auto
  finally show ?thesis .
qed

lemma top_pair_greatest: "length v = 8 \<Longrightarrow> pair_rank top_pair \<le> pair_rank (v, n) \<Longrightarrow> (v, n) = top_pair"
proof -
  assume v: "length v = 8" and le: "pair_rank top_pair \<le> pair_rank (v, n)"
  have "be_val (replicate k x) + 1 = B ^ k" if "unat x + 1 = B" "B = 2 ^ 32" for k B and x :: u32
  proof (induction k)
    case (Suc k)
    have "be_val (replicate (Suc k) x) + 1 = unat x * B ^ k + (be_val (replicate k x) + 1)" using that(2) by simp
    also have "\<dots> = (unat x + 1) * B ^ k" unfolding Suc by (simp only: add_mult_distrib mult_1)
    finally show ?case unfolding that(1) by simp
  qed simp
  from this [of "0xffffffff" "2 ^ 32" 8] have top: "be_val (replicate 8 (0xffffffff :: u32)) + 1 = (2 ^ 32) ^ 8" by simp
  have "be_val v < (2 ^ 32) ^ 8" using be_val_bound [of v] v by simp
  then have "be_val v = be_val (replicate 8 (0xffffffff :: u32)) \<and> 0xffffffff \<le> n"
    using le pair_rank_le [of "replicate 8 0xffffffff" "0xffffffff" v n] v top unfolding top_pair_def by auto
  moreover have "n \<le> 0xffffffff"
  proof -
    have "(- 1 :: u32) = 0xffffffff" by simp
    then show ?thesis using word_order.extremum [of n] by (simp only:)
  qed
  ultimately show ?thesis using be_val_inject [of v "replicate 8 0xffffffff"] v by (auto simp: top_pair_def)
qed


text \<open>C12: A CPU scan of a valid range returns for every zone size, and what \<^verbatim>\<open>aggregate_zones\<close> makes of its
  zones does not depend on that size: the number of nonces, for each of the seven thresholds and for the network
  target the exact number of digests below it, and the least digest of the range as a 256-bit number, with the first
  nonce that attains it.\<close>

theorem zone_scan_exact:
  assumes "length input = 80" "valid_range s c z"
    "target_from_nbits (hex_u32 (hm_nbits (decode_header input))) = Inr target"
  shows "\<exists>zones g n. scan_cpu input s c z = Inr zones \<and> aggregate_zones zones = Inr g \<and> gs_total g = c \<and>
    gs_counts g = List.map (\<lambda>b. of_nat (length (hits_below input b (nonce_range s (s + c))))) threshold_bits_list \<and>
    gs_network_hits g = of_nat (length (filter (\<lambda>n. hash_meets_target (digest_at input n) target) (nonce_range s (s + c)))) \<and>
    n \<in> set (nonce_range s (s + c)) \<and> gs_minimum_nonce g = ucast n \<and> gs_minimum g = pow_value (digest_at input n) \<and>
    (\<forall>k\<in>set (nonce_range s (s + c)). le_val (digest_at input n) < le_val (digest_at input k) \<or>
      le_val (digest_at input n) = le_val (digest_at input k) \<and> (ucast n :: u32) \<le> ucast k)"
proof -
  from assms(2) obtain layout where l: "make_zone_layout s c z = Inr layout" using make_zone_layout_Inr_iff by blast
  note tiles = zone_layout_tiles [OF l, folded zone_nonces_def]
  let ?zs = "List.map (\<lambda>r. zone_after input target (zone_nonces r) (\<lambda>_. 0) 0 top_pair r) layout"
  let ?ns = "nonce_range s (s + c)"
  have zones: "scan_cpu input s c z = Inr ?zs"
    using scan_zones [OF assms(1), of input target layout "[]"] by (simp add: scan_cpu_def l assms(3))
  from tiles(3) obtain z1 zs' where z1: "?zs = z1 # zs'" by (cases ?zs) auto
  define g0 where "g0 = \<lparr>gs_total = 0, gs_minimum = replicate 8 0xffffffff, gs_minimum_nonce = 0xffffffff,
    gs_minimum_zone = zr_index (zs_range z1), gs_counts = replicate 7 0, gs_network_hits = 0\<rparr>"
  define g where "g = fold aggregate_step ?zs g0"
  have "aggregates input target [] g0"
    by (simp add: aggregates_def g0_def top_pair_def threshold_bits_list_def numeral_eq_Suc)
  from aggregate_fold [OF this tiles(2)] have ag: "aggregates input target ?ns g" by (simp add: g_def tiles(1))
  have agg: "aggregate_zones ?zs = Inr g" unfolding aggregate_zones_def z1 g_def g0_def by simp
  have len: "length ?ns = unat c" using nonce_range_nat [OF assms(2)] by (metis length_map length_upt add_diff_cancel_left')
  then obtain n0 where n0: "n0 \<in> set ?ns" using assms(2) by (cases ?ns) (auto simp: valid_range_def)
  let ?m = "(gs_minimum g, gs_minimum_nonce g)"
  have le: "pair_rank ?m \<le> pair_rank (hit_value input k, ucast k)" if "k \<in> set ?ns" for k
    using ag that unfolding aggregates_def by blast
  have "\<exists>n\<in>set ?ns. ?m = (hit_value input n, ucast n)"
  proof (cases "?m = top_pair")
    case True
    have "(hit_value input n0, ucast n0) = top_pair" using le [OF n0] unfolding True by (rule top_pair_greatest [rotated]) simp
    then show ?thesis using n0 True by (intro bexI [of _ n0]) simp_all
  next
    case False
    then show ?thesis using ag unfolding aggregates_def by blast
  qed
  then obtain n where n: "n \<in> set ?ns" "gs_minimum g = hit_value input n" "gs_minimum_nonce g = ucast n" by blast
  have best: "\<forall>k\<in>set ?ns. le_val (digest_at input n) < le_val (digest_at input k) \<or>
      le_val (digest_at input n) = le_val (digest_at input k) \<and> (ucast n :: u32) \<le> ucast k"
    using le unfolding n(2,3) pair_rank_le be_val_hit_value by blast
  have counts: "gs_counts g = List.map (\<lambda>b. of_nat (length (hits_below input b ?ns))) threshold_bits_list"
    "gs_network_hits g = of_nat (length (filter (\<lambda>n. hash_meets_target (digest_at input n) target) ?ns))" "gs_total g = c"
    using ag len by (simp_all add: aggregates_def count_where_def hits_below_eq threshold_bits_list_def)
  show ?thesis
    using zones agg counts n best unfolding hit_value_def by blast
qed

lemma zone_scan_exact_witness:
  "\<exists>input zones g. length input = 80 \<and> scan_cpu input 0 5 2 = Inr zones \<and> aggregate_zones zones = Inr g \<and> gs_total g = 5"
proof -
  define h :: bytes where "h = replicate 80 0"
  have "set_nonce h 0 = h" by (simp add: set_nonce_def h_def numeral_eq_Suc)
  then have "hm_nbits (decode_header h) = 0" by (simp add: decode_header_def read_le32_def Let_def h_def)
  moreover have "hex_u32 0 = ''00000000''" by code_simp
  moreover have "target_from_nbits ''00000000'' = Inr (replicate 32 0)" by code_simp
  ultimately have target: "target_from_nbits (hex_u32 (hm_nbits (decode_header h))) = Inr (replicate 32 0)"
    by simp
  have len: "length h = 80" by (simp add: h_def)
  have "valid_range 0 5 2" by (simp add: valid_range_def)
  from zone_scan_exact [OF len this target] len show ?thesis by blast
qed

section \<open>The sparse capture\<close>

lemma capture_fold:
  assumes "length input = 80" "0 < unat b" "unat b \<le> 256" "\<And>k. set_nonce header k = set_nonce input k"
  shows "\<exists>header'. foldE (capture_nonce b cap) ns (header, tot, taken) =
    Inr (header', tot + of_nat (length (hits_below input (unat b) ns)),
      taken @ take (unat cap - length taken) (List.map ucast (hits_below input (unat b) ns)))"
  using assms(4)
proof (induction ns arbitrary: header tot taken)
  case Nil
  then show ?case by (simp add: hits_below_def)
next
  case (Cons n ns)
  have bits: "b \<noteq> 0" "\<not> 256 < b" using assms(2,3) by (auto simp: word_less_nat_alt)
  have below: "below_power_of_two_threshold (pow_value (sha256d (set_nonce input (ucast n)))) b =
      Inr (le_val (digest_at input n) < 2 ^ (256 - unat b))"
    using threshold_is_numeric [of "digest_at input n" b] bits by (simp add: digest_at_def)
  have keep: "\<And>k. set_nonce (set_nonce input (ucast n)) k = set_nonce input k" using assms(1) by simp
  show ?case
  proof (cases "le_val (digest_at input n) < 2 ^ (256 - unat b)")
    case False
    from Cons.IH [OF keep, of tot taken] False show ?thesis
      by (simp add: capture_nonce_def Let_def Cons.prems below hits_below_def)
  next
    case True
    let ?taken = "if length taken < unat cap then taken @ [ucast n] else taken"
    have room: "unat cap - length taken = Suc (unat cap - Suc (length taken))" if "length taken < unat cap"
      using that by simp
    from Cons.IH [OF keep, of "tot + 1" ?taken] True show ?thesis
      by (cases "length taken < unat cap")
        (auto simp: capture_nonce_def Let_def Cons.prems below hits_below_def room)
  qed
qed

definition sparse_arguments :: "u64 \<Rightarrow> u64 \<Rightarrow> u32 \<Rightarrow> u64 \<Rightarrow> bool" where
  "sparse_arguments s c b capacity \<longleftrightarrow> valid_range s c c \<and> 0 < unat b \<and> unat b \<le> 256 \<and> capacity \<noteq> 0"

lemma hits_bound: "sparse_arguments s c b cap \<Longrightarrow> length (hits_below input bits (nonce_range s (s + c))) \<le> 2 ^ 32"
proof -
  assume v: "sparse_arguments s c b cap"
  then have "length (nonce_range s (s + c)) = unat c"
    using nonce_range_nat [of s c c] unfolding sparse_arguments_def by (metis length_map length_upt add_diff_cancel_left')
  then have "length (nonce_range s (s + c)) \<le> 2 ^ 32" using v by (simp add: sparse_arguments_def valid_range_def)
  then show ?thesis unfolding hits_below_def by (rule le_trans [OF length_filter_le])
qed

lemma sparse_scan_exact:
  assumes "length input = 80" "sparse_arguments s c b cap"
  defines "hits \<equiv> hits_below input (unat b) (nonce_range s (s + c))"
  shows "scan_sparse_hits_cpu input s c b cap = Inr
    \<lparr>sh_nonces = take (unat cap) (List.map ucast hits), sh_nonce_count = c, sh_total_hit_count = of_nat (length hits),
     sh_captured_count = of_nat (min (unat cap) (length hits)), sh_capacity = cap, sh_threshold_bits = b,
     sh_overflow = (unat cap < length hits), sh_retries = 0\<rparr>"
proof -
  from assms(2) have v: "valid_range s c c" "0 < unat b" "unat b \<le> 256" "cap \<noteq> 0" by (simp_all add: sparse_arguments_def)
  from v(1) obtain layout where l: "make_zone_layout s c c = Inr layout" using make_zone_layout_Inr_iff by blast
  have bits: "b \<noteq> 0" "\<not> 256 < b" using v(2,3) by (auto simp: word_less_nat_alt)
  have le: "length hits \<le> 2 ^ 32" unfolding hits_def by (rule hits_bound [OF assms(2)])
  have probe: "below_power_of_two_threshold (replicate 8 0) b = Inr (unat b \<le> leading_zero_bits (replicate 8 0))"
    using bits by (simp add: below_power_of_two_threshold_def)
  obtain header' where fold: "foldE (capture_nonce b cap) (nonce_range s (s + c)) (input, 0, []) =
      Inr (header', of_nat (length hits), take (unat cap) (List.map ucast hits))"
    using capture_fold [OF assms(1) v(2,3), of input cap "nonce_range s (s + c)" 0 "[]"] unfolding hits_def by auto
  have "(of_nat (min (unat cap) (length hits)) :: u64) < of_nat (length hits) \<longleftrightarrow> unat cap < length hits"
    using le by (auto simp: word_less_nat_alt unat_of_nat min_def)
  then show ?thesis
    using v(4) by (simp add: scan_sparse_hits_cpu_def l probe fold min.commute)
qed

lemma sparse_complete_loop:
  assumes "length input = 80"
  shows "sparse_arguments s c b cap \<Longrightarrow> \<exists>r. scan_sparse_complete_from input s c b cap retries = Inr r \<and>
    sh_nonces r = List.map ucast (hits_below input (unat b) (nonce_range s (s + c))) \<and>
    unat (sh_total_hit_count r) = length (sh_nonces r) \<and> sh_captured_count r = sh_total_hit_count r \<and> \<not> sh_overflow r"
  using assms
proof (induction input s c b cap retries rule: scan_sparse_complete_from.induct)
  case (1 input s c b cap retries)
  let ?hits = "hits_below input (unat b) (nonce_range s (s + c))"
  note step = sparse_scan_exact [OF 1(3,2)]
  have le: "length ?hits \<le> 2 ^ 32" by (rule hits_bound [OF 1(2)])
  show ?case
  proof (cases "unat cap < length ?hits")
    case False
    then show ?thesis using le by (simp add: scan_sparse_complete_from.simps [of input] step unat_of_nat min_absorb2)
  next
    case True
    have half: "unat half_max = 2 ^ 63 - 1" by (simp add: half_max_def unat_div unsigned_minus_1_eq_mask mask_eq_exp_minus_1)
    have "\<not> half_max < cap" using True le half by (simp add: word_less_nat_alt)
    moreover have "sparse_arguments s c b (cap * 2)"
      using doubling_grows [of cap] calculation 1(2) by (auto simp: sparse_arguments_def)
    ultimately show ?thesis using 1(1) [OF step] True 1(3) by (simp add: scan_sparse_complete_from.simps [of input s c b cap] step)
  qed
qed

lemma make_zone_layout_probe: "scan_sparse_hits_cpu input s c b cap = Inr r \<Longrightarrow> sparse_arguments s c b cap"
proof -
  assume r: "scan_sparse_hits_cpu input s c b cap = Inr r"
  then have "\<exists>l. make_zone_layout s c c = Inr l" by (auto simp: scan_sparse_hits_cpu_def bindE_eq_Inr_iff)
  moreover have "0 < unat b \<and> unat b \<le> 256" using r
    by (auto simp: scan_sparse_hits_cpu_def bindE_eq_Inr_iff below_power_of_two_threshold_def word_less_nat_alt unat_gt_0 split: if_splits)
  ultimately show ?thesis using r scan_sparse_capacity make_zone_layout_Inr_iff by (auto simp: sparse_arguments_def)
qed

text \<open>The capture that doubles its capacity until everything fits ends for every input: it throws exactly for
  arguments out of range, never because the capacity cannot be doubled, and otherwise returns the nonces of the range
  whose digest is below the threshold, all of them, in order.\<close>

theorem sparse_capture_complete:
  assumes "length input = 80"
  shows "if sparse_arguments s c b cap
    then \<exists>r. scan_sparse_hits_cpu_complete input s c b cap = Inr r \<and>
      sh_nonces r = List.map ucast (hits_below input (unat b) (nonce_range s (s + c))) \<and>
      unat (sh_total_hit_count r) = length (sh_nonces r) \<and> sh_captured_count r = sh_total_hit_count r \<and> \<not> sh_overflow r
    else \<exists>e. scan_sparse_hits_cpu_complete input s c b cap = Inl e"
proof -
  have args: "sparse_arguments s c b cap" if "scan_sparse_hits_cpu_complete input s c b cap = Inr r" for r
  proof (cases "scan_sparse_hits_cpu input s c b cap")
    case (Inl e)
    then show ?thesis using that by (simp add: scan_sparse_hits_cpu_complete_def scan_sparse_complete_from.simps)
  qed (rule make_zone_layout_probe)
  have "\<exists>e. scan_sparse_hits_cpu_complete input s c b cap = Inl e" if "\<not> sparse_arguments s c b cap"
    using args that by (cases "scan_sparse_hits_cpu_complete input s c b cap") auto
  then show ?thesis
    using sparse_complete_loop [OF assms, of s c b cap 0] unfolding scan_sparse_hits_cpu_complete_def by simp
qed

lemma sparse_capture_complete_witness:
  "\<exists>r. scan_sparse_hits_cpu_complete (replicate 80 0) 7 100 1 1 = Inr r \<and>
    sh_nonces r = List.map ucast (hits_below (replicate 80 0) 1 (nonce_range 7 (7 + 100)))"
proof -
  have len: "length (replicate 80 (0 :: u8)) = 80" by simp
  have "sparse_arguments 7 100 1 1" by (simp add: sparse_arguments_def valid_range_def)
  with sparse_capture_complete [OF len, of 7 100 1 1] show ?thesis by auto
qed

end
