(* ===== verification/Config.thy ===== *)
theory Config
  imports Stratum Result_Logger
begin

text \<open>
  \<^verbatim>\<open>src/config/config.cpp\<close> and \<^verbatim>\<open>include/config/config.h\<close>: the configuration, its defaults, reading it
  from JSON and the checks that end \<^verbatim>\<open>load\<close>. A \<^verbatim>\<open>std::filesystem::path\<close> is its POSIX text. The file, the
  stream extraction of JSON and \<^verbatim>\<open>std::filesystem::absolute\<close>, which depends on the working directory, are
  arguments. The lemmas show what a configuration that was loaded satisfies, and that the components that
  use it can rely on it.
\<close>

section \<open>The records\<close>

datatype mode = Live | HistoricalTest | Research | MockStratum | Benchmark

record cpu_config =
  cpu_enabled :: bool
  cpu_threads :: u32

record gpu_config =
  gpu_enabled :: bool
  gpu_platform :: string
  gpu_device :: string
  gpu_auto_tune :: bool
  gpu_profile :: string

record console_config =
  refresh_ms :: u32
  show_job_events :: bool
  show_best_hash :: bool
  console_high_difficulty :: fdouble

record logging_config =
  log_directory :: string
  save_session_log :: bool
  save_block_candidates :: bool
  save_share_audits :: bool
  share_audit_retention_hours :: u32
  permanent_high_difficulty :: fdouble

record historical_config =
  historical_header_hex :: string
  known_nonce :: "u32 option"
  expected_hash :: string
  historical_target_hex :: string
  scan_full_nonce_space :: bool
  historical_nonce_start :: u64
  historical_nonce_end :: u64

record trace_analysis_config =
  trace_enabled :: bool
  single_bit_flips :: bool
  neighbor_radius :: u32
  control_nonces :: "u32 list"
  save_full_trajectories :: bool

record research_config =
  research_enabled :: bool
  round_start :: u32
  round_end :: u32
  sample_count :: u64
  trace_analysis :: trace_analysis_config

record benchmark_config =
  benchmark_cpu_threads :: "u32 list"
  warmup_ms :: u32
  measurement_ms :: u32
  benchmark_header_hex :: string
  performance_profile :: string

record app_config =
  ac_mode :: mode
  ac_ckpool :: ckpool_endpoint
  ac_cpu :: cpu_config
  ac_gpu :: gpu_config
  ac_console :: console_config
  ac_logging :: logging_config
  ac_historical :: historical_config
  ac_research :: research_config
  ac_benchmark :: benchmark_config
  checkpoint_interval_ms :: u32
  source_path :: string
  project_root :: string

text \<open>The initial values of the members.\<close>

definition default_ckpool :: ckpool_endpoint where
  "default_ckpool = \<lparr>ck_host = ''stratum.ckpool.org'', ck_port = 3333, ck_username = ''CHANGE_ME'', ck_password = ''x'',
    ck_reconnect = True, ck_reconnect_delay_ms = 2000\<rparr>"

definition default_config :: app_config where
  "default_config =
    \<lparr>ac_mode = Live, ac_ckpool = default_ckpool,
     ac_cpu = \<lparr>cpu_enabled = True, cpu_threads = 30\<rparr>,
     ac_gpu = \<lparr>gpu_enabled = True, gpu_platform = ''auto'', gpu_device = ''auto'', gpu_auto_tune = True,
       gpu_profile = ''state/gpu_profile.json''\<rparr>,
     ac_console = \<lparr>refresh_ms = 1000, show_job_events = True, show_best_hash = True,
       console_high_difficulty = double_of_nat 10000\<rparr>,
     ac_logging = \<lparr>log_directory = ''results'', save_session_log = True, save_block_candidates = True,
       save_share_audits = True, share_audit_retention_hours = 24, permanent_high_difficulty = double_of_nat 10000\<rparr>,
     ac_historical = \<lparr>historical_header_hex = [], known_nonce = None, expected_hash = [], historical_target_hex = [],
       scan_full_nonce_space = True, historical_nonce_start = 0, historical_nonce_end = 0x100000000\<rparr>,
     ac_research = \<lparr>research_enabled = False, round_start = 1, round_end = 64, sample_count = 4096,
       trace_analysis = \<lparr>trace_enabled = False, single_bit_flips = True, neighbor_radius = 2, control_nonces = [],
         save_full_trajectories = True\<rparr>\<rparr>,
     ac_benchmark = \<lparr>benchmark_cpu_threads = [28, 29, 30, 31, 32], warmup_ms = 250, measurement_ms = 1000,
       benchmark_header_hex = [], performance_profile = ''config/performance_profile.json''\<rparr>,
     checkpoint_interval_ms = 2000, source_path = [], project_root = []\<rparr>"

section \<open>Modes and paths\<close>

definition parse_mode :: "string \<Rightarrow> mode outcome" where
  "parse_mode val =
    (if val = ''live'' then Inr Live
     else if val = ''historical_test'' then Inr HistoricalTest
     else if val = ''research'' then Inr Research
     else if val = ''mock_stratum'' then Inr MockStratum
     else if val = ''benchmark'' then Inr Benchmark
     else Inl (Invalid_argument (''unknown mode: '' @ val)))"

fun mode_name :: "mode \<Rightarrow> string" where
  "mode_name Live = ''live''"
| "mode_name HistoricalTest = ''historical_test''"
| "mode_name Research = ''research''"
| "mode_name MockStratum = ''mock_stratum''"
| "mode_name Benchmark = ''benchmark''"

definition is_relative :: "string \<Rightarrow> bool" where
  "is_relative p = (case p of [] \<Rightarrow> True | c # _ \<Rightarrow> c \<noteq> CHR ''/'')"

text \<open>\<^verbatim>\<open>operator/\<close>: an absolute right side replaces the left one.\<close>

definition path_append :: "string \<Rightarrow> string \<Rightarrow> string" where
  "path_append p q = (if is_relative q then path_join p q else q)"

definition parent_path :: "string \<Rightarrow> string" where
  "parent_path p =
    (let d = dropWhile (\<lambda>c. c \<noteq> CHR ''/'') (rev p); stem = dropWhile (\<lambda>c. c = CHR ''/'') d
     in if stem = [] then rev d else rev stem)"

section \<open>Reading the sections\<close>

definition assign_if :: "'j json_api \<Rightarrow> ('j \<Rightarrow> 'a outcome) \<Rightarrow> 'j \<Rightarrow> string \<Rightarrow> 'a \<Rightarrow> 'a outcome" where
  "assign_if J get object key val = (if j_contains J object key then at_get J get object key else Inr val)"

text \<open>A section of the file, when it is there.\<close>

definition section_of :: "'j json_api \<Rightarrow> 'j \<Rightarrow> string \<Rightarrow> ('j \<Rightarrow> 'a outcome) \<Rightarrow> 'a \<Rightarrow> 'a outcome" where
  "section_of J json key read dflt = (if j_contains J json key then bindE (j_at J json key) read else Inr dflt)"

definition load_ckpool :: "'j json_api \<Rightarrow> ckpool_endpoint \<Rightarrow> 'j \<Rightarrow> ckpool_endpoint outcome" where
  "load_ckpool J c item =
    bindE (assign_if J (j_get_string J) item ''host'' (ck_host c)) (\<lambda>host.
    bindE (assign_if J (\<lambda>v. bindE (j_get_u16 J v) (\<lambda>p. Inr (unat p))) item ''port'' (ck_port c)) (\<lambda>port.
    bindE (assign_if J (j_get_string J) item ''username'' (ck_username c)) (\<lambda>username.
    bindE (assign_if J (j_get_string J) item ''password'' (ck_password c)) (\<lambda>password.
    bindE (assign_if J (j_get_bool J) item ''reconnect'' (ck_reconnect c)) (\<lambda>reconnect.
    bindE (assign_if J (\<lambda>v. bindE (j_get_u32 J v) (\<lambda>n. Inr (unat n))) item ''reconnect_delay_ms'' (ck_reconnect_delay_ms c)) (\<lambda>delay.
      Inr \<lparr>ck_host = host, ck_port = port, ck_username = username, ck_password = password, ck_reconnect = reconnect,
           ck_reconnect_delay_ms = delay\<rparr>))))))"

definition load_cpu :: "'j json_api \<Rightarrow> cpu_config \<Rightarrow> 'j \<Rightarrow> cpu_config outcome" where
  "load_cpu J c item =
    bindE (assign_if J (j_get_bool J) item ''enabled'' (cpu_enabled c)) (\<lambda>enabled.
    bindE (assign_if J (j_get_u32 J) item ''threads'' (cpu_threads c)) (\<lambda>threads.
      Inr \<lparr>cpu_enabled = enabled, cpu_threads = threads\<rparr>))"

definition load_gpu :: "'j json_api \<Rightarrow> gpu_config \<Rightarrow> 'j \<Rightarrow> gpu_config outcome" where
  "load_gpu J c item =
    bindE (assign_if J (j_get_bool J) item ''enabled'' (gpu_enabled c)) (\<lambda>enabled.
    bindE (assign_if J (j_get_string J) item ''platform'' (gpu_platform c)) (\<lambda>platform.
    bindE (assign_if J (j_get_string J) item ''device'' (gpu_device c)) (\<lambda>device.
    bindE (assign_if J (j_get_bool J) item ''auto_tune'' (gpu_auto_tune c)) (\<lambda>auto_tune.
    bindE (assign_if J (j_get_string J) item ''profile'' (gpu_profile c)) (\<lambda>profile.
      Inr \<lparr>gpu_enabled = enabled, gpu_platform = platform, gpu_device = device, gpu_auto_tune = auto_tune,
           gpu_profile = profile\<rparr>)))))"

definition load_console :: "'j json_api \<Rightarrow> console_config \<Rightarrow> 'j \<Rightarrow> console_config outcome" where
  "load_console J c item =
    bindE (assign_if J (j_get_u32 J) item ''refresh_ms'' (refresh_ms c)) (\<lambda>refresh.
    bindE (assign_if J (j_get_bool J) item ''show_job_events'' (show_job_events c)) (\<lambda>jobs.
    bindE (assign_if J (j_get_bool J) item ''show_best_hash'' (show_best_hash c)) (\<lambda>best.
    bindE (assign_if J (j_get_double J) item ''high_difficulty_threshold'' (console_high_difficulty c)) (\<lambda>threshold.
      Inr \<lparr>refresh_ms = refresh, show_job_events = jobs, show_best_hash = best, console_high_difficulty = threshold\<rparr>))))"

definition load_logging :: "'j json_api \<Rightarrow> string \<Rightarrow> logging_config \<Rightarrow> 'j \<Rightarrow> logging_config outcome" where
  "load_logging J dir c item =
    bindE (assign_if J (j_get_string J) item ''directory'' (log_directory c)) (\<lambda>directory.
    bindE (assign_if J (j_get_bool J) item ''save_session_log'' (save_session_log c)) (\<lambda>session.
    bindE (assign_if J (j_get_bool J) item ''save_block_candidates'' (save_block_candidates c)) (\<lambda>candidates.
    bindE (assign_if J (j_get_bool J) item ''save_share_audits'' (save_share_audits c)) (\<lambda>audits.
    bindE (assign_if J (j_get_u32 J) item ''share_audit_retention_hours'' (share_audit_retention_hours c)) (\<lambda>hours.
    bindE (assign_if J (j_get_double J) item ''permanent_high_difficulty_threshold'' (permanent_high_difficulty c)) (\<lambda>threshold.
      Inr \<lparr>log_directory = path_append dir directory, save_session_log = session, save_block_candidates = candidates,
           save_share_audits = audits, share_audit_retention_hours = hours, permanent_high_difficulty = threshold\<rparr>))))))"

definition load_historical :: "'j json_api \<Rightarrow> historical_config \<Rightarrow> 'j \<Rightarrow> historical_config outcome" where
  "load_historical J c item =
    bindE (assign_if J (j_get_string J) item ''header_hex'' (historical_header_hex c)) (\<lambda>header_hex.
    bindE (if j_contains J item ''known_nonce''
           then bindE (j_at J item ''known_nonce'') (\<lambda>v.
             if j_is_null J v then Inr (known_nonce c) else bindE (j_get_u32 J v) (\<lambda>n. Inr (Some n)))
           else Inr (known_nonce c)) (\<lambda>nonce.
    bindE (assign_if J (j_get_string J) item ''expected_hash'' (expected_hash c)) (\<lambda>expected.
    bindE (assign_if J (j_get_string J) item ''target_hex'' (historical_target_hex c)) (\<lambda>target.
    bindE (assign_if J (j_get_bool J) item ''scan_full_nonce_space'' (scan_full_nonce_space c)) (\<lambda>full.
    bindE (assign_if J (j_get_u64 J) item ''nonce_start'' (historical_nonce_start c)) (\<lambda>nstart.
    bindE (assign_if J (j_get_u64 J) item ''nonce_end'' (historical_nonce_end c)) (\<lambda>nend.
      Inr \<lparr>historical_header_hex = header_hex, known_nonce = nonce, expected_hash = expected, historical_target_hex = target,
           scan_full_nonce_space = full, historical_nonce_start = nstart, historical_nonce_end = nend\<rparr>)))))))"

definition load_trace_analysis :: "'j json_api \<Rightarrow> trace_analysis_config \<Rightarrow> 'j \<Rightarrow> trace_analysis_config outcome" where
  "load_trace_analysis J c item =
    bindE (assign_if J (j_get_bool J) item ''enabled'' (trace_enabled c)) (\<lambda>enabled.
    bindE (assign_if J (j_get_bool J) item ''single_bit_flips'' (single_bit_flips c)) (\<lambda>flips.
    bindE (assign_if J (j_get_u32 J) item ''neighbor_radius'' (neighbor_radius c)) (\<lambda>radius.
    bindE (assign_if J (j_get_u32s J) item ''control_nonces'' (control_nonces c)) (\<lambda>controls.
    bindE (assign_if J (j_get_bool J) item ''save_full_trajectories'' (save_full_trajectories c)) (\<lambda>full.
      Inr \<lparr>trace_enabled = enabled, single_bit_flips = flips, neighbor_radius = radius, control_nonces = controls,
           save_full_trajectories = full\<rparr>)))))"

definition load_research :: "'j json_api \<Rightarrow> research_config \<Rightarrow> 'j \<Rightarrow> research_config outcome" where
  "load_research J c item =
    bindE (assign_if J (j_get_bool J) item ''enabled'' (research_enabled c)) (\<lambda>enabled.
    bindE (assign_if J (j_get_u32 J) item ''round_start'' (round_start c)) (\<lambda>rstart.
    bindE (assign_if J (j_get_u32 J) item ''round_end'' (round_end c)) (\<lambda>rend.
    bindE (assign_if J (j_get_u64 J) item ''sample_count'' (sample_count c)) (\<lambda>samples.
    bindE (section_of J item ''trace_analysis'' (load_trace_analysis J (trace_analysis c)) (trace_analysis c)) (\<lambda>analysis.
      Inr \<lparr>research_enabled = enabled, round_start = rstart, round_end = rend, sample_count = samples,
           trace_analysis = analysis\<rparr>)))))"

definition load_benchmark :: "'j json_api \<Rightarrow> benchmark_config \<Rightarrow> 'j \<Rightarrow> benchmark_config outcome" where
  "load_benchmark J c item =
    bindE (assign_if J (j_get_u32s J) item ''cpu_threads'' (benchmark_cpu_threads c)) (\<lambda>threads.
    bindE (assign_if J (j_get_u32 J) item ''warmup_ms'' (warmup_ms c)) (\<lambda>warmup.
    bindE (assign_if J (j_get_u32 J) item ''measurement_ms'' (measurement_ms c)) (\<lambda>measurement.
    bindE (assign_if J (j_get_string J) item ''header_hex'' (benchmark_header_hex c)) (\<lambda>header_hex.
    bindE (assign_if J (j_get_string J) item ''performance_profile'' (performance_profile c)) (\<lambda>profile.
      Inr \<lparr>benchmark_cpu_threads = threads, warmup_ms = warmup, measurement_ms = measurement,
           benchmark_header_hex = header_hex, performance_profile = profile\<rparr>)))))"

text \<open>The sections, in the order of the code.\<close>

definition load_sections :: "'j json_api \<Rightarrow> string \<Rightarrow> 'j \<Rightarrow> app_config outcome" where
  "load_sections J source json =
    (let c = default_config; dir = parent_path (parent_path source);
         place = (\<lambda>p. if is_relative p then path_append dir p else p)
     in bindE (bindE (at_get J (j_get_string J) json ''mode'') parse_mode) (\<lambda>mode.
        bindE (section_of J json ''ckpool'' (load_ckpool J (ac_ckpool c)) (ac_ckpool c)) (\<lambda>ckpool.
        bindE (section_of J json ''cpu'' (load_cpu J (ac_cpu c)) (ac_cpu c)) (\<lambda>cpu.
        bindE (section_of J json ''gpu'' (load_gpu J (ac_gpu c)) (ac_gpu c)) (\<lambda>gpu.
        bindE (section_of J json ''console'' (load_console J (ac_console c)) (ac_console c)) (\<lambda>console.
        bindE (section_of J json ''logging'' (load_logging J dir (ac_logging c))
          (ac_logging c\<lparr>log_directory := path_append dir (log_directory (ac_logging c))\<rparr>)) (\<lambda>logging.
        bindE (section_of J json ''checkpoint'' (\<lambda>item. assign_if J (j_get_u32 J) item ''interval_ms'' (checkpoint_interval_ms c))
          (checkpoint_interval_ms c)) (\<lambda>interval.
        bindE (section_of J json ''historical'' (load_historical J (ac_historical c)) (ac_historical c)) (\<lambda>historical.
        bindE (section_of J json ''research'' (load_research J (ac_research c)) (ac_research c)) (\<lambda>research.
        bindE (section_of J json ''benchmark'' (load_benchmark J (ac_benchmark c)) (ac_benchmark c)) (\<lambda>benchmark.
          Inr \<lparr>ac_mode = mode, ac_ckpool = ckpool, ac_cpu = cpu, ac_gpu = gpu\<lparr>gpu_profile := place (gpu_profile gpu)\<rparr>,
               ac_console = console, ac_logging = logging, ac_historical = historical, ac_research = research,
               ac_benchmark = benchmark\<lparr>performance_profile := place (performance_profile benchmark)\<rparr>,
               checkpoint_interval_ms = interval, source_path = source, project_root = dir\<rparr>)))))))))))"

section \<open>The checks\<close>

definition reject :: "bool \<Rightarrow> string \<Rightarrow> unit outcome" where
  "reject bad text = requireE (\<not> bad) (Invalid_argument text)"

definition bad_threshold :: "fdouble \<Rightarrow> bool" where
  "bad_threshold d = (\<not> is_finite_double d \<or> double_less d double_zero)"

definition check_benchmark :: "app_config \<Rightarrow> unit outcome" where
  "check_benchmark c =
    (let b = ac_benchmark c
     in bindE (reject (\<not> cpu_enabled (ac_cpu c) \<and> \<not> gpu_enabled (ac_gpu c)) ''benchmark requires at least one enabled worker'') (\<lambda>_.
        bindE (reject (length (benchmark_header_hex b) \<noteq> 160)
          ''benchmark requires benchmark.header_hex with exactly 80 bytes (160 hex characters)'') (\<lambda>_.
        bindE (reject (warmup_ms b < 100) ''benchmark.warmup_ms must be at least 100'') (\<lambda>_.
        bindE (reject (measurement_ms b < 500) ''benchmark.measurement_ms must be at least 500'') (\<lambda>_.
          reject (cpu_enabled (ac_cpu c) \<and>
              (benchmark_cpu_threads b = [] \<or> list_ex (\<lambda>threads. threads = 0) (benchmark_cpu_threads b)))
            ''benchmark.cpu_threads must contain positive values'')))))"

definition check_config :: "app_config \<Rightarrow> unit outcome" where
  "check_config c =
    (let h = ac_historical c; r = ac_research c
     in bindE (reject (cpu_enabled (ac_cpu c) \<and> cpu_threads (ac_cpu c) = 0) ''cpu.threads must be positive'') (\<lambda>_.
        bindE (reject (checkpoint_interval_ms c < 250) ''checkpoint.interval_ms must be at least 250'') (\<lambda>_.
        bindE (reject (bad_threshold (console_high_difficulty (ac_console c)))
          ''console.high_difficulty_threshold must be finite and non-negative'') (\<lambda>_.
        bindE (reject (bad_threshold (permanent_high_difficulty (ac_logging c)))
          ''logging.permanent_high_difficulty_threshold must be finite and non-negative'') (\<lambda>_.
        bindE (reject (ac_mode c = Live \<and> ck_username (ac_ckpool c) = ''CHANGE_ME'')
          ''live mode is locked: replace ckpool.username with your Bitcoin address[.worker]'') (\<lambda>_.
        bindE (reject ((ac_mode c = HistoricalTest \<or> ac_mode c = Research) \<and> length (historical_header_hex h) \<noteq> 160)
          ''offline modes require historical.header_hex with exactly 80 bytes (160 hex characters)'') (\<lambda>_.
        bindE (reject (ac_mode c = HistoricalTest \<and> length (historical_target_hex h) \<noteq> 64)
          ''historical_test requires a 256-bit target_hex'') (\<lambda>_.
        bindE (if ac_mode c = Benchmark then check_benchmark c else Inr ()) (\<lambda>_.
        bindE (reject (historical_nonce_end h > 0x100000000 \<or> historical_nonce_start h \<ge> historical_nonce_end h)
          ''historical nonce range must be non-empty and contained in [0,2^32)'') (\<lambda>_.
          reject (round_start r < 1 \<or> round_end r > 64 \<or> round_start r > round_end r)
            ''research rounds must form a range inside [1,64]''))))))))))"

text \<open>\<open>content\<close> is \<open>None\<close> when the file cannot be opened.\<close>

definition load ::
    "'j json_api \<Rightarrow> (string \<Rightarrow> 'j outcome) \<Rightarrow> (string \<Rightarrow> string outcome) \<Rightarrow> string option \<Rightarrow> string \<Rightarrow> app_config outcome" where
  "load J read_json absolute content path =
    (case content of
       None \<Rightarrow> Inl (Runtime_error (''cannot open configuration: '' @ path))
     | Some text \<Rightarrow>
         bindE (read_json text) (\<lambda>json.
         bindE (absolute path) (\<lambda>source.
         bindE (load_sections J source json) (\<lambda>c.
         bindE (check_config c) (\<lambda>_. Inr c)))))"

section \<open>What a loaded configuration satisfies\<close>

definition benchmark_ok :: "app_config \<Rightarrow> bool" where
  "benchmark_ok c \<longleftrightarrow>
    (cpu_enabled (ac_cpu c) \<or> gpu_enabled (ac_gpu c)) \<and> length (benchmark_header_hex (ac_benchmark c)) = 160 \<and>
    100 \<le> unat (warmup_ms (ac_benchmark c)) \<and> 500 \<le> unat (measurement_ms (ac_benchmark c)) \<and>
    (cpu_enabled (ac_cpu c) \<longrightarrow> benchmark_cpu_threads (ac_benchmark c) \<noteq> [] \<and>
      list_all (\<lambda>threads. 0 < unat threads) (benchmark_cpu_threads (ac_benchmark c)))"

definition config_ok :: "app_config \<Rightarrow> bool" where
  "config_ok c \<longleftrightarrow>
    (cpu_enabled (ac_cpu c) \<longrightarrow> 0 < unat (cpu_threads (ac_cpu c))) \<and> 250 \<le> unat (checkpoint_interval_ms c) \<and>
    \<not> bad_threshold (console_high_difficulty (ac_console c)) \<and> \<not> bad_threshold (permanent_high_difficulty (ac_logging c)) \<and>
    (ac_mode c = Live \<longrightarrow> ck_username (ac_ckpool c) \<noteq> ''CHANGE_ME'') \<and>
    (ac_mode c = HistoricalTest \<or> ac_mode c = Research \<longrightarrow> length (historical_header_hex (ac_historical c)) = 160) \<and>
    (ac_mode c = HistoricalTest \<longrightarrow> length (historical_target_hex (ac_historical c)) = 64) \<and>
    (ac_mode c = Benchmark \<longrightarrow> benchmark_ok c) \<and>
    unat (historical_nonce_start (ac_historical c)) < unat (historical_nonce_end (ac_historical c)) \<and>
    unat (historical_nonce_end (ac_historical c)) \<le> 2 ^ 32 \<and>
    1 \<le> unat (round_start (ac_research c)) \<and> unat (round_start (ac_research c)) \<le> unat (round_end (ac_research c)) \<and>
    unat (round_end (ac_research c)) \<le> 64"

lemma reject_iff: "reject bad text = Inr () \<longleftrightarrow> \<not> bad"
  by (simp add: reject_def requireE_def)

lemma bind_reject: "bindE (reject bad text) (\<lambda>_. m) = (if bad then Inl (Invalid_argument text) else m)"
  by (simp add: reject_def requireE_def)

lemma check_benchmark_iff: "check_benchmark c = Inr () \<longleftrightarrow> benchmark_ok c"
  by (auto simp: check_benchmark_def benchmark_ok_def Let_def bind_reject reject_iff word_less_nat_alt not_less list_ex_iff
      list_all_iff unat_gt_0)

text \<open>A check throws nothing but \<^verbatim>\<open>invalid_argument\<close>.\<close>

definition only_rejects :: "unit outcome \<Rightarrow> bool" where
  "only_rejects m \<longleftrightarrow> (\<forall>e. m = Inl e \<longrightarrow> (\<exists>msg. e = Invalid_argument msg))"

lemma only_rejects_intros [intro]:
  "only_rejects (reject bad msg)" "only_rejects (Inr x)"
  "only_rejects m \<Longrightarrow> only_rejects m' \<Longrightarrow> only_rejects (bindE m (\<lambda>_. m'))"
  "only_rejects m \<Longrightarrow> only_rejects m' \<Longrightarrow> only_rejects (if b then m else m')"
  by (auto simp: only_rejects_def reject_def requireE_def bindE_eq_Inl_iff)

lemma check_config_error: "only_rejects (check_config c)"
proof -
  have "only_rejects (check_benchmark c)"
    unfolding check_benchmark_def Let_def by (intro only_rejects_intros)
  then show ?thesis
    unfolding check_config_def Let_def by (intro only_rejects_intros)
qed

lemma check_config_iff: "check_config c = Inr () \<longleftrightarrow> config_ok c"
proof -
  have b: "bindE (if ac_mode c = Benchmark then check_benchmark c else Inr ()) (\<lambda>_. m) = Inr () \<longleftrightarrow>
      (ac_mode c = Benchmark \<longrightarrow> benchmark_ok c) \<and> m = Inr ()" for m
    by (auto simp: bindE_eq_Inr_iff check_benchmark_iff)
  show ?thesis
    unfolding check_config_def Let_def bind_reject config_ok_def word_less_nat_alt word_le_nat_alt
    by (auto simp: b reject_iff not_less not_le unat_gt_0 Suc_le_eq)
qed

lemma parse_mode_iff: "parse_mode s = Inr m \<longleftrightarrow> s = mode_name m"
  by (cases m) (auto simp: parse_mode_def)


definition example_json :: "string \<Rightarrow> jtree" where
  "example_json h = JObject [(''mode'', JString ''research''), (''historical'', JObject [(''header_hex'', JString h)])]"

lemma example_sections:
  "load_sections tree_api source (example_json h) = Inr (default_config\<lparr>ac_mode := Research,
    ac_gpu := ac_gpu default_config\<lparr>gpu_profile := path_append (parent_path (parent_path source)) ''state/gpu_profile.json''\<rparr>,
    ac_logging := ac_logging default_config\<lparr>log_directory := path_append (parent_path (parent_path source)) ''results''\<rparr>,
    ac_historical := ac_historical default_config\<lparr>historical_header_hex := h\<rparr>,
    ac_benchmark := ac_benchmark default_config\<lparr>performance_profile :=
      path_append (parent_path (parent_path source)) ''config/performance_profile.json''\<rparr>,
    source_path := source, project_root := parent_path (parent_path source)\<rparr>)"
  by (simp add: example_json_def load_sections_def section_of_def assign_if_def at_get_def tree_api_def Let_def parse_mode_def
      load_historical_def default_config_def is_relative_def)

lemma double_of_small_nat:
  assumes "0 < n" "n \<le> 2 ^ 53"
  shows "is_finite_double (double_of_nat n) \<and> rat_of_double (double_of_nat n) = of_nat n"
proof -
  have r: "round_digits 53 (-1074) (of_nat n) = of_nat n" using assms(2) by (intro round_small) simp_all
  have "(of_nat n :: rat) \<le> of_nat (2 ^ 53)" using assms(2) unfolding of_nat_le_iff .
  also have "\<dots> < 2 ^ 1024" by simp
  finally have lt: "(of_nat n :: rat) < 2 ^ 1024" .
  have pos: "(0 :: rat) < of_nat n" using assms(1) by simp
  show ?thesis unfolding double_of_nat_def using pos
    by (cases rule: double_of_rat_cases [OF pos]) (use r lt in auto)
qed


end
