(* ===== verification/Research_Trace.thy ===== *)
theory Research_Trace
  imports Config
begin

text \<open>
  The trace analysis of \<^verbatim>\<open>src/mining/mining_controller.cpp\<close>: for a reference nonce and a set of other
  nonces it recomputes every traced round of the double hash (schedule, functions, additions column by
  column, feed forward), compares the rounds of each nonce with those of the reference, and writes both as
  JSON. Each recomputation is guarded by \<^verbatim>\<open>require_research\<close>. The lemmas show that none of these guards can
  fail for a header of 80 bytes, whatever the nonce.

  A JSON array of labels is the list of its elements, a \<^verbatim>\<open>std::map\<close> from nonces the list of its entries in
  ascending order, a JSON position the triple of its three numbers; \<^verbatim>\<open>unsigned\<close> counters that count at most
  the bits of a state are \<open>nat\<close>.
\<close>

section \<open>Words, states and blocks\<close>

definition reverse_hex :: "bytes \<Rightarrow> string" where "reverse_hex bs = to_hex (rev bs)"

definition sha256_word_hex :: "u32 \<Rightarrow> string" where "sha256_word_hex val = setw_hex 8 (unat val)"

abbreviation j_word :: "'j json_api \<Rightarrow> u32 \<Rightarrow> 'j" where "j_word J w \<equiv> j_string J (sha256_word_hex w)"

abbreviation j_count :: "'j json_api \<Rightarrow> nat \<Rightarrow> 'j" where "j_count J n \<equiv> j_unsigned J (of_nat n)"

definition registers_json :: "'j json_api \<Rightarrow> regs \<Rightarrow> 'j" where
  "registers_json J r = j_object J
    [(''a'', j_word J (ra r)), (''b'', j_word J (rb r)), (''c'', j_word J (rc r)), (''d'', j_word J (rd r)),
     (''e'', j_word J (re r)), (''f'', j_word J (rf r)), (''g'', j_word J (rg r)), (''h'', j_word J (rh r))]"

definition sha256_rounds_json :: "'j json_api \<Rightarrow> round_trace list \<Rightarrow> 'j" where
  "sha256_rounds_json J rounds = j_array J (List.map (\<lambda>trace. j_object J
    [(''compression'', j_count J (compression_index trace)), (''round'', j_count J (round_index trace + 1)),
     (''w'', j_word J (tr_w trace)), (''sum0'', j_word J (tr_sum0 trace)), (''sum1'', j_word J (tr_sum1 trace)),
     (''choice'', j_word J (tr_choice trace)), (''majority'', j_word J (tr_majority trace)),
     (''temp1'', j_word J (tr_temp1 trace)), (''temp2'', j_word J (tr_temp2 trace)),
     (''before'', registers_json J (tr_before trace)), (''after'', registers_json J (tr_after trace))]) rounds)"

type_synonym research_state = "u32 list"

definition kResearchRegisters :: "string list" where
  "kResearchRegisters = [''a'', ''b'', ''c'', ''d'', ''e'', ''f'', ''g'', ''h'']"

record 'j nonce_selection =
  ns_nonce :: u32
  ns_labels :: "'j list"

record 'j trace_record =
  tc_nonce :: u32
  tc_labels :: "'j list"
  tc_header :: bytes
  tc_trace :: reduced_trace
  tc_trajectory :: 'j

definition require_research :: "bool \<Rightarrow> string \<Rightarrow> unit outcome" where
  "require_research condition detail = requireE condition (Runtime_error (''research trace analysis failed: '' @ detail))"

definition read_research_be32 :: "bytes \<Rightarrow> nat \<Rightarrow> u32" where
  "read_research_be32 bs off =
    push_bit 24 (ucast (bs ! off)) OR push_bit 16 (ucast (bs ! (off + 1))) OR
    push_bit 8 (ucast (bs ! (off + 2))) OR ucast (bs ! (off + 3))"

definition state_of_regs :: "regs \<Rightarrow> research_state" where
  "state_of_regs r = [ra r, rb r, rc r, rd r, re r, rf r, rg r, rh r]"

definition research_before_state :: "round_trace \<Rightarrow> research_state" where
  "research_before_state trace = state_of_regs (tr_before trace)"

definition research_after_state :: "round_trace \<Rightarrow> research_state" where
  "research_after_state trace = state_of_regs (tr_after trace)"

definition research_state_json :: "'j json_api \<Rightarrow> research_state \<Rightarrow> 'j" where
  "research_state_json J state =
    fold (\<lambda>i v. j_set J v (kResearchRegisters ! i) (j_word J (state ! i))) [0..<length state] (j_object J [])"

definition research_digest_words :: "bytes \<Rightarrow> research_state" where
  "research_digest_words digest = List.map (\<lambda>i. read_research_be32 digest (i * 4)) [0..<8]"

definition research_word_hamming :: "u32 \<Rightarrow> u32 \<Rightarrow> nat" where
  "research_word_hamming left right = popcount (left XOR right)"

definition research_state_hamming :: "research_state \<Rightarrow> research_state \<Rightarrow> nat" where
  "research_state_hamming left right = fold (\<lambda>i tot. tot + research_word_hamming (left ! i) (right ! i)) [0..<length left] 0"

definition research_round_equal :: "round_trace \<Rightarrow> round_trace \<Rightarrow> bool" where
  "research_round_equal left right =
    (compression_index left = compression_index right \<and> round_index left = round_index right \<and>
     tr_w left = tr_w right \<and> tr_sum0 left = tr_sum0 right \<and> tr_sum1 left = tr_sum1 right \<and>
     tr_choice left = tr_choice right \<and> tr_majority left = tr_majority right \<and>
     tr_temp1 left = tr_temp1 right \<and> tr_temp2 left = tr_temp2 right \<and>
     research_before_state left = research_before_state right \<and> research_after_state left = research_after_state right)"

definition write_length :: "u64 \<Rightarrow> bytes \<Rightarrow> bytes" where
  "write_length bit_length block = fold (\<lambda>i b. b[length b - 1 - i := ucast (drop_bit (i * 8) bit_length)]) [0..<8] block"

definition research_final_block :: "bytes \<Rightarrow> nat \<Rightarrow> bytes outcome" where
  "research_final_block message offset =
    bindE (require_research (offset \<le> length message) ''invalid SHA-256 padding offset'') (\<lambda>_.
      let remainder = length message - offset
      in bindE (require_research (remainder < 56) ''analysis expects a single final SHA-256 padding block'') (\<lambda>_.
          let block = (drop offset message @ replicate (64 - remainder) 0)[remainder := 0x80]
          in Inr (write_length (of_nat (length message) * 8) block)))"

section \<open>Additions, column by column\<close>

record column_state =
  cs_carry :: u64
  cs_sum :: u32
  cs_mask :: u32
  cs_count :: nat
  cs_longest :: nat
  cs_run :: nat
  cs_max :: u64

definition add_column :: "u32 list \<Rightarrow> nat \<Rightarrow> column_state \<Rightarrow> column_state" where
  "add_column operands bit_index c =
    (let column_total = fold (\<lambda>v t. t + ucast (drop_bit bit_index v AND 1)) operands (cs_carry c);
         carry = drop_bit 1 column_total;
         c = c\<lparr>cs_sum := (if column_total AND 1 \<noteq> 0 then cs_sum c OR push_bit bit_index 1 else cs_sum c),
               cs_carry := carry, cs_max := max (cs_max c) carry\<rparr>
     in if carry \<noteq> 0
        then c\<lparr>cs_mask := cs_mask c OR push_bit bit_index 1, cs_count := cs_count c + 1,
               cs_run := cs_run c + 1, cs_longest := max (cs_longest c) (cs_run c + 1)\<rparr>
        else c\<lparr>cs_run := 0\<rparr>)"

definition column_addition :: "u32 list \<Rightarrow> column_state" where
  "column_addition operands = fold (add_column operands) [0..<32]
    \<lparr>cs_carry = 0, cs_sum = 0, cs_mask = 0, cs_count = 0, cs_longest = 0, cs_run = 0, cs_max = 0\<rparr>"

definition research_addition_json :: "'j json_api \<Rightarrow> (string \<times> u32) list \<Rightarrow> u32 \<Rightarrow> string \<Rightarrow> 'j outcome" where
  "research_addition_json J operands expected ctxt =
    bindE (require_research (operands \<noteq> []) (ctxt @ '': addition has no operands'')) (\<lambda>_.
      let c = column_addition (List.map snd operands)
      in bindE (require_research (cs_sum c = expected) (ctxt @ '': reconstructed modular sum differs from expected result'')) (\<lambda>_.
           Inr (j_object J
             [(''operands'', j_array J (List.map (\<lambda>operand. j_object J
                [(''name'', j_string J (fst operand)), (''value'', j_word J (snd operand))]) operands)),
              (''carry_summary'', j_object J
                [(''model'', j_string J ''order_independent_bit_column_sum''),
                 (''nonzero_carry_mask_hex'', j_word J (cs_mask c)),
                 (''nonzero_carry_count'', j_count J (cs_count c)),
                 (''longest_nonzero_carry_run'', j_count J (cs_longest c)),
                 (''max_carry_value'', j_unsigned J (cs_max c)),
                 (''final_carry_value'', j_unsigned J (cs_carry c))]),
              (''result'', j_word J expected)])))"

section \<open>Message schedules\<close>

definition direct_word :: "'j json_api \<Rightarrow> bytes \<Rightarrow> round_trace list \<Rightarrow> string \<Rightarrow> nat \<Rightarrow> u32 list \<times> 'j list \<Rightarrow> (u32 list \<times> 'j list) outcome" where
  "direct_word J block rounds ctxt t = (\<lambda>(schedule, entries).
    (let schedule = schedule[t := read_research_be32 block (t * 4)]
     in bindE (require_research (schedule ! t = tr_w (rounds ! t))
          (ctxt @ '': direct message word W'' @ to_string t @ '' differs from trace.w'')) (\<lambda>_.
        Inr (schedule, entries @ [j_object J
          [(''t'', j_count J t), (''round'', j_count J (t + 1)), (''source'', j_string J ''message_block''),
           (''w'', j_word J (schedule ! t))]]))))"

definition extended_word :: "'j json_api \<Rightarrow> round_trace list \<Rightarrow> string \<Rightarrow> nat \<Rightarrow> u32 list \<times> 'j list \<Rightarrow> (u32 list \<times> 'j list) outcome" where
  "extended_word J rounds ctxt t = (\<lambda>(schedule, entries).
    (let w2 = schedule ! (t - 2); w7 = schedule ! (t - 7); w15 = schedule ! (t - 15); w16 = schedule ! (t - 16);
         rotr17 = word_rotr 17 w2; rotr19 = word_rotr 19 w2; shr10 = drop_bit 10 w2;
         small_sigma1 = rotr17 XOR rotr19 XOR shr10;
         rotr7 = word_rotr 7 w15; rotr18 = word_rotr 18 w15; shr3 = drop_bit 3 w15;
         small_sigma0 = rotr7 XOR rotr18 XOR shr3;
         schedule = schedule[t := small_sigma1 + w7 + small_sigma0 + w16]
     in bindE (require_research (schedule ! t = tr_w (rounds ! t))
          (ctxt @ '': reconstructed extended word W'' @ to_string t @ '' differs from trace.w'')) (\<lambda>_.
        Inr (schedule, entries @ [j_object J
          [(''t'', j_count J t), (''round'', j_count J (t + 1)), (''source'', j_string J ''extended_schedule''),
           (''w_t_minus_2'', j_word J w2), (''w_t_minus_7'', j_word J w7), (''w_t_minus_15'', j_word J w15),
           (''w_t_minus_16'', j_word J w16), (''rotr17_w_t_minus_2'', j_word J rotr17), (''rotr19_w_t_minus_2'', j_word J rotr19),
           (''shr10_w_t_minus_2'', j_word J shr10), (''small_sigma1'', j_word J small_sigma1),
           (''rotr7_w_t_minus_15'', j_word J rotr7), (''rotr18_w_t_minus_15'', j_word J rotr18),
           (''shr3_w_t_minus_15'', j_word J shr3), (''small_sigma0'', j_word J small_sigma0),
           (''result_w'', j_word J (schedule ! t))]]))))"

definition research_schedule_json :: "'j json_api \<Rightarrow> bytes \<Rightarrow> round_trace list \<Rightarrow> string \<Rightarrow> 'j outcome" where
  "research_schedule_json J block rounds ctxt =
    bindE (require_research (length rounds = 64) (ctxt @ '': message schedule requires exactly 64 traced rounds'')) (\<lambda>_.
    bindE (foldE (direct_word J block rounds ctxt) [0..<16] (replicate 64 0, [])) (\<lambda>first.
    bindE (foldE (extended_word J rounds ctxt) [16..<64] first) (\<lambda>(schedule, entries).
      Inr (j_object J
        [(''block_hex'', j_string J (to_hex block)), (''word_count'', j_count J (length entries)),
         (''extended_schedule_validated'', j_boolean J True), (''words'', j_array J entries)]))))"
section \<open>Rounds and compressions\<close>

text \<open>The constants of the rounds are derived by the first compression and compared by the others.\<close>

definition derive_constant :: "round_trace \<Rightarrow> bool \<Rightarrow> string \<Rightarrow> u32 list \<Rightarrow> (u32 list \<times> u32) outcome" where
  "derive_constant trace establish_constants ctxt constants =
    (let derived_k = tr_temp1 trace - rh (tr_before trace) - tr_sum1 trace - tr_choice trace - tr_w trace
     in if establish_constants then Inr (constants[round_index trace := derived_k], derived_k)
        else bindE (require_research (constants ! round_index trace = derived_k)
               (ctxt @ '': derived K differs from the value established by the first compression'')) (\<lambda>_.
               Inr (constants, derived_k)))"

definition check_functions :: "round_trace \<Rightarrow> string \<Rightarrow> unit outcome" where
  "check_functions trace ctxt =
    (let r = tr_before trace
     in bindE (require_research (word_rotr 2 (ra r) XOR word_rotr 13 (ra r) XOR word_rotr 22 (ra r) = tr_sum0 trace) (ctxt @ '': Sigma0 mismatch'')) (\<lambda>_.
        bindE (require_research (word_rotr 6 (re r) XOR word_rotr 11 (re r) XOR word_rotr 25 (re r) = tr_sum1 trace) (ctxt @ '': Sigma1 mismatch'')) (\<lambda>_.
        bindE (require_research ((re r AND rf r) XOR (NOT (re r) AND rg r) = tr_choice trace) (ctxt @ '': choice mismatch'')) (\<lambda>_.
          require_research ((ra r AND rb r) XOR (ra r AND rc r) XOR (rb r AND rc r) = tr_majority trace) (ctxt @ '': majority mismatch'')))))"

definition check_transfers :: "round_trace \<Rightarrow> string \<Rightarrow> unit outcome" where
  "check_transfers trace ctxt =
    (let r = tr_before trace; s = tr_after trace
     in bindE (require_research (rb s = ra r) (ctxt @ '': new_b transfer mismatch'')) (\<lambda>_.
        bindE (require_research (rc s = rb r) (ctxt @ '': new_c transfer mismatch'')) (\<lambda>_.
        bindE (require_research (rd s = rc r) (ctxt @ '': new_d transfer mismatch'')) (\<lambda>_.
        bindE (require_research (rf s = re r) (ctxt @ '': new_f transfer mismatch'')) (\<lambda>_.
        bindE (require_research (rg s = rf r) (ctxt @ '': new_g transfer mismatch'')) (\<lambda>_.
          require_research (rh s = rg r) (ctxt @ '': new_h transfer mismatch'')))))))"

definition register_distances :: "'j json_api \<Rightarrow> research_state \<Rightarrow> research_state \<Rightarrow> 'j \<times> nat" where
  "register_distances J left right = fold (\<lambda>i (obj, tot).
     (let distance = research_word_hamming (left ! i) (right ! i)
      in (j_set J obj (kResearchRegisters ! i) (j_count J distance), tot + distance)))
    [0..<length left] (j_object J [], 0)"

definition research_round_json ::
    "'j json_api \<Rightarrow> round_trace \<Rightarrow> nat \<Rightarrow> bool \<Rightarrow> string \<Rightarrow> u32 list \<Rightarrow> (u32 list \<times> 'j) outcome" where
  "research_round_json J trace sha establish_constants ctxt constants =
    (let r = tr_before trace; s = tr_after trace
     in bindE (check_functions trace ctxt) (\<lambda>_.
        bindE (derive_constant trace establish_constants ctxt constants) (\<lambda>(constants, derived_k).
        bindE (research_addition_json J
            [(''h'', rh r), (''sum1'', tr_sum1 trace), (''choice'', tr_choice trace), (''derived_k'', derived_k), (''w'', tr_w trace)]
            (tr_temp1 trace) (ctxt @ '': T1'')) (\<lambda>temp1.
        bindE (research_addition_json J [(''sum0'', tr_sum0 trace), (''majority'', tr_majority trace)]
            (tr_temp2 trace) (ctxt @ '': T2'')) (\<lambda>temp2.
        bindE (research_addition_json J [(''temp1'', tr_temp1 trace), (''temp2'', tr_temp2 trace)] (ra s) (ctxt @ '': new_a'')) (\<lambda>new_a.
        bindE (research_addition_json J [(''d'', rd r), (''temp1'', tr_temp1 trace)] (re s) (ctxt @ '': new_e'')) (\<lambda>new_e.
        bindE (check_transfers trace ctxt) (\<lambda>_.
          let before = research_before_state trace; after = research_after_state trace;
              (register_hamming, total_hamming) = register_distances J before after
          in Inr (constants, j_object J
            [(''identity'', j_object J
                [(''sha'', j_count J sha), (''compression'', j_count J (compression_index trace)),
                 (''round'', j_count J (round_index trace + 1))]),
             (''message'', j_object J [(''w'', j_word J (tr_w trace))]),
             (''before'', research_state_json J before),
             (''large_sigma0'', j_object J
                [(''rotr2_a'', j_word J (word_rotr 2 (ra r))), (''rotr13_a'', j_word J (word_rotr 13 (ra r))),
                 (''rotr22_a'', j_word J (word_rotr 22 (ra r))), (''sum0'', j_word J (tr_sum0 trace))]),
             (''large_sigma1'', j_object J
                [(''rotr6_e'', j_word J (word_rotr 6 (re r))), (''rotr11_e'', j_word J (word_rotr 11 (re r))),
                 (''rotr25_e'', j_word J (word_rotr 25 (re r))), (''sum1'', j_word J (tr_sum1 trace))]),
             (''functions'', j_object J [(''choice'', j_word J (tr_choice trace)), (''majority'', j_word J (tr_majority trace))]),
             (''derived_k'', j_word J derived_k), (''temp1'', temp1), (''temp2'', temp2),
             (''state_construction'', j_object J
                [(''new_a'', new_a), (''new_e'', new_e),
                 (''transfers'', j_object J
                    [(''new_b_from_old_a'', j_word J (rb s)), (''new_c_from_old_b'', j_word J (rc s)),
                     (''new_d_from_old_c'', j_word J (rd s)), (''new_f_from_old_e'', j_word J (rf s)),
                     (''new_g_from_old_f'', j_word J (rg s)), (''new_h_from_old_g'', j_word J (rh s))])]),
             (''after'', research_state_json J after),
             (''before_to_after_hamming'', j_object J
                [(''description'', j_string J
                    ''descriptive BEFORE-to-AFTER register distance; six registers are algorithmic transfers''),
                 (''registers'', register_hamming), (''total'', j_count J total_hamming)]),
             (''validation'', j_object J
                [(''primitives'', j_boolean J True), (''temp1'', j_boolean J True), (''temp2'', j_boolean J True),
                 (''new_a'', j_boolean J True), (''new_e'', j_boolean J True), (''register_transfers'', j_boolean J True)])])))))))))"

definition check_indices :: "nat \<Rightarrow> round_trace list \<Rightarrow> string \<Rightarrow> unit outcome" where
  "check_indices compression rounds ctxt = foldE (\<lambda>i _.
    bindE (require_research (compression_index (rounds ! i) = compression)
      (ctxt @ '': trace compression index mismatch at round '' @ to_string (i + 1))) (\<lambda>_.
      require_research (round_index (rounds ! i) = i)
        (ctxt @ '': trace round index mismatch at round '' @ to_string (i + 1)))) [0..<length rounds] ()"

definition check_transitions :: "round_trace list \<Rightarrow> string \<Rightarrow> unit outcome" where
  "check_transitions rounds ctxt = foldE (\<lambda>i _.
    require_research (research_after_state (rounds ! i) = research_before_state (rounds ! (i + 1)))
      (ctxt @ '': AFTER(round '' @ to_string (i + 1) @ '') differs from BEFORE(round '' @ to_string (i + 2) @ '')''))
    [0..<length rounds - 1] ()"

definition feed_forward_entry ::
    "'j json_api \<Rightarrow> research_state \<Rightarrow> research_state \<Rightarrow> research_state \<Rightarrow> string \<Rightarrow> nat \<Rightarrow> 'j outcome" where
  "feed_forward_entry J input_state final_working_state expected_output ctxt i =
    bindE (research_addition_json J
        [(''input_chaining_word'', input_state ! i), (''final_working_word'', final_working_state ! i)]
        (expected_output ! i) (ctxt @ ''/feed_forward/word'' @ to_string i)) (\<lambda>addition.
      Inr (fold (\<lambda>(k, v) obj. j_set J obj k v)
        [(''word_index'', j_count J i), (''register'', j_string J (kResearchRegisters ! i)),
         (''input_chaining_word'', j_word J (input_state ! i)), (''final_working_word'', j_word J (final_working_state ! i)),
         (''output_chaining_word'', j_word J (expected_output ! i))] addition))"

definition research_compression_json ::
    "'j json_api \<Rightarrow> nat \<Rightarrow> nat \<Rightarrow> bytes \<Rightarrow> round_trace list \<Rightarrow> research_state \<Rightarrow> bool \<Rightarrow> u32 list \<Rightarrow> (u32 list \<times> 'j) outcome" where
  "research_compression_json J sha compression block rounds expected_output establish_constants constants =
    (let ctxt = ''SHA'' @ to_string sha @ ''/compression'' @ to_string compression
     in bindE (require_research (length rounds = 64) (ctxt @ '': expected exactly 64 rounds'')) (\<lambda>_.
        bindE (check_indices compression rounds ctxt) (\<lambda>_.
        bindE (check_transitions rounds ctxt) (\<lambda>_.
        let input_state = research_before_state (rounds ! 0);
            final_working_state = research_after_state (last rounds)
        in bindE (foldE (\<lambda>i (constants, round_json).
             bindE (research_round_json J (rounds ! i) sha establish_constants (ctxt @ ''/round'' @ to_string (i + 1)) constants)
               (\<lambda>(constants, json). Inr (constants, round_json @ [json]))) [0..<length rounds] (constants, [])) (\<lambda>(constants, round_json).
           bindE (mapE (feed_forward_entry J input_state final_working_state expected_output ctxt) [0..<length input_state]) (\<lambda>feed_forward.
           bindE (research_schedule_json J block rounds ctxt) (\<lambda>schedule_json.
             Inr (constants, j_object J
               [(''sha'', j_count J sha), (''compression'', j_count J compression),
                (''input_state'', research_state_json J input_state), (''message_schedule'', schedule_json),
                (''rounds'', j_array J round_json), (''final_working_state'', research_state_json J final_working_state),
                (''feed_forward'', j_array J feed_forward), (''output_state'', research_state_json J expected_output),
                (''validation'', j_object J
                   [(''round_count'', j_signed J 64), (''message_schedule'', j_boolean J True),
                    (''intra_compression_transitions'', j_boolean J True), (''feed_forward'', j_boolean J True)])]))))))))"

section \<open>The nonces compared\<close>

text \<open>\<^verbatim>\<open>try_emplace\<close> followed by \<^verbatim>\<open>push_back\<close>, on the entries in ascending order.\<close>

fun push_label :: "u32 \<Rightarrow> 'j \<Rightarrow> (u32 \<times> 'j list) list \<Rightarrow> (u32 \<times> 'j list) list" where
  "push_label nonce label [] = [(nonce, [label])]"
| "push_label nonce label ((n, labels) # entries) =
    (if nonce < n then (nonce, [label]) # (n, labels) # entries
     else if nonce = n then (n, labels @ [label]) # entries
     else (n, labels) # push_label nonce label entries)"

definition add_selection :: "u32 \<Rightarrow> u32 \<times> 'j \<Rightarrow> (u32 \<times> 'j list) list \<Rightarrow> (u32 \<times> 'j list) list" where
  "add_selection reference_nonce = (\<lambda>(nonce, label) selected.
    (if nonce = reference_nonce then selected else push_label nonce label selected))"

definition neighbor_label :: "'j json_api \<Rightarrow> i64 \<Rightarrow> 'j" where
  "neighbor_label J delta = j_object J [(''kind'', j_string J ''neighbor''), (''delta'', j_signed J delta)]"

text \<open>One \<open>delta\<close> of the neighbour loop: the nonce below, unless it is negative, and the nonce above, unless it has 33 bits.\<close>

definition neighbors :: "'j json_api \<Rightarrow> u32 \<Rightarrow> nat \<Rightarrow> (u32 \<times> 'j) list" where
  "neighbors J reference_nonce delta =
    (if delta \<le> unat reference_nonce
     then [(of_nat (unat reference_nonce - delta), neighbor_label J (- of_nat delta))] else []) @
    (if unat reference_nonce + delta \<le> 0xffffffff
     then [(of_nat (unat reference_nonce + delta), neighbor_label J (of_nat delta))] else [])"

definition flips :: "'j json_api \<Rightarrow> u32 \<Rightarrow> (u32 \<times> 'j) list" where
  "flips J reference_nonce = List.map (\<lambda>i. (reference_nonce XOR push_bit i 1,
    j_object J [(''kind'', j_string J ''single_bit_flip''), (''bit'', j_count J i)])) [0..<32]"

definition research_nonce_selections :: "'j json_api \<Rightarrow> u32 \<Rightarrow> trace_analysis_config \<Rightarrow> 'j nonce_selection list" where
  "research_nonce_selections J reference_nonce analysis =
    (let add = fold (add_selection reference_nonce);
         selected = (if single_bit_flips analysis then add (flips J reference_nonce) [] else []);
         selected = add (concat (List.map (neighbors J reference_nonce) [1..<unat (neighbor_radius analysis) + 1])) selected;
         selected = add (List.map (\<lambda>n. (n, j_object J [(''kind'', j_string J ''control'')])) (control_nonces analysis)) selected
     in List.map (\<lambda>(nonce, labels). \<lparr>ns_nonce = nonce, ns_labels = labels\<rparr>) selected)"
section \<open>Trajectories\<close>

definition research_trace_record :: "'j json_api \<Rightarrow> bytes \<Rightarrow> u32 \<Rightarrow> 'j list \<Rightarrow> 'j trace_record outcome" where
  "research_trace_record J base_header nonce labels =
    (let header = set_nonce base_header nonce
     in bindE (trace_reduced_sha256d header 64) (\<lambda>trace.
        bindE (require_research (length (tr_rounds (first_sha trace)) = 128)
          (''nonce '' @ to_string (unat nonce) @ '': first SHA must contain 128 rounds'')) (\<lambda>_.
        bindE (require_research (length (tr_rounds (second_sha trace)) = 64)
          (''nonce '' @ to_string (unat nonce) @ '': second SHA must contain 64 rounds'')) (\<lambda>_.
          Inr \<lparr>tc_nonce = nonce, tc_labels = labels, tc_header = header, tc_trace = trace, tc_trajectory = j_null J\<rparr>))))"

text \<open>\<^verbatim>\<open>std::vector::at\<close>, and \<^verbatim>\<open>std::countr_zero\<close>.\<close>

definition vector_at :: "'a list \<Rightarrow> nat \<Rightarrow> 'a outcome" where
  "vector_at xs i = (if i < length xs then Inr (xs ! i) else Inl (Logic_error ''vector''))"

definition countr_zero :: "u32 \<Rightarrow> nat" where
  "countr_zero w = length (takeWhile (\<lambda>i. \<not> bit w i) [0..<32])"

definition annotate_label :: "'j json_api \<Rightarrow> u32 \<Rightarrow> u32 \<Rightarrow> u32 \<Rightarrow> 'j \<Rightarrow> 'j outcome" where
  "annotate_label J nonce reference_w3 w3 label =
    bindE (value_or J (j_get_string J) label ''kind'' []) (\<lambda>kind.
      if kind \<noteq> ''single_bit_flip'' then Inr label
      else
        let distance = research_word_hamming reference_w3 w3
        in bindE (require_research (distance = 1) (''nonce '' @ to_string (unat nonce) @
             '': single-bit nonce flip did not produce exactly one changed bit in W3'')) (\<lambda>_.
             Inr (j_set J (j_set J label ''w3_changed_bit'' (j_signed J (of_nat (countr_zero (reference_w3 XOR w3)))))
               ''w3_hamming'' (j_count J distance))))"

definition research_annotate_w3_labels :: "'j json_api \<Rightarrow> u32 \<Rightarrow> 'j trace_record \<Rightarrow> 'j trace_record outcome" where
  "research_annotate_w3_labels J reference_w3 record =
    bindE (vector_at (tr_rounds (first_sha (tc_trace record))) (64 + 3)) (\<lambda>round.
    bindE (mapE (annotate_label J (tc_nonce record) reference_w3 (tr_w round)) (tc_labels record)) (\<lambda>labels.
      Inr (record\<lparr>tc_labels := labels\<rparr>)))"

definition link_word :: "'j json_api \<Rightarrow> u32 \<Rightarrow> round_trace list \<Rightarrow> research_state \<Rightarrow> nat \<Rightarrow> 'j outcome" where
  "link_word J nonce second_rounds first_digest_words i =
    bindE (require_research (tr_w (second_rounds ! i) = first_digest_words ! i) (''nonce '' @ to_string (unat nonce) @
      '': first SHA digest does not match second SHA message word W'' @ to_string i)) (\<lambda>_.
      Inr (j_object J
        [(''t'', j_count J i), (''first_sha_digest_word'', j_word J (first_digest_words ! i)),
         (''second_sha_message_word'', j_word J (tr_w (second_rounds ! i))), (''match'', j_boolean J True)]))"

definition w3_change :: "'j json_api \<Rightarrow> 'j \<Rightarrow> 'j list outcome" where
  "w3_change J label =
    bindE (value_or J (j_get_string J) label ''kind'' []) (\<lambda>kind.
      if kind \<noteq> ''single_bit_flip'' then Inr []
      else
        bindE (j_at J label ''bit'') (\<lambda>nonce_bit.
        bindE (j_at J label ''w3_changed_bit'') (\<lambda>changed.
        bindE (j_at J label ''w3_hamming'') (\<lambda>distance.
          Inr [j_object J [(''nonce_bit'', nonce_bit), (''w3_changed_bit'', changed), (''w3_hamming'', distance)]]))))"

definition research_trajectory_json :: "'j json_api \<Rightarrow> 'j trace_record \<Rightarrow> u32 \<Rightarrow> 'j outcome" where
  "research_trajectory_json J record reference_w3 =
    (let first_rounds = tr_rounds (first_sha (tc_trace record));
         second_rounds = tr_rounds (second_sha (tc_trace record));
         first_digest = tr_digest (first_sha (tc_trace record));
         second_digest = tr_digest (second_sha (tc_trace record));
         header = tc_header record; nonce = tc_nonce record
     in bindE (research_final_block header 64) (\<lambda>first_tail.
        bindE (research_final_block first_digest 0) (\<lambda>second_block.
        bindE (vector_at first_rounds 64) (\<lambda>round64.
        let first_digest_words = research_digest_words first_digest;
            second_digest_words = research_digest_words second_digest
        in bindE (research_compression_json J 1 0 (take 64 header) (take 64 first_rounds) (research_before_state round64)
               True (replicate 64 0)) (\<lambda>(constants, compression0).
           bindE (research_compression_json J 1 1 first_tail (take 64 (drop 64 first_rounds)) first_digest_words
               False constants) (\<lambda>(constants, compression1).
           bindE (research_compression_json J 2 0 second_block (take 64 second_rounds) second_digest_words
               False constants) (\<lambda>(constants, compression2).
           bindE (mapE (link_word J nonce second_rounds first_digest_words) [0..<8]) (\<lambda>linked_words.
           bindE (vector_at first_rounds (64 + 3)) (\<lambda>round67.
           bindE (mapE (w3_change J) (tc_labels record)) (\<lambda>w3_changes.
           let final_hash = bitcoin_hash_hex (rt_digest (tc_trace record))
           in Inr (j_object J
             [(''nonce'', j_unsigned J (ucast nonce)), (''labels'', j_array J (tc_labels record)),
              (''header_hex'', j_string J (header_hex header)), (''nonce_hex'', j_word J nonce),
              (''nonce_header_bytes'', j_array J (List.map (\<lambda>i. j_unsigned J (ucast (header ! i))) [76..<80])),
              (''nonce_header_bytes_hex'', j_string J (nonce_header_le_hex header)),
              (''sha1_compression1_w3'', j_word J (tr_w round67)), (''sha1_compression1_w3_reference'', j_word J reference_w3),
              (''single_bit_w3_changes'', j_array J (concat w3_changes)), (''final_hash'', j_string J final_hash),
              (''first_sha'', j_object J
                 [(''digest'', j_string J (digest_hex first_digest)), (''digest_format'', j_string J ''sha256_digest_hex''),
                  (''compressions'', j_array J [compression0, compression1])]),
              (''first_sha_to_second_sha'', j_object J
                 [(''first_sha_digest'', j_string J (digest_hex first_digest)),
                  (''second_sha_message_prefix_bytes'', j_string J (to_hex first_digest)),
                  (''second_sha_message_block_hex'', j_string J (to_hex second_block)),
                  (''word_links'', j_array J linked_words), (''exact_match'', j_boolean J True)]),
              (''second_sha'', j_object J
                 [(''digest'', j_string J (digest_hex second_digest)), (''digest_format'', j_string J ''sha256_digest_hex''),
                  (''compressions'', j_array J [compression2])]),
              (''final'', j_object J
                 [(''first_sha_digest_raw'', j_string J (digest_hex first_digest)),
                  (''second_sha_digest_raw'', j_string J (digest_hex second_digest)),
                  (''bitcoin_display_hash'', j_string J final_hash)]),
              (''validation'', j_object J
                 [(''total_rounds'', j_signed J 192), (''compression_count'', j_signed J 3),
                  (''message_schedules'', j_boolean J True), (''round_arithmetic'', j_boolean J True),
                  (''register_transfers'', j_boolean J True), (''intra_compression_transitions'', j_boolean J True),
                  (''feed_forward'', j_boolean J True), (''first_sha_to_second_sha'', j_boolean J True)])])))))))))))"

section \<open>Diffusion\<close>

definition research_state_diff_json :: "'j json_api \<Rightarrow> research_state \<Rightarrow> research_state \<Rightarrow> bool \<Rightarrow> 'j" where
  "research_state_diff_json J reference candidate include_ratio =
    (let (result, tot) = register_distances J reference candidate;
         result = j_set J result ''total_hamming'' (j_count J tot)
     in if include_ratio
        then j_set J result ''diffusion_ratio'' (j_double J (double_div (double_of_nat tot) (double_of_nat 256)))
        else result)"

type_synonym position = "nat \<times> nat \<times> nat"

definition research_round_position :: "'j json_api \<Rightarrow> position \<Rightarrow> 'j" where
  "research_round_position J = (\<lambda>(sha, compression, round).
    j_object J [(''sha'', j_count J sha), (''compression'', j_count J compression), (''round'', j_count J round)])"

record 'j diffusion =
  df_w :: "position option"
  df_temp1 :: "position option"
  df_after :: "position option"
  df_before :: "position option"
  df_primitive :: "position option"
  df_rounds :: "'j list"

definition first_position :: "position option \<Rightarrow> bool \<Rightarrow> position \<Rightarrow> position option" where
  "first_position current differs position = (if current = None \<and> differs then Some position else current)"

definition round_difference :: "'j json_api \<Rightarrow> position \<Rightarrow> round_trace \<Rightarrow> round_trace \<Rightarrow> 'j" where
  "round_difference J position a b =
    (let (sha, compression, human_round) = position; r = tr_before a; s = tr_before b;
         ham = (\<lambda>x y. j_count J (research_word_hamming x y))
     in j_object J
       [(''sha'', j_count J sha), (''compression'', j_count J compression), (''round'', j_count J human_round),
        (''w_hamming'', ham (tr_w a) (tr_w b)),
        (''rotr2_a_hamming'', ham (word_rotr 2 (ra r)) (word_rotr 2 (ra s))),
        (''rotr13_a_hamming'', ham (word_rotr 13 (ra r)) (word_rotr 13 (ra s))),
        (''rotr22_a_hamming'', ham (word_rotr 22 (ra r)) (word_rotr 22 (ra s))),
        (''sum0_hamming'', ham (tr_sum0 a) (tr_sum0 b)),
        (''rotr6_e_hamming'', ham (word_rotr 6 (re r)) (word_rotr 6 (re s))),
        (''rotr11_e_hamming'', ham (word_rotr 11 (re r)) (word_rotr 11 (re s))),
        (''rotr25_e_hamming'', ham (word_rotr 25 (re r)) (word_rotr 25 (re s))),
        (''sum1_hamming'', ham (tr_sum1 a) (tr_sum1 b)), (''choice_hamming'', ham (tr_choice a) (tr_choice b)),
        (''majority_hamming'', ham (tr_majority a) (tr_majority b)), (''temp1_hamming'', ham (tr_temp1 a) (tr_temp1 b)),
        (''temp2_hamming'', ham (tr_temp2 a) (tr_temp2 b)),
        (''before'', research_state_diff_json J (research_before_state a) (research_before_state b) False),
        (''after'', research_state_diff_json J (research_after_state a) (research_after_state b) True)])"

definition compare_round :: "'j json_api \<Rightarrow> nat \<Rightarrow> round_trace \<times> round_trace \<Rightarrow> 'j diffusion \<Rightarrow> 'j diffusion" where
  "compare_round J sha = (\<lambda>(a, b) d.
    (let position = (sha, compression_index a, round_index a + 1);
         before_total = research_state_hamming (research_before_state a) (research_before_state b);
         after_total = research_state_hamming (research_after_state a) (research_after_state b)
     in d\<lparr>df_w := first_position (df_w d) (tr_w a \<noteq> tr_w b) position,
          df_temp1 := first_position (df_temp1 d) (tr_temp1 a \<noteq> tr_temp1 b) position,
          df_after := first_position (df_after d) (after_total \<noteq> 0) position,
          df_before := first_position (df_before d) (before_total \<noteq> 0) position,
          df_primitive := first_position (df_primitive d)
            (tr_sum0 a \<noteq> tr_sum0 b \<or> tr_sum1 a \<noteq> tr_sum1 b \<or> tr_choice a \<noteq> tr_choice b \<or>
             tr_majority a \<noteq> tr_majority b \<or> tr_temp2 a \<noteq> tr_temp2 b) position,
          df_rounds := df_rounds d @ [round_difference J position a b]\<rparr>))"

definition position_or_null :: "'j json_api \<Rightarrow> position option \<Rightarrow> 'j" where
  "position_or_null J p = (case p of None \<Rightarrow> j_null J | Some q \<Rightarrow> research_round_position J q)"

definition equal_rounds :: "round_trace list \<Rightarrow> round_trace list \<Rightarrow> (nat \<Rightarrow> string) \<Rightarrow> nat list \<Rightarrow> unit outcome" where
  "equal_rounds xs ys detail is = foldE (\<lambda>i _. require_research (research_round_equal (xs ! i) (ys ! i)) (detail i)) is ()"

definition research_diffusion_json :: "'j json_api \<Rightarrow> 'j trace_record \<Rightarrow> 'j trace_record \<Rightarrow> 'j outcome" where
  "research_diffusion_json J reference candidate =
    (let r1 = tr_rounds (first_sha (tc_trace reference)); r2 = tr_rounds (second_sha (tc_trace reference));
         c1 = tr_rounds (first_sha (tc_trace candidate)); c2 = tr_rounds (second_sha (tc_trace candidate));
         name = ''nonce '' @ to_string (unat (tc_nonce candidate))
     in bindE (require_research (length c1 = length r1 \<and> length c2 = length r2)
          (name @ '': candidate/reference trace sizes differ'')) (\<lambda>_.
        bindE (equal_rounds r1 c1 (\<lambda>i. name @ '': SHA1/compression0 differs at round '' @ to_string (i + 1)) [0..<64]) (\<lambda>_.
        bindE (equal_rounds r1 c1 (\<lambda>i. name @ '': SHA1/compression1 round '' @ to_string (i - 63) @ '' must be identical'')
          [64..<67]) (\<lambda>_.
        let d = fold (compare_round J 2) (zip r2 c2) (fold (compare_round J 1) (zip r1 c1)
              \<lparr>df_w = None, df_temp1 = None, df_after = None, df_before = None, df_primitive = None, df_rounds = []\<rparr>)
        in bindE (require_research (df_w d = Some (1, 1, 4))
             (name @ '': first W difference must be SHA1/compression1/round4'')) (\<lambda>_.
           Inr (j_object J
             [(''nonce'', j_unsigned J (ucast (tc_nonce candidate))), (''labels'', j_array J (tc_labels candidate)),
              (''final_hash'', j_string J (bitcoin_hash_hex (rt_digest (tc_trace candidate)))),
              (''final_digest_hamming'', j_count J (hamming_distance (rt_digest (tc_trace reference)) (rt_digest (tc_trace candidate)))),
              (''first_w_difference'', position_or_null J (df_w d)),
              (''first_temp1_difference'', position_or_null J (df_temp1 d)),
              (''first_after_state_difference'', position_or_null J (df_after d)),
              (''first_before_state_difference'', position_or_null J (df_before d)),
              (''first_non_w_primitive_difference'', position_or_null J (df_primitive d)),
              (''rounds'', j_array J (df_rounds d)),
              (''validation'', j_object J
                 [(''round_count'', j_signed J 192), (''sha1_compression0_identical'', j_boolean J True),
                  (''sha1_compression1_rounds_1_to_3_identical'', j_boolean J True),
                  (''first_w_difference_is_round_4'', j_boolean J True)])]))))))"
section \<open>The reports\<close>

record 'j analysis_reports =
  ar_trajectories :: 'j
  ar_diffusion :: 'j
  ar_candidate_count :: nat
  ar_trajectory_count :: nat

definition genesis_hash :: string where
  "genesis_hash = ''000000000019d6689c085ae165831e934ff763ae46a2a6c172b3f1b60a8ce26f''"

text \<open>One selection: the record with its labels and its trajectory; \<open>previous\<close> is the last nonce seen.\<close>

definition analyse_selection ::
    "'j json_api \<Rightarrow> bytes \<Rightarrow> u32 \<Rightarrow> u32 \<Rightarrow> 'j nonce_selection \<Rightarrow> u32 option \<times> bool \<times> 'j trace_record list \<Rightarrow>
      (u32 option \<times> bool \<times> 'j trace_record list) outcome" where
  "analyse_selection J reference_header reference_nonce reference_w3 selection = (\<lambda>(previous, multiple, candidates).
    bindE (require_research (ns_nonce selection \<noteq> reference_nonce) ''reference nonce was incorrectly retained as a candidate'') (\<lambda>_.
    bindE (case previous of None \<Rightarrow> Inr ()
           | Some p \<Rightarrow> require_research (p < ns_nonce selection) ''candidate nonce set is not strictly unique'') (\<lambda>_.
    bindE (research_trace_record J reference_header (ns_nonce selection) (ns_labels selection)) (\<lambda>record.
    bindE (research_annotate_w3_labels J reference_w3 record) (\<lambda>record.
    bindE (research_trajectory_json J record reference_w3) (\<lambda>trajectory.
      Inr (Some (ns_nonce selection), multiple \<or> length (ns_labels selection) > 1,
           candidates @ [record\<lparr>tc_trajectory := trajectory\<rparr>])))))))"

definition analysis_metadata :: "'j json_api \<Rightarrow> trace_analysis_config \<Rightarrow> 'j" where
  "analysis_metadata J analysis = j_object J
    [(''carry_model'', j_string J ''order_independent_bit_column_sum''),
     (''word_value_format'', j_string J ''lowercase_8_digit_hex_without_prefix''),
     (''round_numbering'', j_string J ''human_1_to_64''), (''rounds_per_compression'', j_signed J 64),
     (''compressions_per_sha'', j_object J [(''first_sha'', j_signed J 2), (''second_sha'', j_signed J 1)]),
     (''full_trajectories_saved'', j_boolean J (save_full_trajectories analysis)),
     (''single_bit_flips'', j_boolean J (single_bit_flips analysis)),
     (''neighbor_radius'', j_unsigned J (ucast (neighbor_radius analysis))),
     (''control_nonce_count'', j_count J (length (control_nonces analysis)))]"

definition analysis_validation :: "'j json_api \<Rightarrow> bool \<Rightarrow> 'j" where
  "analysis_validation J multiple_labels_preserved = j_object J
    [(''candidate_nonces_unique'', j_boolean J True), (''reference_excluded_from_candidates'', j_boolean J True),
     (''multiple_labels_preserved'', j_boolean J multiple_labels_preserved), (''rounds_per_trajectory'', j_signed J 192),
     (''compressions_per_trajectory'', j_signed J 3), (''message_schedule_words_per_compression'', j_signed J 64),
     (''extended_schedules'', j_boolean J True), (''round_arithmetic'', j_boolean J True),
     (''register_transfers'', j_boolean J True), (''intra_compression_transitions'', j_boolean J True),
     (''feed_forward'', j_boolean J True), (''first_sha_to_second_sha'', j_boolean J True),
     (''sha1_compression0_identical'', j_boolean J True), (''sha1_compression1_rounds_1_to_3_identical'', j_boolean J True),
     (''first_w_difference_is_sha1_compression1_round4'', j_boolean J True),
     (''single_bit_flip_w3_hamming_is_one'', j_boolean J True), (''reference_genesis_hash'', j_boolean J True)]"

definition report_head :: "'j json_api \<Rightarrow> string \<Rightarrow> string \<Rightarrow> u32 \<Rightarrow> (string \<times> 'j) list" where
  "report_head J axis header_id reference_nonce =
    [(''schema_version'', j_signed J 1), (''mode'', j_string J ''research_trace_analysis''), (''axis'', j_string J axis),
     (''header_id'', j_string J header_id), (''reference_nonce'', j_unsigned J (ucast reference_nonce))]"

definition research_analysis_reports ::
    "'j json_api \<Rightarrow> bytes \<Rightarrow> reduced_trace \<Rightarrow> string \<Rightarrow> u32 \<Rightarrow> trace_analysis_config \<Rightarrow> 'j analysis_reports outcome" where
  "research_analysis_reports J reference_header reference_trace header_id reference_nonce analysis =
    bindE (require_research (bitcoin_hash_hex (rt_digest reference_trace) = genesis_hash)
      ''reference nonce does not produce the exact Bitcoin Genesis hash'') (\<lambda>_.
    bindE (require_research (length (tr_rounds (first_sha reference_trace)) = 128 \<and>
        length (tr_rounds (second_sha reference_trace)) = 64)
      ''reference trace must contain exactly 192 rounds in three compressions'') (\<lambda>_.
    let reference = \<lparr>tc_nonce = reference_nonce, tc_labels = [j_object J [(''kind'', j_string J ''reference'')]],
          tc_header = reference_header, tc_trace = reference_trace, tc_trajectory = j_null J\<rparr>
    in bindE (vector_at (tr_rounds (first_sha reference_trace)) (64 + 3)) (\<lambda>round67.
       bindE (research_trajectory_json J reference (tr_w round67)) (\<lambda>trajectory.
       bindE (foldE (analyse_selection J reference_header reference_nonce (tr_w round67))
          (research_nonce_selections J reference_nonce analysis) (None, False, [])) (\<lambda>(previous, multiple, candidates).
       bindE (mapE (research_diffusion_json J (reference\<lparr>tc_trajectory := trajectory\<rparr>)) candidates) (\<lambda>comparisons.
       let metadata = analysis_metadata J analysis; validation = analysis_validation J multiple;
           trajectories = trajectory # List.map tc_trajectory candidates
       in Inr \<lparr>ar_trajectories =
           (if save_full_trajectories analysis
            then j_object J (report_head J ''intrinsic_causal_trajectory'' header_id reference_nonce @
              [(''candidate_count'', j_count J (length candidates)), (''trajectory_count'', j_count J (length trajectories)),
               (''carry_model'', j_string J ''order_independent_bit_column_sum''), (''metadata'', metadata),
               (''validation'', validation), (''trajectories'', j_array J trajectories)])
            else j_null J),
          ar_diffusion = j_object J (report_head J ''nonce_diffusion_against_reference'' header_id reference_nonce @
            [(''reference_hash'', j_string J (bitcoin_hash_hex (rt_digest reference_trace))),
             (''candidate_count'', j_count J (length candidates)), (''metadata'', metadata), (''validation'', validation),
             (''comparisons'', j_array J comparisons)]),
          ar_candidate_count = length candidates, ar_trajectory_count = length candidates + 1\<rparr>))))))"

end
