(* ===== verification/Research_Checks.thy ===== *)
theory Research_Checks
  imports Research_Trace
begin

text \<open>
  The guards of the trace analysis hold: each recomputation of \<^verbatim>\<open>research_trajectory_json\<close> and
  \<^verbatim>\<open>research_diffusion_json\<close> agrees with the trace, for every header of 80 bytes and every nonce.
\<close>

section \<open>Column sums\<close>

lemma require_research_simps [simp]:
  "require_research True detail = Inr ()"
  "require_research c detail = Inr x \<longleftrightarrow> c"
  by (auto simp: require_research_def requireE_def)

definition low_sum :: "nat \<Rightarrow> u32 list \<Rightarrow> nat" where
  "low_sum n vals = sum_list (List.map (\<lambda>v. take_bit n (unat v)) vals)"

definition bit_column :: "nat \<Rightarrow> u32 list \<Rightarrow> nat" where
  "bit_column n vals = length (filter (\<lambda>v. bit v n) vals)"

lemma low_sum_0 [simp]: "low_sum 0 vals = 0"
  by (induction vals) (simp_all add: low_sum_def)

lemma low_sum_32: "low_sum 32 vals = sum_list (List.map unat vals)"
proof -
  have "take_bit 32 (unat v) = unat v" for v :: u32
    using unsigned_less [of v, where ?'a = nat] by (simp add: take_bit_eq_mod)
  then show ?thesis by (simp add: low_sum_def)
qed

lemma low_sum_Suc: "low_sum (Suc n) vals = low_sum n vals + 2 ^ n * bit_column n vals"
proof (induction vals)
  case (Cons v vals)
  have "take_bit (Suc n) (unat v) = take_bit n (unat v) + 2 ^ n * of_bool (bit v n)"
    by (simp add: take_bit_Suc_from_most bit_unsigned_iff add.commute)
  with Cons show ?case by (simp add: low_sum_def bit_column_def algebra_simps)
qed (simp add: low_sum_def bit_column_def)

lemma column_bit: "ucast (drop_bit n v AND 1 :: u32) = (of_bool (bit v n) :: u64)"
proof -
  have "drop_bit n v AND 1 = (of_bool (bit v n) :: u32)"
    by (rule bit_word_eqI) (auto simp: bit_simps bit_1_iff)
  then show ?thesis by simp
qed

lemma column_total:
  "unat c + length vals < 2 ^ 64 \<Longrightarrow>
    unat (fold (\<lambda>v t. t + ucast (drop_bit n v AND 1 :: u32)) vals (c :: u64)) = unat c + bit_column n vals"
proof (induction vals arbitrary: c)
  case (Cons v vals)
  have "unat (c + of_bool (bit v n)) = unat c + of_bool (bit v n)"
    using Cons.prems by (simp add: unat_word_ariths(1))
  with Cons.IH [of "c + of_bool (bit v n)"] Cons.prems show ?case
    by (simp add: column_bit bit_column_def)
qed (simp add: bit_column_def)

lemma or_fresh_bit: "unat (w :: u32) < 2 ^ n \<Longrightarrow> n < 32 \<Longrightarrow> unat (w OR push_bit n 1) = unat w + 2 ^ n"
proof -
  assume w: "unat w < 2 ^ n" and n: "n < 32"
  have "w AND push_bit n 1 = 0"
  proof (rule bit_word_eqI)
    fix k assume k: "k < LENGTH(32)"
    have "\<not> bit w n"
    proof
      assume "bit w n"
      then have "bit (unat w) n" by (simp add: bit_unsigned_iff)
      then show False using w by (simp add: bit_iff_odd)
    qed
    then show "bit (w AND push_bit n 1) k = bit (0 :: u32) k" by (auto simp: bit_simps bit_1_iff)
  qed
  then have "unat (w OR push_bit n 1) = unat w + unat (push_bit n 1 :: u32)" by (rule unat_or_disjoint)
  moreover have "unat (push_bit n 1 :: u32) = take_bit LENGTH(32) (push_bit n (unat (1 :: u32)))"
    by (rule unsigned_push_bit_eq)
  moreover have "(2 :: nat) ^ n < 2 ^ 32" using n by (intro power_strict_increasing) simp_all
  ultimately show ?thesis by (simp add: push_bit_eq_mult [of n "1 :: nat"] take_bit_eq_mod)
qed

definition columns_ok :: "u32 list \<Rightarrow> nat \<Rightarrow> column_state \<Rightarrow> bool" where
  "columns_ok vals n c \<longleftrightarrow>
    unat (cs_sum c) + 2 ^ n * unat (cs_carry c) = low_sum n vals \<and> unat (cs_sum c) < 2 ^ n \<and>
    unat (cs_carry c) \<le> length vals \<and> unat (cs_max c) \<le> length vals \<and> cs_run c \<le> cs_longest c \<and>
    cs_longest c \<le> cs_count c \<and> cs_count c \<le> n"

lemma add_column_ok:
  assumes "columns_ok vals n c" "n < 32" "length vals < 2 ^ 32"
  shows "columns_ok vals (Suc n) (add_column vals n c)"
proof -
  define t where "t = fold (\<lambda>v t. t + ucast (drop_bit n v AND 1 :: u32)) vals (cs_carry c)"
  have col: "bit_column n vals \<le> length vals" by (simp add: bit_column_def)
  have t: "unat t = unat (cs_carry c) + bit_column n vals"
    unfolding t_def using assms by (intro column_total) (simp add: columns_ok_def)
  have carry: "unat (drop_bit 1 t) = unat t div 2" by (simp add: drop_bit_eq_div unat_div)
  have odd: "t AND 1 \<noteq> 0 \<longleftrightarrow> odd (unat t)"
  proof -
    have "t AND 1 \<noteq> 0 \<longleftrightarrow> odd t" by (simp add: and_one_eq odd_iff_mod_2_eq_one)
    then show ?thesis by (simp add: odd_iff_mod_2_eq_one unat_mod word_unat_eq_iff) 
  qed
  have bound: "unat (drop_bit 1 t) \<le> length vals" using assms(1) col unfolding carry t columns_ok_def by linarith
  define s where "s = (if t AND 1 \<noteq> 0 then cs_sum c OR push_bit n 1 else cs_sum c)"
  have s: "unat s = unat (cs_sum c) + 2 ^ n * (unat t mod 2)"
    unfolding s_def odd using assms or_fresh_bit [of "cs_sum c" n] by (auto simp: columns_ok_def odd_iff_mod_2_eq_one)
  have "unat s + 2 ^ Suc n * (unat t div 2) = unat (cs_sum c) + 2 ^ n * unat t"
  proof -
    have "unat t = 2 * (unat t div 2) + unat t mod 2" by simp
    then have "2 ^ n * unat t = 2 ^ Suc n * (unat t div 2) + 2 ^ n * (unat t mod 2)"
      by (metis add_mult_distrib2 mult.assoc power_Suc2)
    then show ?thesis using s by simp
  qed
  also have "\<dots> = low_sum (Suc n) vals"
    using assms(1) unfolding low_sum_Suc t columns_ok_def by (simp add: algebra_simps)
  finally have val: "unat s + 2 ^ Suc n * unat (drop_bit 1 t) = low_sum (Suc n) vals" unfolding carry .
  have "unat t mod 2 \<le> 1" by simp
  then have small: "unat s < 2 ^ Suc n" using assms(1) unfolding s columns_ok_def
    by (cases "unat t mod 2 = 0") auto
  show ?thesis
    using val small bound assms(1)
    by (auto simp: columns_ok_def add_column_def t_def [symmetric] s_def [symmetric] Let_def max_def)
qed

lemma column_addition_ok: "length vals < 2 ^ 32 \<Longrightarrow> columns_ok vals 32 (column_addition vals)"
proof -
  assume len: "length vals < 2 ^ 32"
  have "columns_ok vals n (fold (add_column vals) [0..<n]
      \<lparr>cs_carry = 0, cs_sum = 0, cs_mask = 0, cs_count = 0, cs_longest = 0, cs_run = 0, cs_max = 0\<rparr>)" if "n \<le> 32" for n
    using that
  proof (induction n)
    case (Suc n)
    then show ?case using add_column_ok [OF _ _ len] by simp
  qed (simp add: columns_ok_def)
  then show ?thesis unfolding column_addition_def by blast
qed

lemma sum_list_word: "unat (sum_list vals) = sum_list (List.map unat (vals :: u32 list)) mod 2 ^ 32"
  by (induction vals) (simp_all add: unat_word_ariths(1) mod_simps)

lemma column_addition_value:
  assumes "length vals < 2 ^ 32"
  shows "cs_sum (column_addition vals) = sum_list vals"
    "unat (cs_carry (column_addition vals)) = sum_list (List.map unat vals) div 2 ^ 32"
proof -
  note ok = column_addition_ok [OF assms, unfolded columns_ok_def low_sum_32]
  then have "sum_list (List.map unat vals) = unat (cs_sum (column_addition vals)) + 2 ^ 32 * unat (cs_carry (column_addition vals))"
    by simp
  then have "sum_list (List.map unat vals) mod 2 ^ 32 = unat (cs_sum (column_addition vals))"
    "sum_list (List.map unat vals) div 2 ^ 32 = unat (cs_carry (column_addition vals))"
    using ok by simp_all
  then show "cs_sum (column_addition vals) = sum_list vals"
    "unat (cs_carry (column_addition vals)) = sum_list (List.map unat vals) div 2 ^ 32"
    by (simp_all add: word_unat_eq_iff sum_list_word)
qed

lemma addition_json_returns:
  assumes "operands \<noteq> []" "length operands < 2 ^ 32" "expected = sum_list (List.map snd operands)"
  shows "\<exists>j. research_addition_json J operands expected ctxt = Inr j"
  using assms by (simp add: research_addition_json_def column_addition_value Let_def)
section \<open>Schedules\<close>

lemma read_research_be32_eq:
  "off + 4 \<le> length bs \<Longrightarrow> read_research_be32 bs off = read_be32 (drop off bs)"
  by (simp add: read_research_be32_def read_be32_def)

text \<open>The array of the loop after \<open>n\<close> words.\<close>

definition schedule_prefix :: "bytes \<Rightarrow> nat \<Rightarrow> u32 list" where
  "schedule_prefix block n = List.map (schedule_spec block) [0..<n] @ replicate (64 - n) 0"

lemma schedule_prefix_nth: "k < n \<Longrightarrow> schedule_prefix block n ! k = schedule_spec block k"
  by (simp add: schedule_prefix_def nth_append)

lemma schedule_prefix_step: "n < 64 \<Longrightarrow> (schedule_prefix block n)[n := schedule_spec block n] = schedule_prefix block (Suc n)"
proof -
  assume "n < 64"
  then have "64 - n = Suc (64 - Suc n)" by simp
  then show ?thesis by (simp add: schedule_prefix_def list_update_append)
qed

lemma direct_fold:
  assumes "length block = 64" "\<And>t. t < 64 \<Longrightarrow> tr_w (rounds ! t) = schedule_spec block t"
  shows "n \<le> 16 \<Longrightarrow> \<exists>es. foldE (direct_word J block rounds ctxt) [0..<n] (replicate 64 0, []) = Inr (schedule_prefix block n, es)"
proof (induction n)
  case (Suc n)
  then obtain es where IH: "foldE (direct_word J block rounds ctxt) [0..<n] (replicate 64 0, []) = Inr (schedule_prefix block n, es)"
    by auto
  have "read_research_be32 block (n * 4) = schedule_spec block n"
    using Suc.prems assms(1) by (simp add: read_research_be32_eq schedule_spec.simps [of block n])
  moreover have "schedule_prefix block (Suc n) ! n = tr_w (rounds ! n)"
    using Suc.prems assms(2) by (simp add: schedule_prefix_nth)
  ultimately have "\<exists>es'. direct_word J block rounds ctxt n (schedule_prefix block n, es) = Inr (schedule_prefix block (Suc n), es')"
    using Suc.prems by (simp add: direct_word_def schedule_prefix_step Let_def)
  then show ?case using IH by (auto simp: foldE_append)
qed (simp add: schedule_prefix_def)

lemma extended_fold:
  assumes "\<And>t. t < 64 \<Longrightarrow> tr_w (rounds ! t) = schedule_spec block t"
  shows "n \<le> 48 \<Longrightarrow> \<exists>es'. foldE (extended_word J rounds ctxt) [16..<16 + n] (schedule_prefix block 16, es) =
    Inr (schedule_prefix block (16 + n), es')"
proof (induction n)
  case (Suc n)
  then obtain es' where IH: "foldE (extended_word J rounds ctxt) [16..<16 + n] (schedule_prefix block 16, es) =
      Inr (schedule_prefix block (16 + n), es')"
    by auto
  let ?S = "schedule_prefix block (16 + n)"
  have "[16..<16 + Suc n] = [16..<16 + n] @ [16 + n]" by (simp only: add_Suc_right upt_Suc le_add1 if_True)
  moreover have "schedule_spec block (16 + n) =
      (word_rotr 17 (?S ! (16 + n - 2)) XOR word_rotr 19 (?S ! (16 + n - 2)) XOR drop_bit 10 (?S ! (16 + n - 2))) +
      ?S ! (16 + n - 7) +
      (word_rotr 7 (?S ! (16 + n - 15)) XOR word_rotr 18 (?S ! (16 + n - 15)) XOR drop_bit 3 (?S ! (16 + n - 15))) +
      ?S ! (16 + n - 16)"
    by (subst schedule_spec.simps) (simp add: schedule_prefix_nth add.commute add.left_commute)
  moreover have "schedule_prefix block (Suc (16 + n)) ! (16 + n) = tr_w (rounds ! (16 + n))"
    using Suc.prems assms by (simp add: schedule_prefix_nth)
  moreover have "\<exists>es''. extended_word J rounds ctxt (16 + n) (?S, es') = Inr (schedule_prefix block (Suc (16 + n)), es'')"
    using calculation(2,3) Suc.prems schedule_prefix_step [of "16 + n" block]
    by (simp add: extended_word_def Let_def)
  ultimately show ?case using IH by (auto simp: foldE_append)
qed auto

lemma schedule_json_returns:
  assumes "length block = 64" "length rounds = 64" "\<And>t. t < 64 \<Longrightarrow> tr_w (rounds ! t) = message_schedule block ! t"
  shows "\<exists>j. research_schedule_json J block rounds ctxt = Inr j"
proof -
  have w: "tr_w (rounds ! t) = schedule_spec block t" if "t < 64" for t
    using assms(3) [OF that] that by (simp add: message_schedule_spec)
  obtain es where d: "foldE (direct_word J block rounds ctxt) [0..<16] (replicate 64 0, []) = Inr (schedule_prefix block 16, es)"
    using direct_fold [OF assms(1) w, of 16] by blast
  obtain es' where "foldE (extended_word J rounds ctxt) [16..<64] (schedule_prefix block 16, es) = Inr (schedule_prefix block 64, es')"
    using extended_fold [OF w, of 48 J ctxt es] by auto
  with d assms(2) show ?thesis by (simp add: research_schedule_json_def)
qed

section \<open>Rounds\<close>

lemma round_json_returns:
  assumes "tr = trace_round c sched i r" "i < 64" "establish \<or> constants ! i = kTable ! i"
  shows "\<exists>j. research_round_json J tr sha establish ctxt constants =
    Inr (if establish then constants[i := kTable ! i] else constants, j)"
proof -
  have k: "tr_temp1 tr - rh r - tr_sum1 tr - tr_choice tr - tr_w tr = kTable ! i"
    by (simp add: assms(1) trace_round_def Let_def)
  have fns: "check_functions tr ctxt = Inr ()"
    by (simp add: check_functions_def assms(1) trace_round_def Let_def big_sum0_def big_sum1_def choice_def majority_def)
  have derive: "derive_constant tr establish ctxt constants =
      Inr (if establish then constants[i := kTable ! i] else constants, kTable ! i)"
    using assms(3) k by (auto simp: derive_constant_def assms(1) trace_round_fields Let_def)
  have transfers: "check_transfers tr ctxt = Inr ()"
    by (simp add: check_transfers_def assms(1) trace_round_def Let_def)
  have before: "tr_before tr = r" by (simp add: assms(1) trace_round_fields)
  have "\<exists>j. research_addition_json J
      [(''h'', rh r), (''sum1'', tr_sum1 tr), (''choice'', tr_choice tr), (''derived_k'', kTable ! i), (''w'', tr_w tr)]
      (tr_temp1 tr) (ctxt @ '': T1'') = Inr j"
    by (intro addition_json_returns) (simp_all add: assms(1) trace_round_def Let_def add.assoc)
  moreover have "\<exists>j. research_addition_json J [(''sum0'', tr_sum0 tr), (''majority'', tr_majority tr)]
      (tr_temp2 tr) (ctxt @ '': T2'') = Inr j"
    by (intro addition_json_returns) (simp_all add: assms(1) trace_round_def Let_def)
  moreover have "\<exists>j. research_addition_json J [(''temp1'', tr_temp1 tr), (''temp2'', tr_temp2 tr)]
      (ra (tr_after tr)) (ctxt @ '': new_a'') = Inr j"
    by (intro addition_json_returns) (simp_all add: assms(1) trace_round_def Let_def)
  moreover have "\<exists>j. research_addition_json J [(''d'', rd r), (''temp1'', tr_temp1 tr)]
      (re (tr_after tr)) (ctxt @ '': new_e'') = Inr j"
    by (intro addition_json_returns) (simp_all add: assms(1) trace_round_def Let_def)
  ultimately show ?thesis
    unfolding research_round_json_def Let_def before fns derive transfers
    by (auto split: prod.splits)
qed
section \<open>Compressions\<close>

lemma foldE_unit: "(\<And>x. x \<in> set xs \<Longrightarrow> f x () = Inr ()) \<Longrightarrow> foldE f xs () = Inr ()"
  by (induction xs) simp_all

lemma mapE_returns: "(\<And>x. x \<in> set xs \<Longrightarrow> \<exists>y. f x = Inr y) \<Longrightarrow> \<exists>ys. mapE f xs = Inr ys"
proof (induction xs)
  case (Cons x xs)
  then obtain y ys where "f x = Inr y" "mapE f xs = Inr ys" by (metis list.set_intros)
  then show ?case by simp
qed simp

definition regs_at :: "bytes \<Rightarrow> u32 list \<Rightarrow> nat \<Rightarrow> regs" where
  "regs_at block state i = fold (compress_round (message_schedule block)) [0..<i] (load_regs state)"

lemma regs_at_Suc: "regs_at block state (Suc i) = compress_round (message_schedule block) i (regs_at block state i)"
  by (simp add: regs_at_def)

lemma block_trace_nth:
  "i < n \<Longrightarrow> block_trace n block state c ! i = trace_round c (message_schedule block) i (regs_at block state i)"
  by (simp add: block_trace_def regs_at_def)

lemma length_block_trace [simp]: "length (block_trace n block state c) = n"
  by (simp add: block_trace_def)

lemma state_of_load_regs: "length state = 8 \<Longrightarrow> state_of_regs (load_regs state) = state"
  by (intro nth_equalityI) (auto simp: state_of_regs_def load_regs_def nth_Cons' less_Suc_eq numeral_eq_Suc)

lemma compress_regs: "compress 64 block state = feed_forward state (regs_at block state 64)"
  by (simp add: compress_def regs_at_def Let_def)

lemma feed_forward_nth:
  "i < 8 \<Longrightarrow> feed_forward state r ! i = state ! i + state_of_regs r ! i"
  by (auto simp: feed_forward_def state_of_regs_def less_Suc_eq numeral_eq_Suc)

lemma block_trace_states:
  assumes "i < 64"
  shows "research_before_state (block_trace 64 block state c ! i) = state_of_regs (regs_at block state i)"
    "research_after_state (block_trace 64 block state c ! i) = state_of_regs (regs_at block state (Suc i))"
  using assms by (simp_all add: block_trace_nth research_before_state_def research_after_state_def trace_round_fields
      tr_after_trace_round regs_at_Suc)

lemma round_loop_returns:
  assumes "length constants = 64" "establish \<or> constants = kTable"
  shows "n \<le> 64 \<Longrightarrow> \<exists>cs js. foldE (\<lambda>i (constants, round_json).
      bindE (research_round_json J (block_trace 64 block state c ! i) sha establish (names i) constants)
        (\<lambda>(constants, json). Inr (constants, round_json @ [json]))) [0..<n] (constants, []) = Inr (cs, js) \<and>
    length cs = 64 \<and> (\<forall>i<n. cs ! i = kTable ! i) \<and> (establish \<or> cs = kTable)"
proof (induction n)
  case (Suc n)
  then obtain cs js where IH: "foldE (\<lambda>i (constants, round_json).
      bindE (research_round_json J (block_trace 64 block state c ! i) sha establish (names i) constants)
        (\<lambda>(constants, json). Inr (constants, round_json @ [json]))) [0..<n] (constants, []) = Inr (cs, js)"
    "length cs = 64" "\<forall>i<n. cs ! i = kTable ! i" "establish \<or> cs = kTable" by auto
  have n: "n < 64" using Suc.prems by simp
  have "establish \<or> cs ! n = kTable ! n" using IH(4) by auto
  from round_json_returns [OF block_trace_nth [OF n, of block state c] n this, where J = J and sha = sha and ctxt = "names n"]
  obtain j where "research_round_json J (block_trace 64 block state c ! n) sha establish (names n) cs =
      Inr (if establish then cs[n := kTable ! n] else cs, j)" by blast
  then show ?case using IH n by (auto simp: foldE_append nth_list_update less_Suc_eq)
qed (use assms in auto)

lemma length_kTable: "length kTable = 64"
  by (simp add: kTable_def)

lemma compression_json_returns:
  assumes "length block = 64" "length state = 8" "length constants = 64" "establish \<or> constants = kTable"
  shows "\<exists>j. research_compression_json J sha c block (block_trace 64 block state c) (compress 64 block state) establish constants =
    Inr (kTable, j)"
proof -
  let ?rounds = "block_trace 64 block state c"
  define ctxt where "ctxt = ''SHA'' @ to_string sha @ ''/compression'' @ to_string c"
  have indices: "check_indices c ?rounds ctxt = Inr ()"
    unfolding check_indices_def by (rule foldE_unit) (simp add: block_trace_nth trace_round_fields)
  have transitions: "check_transitions ?rounds ctxt = Inr ()"
    unfolding check_transitions_def by (rule foldE_unit) (simp add: block_trace_states)
  obtain cs js where loop: "foldE (\<lambda>i (constants, round_json).
      bindE (research_round_json J (?rounds ! i) sha establish (ctxt @ ''/round'' @ to_string (i + 1)) constants)
        (\<lambda>(constants, json). Inr (constants, round_json @ [json]))) [0..<64] (constants, []) = Inr (cs, js)"
    "length cs = 64" "\<forall>i<64. cs ! i = kTable ! i"
    using round_loop_returns [OF assms(3,4), of 64 J block state c sha "\<lambda>i. ctxt @ ''/round'' @ to_string (i + 1)"] by blast
  have cs: "cs = kTable" using loop(2,3) length_kTable by (intro nth_equalityI) simp_all
  have input: "research_before_state (?rounds ! 0) = state"
    using assms(2) by (simp add: block_trace_states regs_at_def state_of_load_regs)
  have "last ?rounds = ?rounds ! 63" by (subst last_conv_nth) (simp_all add: length_greater_0_conv [symmetric] del: length_greater_0_conv)
  then have final: "research_after_state (last ?rounds) = state_of_regs (regs_at block state 64)"
    by (simp add: block_trace_states)
  have "\<exists>ys. mapE (feed_forward_entry J state (state_of_regs (regs_at block state 64)) (compress 64 block state) ctxt) [0..<8] = Inr ys"
  proof (rule mapE_returns)
    fix i assume "i \<in> set [0..<8]"
    then have "i < 8" by simp
    then have "\<exists>j. research_addition_json J [(''input_chaining_word'', state ! i),
        (''final_working_word'', state_of_regs (regs_at block state 64) ! i)]
        (compress 64 block state ! i) (ctxt @ ''/feed_forward/word'' @ to_string i) = Inr j"
      by (intro addition_json_returns) (simp_all add: compress_regs feed_forward_nth)
    then show "\<exists>y. feed_forward_entry J state (state_of_regs (regs_at block state 64)) (compress 64 block state) ctxt i = Inr y"
      by (auto simp: feed_forward_entry_def)
  qed
  moreover have "\<exists>j. research_schedule_json J block ?rounds ctxt = Inr j"
    using assms(1) by (intro schedule_json_returns) (simp_all add: block_trace_nth trace_round_def Let_def)
  ultimately show ?thesis
    unfolding research_compression_json_def ctxt_def [symmetric] Let_def
    using indices transitions loop(1) input final assms(2) by (auto simp: cs)
qed
section \<open>The blocks of the double hash\<close>

lemma read_be32_of_word:
  "read_be32 ([ucast (drop_bit 24 x), ucast (drop_bit 16 x), ucast (drop_bit 8 x), ucast x] @ rest) = x"
proof -
  have "read_be32 ([ucast (drop_bit 24 x), ucast (drop_bit 16 x), ucast (drop_bit 8 x), ucast x] @ rest) =
      push_bit 24 (ucast (ucast (drop_bit 24 x) :: u8)) OR push_bit 16 (ucast (ucast (drop_bit 16 x) :: u8)) OR
      push_bit 8 (ucast (ucast (drop_bit 8 x) :: u8)) OR ucast (ucast x :: u8)"
    by (simp add: read_be32_def)
  also have "\<dots> = x"
  proof (rule bit_word_eqI)
    fix n assume "n < LENGTH(32)"
    then consider "n < 8" | "8 \<le> n" "n < 16" | "16 \<le> n" "n < 24" | "24 \<le> n" "n < 32" by fastforce
    then show "bit (push_bit 24 (ucast (ucast (drop_bit 24 x) :: u8) :: u32) OR push_bit 16 (ucast (ucast (drop_bit 16 x) :: u8)) OR
      push_bit 8 (ucast (ucast (drop_bit 8 x) :: u8)) OR ucast (ucast x :: u8)) n = bit x n"
      by cases (auto simp: bit_simps)
  qed
  finally show ?thesis .
qed

lemma state_bytes_Cons: "state_bytes (x # xs) =
    [ucast (drop_bit 24 x), ucast (drop_bit 16 x), ucast (drop_bit 8 x), ucast x] @ state_bytes xs"
  by (simp add: state_bytes_def)

lemma drop_state_bytes: "drop (4 * i) (state_bytes st) = state_bytes (drop i st)"
proof (induction st arbitrary: i)
  case (Cons x st)
  have "state_bytes (x # st) = [ucast (drop_bit 24 x), ucast (drop_bit 16 x), ucast (drop_bit 8 x), ucast x] @ state_bytes st"
    by (rule state_bytes_Cons)
  moreover have "drop (4 * Suc n) ([a, b, c, d] @ bs) = drop (4 * n) bs" for n and a b c d :: u8 and bs
    by (simp add: numeral_eq_Suc)
  ultimately show ?case using Cons by (cases i) (simp_all only: drop_0 mult_0_right drop_Suc_Cons)
qed (simp add: state_bytes_def)

lemma read_state_bytes: "i < length st \<Longrightarrow> read_be32 (drop (4 * i) (state_bytes st @ rest)) = st ! i"
proof -
  assume i: "i < length st"
  then have "drop (4 * i) (state_bytes st @ rest) = state_bytes (st ! i # drop (Suc i) st) @ rest"
    by (simp add: drop_state_bytes Cons_nth_drop_Suc)
  then show ?thesis using read_be32_of_word [of "st ! i" "state_bytes (drop (Suc i) st) @ rest"]
    by (simp add: state_bytes_Cons)
qed

lemma digest_words_state: "length st = 8 \<Longrightarrow> research_digest_words (state_bytes st) = st"
proof -
  assume st: "length st = 8"
  have "read_research_be32 (state_bytes st) (i * 4) = st ! i" if "i < 8" for i
    using that st read_state_bytes [of i st "[]"] by (simp add: read_research_be32_eq mult.commute)
  then show ?thesis using st unfolding research_digest_words_def by (intro nth_equalityI) simp_all
qed

text \<open>The block that ends a message with fewer than 56 bytes left is the last block of the padded message.\<close>

lemma final_block_returns:
  assumes "offset \<le> length m" "length m - offset < 56" "offset mod 64 = 0"
  shows "research_final_block m offset = Inr (drop offset (pad_message m))"
proof -
  define r where "r = length m - offset"
  define f :: "nat \<Rightarrow> u8" where "f i = ucast (drop_bit (i * 8) ((of_nat (length m) :: u64) * 8))" for i
  define t where "t = drop offset m @ 0x80 # replicate (63 - r) 0"
  have r: "r < 56" "length (drop offset m) = r" using assms by (simp_all add: r_def)
  have "64 - r = Suc (63 - r)" using r by simp
  then have t: "(drop offset m @ replicate (64 - r) 0)[r := 0x80] = t" using r by (simp add: t_def list_update_append)
  have len: "length t = 64" using r by (simp add: t_def)
  have keep: "fold (\<lambda>i b. b[length b - 1 - i := f i]) is b = fold (\<lambda>i b. b[64 - 1 - i := f i]) is b" if "length b = 64" for "is" b
    using that by (induction "is" arbitrary: b) simp_all
  have "write_length (of_nat (length m) * 8) t = fold (\<lambda>i b. b[64 - 1 - i := f i]) [0..<8] t"
    unfolding write_length_def f_def [symmetric] by (rule keep [OF len])
  also have "\<dots> = take (64 - 8) t @ List.map f (rev [0..<8]) @ drop 64 t"
    using len by (intro fold_update_suffix) simp_all
  also have "take (64 - 8) t = drop offset m @ [0x80] @ replicate (55 - r) 0"
    using r by (simp add: t_def take_Cons')
  also have "List.map f (rev [0..<8]) = be64 (of_nat (8 * length m))"
    by (simp add: be64_def f_def upt_rec mult.commute)
  also have "drop 64 t = []" using len by simp
  finally have w: "write_length (of_nat (length m) * 8) t =
      drop offset m @ [0x80] @ replicate (55 - r) 0 @ be64 (of_nat (8 * length m))" by simp
  have "length m = offset + r" using assms(1) by (simp add: r_def)
  then have "length m mod 64 = (offset mod 64 + r) mod 64" by (simp only: mod_add_left_eq)
  then have "length m mod 64 = r" using assms(3) r by simp
  then have "drop offset (pad_message m) = drop offset m @ [0x80] @ replicate (55 - r) 0 @ be64 (of_nat (8 * length m))"
    using r assms(1) by (simp add: pad_message_def pad_zeros_def)
  then show ?thesis using assms(1,2) t w by (simp add: research_final_block_def r_def Let_def)
qed

lemma blocks_of_header:
  assumes "length h = 80"
  shows "message_blocks h = [take 64 h, drop 64 (pad_message h)]"
proof -
  have len: "length (pad_message h) = 128" using assms by (simp add: length_pad_message)
  then have "message_blocks h = [take 64 (pad_message h), take 64 (drop 64 (pad_message h))]"
    by (simp add: message_blocks_def blocks64_1_2)
  moreover have "take 64 (pad_message h) = take 64 h" using assms by (simp add: pad_message_def)
  ultimately show ?thesis using len by simp
qed

lemma blocks_of_digest:
  assumes "length d = 32"
  shows "message_blocks d = [pad_message d]"
proof -
  have len: "length (pad_message d) = 64" using assms by (simp add: length_pad_message)
  then show ?thesis by (simp add: message_blocks_def blocks64_1_2)
qed
section \<open>The trace of a header\<close>

definition middle_state :: "bytes \<Rightarrow> u32 list" where
  "middle_state h = compress 64 (take 64 h) kInitial"

definition tail_block :: "bytes \<Rightarrow> bytes" where
  "tail_block h = drop 64 (pad_message h)"

definition first_state :: "bytes \<Rightarrow> u32 list" where
  "first_state h = compress 64 (tail_block h) (middle_state h)"

definition second_block :: "bytes \<Rightarrow> bytes" where
  "second_block h = pad_message (state_bytes (first_state h))"

definition header_trace :: "bytes \<Rightarrow> reduced_trace" where
  "header_trace h =
    \<lparr>rt_digest = state_bytes (compress 64 (second_block h) kInitial),
     first_sha = \<lparr>tr_digest = state_bytes (first_state h),
       tr_rounds = block_trace 64 (take 64 h) kInitial 0 @ block_trace 64 (tail_block h) (middle_state h) 1\<rparr>,
     second_sha = \<lparr>tr_digest = state_bytes (compress 64 (second_block h) kInitial),
       tr_rounds = block_trace 64 (second_block h) kInitial 0\<rparr>\<rparr>"

lemma state_sizes [simp]:
  "length (middle_state h) = 8" "length (first_state h) = 8"
  "length h = 80 \<Longrightarrow> length (tail_block h) = 64" "length (second_block h) = 64"
  by (simp_all add: middle_state_def first_state_def tail_block_def second_block_def length_pad_message)

lemma sha256_blocks: "sha256_with_rounds m 64 = Inr (state_bytes (fold (compress 64) (message_blocks m) kInitial))"
  by (simp add: sha256_with_rounds_def absorb_message_blocks)

lemma header_trace_eq:
  assumes "length h = 80"
  shows "trace_reduced_sha256d h 64 = Inr (header_trace h)"
proof -
  have "sha256_with_trace h 64 = Inr (first_sha (header_trace h))"
    by (simp add: sha256_with_trace_eq sha256_blocks blocks_of_header [OF assms] header_trace_def middle_state_def
        first_state_def tail_block_def)
  moreover have "sha256_with_trace (state_bytes (first_state h)) 64 = Inr (second_sha (header_trace h))"
    by (simp add: sha256_with_trace_eq sha256_blocks blocks_of_digest header_trace_def second_block_def)
  ultimately show ?thesis by (simp add: trace_reduced_sha256d_def header_trace_def)
qed

lemma header_trace_digest: "length h = 80 \<Longrightarrow> rt_digest (header_trace h) = sha256d h"
proof -
  assume h: "length h = 80"
  have "sha256 h = state_bytes (first_state h)"
    using sha256_blocks [of h] sha256_with_rounds_64 [of h]
    by (simp add: blocks_of_header [OF h] first_state_def middle_state_def tail_block_def)
  moreover have "sha256 (state_bytes (first_state h)) = rt_digest (header_trace h)"
    using sha256_blocks [of "state_bytes (first_state h)"] sha256_with_rounds_64 [of "state_bytes (first_state h)"]
    by (simp add: blocks_of_digest header_trace_def second_block_def)
  ultimately show ?thesis by (simp add: sha256d_def)
qed

section \<open>Trajectories\<close>

lemma bind_returns: "m = Inr x \<Longrightarrow> \<exists>j. f x = Inr j \<Longrightarrow> \<exists>j. bindE m f = Inr j"
  by simp

lemma bind_returns_pair: "m = Inr (a, b) \<Longrightarrow> \<exists>j. f a b = Inr j \<Longrightarrow> \<exists>j. bindE m (\<lambda>(x, y). f x y) = Inr j"
  by simp

definition label_ok :: "'j json_api \<Rightarrow> 'j \<Rightarrow> bool" where
  "label_ok J label \<longleftrightarrow> (\<exists>kind. value_or J (j_get_string J) label ''kind'' [] = Inr kind \<and>
    (kind = ''single_bit_flip'' \<longrightarrow>
      (\<forall>k\<in>{''bit'', ''w3_changed_bit'', ''w3_hamming''}. \<exists>v. j_at J label k = Inr v)))"

lemma w3_change_returns: "label_ok J label \<Longrightarrow> \<exists>ys. w3_change J label = Inr ys"
  unfolding label_ok_def w3_change_def by (elim exE conjE) (auto simp: bindE_def)

lemma link_word_returns:
  assumes "i < 8"
  shows "\<exists>j. link_word J nonce (block_trace 64 (second_block h) kInitial 0) (first_state h) i = Inr j"
proof -
  have "tr_w (block_trace 64 (second_block h) kInitial 0 ! i) = read_be32 (drop (i * 4) (second_block h))"
    using assms by (simp add: block_trace_nth trace_round_def Let_def message_schedule_spec schedule_spec.simps [of _ i])
  also have "\<dots> = first_state h ! i"
    using assms unfolding second_block_def pad_message_def
    by (subst mult.commute, subst read_state_bytes) simp_all
  finally show ?thesis by (simp add: link_word_def)
qed

lemma trajectory_returns:
  assumes "length h = 80" "tc_header record = h" "tc_trace record = header_trace h"
    "\<And>l. l \<in> set (tc_labels record) \<Longrightarrow> label_ok J l"
  shows "\<exists>j. research_trajectory_json J record reference_w3 = Inr j"
proof -
  let ?r1 = "block_trace 64 (take 64 h) kInitial 0 @ block_trace 64 (tail_block h) (middle_state h) 1"
  let ?r2 = "block_trace 64 (second_block h) kInitial 0"
  have parts: "tr_rounds (first_sha (header_trace h)) = ?r1" "tr_rounds (second_sha (header_trace h)) = ?r2"
    "tr_digest (first_sha (header_trace h)) = state_bytes (first_state h)"
    "tr_digest (second_sha (header_trace h)) = state_bytes (compress 64 (second_block h) kInitial)"
    by (simp_all add: header_trace_def)
  have tail: "research_final_block h 64 = Inr (tail_block h)"
    using final_block_returns [of 64 h] assms(1) by (simp add: tail_block_def)
  have second: "research_final_block (state_bytes (first_state h)) 0 = Inr (second_block h)"
    using final_block_returns [of 0 "state_bytes (first_state h)"] by (simp add: second_block_def)
  have r64: "vector_at ?r1 64 = Inr (?r1 ! 64)" "vector_at ?r1 (64 + 3) = Inr (?r1 ! 67)" by (simp_all add: vector_at_def)
  have "?r1 ! 64 = block_trace 64 (tail_block h) (middle_state h) 1 ! 0" by (simp add: nth_append)
  then have mid: "research_before_state (?r1 ! 64) = middle_state h"
    by (simp add: block_trace_states regs_at_def state_of_load_regs)
  have words: "research_digest_words (state_bytes (first_state h)) = first_state h"
    "research_digest_words (state_bytes (compress 64 (second_block h) kInitial)) = compress 64 (second_block h) kInitial"
    by (simp_all add: digest_words_state)
  have takes: "take 64 ?r1 = block_trace 64 (take 64 h) kInitial 0"
    "take 64 (drop 64 ?r1) = block_trace 64 (tail_block h) (middle_state h) 1" "take 64 ?r2 = ?r2"
    by simp_all
  obtain j0 where c0: "research_compression_json J 1 0 (take 64 h) (block_trace 64 (take 64 h) kInitial 0) (middle_state h)
      True (replicate 64 0) = Inr (kTable, j0)"
    using compression_json_returns [of "take 64 h" kInitial "replicate 64 0" True J 1 0] assms(1) by (auto simp: middle_state_def)
  obtain j1 where c1: "research_compression_json J 1 1 (tail_block h) (block_trace 64 (tail_block h) (middle_state h) 1)
      (first_state h) False kTable = Inr (kTable, j1)"
    using compression_json_returns [of "tail_block h" "middle_state h" kTable False J 1 1] assms(1) length_kTable
    by (auto simp: first_state_def)
  obtain j2 where c2: "research_compression_json J 2 0 (second_block h) ?r2 (compress 64 (second_block h) kInitial)
      False kTable = Inr (kTable, j2)"
    using compression_json_returns [of "second_block h" kInitial kTable False J 2 0] length_kTable by auto
  obtain ls where links: "mapE (link_word J (tc_nonce record) ?r2 (first_state h)) [0..<8] = Inr ls"
  proof -
    have "\<exists>ls. mapE (link_word J (tc_nonce record) ?r2 (first_state h)) [0..<8] = Inr ls"
      by (rule mapE_returns, rule link_word_returns) simp
    then show thesis using that by blast
  qed
  obtain ws where changes: "mapE (w3_change J) (tc_labels record) = Inr ws"
  proof -
    have "\<exists>ws. mapE (w3_change J) (tc_labels record) = Inr ws"
      by (rule mapE_returns, rule w3_change_returns, rule assms(4))
    then show thesis using that by blast
  qed
  have c0': "research_compression_json J 1 0 (take 64 h) (block_trace 64 (take 64 h) kInitial 0)
      (research_before_state (?r1 ! 64)) True (replicate 64 0) = Inr (kTable, j0)"
    unfolding mid by (rule c0)
  show ?thesis
    unfolding research_trajectory_json_def Let_def assms(2,3) parts words takes
    by (rule bind_returns [OF tail] bind_returns [OF second] bind_returns [OF r64(1)] bind_returns_pair [OF c0']
        bind_returns_pair [OF c1] bind_returns_pair [OF c2] bind_returns [OF links] bind_returns [OF r64(2)]
        bind_returns [OF changes] exI refl)+
qed
section \<open>The nonce in the message schedule\<close>

definition nonce_word :: "u32 \<Rightarrow> u32" where "nonce_word n = read_be32 (nonce_bytes n)"

definition swap_index :: "nat \<Rightarrow> nat" where "swap_index k = 8 * (3 - k div 8) + k mod 8"

lemma swap_index_swap: "k < 32 \<Longrightarrow> swap_index k < 32 \<and> swap_index (swap_index k) = k"
proof -
  assume "k < 32"
  then have q: "k div 8 \<le> 3" by linarith
  have m: "k mod 8 < 8" by simp
  have d: "swap_index k div 8 = 3 - k div 8" "swap_index k mod 8 = k mod 8" by (simp_all add: swap_index_def)
  have "swap_index (swap_index k) = 8 * (3 - (3 - k div 8)) + k mod 8"
    unfolding swap_index_def [of "swap_index k"] d ..
  also have "\<dots> = k" using q by simp
  finally show ?thesis using m q by (simp add: swap_index_def)
qed

lemma bit_nonce_word: "k < 32 \<Longrightarrow> bit (nonce_word n) k \<longleftrightarrow> bit n (swap_index k)"
proof -
  assume k: "k < 32"
  define q r where "q = k div 8" and "r = k mod 8"
  have kq: "k = 8 * q + r" "r < 8" by (simp_all add: q_def r_def)
  then have s: "swap_index k = 8 * (3 - q) + r" by (simp add: swap_index_def)
  consider "q = 0" | "q = 1" | "q = 2" | "q = 3" using k kq by linarith
  then show ?thesis
    unfolding s unfolding kq(1) using kq(2)
    by cases (auto simp: nonce_word_def read_be32_def nonce_bytes_def bit_simps)
qed

lemma popcount_card: "popcount (w :: u32) = card {k. k < 32 \<and> bit w k}"
proof -
  have "{k. k < 32 \<and> bit w k} = set (filter (bit w) [0..<32])" by auto
  then show ?thesis unfolding popcount_def by (simp only: distinct_card distinct_filter distinct_upt) simp
qed

lemma nonce_word_hamming: "research_word_hamming (nonce_word m) (nonce_word n) = popcount (m XOR n)"
proof -
  have "card {k. k < 32 \<and> bit (nonce_word m XOR nonce_word n) k} = card {k. k < 32 \<and> bit (m XOR n) k}"
  proof (rule bij_betw_same_card [of swap_index])
    show "bij_betw swap_index {k. k < 32 \<and> bit (nonce_word m XOR nonce_word n) k} {k. k < 32 \<and> bit (m XOR n) k}"
      by (rule bij_betw_byWitness [where f' = swap_index])
        (auto simp: swap_index_swap bit_nonce_word bit_xor_iff)
  qed
  then show ?thesis by (simp add: research_word_hamming_def popcount_card)
qed

lemma nonce_word_inject: "nonce_word m = nonce_word n \<longleftrightarrow> m = n"
proof
  assume eq: "nonce_word m = nonce_word n"
  show "m = n"
  proof (rule bit_word_eqI)
    fix k assume "k < LENGTH(32)"
    then show "bit m k = bit n k"
      using eq bit_nonce_word [of "swap_index k" m] bit_nonce_word [of "swap_index k" n] swap_index_swap [of k] by simp
  qed
qed simp

lemma popcount_bit: "i < 32 \<Longrightarrow> popcount (r XOR (r XOR push_bit i 1) :: u32) = 1"
proof -
  assume i: "i < 32"
  have "r XOR (r XOR push_bit i 1) = (push_bit i 1 :: u32)" by (simp add: xor.assoc [symmetric])
  moreover have "{k. k < 32 \<and> bit (push_bit i 1 :: u32) k} = {i}" using i by (auto simp: bit_simps bit_1_iff)
  ultimately show ?thesis by (simp add: popcount_card)
qed

lemma tail_block_nonce:
  assumes "length h = 80"
  shows "tail_block (set_nonce h n) = take 12 (drop 64 h) @ nonce_bytes n @ drop 16 (tail_block h)"
proof -
  have "pad_message (set_nonce h n) = take 76 h @ nonce_bytes n @ drop 80 (pad_message h)"
    using assms by (simp add: pad_message_def set_nonce_eq)
  then show ?thesis using assms by (simp add: tail_block_def drop_take)
qed

lemma schedule_of_tail:
  assumes "length h = 80"
  shows "t < 3 \<Longrightarrow> message_schedule (tail_block (set_nonce h n)) ! t = message_schedule (tail_block (set_nonce h m)) ! t"
    and "message_schedule (tail_block (set_nonce h n)) ! 3 = nonce_word n"
proof -
  have word: "message_schedule b ! t = read_be32 (drop (t * 4) b)" if "t < 16" for t b
    using that by (simp add: message_schedule_spec schedule_spec.simps [of b t])
  have len: "length (take 12 (drop 64 h)) = 12" using assms by simp
  show "message_schedule (tail_block (set_nonce h n)) ! t = message_schedule (tail_block (set_nonce h m)) ! t" if "t < 3"
  proof -
    have "read_be32 (drop (t * 4) (take 12 (drop 64 h) @ xs)) = read_be32 (drop (t * 4) (take 12 (drop 64 h) @ ys))" for xs ys
    proof -
      have "(drop (t * 4) (take 12 (drop 64 h) @ zs)) ! j = take 12 (drop 64 h) ! (t * 4 + j)" if "j < 4" for j zs
        using that \<open>t < 3\<close> len by (subst nth_drop) (simp_all add: nth_append)
      then show ?thesis by (simp add: read_be32_def)
    qed
    then show ?thesis using that by (simp only: word tail_block_nonce [OF assms])
  qed
  show "message_schedule (tail_block (set_nonce h n)) ! 3 = nonce_word n"
    using len by (simp add: word tail_block_nonce [OF assms] nonce_word_def read_be32_def nth_append)
qed

end
