(* ===== verification/Research_Analysis.thy ===== *)
theory Research_Analysis
  imports Research_Checks
begin

text \<open>
  What the trace analysis computes: the carries of an addition, the nonces it compares, the round where two
  nonces first differ, and that the reports of a genuine header never fail.
\<close>

section \<open>Carries\<close>

definition carry_columns :: "u32 list \<Rightarrow> nat set" where
  "carry_columns vals = {k. k < 32 \<and> 2 ^ Suc k \<le> low_sum (Suc k) vals}"

definition mask_ok :: "u32 list \<Rightarrow> nat \<Rightarrow> column_state \<Rightarrow> bool" where
  "mask_ok vals n c \<longleftrightarrow> (\<forall>k. bit (cs_mask c) k \<longleftrightarrow> k < n \<and> k \<in> carry_columns vals) \<and>
    cs_count c = card {k. k < n \<and> k \<in> carry_columns vals}"

lemma add_column_mask:
  assumes "columns_ok vals n c" "mask_ok vals n c" "n < 32" "length vals < 2 ^ 32"
  shows "mask_ok vals (Suc n) (add_column vals n c)"
proof -
  let ?c = "add_column vals n c"
  have ok: "columns_ok vals (Suc n) ?c" by (rule add_column_ok [OF assms(1,3,4)])
  then have val: "unat (cs_sum ?c) + 2 ^ Suc n * unat (cs_carry ?c) = low_sum (Suc n) vals" "unat (cs_sum ?c) < 2 ^ Suc n"
    by (simp_all add: columns_ok_def)
  have carry: "cs_carry ?c \<noteq> 0 \<longleftrightarrow> n \<in> carry_columns vals"
  proof
    assume "cs_carry ?c \<noteq> 0"
    then have "1 \<le> unat (cs_carry ?c)" by (simp add: Suc_le_eq unat_gt_0)
    then have "2 ^ Suc n * 1 \<le> 2 ^ Suc n * unat (cs_carry ?c)" by (rule mult_le_mono2)
    then have "2 ^ Suc n \<le> low_sum (Suc n) vals" using val(1) by linarith
    then show "n \<in> carry_columns vals" using assms(3) by (simp add: carry_columns_def)
  next
    assume "n \<in> carry_columns vals"
    then have "2 ^ Suc n \<le> low_sum (Suc n) vals" by (simp add: carry_columns_def)
    then show "cs_carry ?c \<noteq> 0" using val by auto
  qed
  have step: "cs_mask ?c = (if cs_carry ?c \<noteq> 0 then cs_mask c OR push_bit n 1 else cs_mask c)"
    "cs_count ?c = (if cs_carry ?c \<noteq> 0 then cs_count c + 1 else cs_count c)"
    by (simp_all add: add_column_def Let_def)
  have sets: "{k. k < Suc n \<and> k \<in> carry_columns vals} =
      (if n \<in> carry_columns vals then insert n {k. k < n \<and> k \<in> carry_columns vals} else {k. k < n \<and> k \<in> carry_columns vals})"
    by (auto simp: less_Suc_eq)
  show ?thesis
    using assms(2,3) unfolding mask_ok_def step carry sets
    by (auto simp: bit_simps bit_1_iff less_Suc_eq)
qed

lemma column_addition_mask: "length vals < 2 ^ 32 \<Longrightarrow> mask_ok vals 32 (column_addition vals)"
proof -
  assume len: "length vals < 2 ^ 32"
  let ?s = "\<lambda>n. fold (add_column vals) [0..<n]
    \<lparr>cs_carry = 0, cs_sum = 0, cs_mask = 0, cs_count = 0, cs_longest = 0, cs_run = 0, cs_max = 0\<rparr>"
  have "columns_ok vals n (?s n) \<and> mask_ok vals n (?s n)" if "n \<le> 32" for n
    using that
  proof (induction n)
    case (Suc n)
    then show ?case using add_column_ok [OF _ _ len] add_column_mask [OF _ _ _ len] by simp
  qed (simp add: columns_ok_def mask_ok_def)
  then show ?thesis unfolding column_addition_def by blast
qed

text \<open>The column-wise addition the reports show is the addition of the words: its sum is the sum modulo
  $2^{32}$, its final carry the part above, and its mask and count name exactly the columns that carry out
  (those whose low bits already sum to the next power of two).\<close>

theorem column_addition_correct:
  assumes "length vals < 2 ^ 32"
  shows "cs_sum (column_addition vals) = sum_list vals \<and>
    unat (cs_carry (column_addition vals)) = sum_list (List.map unat vals) div 2 ^ 32 \<and>
    {k. bit (cs_mask (column_addition vals)) k} =
      {k. k < 32 \<and> 2 ^ Suc k \<le> sum_list (List.map (\<lambda>v. unat v mod 2 ^ Suc k) vals)} \<and>
    cs_count (column_addition vals) = popcount (cs_mask (column_addition vals)) \<and>
    unat (cs_max (column_addition vals)) \<le> length vals"
proof -
  have mask: "bit (cs_mask (column_addition vals)) k \<longleftrightarrow> k \<in> carry_columns vals"
    "cs_count (column_addition vals) = card {k. k < 32 \<and> k \<in> carry_columns vals}" for k
    using column_addition_mask [OF assms] by (auto simp: mask_ok_def carry_columns_def)
  have "unat (cs_max (column_addition vals)) \<le> length vals"
    using column_addition_ok [OF assms] by (simp add: columns_ok_def)
  then show ?thesis
    using column_addition_value [OF assms] mask
    by (simp add: popcount_card carry_columns_def low_sum_def take_bit_eq_mod)
qed

theorem column_addition_correct_witness:
  "cs_sum (column_addition [0xffffffff, 2]) = 1 \<and> unat (cs_carry (column_addition [0xffffffff, 2])) = 1"
  using column_addition_correct [of "[0xffffffff, 2]"] by simp

section \<open>The nonces compared\<close>

lemma push_label_first: "fst ` set (push_label n l xs) = insert n (fst ` set xs)"
  by (induction xs rule: push_label.induct) auto

lemma push_label_sorted:
  "sorted_wrt (<) (List.map fst xs) \<Longrightarrow> sorted_wrt (<) (List.map fst (push_label n l xs))"
proof (induction n l xs rule: push_label.induct)
  case (2 nonce label n labels entries)
  have "fst ` set (push_label nonce label entries) = insert nonce (fst ` set entries)" by (rule push_label_first)
  with 2 show ?case by (auto simp: image_iff)
qed simp

lemma push_label_lookup:
  "sorted_wrt (<) (List.map fst xs) \<Longrightarrow> map_of (push_label n l xs) k =
    (if k = n then Some ((case map_of xs n of None \<Rightarrow> [] | Some ls \<Rightarrow> ls) @ [l]) else map_of xs k)"
proof (induction n l xs rule: push_label.induct)
  case (2 nonce label n labels entries)
  have "map_of entries nonce = None" if "nonce < n"
  proof -
    have "nonce \<notin> fst ` set entries" using 2(2) that by (force simp: image_iff)
    then show ?thesis by (simp add: map_of_eq_None_iff)
  qed
  with 2 show ?case by auto
qed simp

text \<open>The labels of a nonce, in the order of the requests.\<close>

definition labels_for :: "u32 \<Rightarrow> (u32 \<times> 'j) list \<Rightarrow> 'j list" where
  "labels_for n reqs = List.map snd (filter (\<lambda>req. fst req = n) reqs)"

definition selected_ok :: "u32 \<Rightarrow> (u32 \<times> 'j) list \<Rightarrow> (u32 \<times> 'j list) list \<Rightarrow> bool" where
  "selected_ok r reqs xs \<longleftrightarrow> sorted_wrt (<) (List.map fst xs) \<and>
    (\<forall>n. map_of xs n = (if n = r \<or> labels_for n reqs = [] then None else Some (labels_for n reqs)))"

lemma add_selection_ok: "selected_ok r reqs xs \<Longrightarrow> selected_ok r (reqs @ [req]) (add_selection r req xs)"
  by (cases req)
    (auto simp: selected_ok_def add_selection_def push_label_sorted push_label_lookup labels_for_def split: if_splits)

lemma add_selections_ok:
  "selected_ok r reqs xs \<Longrightarrow> selected_ok r (reqs @ reqs') (fold (add_selection r) reqs' xs)"
proof (induction reqs' arbitrary: reqs xs)
  case (Cons req reqs')
  from Cons.IH [OF add_selection_ok [OF Cons.prems, of req]] show ?case by simp
qed simp

definition requested :: "'j json_api \<Rightarrow> u32 \<Rightarrow> trace_analysis_config \<Rightarrow> (u32 \<times> 'j) list" where
  "requested J r a = (if single_bit_flips a then flips J r else []) @
    concat (List.map (neighbors J r) [1..<unat (neighbor_radius a) + 1]) @
    List.map (\<lambda>n. (n, j_object J [(''kind'', j_string J ''control'')])) (control_nonces a)"

lemma selections_eq:
  "research_nonce_selections J r a =
    List.map (\<lambda>(nonce, labels). \<lparr>ns_nonce = nonce, ns_labels = labels\<rparr>) (fold (add_selection r) (requested J r a) [])"
  by (cases "single_bit_flips a")
    (simp_all only: research_nonce_selections_def requested_def Let_def fold_append o_apply if_True if_False append_Nil)

lemma of_nat_u32: "k < 2 ^ 32 \<Longrightarrow> x = (of_nat k :: u32) \<longleftrightarrow> unat x = k"
  by (simp add: word_unat_eq_iff unsigned_of_nat take_bit_nat_eq_self)

lemma neighbor_nonces:
  "fst ` set (neighbors J r d) = {n. unat n + d = unat r \<or> unat n = unat r + d}"
proof -
  have r: "unat x < 2 ^ 32" for x :: u32 using unsigned_less [of x, where ?'a = nat] by simp
  have "unat r - d < 2 ^ 32" using r [of r] by simp
  note below = of_nat_u32 [OF this]
  have above: "x = (of_nat (unat r + d) :: u32) \<longleftrightarrow> unat x = unat r + d" if "unat r + d \<le> 0xffffffff" for x
    using that by (intro of_nat_u32) simp
  have "n \<in> fst ` set (neighbors J r d) \<longleftrightarrow>
      (d \<le> unat r \<and> unat n = unat r - d) \<or> (unat r + d \<le> 0xffffffff \<and> unat n = unat r + d)" for n
    unfolding neighbors_def using below [of n] above [of n] by auto
  moreover have "(d \<le> unat r \<and> unat n = unat r - d) \<or> (unat r + d \<le> 0xffffffff \<and> unat n = unat r + d) \<longleftrightarrow>
      unat n + d = unat r \<or> unat n = unat r + d" for n :: u32
    using r [of n] by auto
  ultimately show ?thesis by blast
qed

definition compared_nonces :: "u32 \<Rightarrow> trace_analysis_config \<Rightarrow> u32 set" where
  "compared_nonces r a = ((if single_bit_flips a then (\<lambda>i. r XOR push_bit i 1) ` {..<32} else {}) \<union>
    {n. \<bar>int (unat n) - int (unat r)\<bar> \<le> int (unat (neighbor_radius a))} \<union> set (control_nonces a)) - {r}"

lemma requested_nonces: "fst ` set (requested J r a) - {r} = compared_nonces r a"
proof -
  have "fst ` set (concat (List.map (neighbors J r) [1..<k + 1])) = {n. n \<noteq> r \<and> \<bar>int (unat n) - int (unat r)\<bar> \<le> int k}" for k
  proof -
    have "fst ` set (concat (List.map (neighbors J r) [1..<k + 1])) =
        {n. \<exists>d\<in>{1..k}. unat n + d = unat r \<or> unat n = unat r + d}"
      using neighbor_nonces [of J r] by (auto simp: image_UN set_concat atLeastLessThanSuc_atLeastAtMost)
    also have "\<dots> = {n. n \<noteq> r \<and> \<bar>int (unat n) - int (unat r)\<bar> \<le> int k}"
    proof -
      have "(\<exists>d\<in>{1..k}. x + d = y \<or> x = y + d) \<longleftrightarrow> x \<noteq> y \<and> \<bar>int x - int y\<bar> \<le> int k" for x y :: nat
      proof
        assume "x \<noteq> y \<and> \<bar>int x - int y\<bar> \<le> int k"
        then have "(if x < y then y - x else x - y) \<in> {1..k} \<and>
          (x + (if x < y then y - x else x - y) = y \<or> x = y + (if x < y then y - x else x - y))" by auto
        then show "\<exists>d\<in>{1..k}. x + d = y \<or> x = y + d" by blast
      qed auto
      then show ?thesis by (auto simp: word_unat_eq_iff)
    qed
    finally show ?thesis .
  qed
  then show ?thesis
    unfolding requested_def compared_nonces_def set_append image_Un by (auto simp: flips_def image_image)
qed

lemma selections_exist:
  "\<exists>xs. selected_ok r (requested J r a) xs \<and>
    research_nonce_selections J r a = List.map (\<lambda>(nonce, labels). \<lparr>ns_nonce = nonce, ns_labels = labels\<rparr>) xs"
proof (intro exI conjI)
  have "selected_ok r [] []" by (simp add: selected_ok_def labels_for_def)
  from add_selections_ok [OF this, of "requested J r a"]
  show "selected_ok r (requested J r a) (fold (add_selection r) (requested J r a) [])" by simp
qed (rule selections_eq)

lemma selected_elements:
  assumes "selected_ok r (requested J r a) xs"
  shows "(n, ls) \<in> set xs \<longleftrightarrow> n \<in> compared_nonces r a \<and> ls = labels_for n (requested J r a)"
proof -
  have "distinct (List.map fst xs)" using assms by (simp add: selected_ok_def strict_sorted_iff)
  then have "(n, ls) \<in> set xs \<longleftrightarrow> map_of xs n = Some ls" by simp
  moreover have "labels_for n (requested J r a) = [] \<longleftrightarrow> n \<notin> fst ` set (requested J r a)"
    by (auto simp: labels_for_def filter_empty_conv)
  then have "n \<in> compared_nonces r a \<longleftrightarrow> n \<noteq> r \<and> labels_for n (requested J r a) \<noteq> []"
    using requested_nonces [of J r a] by auto
  ultimately show ?thesis using assms by (auto simp: selected_ok_def)
qed

lemma selection_members:
  "\<lparr>ns_nonce = n, ns_labels = ls\<rparr> \<in> set (research_nonce_selections J r a) \<longleftrightarrow>
    n \<in> compared_nonces r a \<and> ls = labels_for n (requested J r a)"
proof -
  obtain xs where xs: "selected_ok r (requested J r a) xs"
    "research_nonce_selections J r a = List.map (\<lambda>(nonce, labels). \<lparr>ns_nonce = nonce, ns_labels = labels\<rparr>) xs"
    using selections_exist by blast
  have "\<lparr>ns_nonce = n, ns_labels = ls\<rparr> \<in> set (research_nonce_selections J r a) \<longleftrightarrow> (n, ls) \<in> set xs"
    unfolding xs(2) set_map by (auto simp: image_iff split: prod.splits)
  then show ?thesis unfolding selected_elements [OF xs(1)] .
qed

lemma selection_nonces: "ns_nonce ` set (research_nonce_selections J r a) = compared_nonces r a"
proof (intro set_eqI iffI)
  fix n assume "n \<in> ns_nonce ` set (research_nonce_selections J r a)"
  then obtain s where s: "s \<in> set (research_nonce_selections J r a)" "n = ns_nonce s" by blast
  obtain n' ls where "s = \<lparr>ns_nonce = n', ns_labels = ls\<rparr>" by (cases s)
  with s show "n \<in> compared_nonces r a" using selection_members [of n' ls J r a] by simp
next
  fix n assume "n \<in> compared_nonces r a"
  then have "\<lparr>ns_nonce = n, ns_labels = labels_for n (requested J r a)\<rparr> \<in> set (research_nonce_selections J r a)"
    by (simp add: selection_members)
  from imageI [OF this, of ns_nonce] show "n \<in> ns_nonce ` set (research_nonce_selections J r a)" by simp
qed

lemma selections_sorted: "sorted_wrt (<) (List.map ns_nonce (research_nonce_selections J r a))"
proof -
  obtain xs where xs: "selected_ok r (requested J r a) xs"
    "research_nonce_selections J r a = List.map (\<lambda>(nonce, labels). \<lparr>ns_nonce = nonce, ns_labels = labels\<rparr>) xs"
    using selections_exist by blast
  have "List.map ns_nonce (research_nonce_selections J r a) = List.map fst xs"
    unfolding xs(2) by (simp add: comp_def case_prod_beta)
  then show ?thesis using xs(1) by (simp add: selected_ok_def)
qed

text \<open>C38: the selections are in strictly ascending order without the reference nonce; their nonces are exactly the
  single-bit flips (when asked for), the nonces within the radius that exist as 32-bit numbers, and the control
  nonces; each carries the labels of all its requests, in the order flip, neighbour, control.\<close>

theorem nonce_selections_exact:
  "let selections = research_nonce_selections J r a
   in sorted_wrt (<) (List.map ns_nonce selections) \<and>
     ns_nonce ` set selections = compared_nonces r a \<and>
     (\<forall>n. \<forall>labels. \<lparr>ns_nonce = n, ns_labels = labels\<rparr> \<in> set selections \<longleftrightarrow>
       n \<in> compared_nonces r a \<and> labels = labels_for n (requested J r a))"
  unfolding Let_def by (intro conjI allI selections_sorted selection_nonces selection_members)

section \<open>Diffusion\<close>

definition first_rounds :: "bytes \<Rightarrow> u32 \<Rightarrow> round_trace list" where
  "first_rounds h n =
    block_trace 64 (take 64 h) kInitial 0 @ block_trace 64 (tail_block (set_nonce h n)) (middle_state h) 1"

lemma take_64_set_nonce: "take 64 (set_nonce h n) = take 64 h"
proof -
  have "take 64 (set_nonce h n) = take 64 (take 76 (set_nonce h n))" by (simp only: take_take) simp
  also have "\<dots> = take 64 h" by simp
  finally show ?thesis .
qed

lemma trace_first_rounds: "tr_rounds (first_sha (header_trace (set_nonce h n))) = first_rounds h n"
  by (simp add: header_trace_def first_rounds_def take_64_set_nonce middle_state_def)

lemma tail_regs:
  "length h = 80 \<Longrightarrow> i \<le> 3 \<Longrightarrow>
    regs_at (tail_block (set_nonce h n)) state i = regs_at (tail_block (set_nonce h m)) state i"
proof (induction i)
  case (Suc i)
  then have "message_schedule (tail_block (set_nonce h n)) ! i = message_schedule (tail_block (set_nonce h m)) ! i"
    by (intro schedule_of_tail(1)) simp_all
  then show ?case using Suc by (simp add: regs_at_Suc compress_round_def)
qed (simp add: regs_at_def)

lemma first_rounds_equal:
  assumes "length h = 80" "i < 67"
  shows "first_rounds h n ! i = first_rounds h m ! i"
proof (cases "i < 64")
  case False
  then have i: "i - 64 < 3" "i - 64 \<le> 3" using assms(2) by simp_all
  have "trace_round 1 (message_schedule (tail_block (set_nonce h n))) (i - 64) r =
      trace_round 1 (message_schedule (tail_block (set_nonce h m))) (i - 64) r" for r
    by (simp only: trace_round_def schedule_of_tail(1) [OF assms(1) i(1), of n m])
  then show ?thesis using False assms tail_regs [OF assms(1) i(2), of n "middle_state h" m]
    by (simp add: first_rounds_def nth_append block_trace_nth)
qed (simp add: first_rounds_def nth_append)

lemma first_rounds_67:
  assumes "length h = 80"
  shows "tr_w (first_rounds h n ! 67) = nonce_word n" "compression_index (first_rounds h n ! 67) = 1"
    "round_index (first_rounds h n ! 67) = 3"
  using schedule_of_tail(2) [OF assms]
  by (simp_all add: first_rounds_def nth_append block_trace_nth trace_round_fields) (simp add: trace_round_def Let_def)

lemma length_first_rounds [simp]: "length (first_rounds h n) = 128"
  by (simp add: first_rounds_def)

lemma compare_round_w:
  "df_w (compare_round J sha (a, b) d) =
    first_position (df_w d) (tr_w a \<noteq> tr_w b) (sha, compression_index a, round_index a + 1)"
  by (simp add: compare_round_def Let_def)

lemma compare_keeps: "df_w d = Some p \<Longrightarrow> df_w (fold (compare_round J sha) ps d) = Some p"
proof (induction ps arbitrary: d)
  case (Cons q ps)
  obtain a b where q: "q = (a, b)" by force
  have "df_w (compare_round J sha q d) = Some p" using Cons.prems by (simp add: q compare_round_w first_position_def)
  then show ?case using Cons.IH by simp
qed simp

lemma compare_skips:
  "(\<And>a b. (a, b) \<in> set ps \<Longrightarrow> tr_w a = tr_w b) \<Longrightarrow> df_w (fold (compare_round J sha) ps d) = df_w d"
proof (induction ps arbitrary: d)
  case (Cons p ps)
  obtain a b where p: "p = (a, b)" by force
  have "tr_w a = tr_w b" by (rule Cons.prems) (simp add: p)
  then have "df_w (compare_round J sha p d) = df_w d" by (simp add: p compare_round_w first_position_def)
  moreover have "df_w (fold (compare_round J sha) ps (compare_round J sha p d)) = df_w (compare_round J sha p d)"
    by (rule Cons.IH, rule Cons.prems) simp
  ultimately show ?case by simp
qed simp

lemma first_w_position:
  assumes "length h = 80" "df_w d = None" "n \<noteq> m"
  shows "df_w (fold (compare_round J 1) (zip (first_rounds h m) (first_rounds h n)) d) = Some (1, 1, 4)"
proof -
  let ?zs = "zip (first_rounds h m) (first_rounds h n)"
  have at: "?zs ! i = (first_rounds h m ! i, first_rounds h n ! i)" if "i < 128" for i using that by simp
  have split: "?zs = take 67 ?zs @ ?zs ! 67 # drop 68 ?zs"
    by (subst id_take_nth_drop [of 67]) simp_all
  have same: "tr_w a = tr_w b" if ab: "(a, b) \<in> set (take 67 ?zs)" for a b
  proof -
    obtain i where i: "i < length (take 67 ?zs)" "take 67 ?zs ! i = (a, b)" using ab unfolding in_set_conv_nth by blast
    then have "a = first_rounds h m ! i" "b = first_rounds h n ! i" using at [of i] by simp_all
    moreover have "i < 67" using i(1) by simp
    ultimately show ?thesis using first_rounds_equal [OF assms(1), of i n m] by simp
  qed
  have "nonce_word m \<noteq> nonce_word n" using assms(3) by (simp add: nonce_word_inject)
  then have "df_w (compare_round J 1 (?zs ! 67) (fold (compare_round J 1) (take 67 ?zs) d)) = Some (1, 1, 4)"
    using compare_skips [OF same, where J = J and sha = 1 and d = d] assms(2) unfolding at [of 67, simplified]
    by (simp add: compare_round_w first_position_def first_rounds_67 [OF assms(1)])
  then show ?thesis by (subst split) (simp add: compare_keeps)
qed

lemma round_equal_refl: "research_round_equal r r"
  by (simp add: research_round_equal_def)

lemma equal_first_rounds:
  assumes "length h = 80" "\<And>i. i \<in> set is \<Longrightarrow> i < 67"
  shows "equal_rounds (first_rounds h m) (first_rounds h n) detail is = Inr ()"
  unfolding equal_rounds_def
proof (rule foldE_unit)
  fix i assume "i \<in> set is"
  then have "first_rounds h m ! i = first_rounds h n ! i" by (intro first_rounds_equal assms)
  then show "require_research (research_round_equal (first_rounds h m ! i) (first_rounds h n ! i)) (detail i) = Inr ()"
    by (simp add: round_equal_refl)
qed

lemma guard_decides: "(\<exists>x. bindE (require_research c detail) (\<lambda>_. Inr y) = Inr x) \<longleftrightarrow> c"
  by (auto simp: require_research_def requireE_def)

lemma diffusion_iff:
  assumes "length h = 80" "tc_trace reference = header_trace (set_nonce h m)"
    "tc_trace candidate = header_trace (set_nonce h n)"
  shows "(\<exists>report. research_diffusion_json J reference candidate = Inr report) \<longleftrightarrow> n \<noteq> m"
proof -
  have traces: "tr_rounds (first_sha (tc_trace reference)) = first_rounds h m"
    "tr_rounds (first_sha (tc_trace candidate)) = first_rounds h n"
    using assms(2,3) by (simp_all add: trace_first_rounds)
  have sizes: "length (tr_rounds (second_sha (tc_trace reference))) = 64"
    "length (tr_rounds (second_sha (tc_trace candidate))) = 64"
    using assms(2,3) by (simp_all add: header_trace_def)
  have eqs: "equal_rounds (first_rounds h m) (first_rounds h n) detail [0..<64] = Inr ()"
    "equal_rounds (first_rounds h m) (first_rounds h n) detail [64..<67] = Inr ()" for detail
    by (rule equal_first_rounds [OF assms(1)], auto)+
  let ?init = "\<lparr>df_w = None, df_temp1 = None, df_after = None, df_before = None, df_primitive = None, df_rounds = []\<rparr> :: 'a diffusion"
  let ?zs = "zip (tr_rounds (second_sha (tc_trace reference))) (tr_rounds (second_sha (tc_trace candidate)))"
  define d where "d = fold (compare_round J 2) ?zs (fold (compare_round J 1) (zip (first_rounds h m) (first_rounds h n)) ?init)"
  have "df_w d = Some (1, 1, 4) \<longleftrightarrow> n \<noteq> m"
  proof (cases "n = m")
    case True
    have same: "tr_w a = tr_w b" if "(a, b) \<in> set (zip xs xs)" for a b and xs :: "round_trace list"
      using that by (auto simp: zip_same_conv_map)
    have "tc_trace reference = tc_trace candidate" using assms(2,3) True by simp
    then have "df_w d = None" unfolding d_def True
      by (simp add: compare_skips [OF same])
    then show ?thesis using True by simp
  next
    case False
    then show ?thesis unfolding d_def by (simp add: compare_keeps first_w_position [OF assms(1), simplified])
  qed
  then show ?thesis
    unfolding research_diffusion_json_def Let_def traces sizes d_def
    by (simp only: length_first_rounds refl simp_thms require_research_simps bindE_simps eqs guard_decides)
qed

text \<open>For two nonces of one header the comparison is produced exactly when the nonces differ: the first
  compression and the first three rounds of the second one are then identical, and the message word of the fourth
  round is the first one that differs.\<close>

theorem diffusion_starts_at_w3:
  assumes "length h = 80" "tc_trace reference = header_trace (set_nonce h m)"
    "tc_trace candidate = header_trace (set_nonce h n)"
  shows "((\<exists>report. research_diffusion_json J reference candidate = Inr report) \<longleftrightarrow> n \<noteq> m) \<and>
    take 67 (tr_rounds (first_sha (tc_trace candidate))) = take 67 (tr_rounds (first_sha (tc_trace reference))) \<and>
    (tr_w (tr_rounds (first_sha (tc_trace candidate)) ! 67) = tr_w (tr_rounds (first_sha (tc_trace reference)) ! 67)
      \<longleftrightarrow> n = m)"
proof (intro conjI)
  show "take 67 (tr_rounds (first_sha (tc_trace candidate))) = take 67 (tr_rounds (first_sha (tc_trace reference)))"
    unfolding assms(2,3) trace_first_rounds by (rule nth_equalityI) (simp_all add: first_rounds_equal [OF assms(1), of _ n m])
  show "tr_w (tr_rounds (first_sha (tc_trace candidate)) ! 67) = tr_w (tr_rounds (first_sha (tc_trace reference)) ! 67)
      \<longleftrightarrow> n = m"
    unfolding assms(2,3) trace_first_rounds first_rounds_67 [OF assms(1)] by (rule nonce_word_inject)
qed (rule diffusion_iff [OF assms])

theorem diffusion_starts_at_w3_witness:
  "(let trace = (\<lambda>n. \<lparr>tc_nonce = n, tc_labels = [], tc_header = replicate 80 0,
      tc_trace = header_trace (set_nonce (replicate 80 0) n), tc_trajectory = JNull\<rparr>)
    in \<exists>report. research_diffusion_json tree_api (trace 7) (trace 9) = Inr report)"
  using diffusion_starts_at_w3 [of "replicate 80 0" "\<lparr>tc_nonce = 7, tc_labels = [], tc_header = replicate 80 0,
      tc_trace = header_trace (set_nonce (replicate 80 0) 7), tc_trajectory = JNull\<rparr>" 7
    "\<lparr>tc_nonce = 9, tc_labels = [], tc_header = replicate 80 0,
      tc_trace = header_trace (set_nonce (replicate 80 0) 9), tc_trajectory = JNull\<rparr>" 9 tree_api]
  by (simp add: Let_def)

section \<open>The reports\<close>

definition source_label :: "'j json_api \<Rightarrow> u32 \<Rightarrow> u32 \<Rightarrow> 'j \<Rightarrow> bool" where
  "source_label J r n label \<longleftrightarrow>
    (\<exists>i<32. n = r XOR push_bit i 1 \<and> label = j_object J [(''kind'', j_string J ''single_bit_flip''), (''bit'', j_count J i)]) \<or>
    (\<exists>delta. label = neighbor_label J delta) \<or> label = j_object J [(''kind'', j_string J ''control'')]"

lemma requested_labels: "req \<in> set (requested J r a) \<Longrightarrow> source_label J r (fst req) (snd req)"
proof -
  have flips: "source_label J r (fst req) (snd req)" if "req \<in> set (flips J r)" for req
    using that by (auto simp: flips_def source_label_def)
  have "source_label J r (fst req) (snd req)" if "req \<in> set (neighbors J r d)" for req d
    using that by (auto simp: neighbors_def source_label_def split: if_splits)
  then have nbrs: "source_label J r (fst req) (snd req)"
    if "req \<in> set (concat (List.map (neighbors J r) ds))" for req ds
    using that by auto
  assume "req \<in> set (requested J r a)"
  then consider "req \<in> set (flips J r)" | "req \<in> set (concat (List.map (neighbors J r) [1..<unat (neighbor_radius a) + 1]))"
    | "req \<in> set (List.map (\<lambda>n. (n, j_object J [(''kind'', j_string J ''control'')])) (control_nonces a))"
    unfolding requested_def set_append by (auto split: if_splits)
  then show ?thesis
  proof cases
    case 3
    then show ?thesis by (auto simp: source_label_def)
  qed (rule flips nbrs, assumption)+
qed

lemma annotate_returns:
  assumes "json_ok J" "source_label J r n label"
  shows "\<exists>label'. annotate_label J n (nonce_word r) (nonce_word n) label = Inr label' \<and> label_ok J label'"
  using assms(2) unfolding source_label_def
proof (elim disjE exE conjE)
  fix i assume i: "i < 32" "n = r XOR push_bit i 1"
    "label = j_object J [(''kind'', j_string J ''single_bit_flip''), (''bit'', j_count J i)]"
  have "research_word_hamming (nonce_word r) (nonce_word n) = 1"
    unfolding nonce_word_hamming i(2) by (rule popcount_bit [OF i(1)])
  then show ?thesis
    using assms(1) unfolding i(3) annotate_label_def label_ok_def
    by (simp add: json_laws value_or_set)
qed (use assms(1) in \<open>simp_all add: annotate_label_def label_ok_def neighbor_label_def json_laws\<close>)

lemma mapE_returns_all:
  "(\<And>x. x \<in> set xs \<Longrightarrow> \<exists>y. f x = Inr y \<and> P y) \<Longrightarrow> \<exists>ys. mapE f xs = Inr ys \<and> (\<forall>y\<in>set ys. P y)"
proof (induction xs)
  case (Cons x xs)
  then obtain y ys where "f x = Inr y" "P y" "mapE f xs = Inr ys" "\<forall>y\<in>set ys. P y" by (metis list.set_intros)
  then show ?case by simp
qed simp

lemma record_returns:
  "length h = 80 \<Longrightarrow> research_trace_record J h n labels =
    Inr \<lparr>tc_nonce = n, tc_labels = labels, tc_header = set_nonce h n, tc_trace = header_trace (set_nonce h n), tc_trajectory = j_null J\<rparr>"
  by (simp add: research_trace_record_def header_trace_eq header_trace_def Let_def)

lemma first_round_at: "length h = 80 \<Longrightarrow>
  vector_at (tr_rounds (first_sha (header_trace (set_nonce h n)))) (64 + 3) = Inr (first_rounds h n ! 67)"
  by (simp add: vector_at_def trace_first_rounds)

text \<open>The records of the candidates, in the order of their nonces.\<close>

definition candidates_of :: "bytes \<Rightarrow> u32 list \<Rightarrow> 'j trace_record list \<Rightarrow> bool" where
  "candidates_of h ns cs \<longleftrightarrow> list_all2 (\<lambda>n c. tc_trace c = header_trace (set_nonce h n)) ns cs"

lemma analyse_selection_returns:
  assumes "json_ok J" "length h = 80" "n \<noteq> r" "\<And>p. previous = Some p \<Longrightarrow> p < n"
    "\<And>l. l \<in> set labels \<Longrightarrow> source_label J r n l"
  shows "\<exists>multiple' c. analyse_selection J h r (nonce_word r) \<lparr>ns_nonce = n, ns_labels = labels\<rparr> (previous, multiple, cs) =
    Inr (Some n, multiple', cs @ [c]) \<and> tc_trace c = header_trace (set_nonce h n)"
proof -
  have order: "(case previous of None \<Rightarrow> Inr () | Some p \<Rightarrow>
      require_research (p < n) ''candidate nonce set is not strictly unique'') = Inr ()"
    using assms(4) by (cases previous) simp_all
  obtain labels' where labels': "mapE (annotate_label J n (nonce_word r) (nonce_word n)) labels = Inr labels'"
    "\<forall>l\<in>set labels'. label_ok J l"
  proof -
    have "\<exists>labels'. mapE (annotate_label J n (nonce_word r) (nonce_word n)) labels = Inr labels' \<and> (\<forall>l\<in>set labels'. label_ok J l)"
      by (rule mapE_returns_all, rule annotate_returns [OF assms(1)], rule assms(5))
    then show thesis using that by blast
  qed
  define c where "c = \<lparr>tc_nonce = n, tc_labels = labels', tc_header = set_nonce h n,
    tc_trace = header_trace (set_nonce h n), tc_trajectory = j_null J\<rparr>"
  have annotate: "research_annotate_w3_labels J (nonce_word r) \<lparr>tc_nonce = n, tc_labels = labels,
      tc_header = set_nonce h n, tc_trace = header_trace (set_nonce h n), tc_trajectory = j_null J\<rparr> = Inr c"
    using labels'(1) first_round_at [OF assms(2), of n]
    by (simp add: research_annotate_w3_labels_def first_rounds_67 [OF assms(2)] c_def)
  have "\<exists>j. research_trajectory_json J c (nonce_word r) = Inr j"
    using labels'(2) by (intro trajectory_returns [of "set_nonce h n"]) (simp_all add: c_def assms(2))
  then obtain j where j: "research_trajectory_json J c (nonce_word r) = Inr j" by blast
  show ?thesis
    unfolding analyse_selection_def prod.case nonce_selection.simps order record_returns [OF assms(2)] bindE_simps annotate j
    using assms(3) by (simp add: c_def)
qed

lemma analyse_selections_return:
  assumes "json_ok J" "length h = 80"
  shows "sorted_wrt (<) (List.map ns_nonce sels) \<Longrightarrow> (\<And>p s. previous = Some p \<Longrightarrow> s \<in> set sels \<Longrightarrow> p < ns_nonce s) \<Longrightarrow>
    (\<And>s. s \<in> set sels \<Longrightarrow> ns_nonce s \<noteq> r \<and> (\<forall>l\<in>set (ns_labels s). source_label J r (ns_nonce s) l)) \<Longrightarrow>
    candidates_of h ns cs \<Longrightarrow>
    \<exists>previous' multiple' cs'. foldE (analyse_selection J h r (nonce_word r)) sels (previous, multiple, cs) =
      Inr (previous', multiple', cs') \<and> candidates_of h (ns @ List.map ns_nonce sels) cs'"
proof (induction sels arbitrary: previous multiple ns cs)
  case (Cons s sels)
  obtain n labels where s: "s = \<lparr>ns_nonce = n, ns_labels = labels\<rparr>" by (cases s)
  have "\<exists>multiple' c. analyse_selection J h r (nonce_word r) \<lparr>ns_nonce = n, ns_labels = labels\<rparr> (previous, multiple, cs) =
      Inr (Some n, multiple', cs @ [c]) \<and> tc_trace c = header_trace (set_nonce h n)"
    using Cons.prems(2) [of _ s] Cons.prems(3) [of s] by (intro analyse_selection_returns assms) (simp_all add: s)
  then obtain multiple' c where c: "analyse_selection J h r (nonce_word r) s (previous, multiple, cs) =
      Inr (Some n, multiple', cs @ [c])" "tc_trace c = header_trace (set_nonce h n)" unfolding s by blast
  have "candidates_of h (ns @ [n]) (cs @ [c])"
    using Cons.prems(4) c(2) by (simp add: candidates_of_def list_all2_appendI)
  moreover have "\<And>p s'. Some n = Some p \<Longrightarrow> s' \<in> set sels \<Longrightarrow> p < ns_nonce s'" using Cons.prems(1) by (simp add: s)
  ultimately have "\<exists>previous' multiple'' cs'. foldE (analyse_selection J h r (nonce_word r)) sels (Some n, multiple', cs @ [c]) =
      Inr (previous', multiple'', cs') \<and> candidates_of h ((ns @ [n]) @ List.map ns_nonce sels) cs'"
    using Cons.prems(1,3) by (intro Cons.IH) (simp_all add: s)
  then show ?case using c(1) by (simp add: s)
qed (simp add: candidates_of_def)

lemma selection_labels:
  assumes "s \<in> set (research_nonce_selections J r a)"
  shows "ns_nonce s \<noteq> r \<and> (\<forall>l\<in>set (ns_labels s). source_label J r (ns_nonce s) l)"
proof -
  obtain n ls where s: "s = \<lparr>ns_nonce = n, ns_labels = ls\<rparr>" by (cases s)
  then have "n \<in> compared_nonces r a" "ls = labels_for n (requested J r a)"
    using assms selection_members [of n ls J r a] by simp_all
  then show ?thesis using requested_labels [of _ J r a] by (auto simp: s labels_for_def compared_nonces_def)
qed

text \<open>C17: for a header of 80 bytes with its own trace and any configuration, none of the recomputations of schedules,
  rounds, carries, chaining and nonce words can fail: the reports are produced exactly when the reference hash is the
  genesis hash, with one trajectory for the reference and one for each compared nonce; otherwise the error is the one
  about the genesis hash.\<close>

theorem analysis_reports_consistent:
  assumes "json_ok J" "length h = 80" "trace_reduced_sha256d (set_nonce h r) 64 = Inr trace"
  shows "if bitcoin_hash_hex (sha256d (set_nonce h r)) = genesis_hash
    then \<exists>reports. research_analysis_reports J (set_nonce h r) trace header_id r a = Inr reports \<and>
      ar_candidate_count reports = card (compared_nonces r a) \<and>
      ar_trajectory_count reports = card (compared_nonces r a) + 1
    else research_analysis_reports J (set_nonce h r) trace header_id r a = Inl (Runtime_error
      ''research trace analysis failed: reference nonce does not produce the exact Bitcoin Genesis hash'')"
proof -
  let ?R = "set_nonce h r" and ?sels = "research_nonce_selections J r a"
  have R: "length ?R = 80" using assms(2) by simp
  have trace: "trace = header_trace ?R" using assms(3) header_trace_eq [OF R] by simp
  have digest: "rt_digest trace = sha256d ?R" unfolding trace by (rule header_trace_digest [OF R])
  have sizes: "length (tr_rounds (first_sha trace)) = 128" "length (tr_rounds (second_sha trace)) = 64"
    by (simp_all add: trace header_trace_def)
  have round: "vector_at (tr_rounds (first_sha trace)) (64 + 3) = Inr (first_rounds h r ! 67)"
    unfolding trace by (rule first_round_at [OF assms(2)])
  define reference where "reference = \<lparr>tc_nonce = r, tc_labels = [j_object J [(''kind'', j_string J ''reference'')]],
    tc_header = ?R, tc_trace = trace, tc_trajectory = j_null J\<rparr>"
  have "\<exists>j. research_trajectory_json J reference (nonce_word r) = Inr j"
    using assms(1) by (intro trajectory_returns [OF R]) (simp_all add: reference_def trace label_ok_def json_laws)
  then obtain t where t: "research_trajectory_json J reference (nonce_word r) = Inr t" by blast
  have "\<exists>p m cs. foldE (analyse_selection J ?R r (nonce_word r)) ?sels (None, False, []) = Inr (p, m, cs) \<and>
      candidates_of ?R ([] @ List.map ns_nonce ?sels) cs"
    by (intro analyse_selections_return assms(1) R selections_sorted selection_labels) (simp_all add: candidates_of_def)
  then obtain p m cs where cs: "foldE (analyse_selection J ?R r (nonce_word r)) ?sels (None, False, []) = Inr (p, m, cs)"
    "list_all2 (\<lambda>n c. tc_trace c = header_trace (set_nonce ?R n)) (List.map ns_nonce ?sels) cs"
    by (auto simp: candidates_of_def)
  have "\<exists>ds. mapE (research_diffusion_json J (reference\<lparr>tc_trajectory := t\<rparr>)) cs = Inr ds"
  proof (rule mapE_returns)
    fix c assume "c \<in> set cs"
    then obtain i where i: "i < length cs" "cs ! i = c" unfolding in_set_conv_nth by blast
    then have len: "i < length ?sels" using list_all2_lengthD [OF cs(2)] by simp
    have "tc_trace c = header_trace (set_nonce h (ns_nonce (?sels ! i)))"
      using list_all2_nthD2 [OF cs(2) i(1)] i(2) len assms(2) by simp
    moreover have "ns_nonce (?sels ! i) \<noteq> r" using selection_labels nth_mem [OF len] by blast
    ultimately show "\<exists>j. research_diffusion_json J (reference\<lparr>tc_trajectory := t\<rparr>) c = Inr j"
      by (subst diffusion_iff [OF assms(2), where m = r]) (simp_all add: reference_def trace)
  qed
  then obtain ds where ds: "mapE (research_diffusion_json J (reference\<lparr>tc_trajectory := t\<rparr>)) cs = Inr ds" by blast
  have "distinct (List.map ns_nonce ?sels)" using selections_sorted [of J r a] by (simp add: strict_sorted_iff)
  then have "length cs = card (ns_nonce ` set ?sels)"
    using list_all2_lengthD [OF cs(2)] distinct_card by fastforce
  then have count: "length cs = card (compared_nonces r a)" by (simp add: selection_nonces)
  show ?thesis
  proof (cases "bitcoin_hash_hex (sha256d ?R) = genesis_hash")
    case True
    then show ?thesis
      unfolding research_analysis_reports_def digest sizes round first_rounds_67 [OF assms(2)] Let_def
        reference_def [symmetric]
      by (simp add: first_rounds_67 [OF assms(2)] t cs(1) ds count)
  next
    case False
    then show ?thesis
      by (simp add: research_analysis_reports_def digest require_research_def requireE_def)
  qed
qed

theorem analysis_reports_consistent_witness:
  "let h = replicate 80 0; a = \<lparr>trace_enabled = True, single_bit_flips = True, neighbor_radius = 2,
    control_nonces = [5], save_full_trajectories = False\<rparr>
   in if bitcoin_hash_hex (sha256d (set_nonce h 1)) = genesis_hash
    then \<exists>reports. research_analysis_reports tree_api (set_nonce h 1) (header_trace (set_nonce h 1)) [] 1 a = Inr reports \<and>
      ar_candidate_count reports = card (compared_nonces 1 a) \<and> ar_trajectory_count reports = card (compared_nonces 1 a) + 1
    else research_analysis_reports tree_api (set_nonce h 1) (header_trace (set_nonce h 1)) [] 1 a = Inl (Runtime_error
      ''research trace analysis failed: reference nonce does not produce the exact Bitcoin Genesis hash'')"
  unfolding Let_def by (rule analysis_reports_consistent) (simp_all add: json_ok_tree_api header_trace_eq)

end
