(* ===== verification/Telemetry.thy ===== *)
theory Telemetry
  imports Best_Pow
begin

text \<open>
  \<^verbatim>\<open>src/telemetry/telemetry.cpp\<close>: the counters the components add to, the values the console shows and the line
  it prints. Times of the steady clock are nanoseconds. How the stream writes a number of type \<^verbatim>\<open>double\<close> is a
  parameter; it depends on whether \<^verbatim>\<open>std::fixed\<close> was set on the stream before, which nothing undoes.
\<close>

section \<open>The state\<close>

record telemetry =
  tm_refresh_ms :: u32
  tm_running :: bool
  tm_cpu_hashes :: u64
  tm_gpu_hashes :: u64
  tm_headers_complete :: u64
  tm_shares :: u64
  tm_accepted :: u64
  tm_rejected :: u64
  tm_stale_jobs :: u64
  tm_connected :: bool
  tm_authorized :: bool
  tm_clean_jobs :: bool
  tm_endpoint :: string
  tm_job_id :: string
  tm_prevhash :: string
  tm_network_target :: string
  tm_cpu_extranonce2 :: string
  tm_gpu_extranonce2 :: string
  tm_gpu_name :: string
  tm_best_hash :: string
  tm_share_difficulty :: fdouble
  tm_cpu_threads :: u32
  tm_gpu_nonce_start :: u64
  tm_gpu_nonce_next :: u64
  tm_gpu_nonce_end :: u64

definition make_telemetry :: "u32 \<Rightarrow> telemetry" where
  "make_telemetry refresh = \<lparr>tm_refresh_ms = refresh, tm_running = False, tm_cpu_hashes = 0, tm_gpu_hashes = 0,
    tm_headers_complete = 0, tm_shares = 0, tm_accepted = 0, tm_rejected = 0, tm_stale_jobs = 0,
    tm_connected = False, tm_authorized = False, tm_clean_jobs = False, tm_endpoint = '''', tm_job_id = '''',
    tm_prevhash = '''', tm_network_target = '''', tm_cpu_extranonce2 = '''', tm_gpu_extranonce2 = '''',
    tm_gpu_name = ''absent'', tm_best_hash = '''', tm_share_difficulty = double_of_nat 1, tm_cpu_threads = 0,
    tm_gpu_nonce_start = 0, tm_gpu_nonce_next = 0, tm_gpu_nonce_end = 0\<rparr>"

section \<open>The operations\<close>

definition telemetry_start :: "telemetry \<Rightarrow> telemetry" where
  "telemetry_start t = (if \<not> tm_running t then t\<lparr>tm_running := True\<rparr> else t)"

definition telemetry_stop :: "telemetry \<Rightarrow> telemetry" where
  "telemetry_stop t = (if \<not> tm_running t then t else t\<lparr>tm_running := False\<rparr>)"

definition set_connection :: "bool \<Rightarrow> bool \<Rightarrow> string \<Rightarrow> telemetry \<Rightarrow> telemetry" where
  "set_connection conn auth endpoint t =
    t\<lparr>tm_connected := conn, tm_authorized := auth, tm_endpoint := endpoint\<rparr>"

definition set_job :: "string \<Rightarrow> string \<Rightarrow> bool \<Rightarrow> fdouble \<Rightarrow> string \<Rightarrow> telemetry \<Rightarrow> telemetry" where
  "set_job job prev clean difficulty target t =
    t\<lparr>tm_job_id := job, tm_prevhash := prev, tm_clean_jobs := clean, tm_share_difficulty := difficulty,
      tm_network_target := target\<rparr>"

definition set_worker_state :: "u32 \<Rightarrow> string \<Rightarrow> string \<Rightarrow> string \<Rightarrow> telemetry \<Rightarrow> telemetry" where
  "set_worker_state threads cpu_en2 gpu_name gpu_en2 t =
    t\<lparr>tm_cpu_threads := threads, tm_cpu_extranonce2 := cpu_en2, tm_gpu_name := gpu_name, tm_gpu_extranonce2 := gpu_en2\<rparr>"

definition set_cpu_extranonce2 :: "string \<Rightarrow> telemetry \<Rightarrow> telemetry" where
  "set_cpu_extranonce2 en2 t = t\<lparr>tm_cpu_extranonce2 := en2\<rparr>"

definition set_gpu_extranonce2 :: "string \<Rightarrow> telemetry \<Rightarrow> telemetry" where
  "set_gpu_extranonce2 en2 t = t\<lparr>tm_gpu_extranonce2 := en2\<rparr>"

definition telemetry_best :: "string \<Rightarrow> telemetry \<Rightarrow> telemetry" where
  "telemetry_best hash t =
    (if tm_best_hash t = '''' \<or> hash < tm_best_hash t then t\<lparr>tm_best_hash := hash\<rparr> else t)"

definition set_gpu_progress :: "u64 \<Rightarrow> u64 \<Rightarrow> u64 \<Rightarrow> telemetry \<Rightarrow> telemetry" where
  "set_gpu_progress nstart nnext nend t =
    t\<lparr>tm_gpu_nonce_start := nstart, tm_gpu_nonce_next := nnext, tm_gpu_nonce_end := nend\<rparr>"

section \<open>The console line\<close>

text \<open>The sleep between two lines, in slices, until the stop flag is seen (\<open>stopped k\<close>: before slice \<open>k\<close>).\<close>

fun sleep_slices :: "(nat \<Rightarrow> bool) \<Rightarrow> nat \<Rightarrow> nat \<Rightarrow> nat list" where
  "sleep_slices stopped k remaining =
    (if stopped k \<or> remaining = 0 then []
     else min remaining 100 # sleep_slices stopped (k + 1) (remaining - min remaining 100))"

declare sleep_slices.simps [simp del]

definition hash_rate :: "u64 \<Rightarrow> u64 \<Rightarrow> fdouble \<Rightarrow> fdouble" where
  "hash_rate current previous elapsed =
    (if double_less double_zero elapsed then double_div (double_of_nat (unat (current - previous))) elapsed else double_zero)"

definition range_length :: "telemetry \<Rightarrow> u64" where
  "range_length t =
    (if tm_gpu_nonce_end t > tm_gpu_nonce_start t then tm_gpu_nonce_end t - tm_gpu_nonce_start t else 0)"

definition range_done :: "telemetry \<Rightarrow> u64" where
  "range_done t =
    (if tm_gpu_nonce_next t > tm_gpu_nonce_start t
     then min (tm_gpu_nonce_next t) (tm_gpu_nonce_end t) - tm_gpu_nonce_start t else 0)"

definition gpu_progress :: "telemetry \<Rightarrow> fdouble" where
  "gpu_progress t =
    (if range_length t > 0
     then double_div (double_mul (double_of_nat 100) (double_of_nat (unat (range_done t)))) (double_of_nat (unat (range_length t)))
     else double_zero)"

text \<open>The conversion of a \<^verbatim>\<open>double\<close> in the range of the integer type drops the fraction.\<close>

definition double_to_u64 :: "fdouble \<Rightarrow> u64" where
  "double_to_u64 d = of_nat (nat \<lfloor>rat_of_double d\<rfloor>)"

definition gpu_eta :: "fdouble \<Rightarrow> telemetry \<Rightarrow> u64" where
  "gpu_eta gpu_rate t =
    (if double_less double_zero gpu_rate \<and> tm_gpu_nonce_end t > tm_gpu_nonce_next t
     then double_to_u64 (double_div (double_of_nat (unat (tm_gpu_nonce_end t - tm_gpu_nonce_next t))) gpu_rate) else 0)"

definition ellipsis :: string where "ellipsis = [CHR 0xE2, CHR 0x80, CHR 0xA6]"

definition shortened :: "nat \<Rightarrow> string \<Rightarrow> string" where
  "shortened n s = (if length s > n then take n s @ ellipsis else s)"

definition or_dash :: "string \<Rightarrow> string" where
  "or_dash s = (if s = '''' then ''-'' else s)"

record stat_clock =
  sc_previous_time :: int
  sc_previous_cpu :: u64
  sc_previous_gpu :: u64
  sc_fixed :: bool

definition stat_line :: "(bool \<Rightarrow> fdouble \<Rightarrow> string) \<Rightarrow> int \<Rightarrow> int \<Rightarrow> telemetry \<Rightarrow> stat_clock \<Rightarrow> string \<times> stat_clock" where
  "stat_line show_double started now t p =
    (let elapsed = seconds_between (sc_previous_time p) now;
         cpu = tm_cpu_hashes t; gpu = tm_gpu_hashes t;
         cpu_rate = hash_rate cpu (sc_previous_cpu p) elapsed;
         gpu_rate = hash_rate gpu (sc_previous_gpu p) elapsed;
         uptime = (now - started) div 1000000000;
         total_rate = double_add cpu_rate gpu_rate;
         mega = (\<lambda>r. show_double True (double_div r (double_of_nat 1000000)));
         count = (\<lambda>n :: u64. to_string (unat n))
     in (''[STAT] '' @ (if tm_connected t then ''connect'' @ [CHR 0xC3, CHR 0xA9] else ''hors-ligne'')
         @ ''/'' @ (if tm_authorized t then ''autoris'' @ [CHR 0xC3, CHR 0xA9] else ''non-autoris'' @ [CHR 0xC3, CHR 0xA9])
         @ '' job='' @ or_dash (tm_job_id t)
         @ '' prev='' @ or_dash (shortened 16 (tm_prevhash t))
         @ '' endpoint='' @ or_dash (tm_endpoint t)
         @ '' clean='' @ (if tm_clean_jobs t then ''true'' else ''false'')
         @ '' diff='' @ show_double (sc_fixed p) (tm_share_difficulty t)
         @ '' target='' @ or_dash (shortened 16 (tm_network_target t))
         @ '' ex2(C/G)='' @ or_dash (tm_cpu_extranonce2 t)
         @ ''/'' @ or_dash (tm_gpu_extranonce2 t)
         @ '' CPU='' @ mega cpu_rate @ '' MH/s('' @ to_string (unat (tm_cpu_threads t)) @ '')''
         @ '' GPU='' @ mega gpu_rate @ '' MH/s('' @ tm_gpu_name t @ '')''
         @ '' total_rate='' @ mega total_rate @ '' MH/s''
         @ '' total='' @ count (cpu + gpu)
         @ '' units='' @ count (tm_headers_complete t)
         @ '' GPU_progress='' @ show_double True (gpu_progress t) @ ''% GPU_ETA='' @ count (gpu_eta gpu_rate t) @ ''s''
         @ '' shares='' @ count (tm_shares t) @ ''/'' @ count (tm_accepted t) @ ''/'' @ count (tm_rejected t)
         @ '' stale='' @ count (tm_stale_jobs t)
         @ '' best='' @ or_dash (shortened 20 (tm_best_hash t))
         @ '' uptime='' @ to_string (nat uptime) @ ''s'',
         \<lparr>sc_previous_time = now, sc_previous_cpu = cpu, sc_previous_gpu = gpu, sc_fixed = True\<rparr>))"

text \<open>The loop prints a line for every time that the sleep ends without a stop; \<open>ticks\<close> are these times, each with
  the values of the members then.\<close>

fun render :: "(bool \<Rightarrow> fdouble \<Rightarrow> string) \<Rightarrow> int \<Rightarrow> (int \<times> telemetry) list \<Rightarrow> stat_clock \<Rightarrow> string list" where
  "render show_double started [] p = []"
| "render show_double started ((now, t) # ticks) p =
    (case stat_line show_double started now t p of (line, p') \<Rightarrow> line # render show_double started ticks p')"

section \<open>Lemmas\<close>

lemma sleep_slices_bounds:
  "sum_list (sleep_slices stopped k n) \<le> n \<and> list_all (\<lambda>ms. 0 < ms \<and> ms \<le> 100) (sleep_slices stopped k n)"
proof (induction stopped k n rule: sleep_slices.induct)
  case (1 stopped k n)
  then show ?case by (subst (1 2) sleep_slices.simps) auto
qed

lemma range_done_le:
  assumes "range_length t > 0"
  shows "unat (range_done t) \<le> unat (range_length t)"
proof (cases "tm_gpu_nonce_next t > tm_gpu_nonce_start t")
  case True
  have se: "tm_gpu_nonce_start t < tm_gpu_nonce_end t" using assms by (simp add: range_length_def split: if_splits)
  define m where "m = min (tm_gpu_nonce_next t) (tm_gpu_nonce_end t)"
  have m: "tm_gpu_nonce_start t \<le> m" "m \<le> tm_gpu_nonce_end t" using True se by (simp_all add: m_def less_imp_le)
  have "unat (m - tm_gpu_nonce_start t) \<le> unat (tm_gpu_nonce_end t - tm_gpu_nonce_start t)"
    using m se by (simp add: unat_sub word_le_nat_alt)
  then show ?thesis using True se by (simp add: range_done_def range_length_def m_def)
qed (simp add: range_done_def)

text \<open>The best hash is the least hash seen, as long as none is the empty string.\<close>

lemma telemetry_best_least:
  "\<forall>h\<in>set hs. h \<noteq> '''' \<Longrightarrow> tm_best_hash t = '''' \<Longrightarrow> hs \<noteq> [] \<Longrightarrow>
    tm_best_hash (fold telemetry_best hs t) = Min (set hs)"
proof (induction hs rule: rev_induct)
  case (snoc h hs)
  show ?case
  proof (cases "hs = []")
    case False
    then have IH: "tm_best_hash (fold telemetry_best hs t) = Min (set hs)" using snoc by simp
    have "Min (set hs) \<in> set hs" using False by (intro Min_in) simp_all
    then have "Min (set hs) \<noteq> ''''" using snoc.prems(1) by auto
    then have "tm_best_hash (fold telemetry_best (hs @ [h]) t) = min h (Min (set hs))"
      using IH by (auto simp: telemetry_best_def min_def)
    then show ?thesis using False by simp
  qed (use snoc in \<open>simp add: telemetry_best_def\<close>)
qed simp

end
