(* ===== verification/Controller.thy ===== *)
theory Controller
  imports Config Telemetry Work_Allocator Cpu_Miner
begin

text \<open>
  The live part of \<^verbatim>\<open>src/mining/mining_controller.cpp\<close>: the state of \<^verbatim>\<open>MiningController::Impl\<close>, what it does
  with a candidate a worker hands over, and how it saves and submits it. What the file system, the clocks and the
  socket answer is the record \<open>env\<close>, indexed by the name of the place in the code that asks. Besides the state an
  operation keeps the list of its effects in their order: lines printed, contents of the disk after each write,
  messages handed to the socket, workers stopped and started.

  An operation maps a state to its outcome and the state after it, or to \<open>None\<close> while \<^verbatim>\<open>unique_result_path\<close> has
  not found a free name for the clock readings given. \<^verbatim>\<open>std::to_string(double)\<close> is a parameter; JSON text is
  dumped without errors.
\<close>

section \<open>State and effects\<close>

datatype 'j effect =
    Printed string
  | Wrote disk
  | Sent 'j
  | Workers_stopped
  | Cpu_started live_mining_job u32
  | Gpu_started live_mining_job bool

record 'j controller =
  mc_config :: app_config
  mc_telemetry :: telemetry
  mc_logger :: logger
  mc_tracker :: "'j tracker"
  mc_allocator :: "'j allocator"
  mc_generation :: u64
  mc_client :: "client option"
  mc_pending :: "i64 \<rightharpoonup> 'j solution"
  mc_extranonce1 :: string
  mc_extranonce2_size :: u32
  mc_subscribed :: bool
  mc_authorized :: bool
  mc_share_difficulty :: fdouble
  mc_pending_job :: "stratum_job option"
  mc_previous_prevhash :: string
  mc_started :: int
  mc_prior_uptime :: u64
  mc_disk :: disk
  mc_effects :: "'j effect list"

record 'j env =
  en_precision :: nat
  en_double_text :: "fdouble \<Rightarrow> string"
  en_clock :: "string \<Rightarrow> int"
  en_utc :: "string \<Rightarrow> string"
  en_stamps :: "(string \<times> string option) list"
  en_append :: "string \<Rightarrow> append_env"
  en_parent :: "string \<Rightarrow> string"
  en_save :: "string \<Rightarrow> string \<Rightarrow> string \<Rightarrow> disk \<Rightarrow> disk list \<times> unit outcome"
  en_send :: "'j \<Rightarrow> unit outcome"
  en_now_us :: u64
  en_moved :: "'j solution \<Rightarrow> 'j solution"
  en_gpu_name :: "string option"

type_synonym ('s, 'a) act = "'s \<Rightarrow> ('a outcome \<times> 's) option"

definition act_return :: "'a \<Rightarrow> ('s, 'a) act" where "act_return x s = Some (Inr x, s)"

definition act_bind :: "('s, 'a) act \<Rightarrow> ('a \<Rightarrow> ('s, 'b) act) \<Rightarrow> ('s, 'b) act" where
  "act_bind m f s =
    (case m s of None \<Rightarrow> None | Some (Inl e, s') \<Rightarrow> Some (Inl e, s') | Some (Inr x, s') \<Rightarrow> f x s')"

definition act_then :: "('s, unit) act \<Rightarrow> ('s, 'b) act \<Rightarrow> ('s, 'b) act" where
  "act_then m n = act_bind m (\<lambda>_. n)"

definition act_modify :: "('s \<Rightarrow> 's) \<Rightarrow> ('s, unit) act" where "act_modify f s = Some (Inr (), f s)"

definition act_when :: "bool \<Rightarrow> ('s, unit) act \<Rightarrow> ('s, unit) act" where
  "act_when c m = (if c then m else act_return ())"

text \<open>\<^verbatim>\<open>catch (const checkpoint::PersistenceError&)\<close> and \<^verbatim>\<open>catch (const std::exception&)\<close>.\<close>

definition try_persistence :: "('s, 'a) act \<Rightarrow> (string \<Rightarrow> ('s, 'a) act) \<Rightarrow> ('s, 'a) act" where
  "try_persistence m h s = (case m s of Some (Inl (Persistence_error t), s') \<Rightarrow> h t s' | r \<Rightarrow> r)"

definition try_any :: "('s, 'a) act \<Rightarrow> (string \<Rightarrow> ('s, 'a) act) \<Rightarrow> ('s, 'a) act" where
  "try_any m h s = (case m s of Some (Inl e, s') \<Rightarrow> h (exn_text e) s' | r \<Rightarrow> r)"

definition e_acute :: string where "e_acute = [CHR 0xC3, CHR 0xA9]"
definition e_grave :: string where "e_grave = [CHR 0xC3, CHR 0xA8]"
definition a_grave :: string where "a_grave = [CHR 0xC3, CHR 0xA0]"
definition A_grave :: string where "A_grave = [CHR 0xC3, CHR 0x80]"
definition E_acute :: string where "E_acute = [CHR 0xC3, CHR 0x89]"

text \<open>The disks a write leaves behind, the last one staying.\<close>

definition wrote :: "disk list \<Rightarrow> 'j controller \<Rightarrow> 'j controller" where
  "wrote ds c = c\<lparr>mc_disk := last (mc_disk c # ds), mc_effects := mc_effects c @ List.map Wrote ds\<rparr>"

definition update_telemetry :: "(telemetry \<Rightarrow> telemetry) \<Rightarrow> 'j controller \<Rightarrow> 'j controller" where
  "update_telemetry f c = c\<lparr>mc_telemetry := f (mc_telemetry c)\<rparr>"

definition emit_event :: "'j env \<Rightarrow> string \<Rightarrow> 'j controller \<Rightarrow> 'j controller" where
  "emit_event env text c =
    wrote [log_event (mc_logger c) (en_append env text) (en_utc env text) text (mc_disk c)]
      (c\<lparr>mc_effects := mc_effects c @ [Printed text]\<rparr>)"

section \<open>Construction and checkpoints\<close>

definition live_work_fingerprint :: "'j json_api \<Rightarrow> stratum_job \<Rightarrow> string \<Rightarrow> u32 \<Rightarrow> string" where
  "live_work_fingerprint J job en1 en2_size =
    (let val = j_object J
       [(''job_id'', j_string J (job_id job)), (''prevhash'', j_string J (prevhash job)),
        (''coinbase1'', j_string J (coinbase1 job)), (''coinbase2'', j_string J (coinbase2 job)),
        (''merkle_branches'', j_array J (List.map (j_string J) (merkle_branches job))),
        (''version'', j_string J (version job)), (''nbits'', j_string J (nbits job)), (''ntime'', j_string J (ntime job)),
        (''extranonce1'', j_string J en1), (''extranonce2_size'', j_unsigned J (ucast en2_size))];
       serialized = j_dump J val
     in digest_hex (sha256 (List.map of_char serialized)))"

definition allocator_state_name :: "mode \<Rightarrow> string" where
  "allocator_state_name m =
    (if m = Live then ''live_state.json''
     else if m = HistoricalTest then ''historical_state.json''
     else if m = MockStratum then ''mock_state.json''
     else if m = Benchmark then ''benchmark_state.json''
     else ''research_state.json'')"

definition state_path :: "app_config \<Rightarrow> string" where
  "state_path cfg = path_append (path_append (project_root cfg) ''state'') (allocator_state_name (ac_mode cfg))"

text \<open>The counters of an earlier run, read back from the checkpoint.\<close>

definition restore_telemetry :: "'j json_api \<Rightarrow> 'j \<Rightarrow> telemetry \<Rightarrow> telemetry outcome" where
  "restore_telemetry J saved t =
    bindE (value_or J Inr saved ''counters'' (j_object J [])) (\<lambda>counters.
    bindE (value_or J (j_get_u64 J) counters ''cpu_hashes'' 0) (\<lambda>cpu.
    bindE (value_or J (j_get_u64 J) counters ''gpu_hashes'' 0) (\<lambda>gpu.
    bindE (value_or J (j_get_u64 J) counters ''shares'' 0) (\<lambda>shares.
    bindE (value_or J (j_get_u64 J) counters ''accepted'' 0) (\<lambda>accepted_shares.
    bindE (value_or J (j_get_u64 J) counters ''rejected'' 0) (\<lambda>rejected.
    bindE (value_or J (j_get_u64 J) counters ''stale_jobs'' 0) (\<lambda>stale.
    bindE (value_or J (j_get_u64 J) counters ''headers_complete'' 0) (\<lambda>headers.
    bindE (value_or J (j_get_string J) saved ''best_hash'' '''') (\<lambda>best.
      let t1 = t\<lparr>tm_cpu_hashes := cpu, tm_gpu_hashes := gpu, tm_shares := shares, tm_accepted := accepted_shares,
                 tm_rejected := rejected, tm_stale_jobs := stale, tm_headers_complete := headers\<rparr>
      in Inr (if best \<noteq> '''' then telemetry_best best t1 else t1))))))))))"

text \<open>\<^verbatim>\<open>Impl::Impl\<close>; \<open>start_logger\<close> is the construction of the logger on the disk, \<open>now\<close> the start of the clock.\<close>

definition make_controller ::
    "'j json_api \<Rightarrow> (app_config \<Rightarrow> disk \<Rightarrow> (disk \<times> logger) outcome) \<Rightarrow> int \<Rightarrow> app_config \<Rightarrow> disk \<Rightarrow> 'j controller outcome" where
  "make_controller J start_logger now cfg d =
    bindE (start_logger cfg d) (\<lambda>(d1, lg).
    bindE (make_tracker J (log_directory (ac_logging cfg)) d1) (\<lambda>tracker.
    bindE (load_existing J d1 (state_path cfg) (mode_name (ac_mode cfg))) (\<lambda>allocator.
      let saved = snapshot J allocator
      in bindE (value_or J (j_get_u64 J) saved ''uptime_ms'' 0) (\<lambda>uptime.
         bindE (restore_telemetry J saved (make_telemetry (refresh_ms (ac_console cfg)))) (\<lambda>t.
           Inr \<lparr>mc_config = cfg, mc_telemetry = t, mc_logger = lg, mc_tracker = tracker, mc_allocator = allocator,
                mc_generation = 0, mc_client = None, mc_pending = Map.empty, mc_extranonce1 = '''',
                mc_extranonce2_size = 0, mc_subscribed = False, mc_authorized = False,
                mc_share_difficulty = double_of_nat 1, mc_pending_job = None, mc_previous_prevhash = '''',
                mc_started = now, mc_prior_uptime = uptime, mc_disk = d1, mc_effects = []\<rparr>)))))"

definition uptime_ms :: "int \<Rightarrow> 'j controller \<Rightarrow> u64" where
  "uptime_ms now c = mc_prior_uptime c + of_int ((now - mc_started c) div 1000000)"

definition counters_json :: "'j json_api \<Rightarrow> int \<Rightarrow> 'j controller \<Rightarrow> 'j" where
  "counters_json J now c =
    (let t = mc_telemetry c
     in j_object J
       [(''counters'', j_object J
          [(''hashes'', j_unsigned J (tm_cpu_hashes t + tm_gpu_hashes t)),
           (''cpu_hashes'', j_unsigned J (tm_cpu_hashes t)), (''gpu_hashes'', j_unsigned J (tm_gpu_hashes t)),
           (''shares'', j_unsigned J (tm_shares t)), (''accepted'', j_unsigned J (tm_accepted t)),
           (''rejected'', j_unsigned J (tm_rejected t)), (''stale_jobs'', j_unsigned J (tm_stale_jobs t)),
           (''headers_complete'', j_unsigned J (tm_headers_complete t))]),
        (''uptime_ms'', j_unsigned J (uptime_ms now c))])"

definition checkpoint_op :: "'j json_api \<Rightarrow> 'j env \<Rightarrow> ('j controller, unit) act" where
  "checkpoint_op J env c =
    (case checkpoint J (en_save env ''checkpoint'' (state_path (mc_config c)))
            (counters_json J (en_clock env ''checkpoint'') c) (mc_allocator c) (mc_disk c) of
       (ds, r) \<Rightarrow> Some (r, wrote ds c))"

definition safe_checkpoint :: "'j json_api \<Rightarrow> 'j env \<Rightarrow> string \<Rightarrow> ('j controller, unit) act" where
  "safe_checkpoint J env ctxt =
    try_persistence (checkpoint_op J env) (\<lambda>t. act_modify (emit_event env (''[CHECKPOINT] '' @ ctxt @ '': '' @ t)))"

section \<open>The solution of a candidate\<close>

definition solution_of :: "'j env \<Rightarrow> 'j controller \<Rightarrow> candidate \<Rightarrow> fdouble \<Rightarrow> fdouble \<Rightarrow> 'j solution" where
  "solution_of env c cand hdiff ndiff =
    (let ctxt = cd_context cand; job = lm_job ctxt
     in detected_solution\<lparr>s_job_id := job_id job, s_username := ck_username (ac_ckpool (mc_config c)),
          s_extranonce1 := lm_extranonce1 ctxt, s_extranonce2 := cd_extranonce2 cand,
          s_extranonce2_size := lm_extranonce2_size ctxt, s_clean_jobs := clean_jobs job,
          s_coinbase1 := coinbase1 job, s_coinbase2 := coinbase2 job, s_merkle_branches := merkle_branches job,
          s_work_fingerprint := lm_work_fingerprint ctxt, s_version := version job, s_prevhash := prevhash job,
          s_merkle_root := bitcoin_hash_hex (cd_merkle_root cand), s_ntime := ntime job, s_nbits := nbits job,
          s_nonce_value := cd_nonce cand, s_nonce := stratum_nonce_hex (cd_nonce cand),
          s_nonce_header_le := nonce_header_le_hex (cd_header cand), s_header_hex := header_hex (cd_header cand),
          s_hash := bitcoin_hash_hex (cd_digest cand), s_network_target := target_hex (lm_network_target ctxt),
          s_share_target := target_hex (lm_share_target ctxt), s_share_difficulty := lm_share_difficulty ctxt,
          s_hash_difficulty := hdiff, s_network_difficulty := ndiff,
          s_network_difficulty_ratio := (if double_less double_zero ndiff then double_div hdiff ndiff else double_zero),
          s_worker := cd_worker cand, s_detected := en_utc env ''detected'',
          s_network_candidate := cd_network cand, s_share_candidate := cd_share cand\<rparr>)"

definition make_solution :: "'j env \<Rightarrow> 'j controller \<Rightarrow> candidate \<Rightarrow> 'j solution outcome" where
  "make_solution env c cand =
    (if get_nonce (cd_header cand) \<noteq> cd_nonce cand
     then Inl (Logic_error ''candidate nonce differs from serialized header nonce'')
     else
       bindE (difficulty_from_hash (en_precision env) (cd_digest cand)) (\<lambda>hdiff.
       bindE (difficulty_from_target (en_precision env) (lm_network_target (cd_context cand))) (\<lambda>ndiff.
         Inr (solution_of env c cand hdiff ndiff))))"

section \<open>Candidates\<close>

text \<open>The state of \<^verbatim>\<open>on_candidate\<close>: the controller and its local solution, which the logger changes.\<close>

type_synonym ('j, 'a) candidate_act = "('j controller \<times> 'j solution, 'a) act"

definition event_op :: "'j env \<Rightarrow> string \<Rightarrow> ('j, unit) candidate_act" where
  "event_op env text = act_modify (apfst (emit_event env text))"

definition set_solution :: "('j solution \<Rightarrow> 'j solution) \<Rightarrow> ('j, unit) candidate_act" where
  "set_solution f = act_modify (apsnd f)"

definition save_candidate_op :: "'j json_api \<Rightarrow> 'j env \<Rightarrow> ('j, unit) candidate_act" where
  "save_candidate_op J env = (\<lambda>(c, sol).
    (case save_candidate J (en_save env ''save_candidate'') (mc_logger c) (en_stamps env) sol (mc_disk c) of
       None \<Rightarrow> None
     | Some (ds, sol1, r) \<Rightarrow> Some (bindE r (\<lambda>_. Inr ()), wrote ds c, sol1)))"

definition update_candidate_op :: "'j json_api \<Rightarrow> 'j env \<Rightarrow> string \<Rightarrow> ('j, unit) candidate_act" where
  "update_candidate_op J env site = (\<lambda>(c, sol).
    (case update_candidate J (en_save env site) sol (mc_disk c) of (ds, r) \<Rightarrow> Some (r, wrote ds c, sol)))"

definition save_audit_op :: "'j json_api \<Rightarrow> 'j env \<Rightarrow> string \<Rightarrow> ('j, unit) candidate_act" where
  "save_audit_op J env site = (\<lambda>(c, sol).
    (case save_share_audit J (mc_logger c) (en_append env site) (en_utc env site) sol (mc_disk c) of
       (d, sol1, r) \<Rightarrow> Some (bindE r (\<lambda>_. Inr ()), wrote [d] c, sol1)))"

definition update_audit_op :: "'j json_api \<Rightarrow> 'j env \<Rightarrow> string \<Rightarrow> ('j, unit) candidate_act" where
  "update_audit_op J env site = (\<lambda>(c, sol).
    (case update_share_audit J (en_append env site) sol (mc_disk c) of (d, r) \<Rightarrow> Some (r, wrote [d] c, sol)))"

definition permanent_op :: "'j json_api \<Rightarrow> 'j env \<Rightarrow> string \<Rightarrow> ('j, unit) candidate_act" where
  "permanent_op J env reason = (\<lambda>(c, sol).
    (case save_permanent_event J (en_parent env) (mc_logger c) (en_append env reason) reason sol (mc_disk c) of
       (d, r) \<Rightarrow> Some (r, wrote [d] c, sol)))"

definition observe_op :: "'j json_api \<Rightarrow> 'j env \<Rightarrow> u64 \<Rightarrow> u64 \<Rightarrow> ('j, pow_update) candidate_act" where
  "observe_op J env hashes uptime = (\<lambda>(c, sol).
    (case observe (en_precision env) J (en_save env ''record'') (en_append env ''record'') (en_clock env ''record'')
            hashes uptime sol (mc_tracker c) (mc_disk c) of
       (ds, sol1, t1, r) \<Rightarrow> Some (r, wrote ds (c\<lparr>mc_tracker := t1\<rparr>), sol1)))"

text \<open>The record of the best hash, for every candidate.\<close>

definition record_candidate :: "'j json_api \<Rightarrow> 'j env \<Rightarrow> u64 \<Rightarrow> u64 \<Rightarrow> ('j, pow_update) candidate_act" where
  "record_candidate J env hashes uptime =
    act_bind (try_any (observe_op J env hashes uptime) (\<lambda>t.
        act_then (event_op env (''[RECORD POW] persistance impossible: '' @ t)) (act_return no_record))) (\<lambda>update.
      act_then (act_when (pu_is_record update) (\<lambda>s.
        act_then (event_op env (''[RECORD POW] nouveau record hash='' @ s_hash (snd s) @ '' difficult'' @ e_acute @ ''='' @
            en_double_text env (s_hash_difficulty (snd s)) @ '' worker='' @ s_worker (snd s)))
          (try_persistence (permanent_op J env ''personal_record'') (\<lambda>t.
            event_op env (''[RECORD POW] historique permanent non sauvegard'' @ e_acute @ '': '' @ t))) s))
        (act_return update))"

text \<open>\<^verbatim>\<open>>=\<close> on doubles, false for a NaN.\<close>

definition double_at_least :: "fdouble \<Rightarrow> fdouble \<Rightarrow> bool" where
  "double_at_least a b = (a \<noteq> FNaN \<and> b \<noteq> FNaN \<and> \<not> double_less a b)"

text \<open>What is printed and kept for good about a share.\<close>

definition announce_share :: "'j json_api \<Rightarrow> 'j env \<Rightarrow> bool \<Rightarrow> ('j, unit) candidate_act" where
  "announce_share J env is_record s =
    (let sol = snd s; cfg = mc_config (fst s)
     in act_then (act_modify (apfst (update_telemetry (\<lambda>t. t\<lparr>tm_shares := tm_shares t + 1\<rparr>))))
       (act_then (act_when (s_network_candidate sol \<or> is_record \<or>
            double_at_least (s_hash_difficulty sol) (console_high_difficulty (ac_console cfg)))
          (event_op env (''[SHARE] trouv'' @ e_acute @ ''e hash='' @ s_hash sol @ '' difficult'' @ e_acute @ ''='' @
            en_double_text env (s_hash_difficulty sol) @ '' nonce_stratum='' @ s_nonce sol @
            '' nonce_header_le='' @ s_nonce_header_le sol)))
       (act_then (act_when (s_network_candidate sol)
          (event_op env (''[BLOCK] candidat r'' @ e_acute @ ''seau d'' @ e_acute @ ''tect'' @ e_acute)))
       (act_when (\<not> is_record \<and> (s_network_candidate sol \<or>
            double_at_least (s_hash_difficulty sol) (permanent_high_difficulty (ac_logging cfg))))
          (try_persistence (permanent_op J env (if s_network_candidate sol then ''network_candidate'' else ''high_difficulty_share''))
            (\<lambda>t. event_op env (''[SHARE] historique permanent non sauvegard'' @ e_acute @ '': '' @ t)))))) s)"

definition can_submit :: "'j controller \<Rightarrow> bool" where
  "can_submit c = (case mc_client c of None \<Rightarrow> False | Some cl \<Rightarrow> is_connected cl \<and> is_authorized cl)"

definition clear_result_file :: "('j, unit) candidate_act" where
  "clear_result_file = set_solution (s_result_file_update (\<lambda>_. ''''))"

definition clear_audit_file :: "('j, unit) candidate_act" where
  "clear_audit_file = set_solution (s_share_audit_file_update (\<lambda>_. ''''))"

definition local_error :: "string \<Rightarrow> ('j, unit) candidate_act" where
  "local_error text = set_solution (\<lambda>sol. sol\<lparr>s_status := ''local_error'', s_local_error := Some text\<rparr>)"

text \<open>The saves before the submission; the result says whether the code goes on.\<close>

definition persist_block :: "'j json_api \<Rightarrow> 'j env \<Rightarrow> ('j, bool) candidate_act" where
  "persist_block J env =
    act_bind (try_persistence (act_then (save_candidate_op J env) (act_return True)) (\<lambda>t.
        act_then (local_error (''durable block_candidate pre-submit save failed: '' @ t))
       (act_then (event_op env (''[BLOCK] soumission annul'' @ e_acute @
            ''e: sauvegarde durable du block_candidate impossible: '' @ t))
       (act_then (try_persistence (update_candidate_op J env ''failed_candidate'') (\<lambda>_. clear_result_file))
       (act_then (try_persistence (save_audit_op J env ''failed_candidate_audit'') (\<lambda>t'.
            act_then clear_audit_file
              (event_op env (''[SHARE] audit d'erreur non sauvegard'' @ e_acute @ '' apr'' @ e_grave @ ''s '' @ e_acute @
                ''chec du block_candidate: '' @ t'))))
          (act_return False)))))) (\<lambda>saved.
      if \<not> saved then act_return False
      else act_then (try_persistence (save_audit_op J env ''block_audit'') (\<lambda>t.
          act_then clear_audit_file
            (event_op env (''[BLOCK] avertissement: share_audit non sauvegard'' @ e_acute @
              ''; block_candidate durable conserv'' @ e_acute @ '': '' @ t))))
        (act_return True))"

definition persist_share :: "'j json_api \<Rightarrow> 'j env \<Rightarrow> ('j, bool) candidate_act" where
  "persist_share J env =
    try_persistence (act_then (save_audit_op J env ''share_audit'') (act_return True)) (\<lambda>t.
      act_then (local_error (''durable share_audit pre-submit save failed: '' @ t))
     (act_then (try_persistence (update_audit_op J env ''failed_share_audit'') (\<lambda>_. clear_audit_file))
     (act_then (event_op env (''[SHARE] soumission annul'' @ e_acute @
          ''e: sauvegarde durable du share_audit impossible: '' @ t))
        (act_return False))))"

text \<open>\<^verbatim>\<open>client->submit\<close>: the client hands the message to the socket and reports through the event callback.\<close>

fun client_events :: "'j env \<Rightarrow> 'j callback list \<Rightarrow> 'j controller \<Rightarrow> 'j controller" where
  "client_events env [] c = c"
| "client_events env (Event t # cbs) c = client_events env cbs (emit_event env t c)"
| "client_events env (_ # cbs) c = client_events env cbs c"

definition submit_request :: "'j json_api \<Rightarrow> 'j solution \<Rightarrow> client \<Rightarrow> 'j" where
  "submit_request J sol cl = make_request J (next_id cl) ''mining.submit''
    (j_array J (List.map (j_string J) [s_username sol, s_job_id sol, s_extranonce2 sol, s_ntime sol, s_nonce sol]))"

definition submit_op :: "'j json_api \<Rightarrow> 'j env \<Rightarrow> ('j, i64) candidate_act" where
  "submit_op J env = (\<lambda>(c, sol).
    (case mc_client c of
       None \<Rightarrow> Some (Inl (Logic_error ''no client''), c, sol)
     | Some cl \<Rightarrow>
         (case submit J (en_send env) (en_now_us env) (s_username sol) (s_job_id sol) (s_extranonce2 sol) (s_ntime sol)
                 (s_nonce sol) cl of
            (cbs, r, cl') \<Rightarrow>
              Some (r, client_events env cbs (c\<lparr>mc_client := Some cl',
                         mc_effects := mc_effects c @ [Sent (submit_request J sol cl)]\<rparr>), sol))))"

text \<open>\<^verbatim>\<open>pending_submissions.emplace\<close> moves the solution, whether or not it is inserted.\<close>

definition emplace_op :: "'j env \<Rightarrow> i64 \<Rightarrow> ('j, 'j solution) candidate_act" where
  "emplace_op env ident = (\<lambda>(c, sol).
    (let sol = sol\<lparr>s_submission_id := Some ident\<rparr>
     in case mc_pending c ident of
          Some _ \<Rightarrow> Some (Inl (Logic_error ''duplicate Stratum submission id''), c, en_moved env sol)
        | None \<Rightarrow> Some (Inr sol, c\<lparr>mc_pending := (mc_pending c)(ident \<mapsto> sol)\<rparr>, en_moved env sol)))"

text \<open>An operation on the stored solution, which leaves the local one alone.\<close>

definition with_item :: "'j solution \<Rightarrow> ('j, unit) candidate_act \<Rightarrow> ('j, unit) candidate_act" where
  "with_item item m = (\<lambda>(c, sol).
    (case m (c, item) of None \<Rightarrow> None | Some (r, c', _) \<Rightarrow> Some (r, c', sol)))"

definition after_submit :: "'j json_api \<Rightarrow> 'j env \<Rightarrow> 'j solution \<Rightarrow> ('j, unit) candidate_act" where
  "after_submit J env item =
    act_then (act_when (s_network_candidate item)
      (with_item item (try_persistence (update_candidate_op J env ''sent_candidate'') (\<lambda>t.
        event_op env (''[BLOCK] candidat non mis '' @ a_grave @ '' jour apr'' @ e_grave @ ''s envoi: '' @ t)))))
    (act_when (s_share_audit_file item \<noteq> '''')
      (with_item item (try_persistence (update_audit_op J env ''sent_audit'') (\<lambda>t.
        event_op env (''[SHARE] audit non mis '' @ a_grave @ '' jour apr'' @ e_grave @ ''s envoi: '' @ t)))))"

definition submission_failed :: "'j json_api \<Rightarrow> 'j env \<Rightarrow> string \<Rightarrow> ('j, unit) candidate_act" where
  "submission_failed J env t =
    act_then (local_error (''local submission error: '' @ t)) (\<lambda>s.
      act_then (act_when (s_network_candidate (snd s))
        (try_persistence (update_candidate_op J env ''submit_error_candidate'') (\<lambda>t'.
          event_op env (''[BLOCK] erreur locale non sauvegard'' @ e_acute @ ''e: '' @ t'))))
     (act_then (act_when (s_share_audit_file (snd s) \<noteq> '''')
        (try_persistence (update_audit_op J env ''submit_error_audit'') (\<lambda>t'.
          event_op env (''[SHARE] audit d'erreur non sauvegard'' @ e_acute @ '': '' @ t'))))
      (event_op env (''[SHARE] erreur de soumission: '' @ t))) s)"

definition submit_solution :: "'j json_api \<Rightarrow> 'j env \<Rightarrow> ('j, unit) candidate_act" where
  "submit_solution J env =
    try_any (act_bind (submit_op J env) (\<lambda>ident. act_bind (emplace_op env ident) (after_submit J env)))
      (submission_failed J env)"

text \<open>From the decision to submit to the end.\<close>

definition save_and_submit :: "'j json_api \<Rightarrow> 'j env \<Rightarrow> ('j, unit) candidate_act" where
  "save_and_submit J env s =
    (let submits = can_submit (fst s); network = s_network_candidate (snd s)
     in act_then (set_solution (\<lambda>sol.
          if submits then sol\<lparr>s_submitted := en_utc env ''submitted'', s_status := ''pending''\<rparr>
          else sol\<lparr>s_status := ''not_submitted'', s_local_error := Some ''CKPool connection inactive''\<rparr>))
       (act_bind (if network then persist_block J env else persist_share J env) (\<lambda>saved.
          if \<not> saved then act_return ()
          else if \<not> submits then event_op env (''[SHARE] non soumise: connexion CKPool inactive'')
          else act_then (act_when network (event_op env (''[BLOCK] soumission imm'' @ e_acute @ ''diate'')))
            (submit_solution J env))) s)"

definition on_candidate :: "'j json_api \<Rightarrow> 'j env \<Rightarrow> candidate \<Rightarrow> ('j controller, unit) act" where
  "on_candidate J env cand c =
    (let active = (lm_generation (cd_context cand) = mc_generation c)
     in case make_solution env c cand of
          Inl e \<Rightarrow> Some (Inl e, c)
        | Inr sol \<Rightarrow>
          let c1 = update_telemetry (telemetry_best (s_hash sol)) c;
              hashes = tm_cpu_hashes (mc_telemetry c1) + tm_gpu_hashes (mc_telemetry c1) + 1
          in map_option (apsnd fst)
            (act_bind (record_candidate J env hashes (uptime_ms (en_clock env ''candidate'') c1)) (\<lambda>update s.
               (if \<not> active then act_return ()
                else if \<not> s_share_candidate (snd s) \<and> \<not> s_network_candidate (snd s) then act_return ()
                else act_then (announce_share J env (pu_is_record update)) (save_and_submit J env)) s)
              (c1, sol)))"

end
