(* ===== verification/Live_Session.thy ===== *)
theory Live_Session
  imports Controller
begin

text \<open>
  The callbacks of the Stratum client, the launch of a job and the loop of \<^verbatim>\<open>run_live\<close> in
  \<^verbatim>\<open>src/mining/mining_controller.cpp\<close>. A session is a list of events: what the client, the workers and the clock
  make the controller do, each under the mutexes the code holds.
\<close>

section \<open>Jobs\<close>

definition stop_workers :: "'j controller \<Rightarrow> 'j controller" where
  "stop_workers c = c\<lparr>mc_effects := mc_effects c @ [Workers_stopped]\<rparr>"

definition next_generation :: "'j controller \<Rightarrow> 'j controller" where
  "next_generation c = c\<lparr>mc_generation := mc_generation c + 1\<rparr>"

text \<open>The extranonce of the first unit of each kind.\<close>

definition first_extranonce :: "worker_kind \<Rightarrow> u64 \<Rightarrow> work_unit list \<Rightarrow> string" where
  "first_extranonce kind generation us =
    fold (\<lambda>u en. if u_generation u \<noteq> generation \<or> u_status u = Stale then en
                 else if u_worker u = kind \<and> en = '''' then u_extranonce2 u else en) us ''''"

definition mark_stale_op :: "'j env \<Rightarrow> stratum_job \<Rightarrow> 'j controller \<Rightarrow> 'j controller" where
  "mark_stale_op env job c =
    (if clean_jobs job
     then emit_event env ''[JOB] clean_jobs=true -> ancien travail interrompu''
            (c\<lparr>mc_allocator := mark_all_stale (mc_allocator c)\<rparr>)
     else c)"

definition announce_job :: "'j env \<Rightarrow> stratum_job \<Rightarrow> 'j controller \<Rightarrow> 'j controller" where
  "announce_job env job c =
    (let c1 = emit_event env
           (if mc_previous_prevhash c = '''' \<or> mc_previous_prevhash c \<noteq> prevhash job
            then ''[JOB] NOUVEAU BLOC / NOUVEAU PREVHASH'' else ''[JOB] MISE '' @ A_grave @ '' JOUR DU JOB'') c
     in c1\<lparr>mc_previous_prevhash := prevhash job\<rparr>)"

definition prepare_op :: "'j json_api \<Rightarrow> stratum_job \<Rightarrow> string \<Rightarrow> ('j controller, bool) act" where
  "prepare_op J job fingerprint c =
    (let cfg = mc_config c
     in case prepare_live_job J (job_id job) (prevhash job) (mc_extranonce1 c) (mc_extranonce2_size c) fingerprint
               (if cpu_enabled (ac_cpu cfg) then cpu_threads (ac_cpu cfg) else 1) (gpu_enabled (ac_gpu cfg))
               (mc_generation c) (mc_allocator c) of
          (r, a) \<Rightarrow> Some (r, c\<lparr>mc_allocator := a\<rparr>))"

definition mining_job :: "stratum_job \<Rightarrow> string \<Rightarrow> 'j controller \<Rightarrow> live_mining_job outcome" where
  "mining_job job fingerprint c =
    bindE (share_target_from_difficulty (mc_share_difficulty c)) (\<lambda>share_target.
    bindE (target_from_nbits (nbits job)) (\<lambda>network_target.
      Inr \<lparr>lm_job = job, lm_extranonce1 = mc_extranonce1 c, lm_share_target = share_target,
           lm_network_target = network_target, lm_share_difficulty = mc_share_difficulty c,
           lm_extranonce2_size = mc_extranonce2_size c, lm_work_fingerprint = fingerprint,
           lm_generation = mc_generation c\<rparr>))"

text \<open>The telemetry of the job and the start of the workers.\<close>

definition start_workers :: "'j env \<Rightarrow> stratum_job \<Rightarrow> live_mining_job \<Rightarrow> 'j controller \<Rightarrow> 'j controller" where
  "start_workers env job mj c =
    (let cfg = mc_config c;
         threads = (if cpu_enabled (ac_cpu cfg) then cpu_threads (ac_cpu cfg) else 0);
         us = wa_units (mc_allocator c);
         gpu_name = (if gpu_enabled (ac_gpu cfg)
           then (case en_gpu_name env of Some name \<Rightarrow> name | None \<Rightarrow> ''OpenCL absent'')
           else ''d'' @ e_acute @ ''sactiv'' @ e_acute);
         c1 = update_telemetry (set_job (job_id job) (prevhash job) (clean_jobs job) (mc_share_difficulty c)
                (target_hex (lm_network_target mj))) c;
         c2 = update_telemetry (set_worker_state threads (first_extranonce Cpu (mc_generation c) us) gpu_name
                (first_extranonce Gpu (mc_generation c) us)) c1
     in c2\<lparr>mc_effects := mc_effects c2 @
            (if cpu_enabled (ac_cpu cfg) then [Cpu_started mj (cpu_threads (ac_cpu cfg))] else []) @
            (if gpu_enabled (ac_gpu cfg) then [Gpu_started mj (gpu_auto_tune (ac_gpu cfg))] else [])\<rparr>)"

definition resumed_text :: "bool \<Rightarrow> string" where
  "resumed_text resumed =
    (if resumed then ''[CHECKPOINT] travail CKPool compatible repris''
     else ''[CHECKPOINT] nouveau travail; ancien '' @ e_acute @ ''tat live incompatible compact'' @ e_acute)"

definition launch_job :: "'j json_api \<Rightarrow> 'j env \<Rightarrow> stratum_job \<Rightarrow> ('j controller, unit) act" where
  "launch_job J env job c =
    (if \<not> mc_subscribed c \<or> \<not> mc_authorized c then Some (Inr (), c\<lparr>mc_pending_job := Some job\<rparr>)
     else
       let c1 = announce_job env job (mark_stale_op env job (stop_workers (next_generation c)));
           fingerprint = live_work_fingerprint J job (mc_extranonce1 c1) (mc_extranonce2_size c1)
       in act_bind (prepare_op J job fingerprint) (\<lambda>resumed.
          act_then (act_modify (emit_event env (resumed_text resumed))) (\<lambda>c.
            case mining_job job fingerprint c of
              Inl e \<Rightarrow> Some (Inl e, c)
            | Inr mj \<Rightarrow> act_then (act_modify (start_workers env job mj))
                (safe_checkpoint J env ''sauvegarde au lancement du job impossible'') c)) c1)"

section \<open>The archive of the pool's messages\<close>

definition append_stratum_archive :: "'j json_api \<Rightarrow> 'j env \<Rightarrow> 'j \<Rightarrow> ('j controller, unit) act" where
  "append_stratum_archive J env archived =
    try_any (\<lambda>c. case append_jsonl J (en_parent env) (mc_logger c) (en_append env ''archive'') ''stratum_jobs.jsonl'' archived (mc_disk c) of
        (d, r) \<Rightarrow> Some (r, wrote [d] c))
      (\<lambda>t. act_modify (emit_event env (''[STRATUM ARCHIVE] sauvegarde impossible: '' @ t)))"

definition archive_source :: "'j json_api \<Rightarrow> app_config \<Rightarrow> 'j" where
  "archive_source J cfg = j_object J
    [(''mode'', j_string J (mode_name (ac_mode cfg))), (''host'', j_string J (ck_host (ac_ckpool cfg))),
     (''port'', j_unsigned J (of_nat (ck_port (ac_ckpool cfg))))]"

definition archive_stratum_subscription :: "'j json_api \<Rightarrow> 'j env \<Rightarrow> string \<Rightarrow> u32 \<Rightarrow> ('j controller, unit) act" where
  "archive_stratum_subscription J env en1 en2_size c =
    append_stratum_archive J env (j_object J
      [(''schema_version'', j_signed J 1), (''event'', j_string J ''mining.subscribe''),
       (''received_timestamp_utc'', j_string J (en_utc env ''archive'')), (''source'', archive_source J (mc_config c)),
       (''subscription'', j_object J
          [(''extranonce1'', j_string J en1), (''extranonce2_size'', j_unsigned J (ucast en2_size))])]) c"

definition job_json :: "'j json_api \<Rightarrow> stratum_job \<Rightarrow> 'j" where
  "job_json J job = j_object J
    [(''job_id'', j_string J (job_id job)), (''clean_jobs'', j_boolean J (clean_jobs job)),
     (''prevhash'', j_string J (prevhash job)), (''coinbase1'', j_string J (coinbase1 job)),
     (''coinbase2'', j_string J (coinbase2 job)),
     (''merkle_branches'', j_array J (List.map (j_string J) (merkle_branches job))),
     (''version'', j_string J (version job)), (''nbits'', j_string J (nbits job)), (''ntime'', j_string J (ntime job))]"

definition archive_stratum_notify :: "'j json_api \<Rightarrow> 'j env \<Rightarrow> stratum_job \<Rightarrow> ('j controller, unit) act" where
  "archive_stratum_notify J env job c =
    (let subscription = j_object J
           [(''available'', j_boolean J (mc_subscribed c)), (''extranonce1'', j_null J), (''extranonce2_size'', j_null J)];
         (subscription, fingerprint) =
           (if mc_subscribed c
            then (j_set J (j_set J subscription ''extranonce1'' (j_string J (mc_extranonce1 c)))
                    ''extranonce2_size'' (j_unsigned J (ucast (mc_extranonce2_size c))),
                  j_string J (live_work_fingerprint J job (mc_extranonce1 c) (mc_extranonce2_size c)))
            else (subscription, j_null J))
     in append_stratum_archive J env (j_object J
          [(''schema_version'', j_signed J 1), (''event'', j_string J ''mining.notify''),
           (''received_timestamp_utc'', j_string J (en_utc env ''archive'')), (''source'', archive_source J (mc_config c)),
           (''connection_state'', j_object J
              [(''subscribed'', j_boolean J (mc_subscribed c)), (''authorized'', j_boolean J (mc_authorized c)),
               (''share_difficulty'', j_double J (mc_share_difficulty c))]),
           (''subscription'', subscription), (''stratum_job'', job_json J job), (''work_fingerprint'', fingerprint)]) c)"

section \<open>The callbacks of the client\<close>

definition on_job :: "'j json_api \<Rightarrow> 'j env \<Rightarrow> stratum_job \<Rightarrow> ('j controller, unit) act" where
  "on_job J env job = act_then (archive_stratum_notify J env job) (launch_job J env job)"

text \<open>The pending job, when there is one and \<open>ready\<close>.\<close>

definition launch_pending :: "'j json_api \<Rightarrow> 'j env \<Rightarrow> bool \<Rightarrow> ('j controller, unit) act" where
  "launch_pending J env ready c =
    (case mc_pending_job c of
       Some job \<Rightarrow> if ready then launch_job J env job (c\<lparr>mc_pending_job := None\<rparr>) else Some (Inr (), c)
     | None \<Rightarrow> Some (Inr (), c))"

definition on_subscribed :: "'j json_api \<Rightarrow> 'j env \<Rightarrow> string \<Rightarrow> u32 \<Rightarrow> ('j controller, unit) act" where
  "on_subscribed J env en1 en2_size c =
    act_then (archive_stratum_subscription J env en1 en2_size)
      (\<lambda>c. launch_pending J env (mc_authorized c) c)
      (c\<lparr>mc_extranonce1 := en1, mc_extranonce2_size := en2_size, mc_subscribed := True\<rparr>)"

definition endpoint_text :: "'j controller \<Rightarrow> string" where
  "endpoint_text c = ck_host (ac_ckpool (mc_config c)) @ '':'' @ to_string (ck_port (ac_ckpool (mc_config c)))"

definition on_authorized :: "'j json_api \<Rightarrow> 'j env \<Rightarrow> bool \<Rightarrow> ('j controller, unit) act" where
  "on_authorized J env ok c =
    (let online = (case mc_client c of None \<Rightarrow> False | Some cl \<Rightarrow> is_connected cl);
         c1 = update_telemetry (set_connection online ok (endpoint_text c)) (c\<lparr>mc_authorized := ok\<rparr>)
     in launch_pending J env (ok \<and> mc_subscribed c1) c1)"

definition on_difficulty :: "fdouble \<Rightarrow> ('j controller, unit) act" where
  "on_difficulty val = act_modify (\<lambda>c. c\<lparr>mc_share_difficulty := val\<rparr>)"

text \<open>The response to a submission: the stored solution is taken out and its files are updated.\<close>

definition answered_solution :: "'j env \<Rightarrow> bool \<Rightarrow> 'j \<Rightarrow> u64 \<Rightarrow> 'j solution \<Rightarrow> 'j solution" where
  "answered_solution env ok response latency sol =
    sol\<lparr>s_response := en_utc env ''response'', s_status := (if ok then ''accepted'' else ''rejected''),
        s_accepted := Some ok, s_latency_us := latency, s_server_response := Some response\<rparr>"

definition response_event :: "'j json_api \<Rightarrow> 'j env \<Rightarrow> i64 \<Rightarrow> bool \<Rightarrow> 'j \<Rightarrow> ('j, unit) candidate_act" where
  "response_event J env ident ok response s =
    (let sol = snd s; cfg = mc_config (fst s)
     in (if \<not> ok then event_op env (''[SHARE] rejet'' @ e_acute @ ''e id='' @ to_string_i64 ident @ '' r'' @ e_acute @
           ''ponse='' @ j_dump J response)
         else act_when (s_network_candidate sol \<or> s_personal_record sol \<or>
             double_at_least (s_hash_difficulty sol) (console_high_difficulty (ac_console cfg)))
           (event_op env (''[SHARE] accept'' @ e_acute @ ''e id='' @ to_string_i64 ident @ '' difficult'' @ e_acute @
             ''='' @ en_double_text env (s_hash_difficulty sol)))) s)"

definition record_response :: "'j json_api \<Rightarrow> 'j env \<Rightarrow> i64 \<Rightarrow> bool \<Rightarrow> 'j \<Rightarrow> ('j, unit) candidate_act" where
  "record_response J env ident ok response =
    act_then (response_event J env ident ok response) (\<lambda>s.
      act_then (act_when (s_network_candidate (snd s))
          (try_persistence (update_candidate_op J env ''response_candidate'') (\<lambda>t.
            event_op env (''[BLOCK] r'' @ e_acute @ ''ponse non sauvegard'' @ e_acute @ ''e: '' @ t))))
        (act_when (s_share_audit_file (snd s) \<noteq> '''')
          (try_persistence (update_audit_op J env ''response_audit'') (\<lambda>t.
            event_op env (''[SHARE] r'' @ e_acute @ ''ponse non sauvegard'' @ e_acute @ ''e dans l'audit: '' @ t)))) s)"

definition on_submission :: "'j json_api \<Rightarrow> 'j env \<Rightarrow> i64 \<Rightarrow> bool \<Rightarrow> 'j \<Rightarrow> u64 \<Rightarrow> ('j controller, unit) act" where
  "on_submission J env ident ok response latency c =
    (let found = mc_pending c ident;
         c1 = c\<lparr>mc_pending := (mc_pending c)(ident := None)\<rparr>;
         c2 = update_telemetry (\<lambda>t. if ok then t\<lparr>tm_accepted := tm_accepted t + 1\<rparr>
                                    else t\<lparr>tm_rejected := tm_rejected t + 1\<rparr>) c1
     in case found of
          Some sol \<Rightarrow> map_option (apsnd fst)
            (record_response J env ident ok response (c2, answered_solution env ok response latency sol))
        | None \<Rightarrow> act_when (\<not> ok) (act_modify (emit_event env (''[SHARE] rejet'' @ e_acute @ ''e id inconnu='' @
              to_string_i64 ident @ '' r'' @ e_acute @ ''ponse='' @ j_dump J response))) c2)"

definition on_disconnected :: "'j json_api \<Rightarrow> 'j env \<Rightarrow> ('j controller, unit) act" where
  "on_disconnected J env c =
    (let c1 = stop_workers (next_generation c);
         c2 = update_telemetry (set_connection False False (endpoint_text c1))
                (c1\<lparr>mc_authorized := False, mc_subscribed := False\<rparr>)
     in safe_checkpoint J env (''sauvegarde '' @ a_grave @ '' la d'' @ e_acute @ ''connexion impossible'') c2)"

definition dispatch :: "'j json_api \<Rightarrow> 'j env \<Rightarrow> 'j callback \<Rightarrow> ('j controller, unit) act" where
  "dispatch J env cb =
    (case cb of
       Event t \<Rightarrow> act_modify (emit_event env t)
     | Subscribed en1 en2_size \<Rightarrow> on_subscribed J env en1 en2_size
     | Authorized ok \<Rightarrow> on_authorized J env ok
     | Difficulty val \<Rightarrow> on_difficulty val
     | Job job \<Rightarrow> on_job J env job
     | Submission ident ok response latency \<Rightarrow> on_submission J env ident ok response latency
     | Disconnected \<Rightarrow> on_disconnected J env)"

section \<open>The loop of \<^verbatim>\<open>run_live\<close>\<close>

text \<open>The two deadlines of the loop and one of its rounds after the sleep; \<open>now\<close> is the clock at each place that reads it.\<close>

definition hour_ns :: int where "hour_ns = 3600000000000"

record deadlines =
  dl_checkpoint :: int
  dl_purge :: int

definition initial_deadlines :: "(string \<Rightarrow> int) \<Rightarrow> 'j controller \<Rightarrow> deadlines" where
  "initial_deadlines now c =
    \<lparr>dl_checkpoint = now ''checkpoint start'' + int (unat (checkpoint_interval_ms (mc_config c))) * 1000000,
     dl_purge = now ''purge start'' + hour_ns\<rparr>"

definition purge_op :: "'j env \<Rightarrow> int \<Rightarrow> int \<Rightarrow> dir_entry list option \<Rightarrow> dir_entry list option \<Rightarrow> 'j controller \<Rightarrow> 'j controller" where
  "purge_op env now hour recent legacy c =
    (case purge_expired_share_audits (mc_logger c) now hour recent legacy (mc_disk c) of
       (d, removed) \<Rightarrow>
         let c1 = wrote [d] c
         in if removed > 0 then emit_event env (''[R'' @ E_acute @ ''TENTION] audits de petites shares expir'' @ e_acute @
              ''s supprim'' @ e_acute @ ''s='' @ to_string removed) c1
            else c1)"

definition live_round ::
    "'j json_api \<Rightarrow> 'j env \<Rightarrow> (string \<Rightarrow> int) \<Rightarrow> (int \<times> int \<times> dir_entry list option \<times> dir_entry list option) \<Rightarrow>
      deadlines \<Rightarrow> 'j controller \<Rightarrow> (unit outcome \<times> deadlines \<times> 'j controller) option" where
  "live_round J env now listing dl c =
    (let due = (dl_checkpoint dl \<le> now ''checkpoint due'')
     in case (if due then safe_checkpoint J env (''sauvegarde p'' @ e_acute @ ''riodique impossible'') c else Some (Inr (), c)) of
          None \<Rightarrow> None
        | Some (Inl e, c1) \<Rightarrow> Some (Inl e, dl, c1)
        | Some (Inr _, c1) \<Rightarrow>
          let dl1 = (if due
                then dl\<lparr>dl_checkpoint := now ''checkpoint done'' + int (unat (checkpoint_interval_ms (mc_config c1))) * 1000000\<rparr>
                else dl)
          in if dl_purge dl1 \<le> now ''purge due''
             then (case listing of (file_now, hour, recent, legacy) \<Rightarrow>
                 Some (Inr (), dl1\<lparr>dl_purge := now ''purge done'' + hour_ns\<rparr>, purge_op env file_now hour recent legacy c1))
             else Some (Inr (), dl1, c1))"

definition begin_live :: "'j controller \<Rightarrow> 'j controller" where
  "begin_live c =
    update_telemetry (set_connection False False (endpoint_text c)) (update_telemetry telemetry_start
      (c\<lparr>mc_client := Some initial_client\<rparr>))"

definition end_live :: "'j json_api \<Rightarrow> 'j env \<Rightarrow> ('j controller, unit) act" where
  "end_live J env c =
    act_then (safe_checkpoint J env ''sauvegarde finale impossible'') (act_modify (update_telemetry telemetry_stop))
      (stop_workers (next_generation c))"

end
