(* ===== verification/Submissions.thy ===== *)
theory Submissions
  imports Live_Session
begin

text \<open>
  What the controller guarantees about submissions: nothing stale is sent, everything that is sent was saved first,
  and every response meets the solution it answers. The proofs follow the effects an operation adds.
\<close>

section \<open>Operations that keep a property of the state\<close>

definition keeps :: "('s \<Rightarrow> bool) \<Rightarrow> ('s, 'a) act \<Rightarrow> bool" where
  "keeps I m \<longleftrightarrow> (\<forall>s r s'. I s \<longrightarrow> m s = Some (r, s') \<longrightarrow> I s')"

lemma keepsD: "keeps I m \<Longrightarrow> I s \<Longrightarrow> m s = Some (r, s') \<Longrightarrow> I s'"
  unfolding keeps_def by blast

named_theorems keeping

lemma keeps_return [keeping]: "keeps I (act_return x)"
  by (simp add: keeps_def act_return_def)

lemma act_bind_SomeE:
  assumes "act_bind m f s = Some (r, s')"
  obtains (failed) e where "m s = Some (Inl e, s')" "r = Inl e"
    | (returned) x s1 where "m s = Some (Inr x, s1)" "f x s1 = Some (r, s')"
proof (cases "m s")
  case (Some a)
  obtain q s1 where "a = (q, s1)" by force
  with Some assms that show thesis by (cases q) (auto simp: act_bind_def)
qed (use assms in \<open>simp add: act_bind_def\<close>)

lemma try_SomeE:
  assumes "try_persistence m h s = Some (r, s') \<or> try_any m h s = Some (r, s')"
  obtains (same) "m s = Some (r, s')" | (caught) t e s1 where "m s = Some (Inl e, s1)" "h t s1 = Some (r, s')"
proof (cases "m s")
  case None
  then show thesis using assms by (simp add: try_persistence_def try_any_def)
next
  case (Some a)
  obtain q s1 where a: "a = (q, s1)" by force
  show thesis
  proof (cases q)
    case (Inl e)
    with Some a assms that show thesis by (cases e) (auto simp: try_persistence_def try_any_def)
  qed (use Some a assms that in \<open>auto simp: try_persistence_def try_any_def\<close>)
qed

lemma try_persistence_SomeE:
  assumes "try_persistence m h s = Some (r, s')"
  obtains (same) "m s = Some (r, s')" | (caught) t e s1 where "m s = Some (Inl e, s1)" "h t s1 = Some (r, s')"
  using try_SomeE [OF disjI1 [OF assms]] by blast

lemma try_any_SomeE:
  assumes "try_any m h s = Some (r, s')"
  obtains (same) "m s = Some (r, s')" | (caught) t e s1 where "m s = Some (Inl e, s1)" "h t s1 = Some (r, s')"
  using try_SomeE [OF disjI2 [OF assms]] by blast

lemma keeps_bind [keeping]:
  assumes "keeps I m" "\<And>x. keeps I (f x)"
  shows "keeps I (act_bind m f)"
  unfolding keeps_def
proof (intro allI impI)
  fix s r s' assume I: "I s" and run: "act_bind m f s = Some (r, s')"
  from run show "I s'"
    by (cases rule: act_bind_SomeE) (use I keepsD [OF assms(1)] keepsD [OF assms(2)] in blast)+
qed

lemma keeps_then [keeping]: "keeps I m \<Longrightarrow> keeps I n \<Longrightarrow> keeps I (act_then m n)"
  unfolding act_then_def by (rule keeps_bind)

lemma keeps_when [keeping]: "keeps I m \<Longrightarrow> keeps I (act_when c m)"
  by (simp add: act_when_def keeps_return)

lemma keeps_modify [keeping]: "(\<And>s. I s \<Longrightarrow> I (f s)) \<Longrightarrow> keeps I (act_modify f)"
  by (simp add: keeps_def act_modify_def)

lemma keeps_try [keeping]:
  assumes "keeps I m" "\<And>t. keeps I (h t)"
  shows "keeps I (try_persistence m h)" "keeps I (try_any m h)"
proof -
  have "I s'" if I: "I s" and run: "try_persistence m h s = Some (r, s') \<or> try_any m h s = Some (r, s')" for s r s'
    using run by (cases rule: try_SomeE) (use I keepsD [OF assms(1)] keepsD [OF assms(2)] in blast)+
  then show "keeps I (try_persistence m h)" "keeps I (try_any m h)" unfolding keeps_def by blast+
qed

lemma keeps_if [keeping]: "keeps I m \<Longrightarrow> keeps I n \<Longrightarrow> keeps I (if c then m else n)"
  by simp

text \<open>An operation whose text depends on the state.\<close>

lemma keeps_state: "(\<And>s. keeps I (f s)) \<Longrightarrow> keeps I (\<lambda>s. f s s)"
  unfolding keeps_def by blast

section \<open>Silent steps\<close>

fun sent :: "'j effect list \<Rightarrow> 'j list" where
  "sent [] = []"
| "sent (Sent m # es) = m # sent es"
| "sent (_ # es) = sent es"

lemma sent_append [simp]: "sent (es @ es') = sent es @ sent es'"
  by (induction es rule: sent.induct) simp_all

lemma sent_wrote [simp]: "sent (List.map Wrote ds) = []"
  by (induction ds) simp_all

definition disk_after :: "disk \<Rightarrow> 'j effect list \<Rightarrow> disk" where
  "disk_after d es = fold (\<lambda>e d. case e of Wrote d' \<Rightarrow> d' | _ \<Rightarrow> d) es d"

lemma disk_after_append [simp]: "disk_after d (es @ es') = disk_after (disk_after d es) es'"
  by (simp add: disk_after_def)

lemma disk_after_wrote [simp]: "disk_after d (List.map Wrote ds) = last (d # ds)"
  by (induction ds arbitrary: d) (simp_all add: disk_after_def)

lemma disk_after_simps [simp]:
  "disk_after d [] = d" "disk_after d [Printed t] = d" "disk_after d [Sent m] = d"
  by (simp_all add: disk_after_def)

text \<open>Steps that send nothing and leave the client and the submissions alone.\<close>

fun output_only :: "'j effect \<Rightarrow> bool" where
  "output_only (Printed t) = True"
| "output_only (Wrote d) = True"
| "output_only _ = False"

lemma output_sent: "list_all output_only es \<Longrightarrow> sent es = []"
  by (induction es rule: sent.induct) simp_all

lemma output_wrote [simp]: "list_all output_only (List.map Wrote ds)"
  by (induction ds) simp_all

text \<open>The part of the state that decides which jobs run.\<close>

definition same_connection :: "'j controller \<Rightarrow> 'j controller \<Rightarrow> bool" where
  "same_connection c c' \<longleftrightarrow> mc_generation c' = mc_generation c \<and> mc_pending_job c' = mc_pending_job c \<and>
    mc_subscribed c' = mc_subscribed c \<and> mc_authorized c' = mc_authorized c"

lemma same_connection_trans: "same_connection a b \<Longrightarrow> same_connection b c \<Longrightarrow> same_connection a c"
  by (simp add: same_connection_def)

definition silent :: "'j controller \<Rightarrow> 'j controller \<Rightarrow> bool" where
  "silent c c' \<longleftrightarrow>
    (\<exists>es. mc_effects c' = mc_effects c @ es \<and> list_all output_only es \<and> disk_after (mc_disk c) es = mc_disk c') \<and>
    same_connection c c' \<and>
    mc_client c' = mc_client c \<and> mc_pending c' = mc_pending c \<and> mc_logger c' = mc_logger c \<and>
    mc_config c' = mc_config c"

lemma silentD:
  assumes "silent c c'"
  obtains es where "mc_effects c' = mc_effects c @ es" "list_all output_only es" "sent es = []" "disk_after (mc_disk c) es = mc_disk c'"
  using assms output_sent unfolding silent_def by blast

lemma silent_refl [simp]: "silent c c"
  by (auto simp: silent_def same_connection_def intro: exI [of _ "[]"])

lemma silent_trans [trans]: "silent a b \<Longrightarrow> silent b c \<Longrightarrow> silent a c"
  unfolding silent_def by (elim conjE exE, intro conjI, rule exI, intro conjI) (simp, simp_all add: same_connection_def)

lemma silent_wrote [simp]: "silent c (wrote ds c)"
  by (simp add: silent_def wrote_def same_connection_def)

lemma silent_emit [simp]: "silent c (emit_event env text c)"
proof -
  have "silent c (c\<lparr>mc_effects := mc_effects c @ [Printed text]\<rparr>)" by (simp add: silent_def same_connection_def)
  then show ?thesis unfolding emit_event_def by (rule silent_trans) simp
qed

lemma silent_telemetry [simp]: "silent c (update_telemetry f c)"
  by (simp add: silent_def update_telemetry_def same_connection_def)

definition same_request :: "'j solution \<Rightarrow> 'j solution \<Rightarrow> bool" where
  "same_request sol sol' \<longleftrightarrow> s_username sol' = s_username sol \<and> s_job_id sol' = s_job_id sol \<and>
    s_extranonce2 sol' = s_extranonce2 sol \<and> s_ntime sol' = s_ntime sol \<and> s_nonce sol' = s_nonce sol \<and>
    s_network_candidate sol' = s_network_candidate sol \<and> s_share_candidate sol' = s_share_candidate sol"

lemma same_request_refl [simp]: "same_request sol sol"
  by (simp add: same_request_def)

lemma same_request_trans [trans]: "same_request a b \<Longrightarrow> same_request b c \<Longrightarrow> same_request a c"
  by (simp add: same_request_def)

definition quiet :: "'j controller \<times> 'j solution \<Rightarrow> 'j controller \<times> 'j solution \<Rightarrow> bool" where
  "quiet s s' \<longleftrightarrow> silent (fst s) (fst s') \<and> same_request (snd s) (snd s')"

lemma quiet_step: "quiet s (c, sol) \<Longrightarrow> silent c c' \<Longrightarrow> same_request sol sol' \<Longrightarrow> quiet s (c', sol')"
  unfolding quiet_def by (auto intro: silent_trans same_request_trans)

lemma keeps_quietI:
  "(\<And>c sol r s'. m (c, sol) = Some (r, s') \<Longrightarrow> silent c (fst s') \<and> same_request sol (snd s')) \<Longrightarrow> keeps (quiet s) m"
  unfolding keeps_def by (metis prod.collapse quiet_step)

lemma keeps_event [keeping]: "keeps (quiet s) (event_op env text)"
  by (rule keeps_quietI) (auto simp: event_op_def act_modify_def)

lemma keeps_set_solution [keeping]:
  "(\<And>sol. same_request sol (f sol)) \<Longrightarrow> keeps (quiet s) (set_solution f)"
  by (rule keeps_quietI) (auto simp: set_solution_def act_modify_def)

lemma keeps_save_candidate [keeping]: "keeps (quiet s) (save_candidate_op J env)"
  by (rule keeps_quietI)
    (auto simp: save_candidate_op_def save_candidate_def same_request_def Let_def split: option.splits sum.splits prod.splits if_splits)

lemma keeps_update_candidate [keeping]: "keeps (quiet s) (update_candidate_op J env site)"
  by (rule keeps_quietI) (auto simp: update_candidate_op_def split: prod.splits)

lemma keeps_save_audit [keeping]: "keeps (quiet s) (save_audit_op J env site)"
  by (rule keeps_quietI)
    (auto simp: save_audit_op_def save_share_audit_def same_request_def Let_def split: prod.splits if_splits)

lemma keeps_update_audit [keeping]: "keeps (quiet s) (update_audit_op J env site)"
  by (rule keeps_quietI) (auto simp: update_audit_op_def split: prod.splits)

lemma keeps_permanent [keeping]: "keeps (quiet s) (permanent_op J env reason)"
  by (rule keeps_quietI) (auto simp: permanent_op_def split: prod.splits)

lemma grade_same_request: "grade p b hashes uptime sol = (sol', r) \<Longrightarrow> same_request sol sol'"
  by (cases "difficulty_from_target p b")
    (auto simp: grade_def same_request_def Let_def split: sum.splits)

lemma observe_same_request:
  assumes "observe p J save env now hashes uptime sol t d = (ds, sol', t', r)"
  shows "same_request sol sol'"
proof (cases "beats_current J t (s_hash sol)")
  case (Inr res)
  show ?thesis
  proof (cases res)
    case (Some hit)
    obtain b prev where hit: "hit = (b, prev)" by force
    obtain sol1 q where g: "grade p b hashes uptime sol = (sol1, q)" by force
    have "sol' = sol1"
      using assms Inr Some hit g by (simp add: observe_def split: sum.splits prod.splits)
    then show ?thesis using grade_same_request [OF g] by simp
  qed (use assms Inr in \<open>simp add: observe_def\<close>)
qed (use assms in \<open>simp add: observe_def\<close>)

lemma keeps_observe [keeping]: "keeps (quiet s) (observe_op J env hashes uptime)"
proof (rule keeps_quietI)
  fix c sol r s' assume "observe_op J env hashes uptime (c, sol) = Some (r, s')"
  then obtain ds sol1 t1 where o: "observe (en_precision env) J (en_save env ''record'') (en_append env ''record'')
      (en_clock env ''record'') hashes uptime sol (mc_tracker c) (mc_disk c) = (ds, sol1, t1, r)"
    and s': "s' = (wrote ds (c\<lparr>mc_tracker := t1\<rparr>), sol1)"
    by (auto simp: observe_op_def split: prod.splits)
  have "silent c (c\<lparr>mc_tracker := t1\<rparr>)" by (simp add: silent_def same_connection_def)
  also have "silent (c\<lparr>mc_tracker := t1\<rparr>) (wrote ds (c\<lparr>mc_tracker := t1\<rparr>))" by simp
  finally show "silent c (fst s') \<and> same_request sol (snd s')"
    using observe_same_request [OF o] by (simp add: s')
qed

lemma keeps_record [keeping]: "keeps (quiet s) (record_candidate J env hashes uptime)"
  unfolding record_candidate_def by (intro keeping, rule keeps_state, intro keeping)

lemma keeps_announce [keeping]: "keeps (quiet s) (announce_share J env is_record)"
  unfolding announce_share_def Let_def
  by (rule keeps_state) (intro keeping, auto simp: quiet_def intro: silent_trans)

lemma keeps_clear [keeping]: "keeps (quiet s) clear_result_file" "keeps (quiet s) clear_audit_file"
  unfolding clear_result_file_def clear_audit_file_def by (intro keeping, simp add: same_request_def)+

lemma keeps_local_error [keeping]: "keeps (quiet s) (local_error text)"
  unfolding local_error_def by (intro keeping) (simp add: same_request_def)

lemma keeps_persist_block [keeping]: "keeps (quiet s) (persist_block J env)"
  unfolding persist_block_def by (intro keeping)

lemma keeps_persist_share [keeping]: "keeps (quiet s) (persist_share J env)"
  unfolding persist_share_def by (intro keeping)

section \<open>Saved before it is sent\<close>

text \<open>\<^verbatim>\<open>StateStore::save\<close> on either platform, with whatever the file system answers at each place.\<close>

definition uses_state_store :: "'j env \<Rightarrow> bool" where
  "uses_state_store env \<longleftrightarrow>
    (\<forall>site. \<exists>message answers. en_save env site = save_win32 message answers \<or> en_save env site = save_posix message answers)"

lemma save_staged: "uses_state_store env \<Longrightarrow> staged d path payload (en_save env site path payload d)"
  unfolding uses_state_store_def by (metis staged_win32 staged_posix)

text \<open>The file of a block candidate, or the line of a share in its audit segment.\<close>

definition saved :: "'j json_api \<Rightarrow> logger \<Rightarrow> 'j solution \<Rightarrow> disk \<Rightarrow> bool" where
  "saved J lg sol d \<longleftrightarrow>
    (if s_network_candidate sol
     then lg_block_candidates lg \<longrightarrow> d (s_result_file sol) = Some (save_payload J (candidate_json J sol))
     else lg_share_audits lg \<longrightarrow> (\<exists>a. d (s_share_audit_file sol) = Some (a @ audit_line J ''detected'' sol)))"

definition session_log :: "logger \<Rightarrow> bool" where
  "session_log lg \<longleftrightarrow> (\<exists>stamp. lg_session_path lg = path_join (lg_directory lg) (''session_'' @ stamp))"

lemma candidate_json_audit_file: "candidate_json J (sol\<lparr>s_share_audit_file := f\<rparr>) = candidate_json J sol"
  by (simp add: candidate_json_def)

lemma audit_line_audit_file: "audit_line J e (sol\<lparr>s_share_audit_file := f\<rparr>) = audit_line J e sol"
  by (simp add: audit_line_def share_audit_json_def)

lemma path_join_nested: "path_join (path_join dir (a # as)) b \<noteq> path_join dir (c # cs)" if "a \<noteq> c"
  using that by (auto simp: path_join_def append_eq_append_conv2)

lemma log_event_other: "path \<noteq> lg_session_path lg \<Longrightarrow> log_event lg e utc text d path = d path"
  by (simp add: log_event_def append_text_other)

lemma emit_event_fields:
  "mc_disk (emit_event env text c) = log_event (mc_logger c) (en_append env text) (en_utc env text) text (mc_disk c)"
  "mc_logger (emit_event env text c) = mc_logger c"
  by (simp_all add: emit_event_def wrote_def)

text \<open>The block candidate after its own save: in a file that no other write of the handler touches.\<close>

definition block_file :: "logger \<Rightarrow> string \<Rightarrow> string" where
  "block_file lg name = path_join (lg_directory lg) (''block_candidate_'' @ name)"

lemma block_file_not_session: "session_log lg \<Longrightarrow> block_file lg name \<noteq> lg_session_path lg"
  by (auto simp: session_log_def block_file_def)

lemma block_file_not_audit: "block_file lg name \<noteq> path_join (path_join (lg_directory lg) ''share_audit_recent'') x"
  using path_join_nested [of "CHR ''s''" "CHR ''b''" "lg_directory lg" "''hare_audit_recent''" x "''lock_candidate_'' @ name"]
  by (simp add: block_file_def)

definition block_saved :: "'j json_api \<Rightarrow> 'j controller \<times> 'j solution \<Rightarrow> bool" where
  "block_saved J s \<longleftrightarrow> (case s of (c, sol) \<Rightarrow> session_log (mc_logger c) \<and> (lg_block_candidates (mc_logger c) \<longrightarrow>
    (\<exists>name. s_result_file sol = block_file (mc_logger c) name) \<and>
    mc_disk c (s_result_file sol) = Some (save_payload J (candidate_json J sol))))"

lemma keeps_block_saved_event [keeping]: "keeps (block_saved J) (event_op env text)"
  by (auto simp: keeps_def event_op_def act_modify_def block_saved_def emit_event_fields log_event_other block_file_not_session)

lemma keeps_block_saved_clear [keeping]: "keeps (block_saved J) clear_audit_file"
  by (auto simp: keeps_def clear_audit_file_def set_solution_def act_modify_def block_saved_def candidate_json_audit_file)

lemma save_share_audit_facts:
  assumes "save_share_audit J lg e stamp sol d = (d', sol', r)"
  shows "candidate_json J sol' = candidate_json J sol" "s_result_file sol' = s_result_file sol"
    "audit_line J event sol' = audit_line J event sol" "d' (block_file lg name) = d (block_file lg name)"
    "lg_share_audits lg \<Longrightarrow> r = Inr path \<Longrightarrow>
      s_share_audit_file sol' = path \<and> d' path = Some (old_text d path @ audit_line J ''detected'' sol')"
proof -
  show "candidate_json J sol' = candidate_json J sol" "s_result_file sol' = s_result_file sol"
    "audit_line J event sol' = audit_line J event sol"
    using assms by (auto simp: save_share_audit_def Let_def candidate_json_audit_file audit_line_audit_file split: prod.splits if_splits)
  show "d' (block_file lg name) = d (block_file lg name)"
    using assms append_text_other [OF block_file_not_audit]
    by (auto simp: save_share_audit_def Let_def split: prod.splits if_splits) (metis fst_conv)
  show "lg_share_audits lg \<Longrightarrow> r = Inr path \<Longrightarrow>
      s_share_audit_file sol' = path \<and> d' path = Some (old_text d path @ audit_line J ''detected'' sol')"
    using assms by (auto simp: save_share_audit_def Let_def bindE_eq_Inr_iff audit_line_audit_file split: prod.splits dest: append_text_Inr)
qed

lemma keeps_block_saved_audit [keeping]: "keeps (block_saved J) (save_audit_op J env site)"
  unfolding keeps_def
proof (intro allI impI)
  fix s r s' assume I: "block_saved J s" and run: "save_audit_op J env site s = Some (r, s')"
  obtain c sol where s: "s = (c, sol)" by force
  obtain d sol1 q where q: "save_share_audit J (mc_logger c) (en_append env site) (en_utc env site) sol (mc_disk c) = (d, sol1, q)"
    by (rule prod_cases3)
  have s': "s' = (wrote [d] c, sol1)" using run by (simp add: save_audit_op_def s q)
  show "block_saved J s'" using I save_share_audit_facts [OF q] by (auto simp: block_saved_def s s' wrote_def)
qed

lemma save_candidate_saves:
  assumes "uses_state_store env" "session_log (mc_logger c)" "save_candidate_op J env (c, sol) = Some (Inr (), s')"
  shows "block_saved J s'"
proof (cases "lg_block_candidates (mc_logger c)")
  case True
  from assms(3) True obtain path ds r where u: "unique_result_path (mc_logger c) ''block_candidate_'' (en_stamps env) (mc_disk c) = Some (Inr path)"
    and s: "en_save env ''save_candidate'' path (save_payload J (candidate_json J (sol\<lparr>s_result_file := path\<rparr>))) (mc_disk c) = (ds, r)"
    and r: "r = Inr ()" and s': "s' = (wrote ds c, sol\<lparr>s_result_file := path\<rparr>)"
    by (auto simp: save_candidate_op_def save_candidate_def Let_def bindE_eq_Inr_iff split: option.splits sum.splits prod.splits)
  have st: "staged (mc_disk c) path (save_payload J (candidate_json J (sol\<lparr>s_result_file := path\<rparr>))) (ds, r)"
    unfolding s [symmetric] by (rule save_staged [OF assms(1)])
  have "last (mc_disk c # ds) path = Some (save_payload J (candidate_json J (sol\<lparr>s_result_file := path\<rparr>)))"
    using staged_laws(1,3) [OF st] r by simp
  moreover obtain stamp where "path = path_join (lg_directory (mc_logger c)) (''block_candidate_'' @ stamp @ ''.json'')"
    using unique_result_path_new [OF u] by blast
  then have "path = block_file (mc_logger c) (stamp @ ''.json'')" by (simp add: block_file_def)
  ultimately show ?thesis using assms(2) by (auto simp: s' block_saved_def wrote_def)
next
  case False
  then show ?thesis using assms(2,3) by (auto simp: save_candidate_op_def save_candidate_def block_saved_def wrote_def)
qed

text \<open>Operations that can only return one value.\<close>

definition yields :: "'a \<Rightarrow> ('s, 'a) act \<Rightarrow> bool" where
  "yields x m \<longleftrightarrow> (\<forall>s y s'. m s = Some (Inr y, s') \<longrightarrow> y = x)"

lemma yieldsD: "yields x m \<Longrightarrow> m s = Some (Inr y, s') \<Longrightarrow> y = x"
  unfolding yields_def by blast

lemma yields_return: "yields x (act_return x)"
  by (simp add: yields_def act_return_def)

lemma yields_then: "yields x n \<Longrightarrow> yields x (act_then m n)"
  unfolding yields_def act_then_def by (metis act_bind_SomeE sum.distinct(1))

lemma act_then_returned: "act_then m (act_return x) s = Some (Inr y, s') \<Longrightarrow> m s = Some (Inr (), s')"
  unfolding act_then_def by (erule act_bind_SomeE) (auto simp: act_return_def)

lemma persist_block_saves:
  assumes "uses_state_store env" "session_log (mc_logger (fst s))" "persist_block J env s = Some (Inr True, s')"
  shows "block_saved J s'"
  using assms(3) unfolding persist_block_def
proof (cases rule: act_bind_SomeE)
  case (returned go s1)
  then have go: "go = True" by (cases go) (simp_all add: act_return_def)
  from returned(1) have "save_candidate_op J env s = Some (Inr (), s1)"
  proof (cases rule: try_persistence_SomeE)
    case same
    then show ?thesis by (rule act_then_returned)
  next
    case (caught t e s2)
    have "go = False" using caught(2) by - (erule yieldsD [rotated], intro yields_then yields_return)
    then show ?thesis using go by simp
  qed
  then have "block_saved J s1" using save_candidate_saves [OF assms(1)] assms(2) by (metis prod.collapse)
  moreover have "keeps (block_saved J) (act_then (try_persistence (save_audit_op J env ''block_audit'') (\<lambda>t.
          act_then clear_audit_file
            (event_op env (''[BLOCK] avertissement: share_audit non sauvegard'' @ e_acute @
              ''; block_candidate durable conserv'' @ e_acute @ '': '' @ t))))
        (act_return True))"
    by (intro keeping)
  ultimately show ?thesis using returned(2) go by (auto dest: keepsD)
qed simp

lemma persist_share_saves:
  assumes "persist_share J env (c, sol) = Some (Inr True, (c', sol'))" "lg_share_audits (mc_logger c)"
  shows "\<exists>a. mc_disk c' (s_share_audit_file sol') = Some (a @ audit_line J ''detected'' sol')"
  using assms(1) unfolding persist_share_def
proof (cases rule: try_persistence_SomeE)
  case same
  then have "save_audit_op J env ''share_audit'' (c, sol) = Some (Inr (), c', sol')" by (rule act_then_returned)
  then obtain d path where "save_share_audit J (mc_logger c) (en_append env ''share_audit'') (en_utc env ''share_audit'') sol (mc_disk c) = (d, sol', Inr path)"
    "c' = wrote [d] c"
    by (auto simp: save_audit_op_def bindE_eq_Inr_iff split: prod.splits)
  then show ?thesis using save_share_audit_facts(5) assms(2) by (fastforce simp: wrote_def)
next
  case (caught t e s1)
  have "True = False" using caught(2) by - (erule yieldsD [rotated], intro yields_then yields_return)
  then show ?thesis by simp
qed

section \<open>Sending\<close>

definition grown :: "'j controller \<Rightarrow> 'j controller \<Rightarrow> bool" where
  "grown c c' \<longleftrightarrow> (\<exists>es. mc_effects c' = mc_effects c @ es \<and> list_all output_only es) \<and> same_connection c c'"

lemma silent_grown: "silent c c' \<Longrightarrow> grown c c'"
  unfolding silent_def grown_def by blast

lemma grown_trans:
  assumes "grown a b" "grown b c"
  shows "grown a c"
proof -
  obtain es es' where "mc_effects b = mc_effects a @ es" "list_all output_only es"
    "mc_effects c = mc_effects b @ es'" "list_all output_only es'" using assms unfolding grown_def by blast
  then have "mc_effects c = mc_effects a @ (es @ es')" "list_all output_only (es @ es')" by simp_all
  then show ?thesis using assms same_connection_trans unfolding grown_def by blast
qed

abbreviation grows :: "'j controller \<Rightarrow> 'j controller \<times> 'j solution \<Rightarrow> bool" where
  "grows c s \<equiv> grown c (fst s)"

lemma keeps_grows: "(\<And>s. keeps (quiet s) m) \<Longrightarrow> keeps (grows c) m"
  unfolding keeps_def
proof (intro allI impI)
  fix s r s' assume q: "\<And>s. \<forall>sa r s'. quiet s sa \<longrightarrow> m sa = Some (r, s') \<longrightarrow> quiet s s'"
    and g: "grows c s" and m: "m s = Some (r, s')"
  have "quiet s s" by (simp add: quiet_def)
  then have "quiet s s'" using q m by blast
  then show "grows c s'" using g by (auto simp: quiet_def intro: grown_trans silent_grown)
qed

lemma keeps_item: "keeps (grows c) m \<Longrightarrow> keeps (grows c) (with_item item m)"
  unfolding keeps_def with_item_def by (fastforce split: option.splits prod.splits)

lemma keeps_after_submit: "keeps (grows c) (after_submit J env item)"
  unfolding after_submit_def by (intro keeps_then keeps_when keeps_item keeps_grows; intro keeping)

lemma keeps_failed: "keeps (grows c) (submission_failed J env t)"
  unfolding submission_failed_def by (rule keeps_grows) (intro keeping, rule keeps_state, intro keeping)

lemma keeps_emplace: "keeps (grows c) (emplace_op env ident)"
  unfolding keeps_def emplace_op_def by (auto simp: grown_def same_connection_def Let_def split: option.splits prod.splits)

lemma silent_client_events: "silent c (client_events env cbs c)"
  by (induction env cbs c rule: client_events.induct) (simp_all add: silent_trans [OF silent_emit])

lemma submit_op_sends:
  assumes "submit_op J env (c, sol) = Some (r, s')" "mc_client c = Some cl"
  shows "(\<exists>es. mc_effects (fst s') = mc_effects c @ Sent (submit_request J sol cl) # es \<and> list_all output_only es) \<and>
    same_connection c (fst s')"
proof -
  obtain cbs q cl' where q: "submit J (en_send env) (en_now_us env) (s_username sol) (s_job_id sol) (s_extranonce2 sol) (s_ntime sol)
      (s_nonce sol) cl = (cbs, q, cl')" by (rule prod_cases3)
  let ?c = "c\<lparr>mc_client := Some cl', mc_effects := mc_effects c @ [Sent (submit_request J sol cl)]\<rparr>"
  have "fst s' = client_events env cbs ?c" using assms q by (auto simp: submit_op_def)
  moreover have "grown ?c (client_events env cbs ?c)" by (rule silent_grown [OF silent_client_events])
  ultimately show ?thesis by (auto simp: grown_def same_connection_def)
qed

lemma submit_solution_sends:
  assumes "submit_solution J env (c, sol) = Some (r, s')" "mc_client c = Some cl"
  shows "(\<exists>es. mc_effects (fst s') = mc_effects c @ Sent (submit_request J sol cl) # es \<and> list_all output_only es) \<and>
    same_connection c (fst s')"
proof -
  obtain q s1 where op: "submit_op J env (c, sol) = Some (q, s1)"
    by (cases "submit_op J env (c, sol)") (use assms in \<open>auto simp: submit_solution_def try_any_def act_bind_def\<close>)
  then obtain es where es: "mc_effects (fst s1) = mc_effects c @ Sent (submit_request J sol cl) # es" "list_all output_only es"
    and conn: "same_connection c (fst s1)"
    using submit_op_sends [OF op assms(2)] by blast
  have step: "grown (fst s1) (fst s')"
  proof -
    have start: "grows (fst s1) s1" by (auto simp: grown_def same_connection_def)
    let ?rest = "\<lambda>ident. act_bind (emplace_op env ident) (after_submit J env)"
    have rest: "keeps (grows (fst s1)) (?rest ident)" for ident
      by (intro keeps_bind keeps_emplace keeps_after_submit)
    note D = keepsD [OF rest start] keepsD [OF keeps_failed start] keepsD [OF keeps_failed keepsD [OF rest start]]
    from assms(1) show ?thesis unfolding submit_solution_def
    proof (cases rule: try_any_SomeE)
      case same
      then show ?thesis by (cases rule: act_bind_SomeE) (use op D(1) start in auto)
    next
      case (caught t e s2)
      from caught(1) show ?thesis by (cases rule: act_bind_SomeE) (use op D(2,3) caught(2) in auto)
    qed
  qed
  then show ?thesis using es conn by (auto simp: grown_def same_connection_def)
qed

text \<open>What an operation may have added: nothing sent, or one request whose solution was saved by then.\<close>

definition sends_saved :: "'j json_api \<Rightarrow> 'j controller \<Rightarrow> 'j solution \<Rightarrow> 'j controller \<Rightarrow> bool" where
  "sends_saved J c sol c' \<longleftrightarrow> same_connection c c' \<and> (\<exists>es. mc_effects c' = mc_effects c @ es \<and>
    (list_all output_only es \<or>
     (\<exists>before after sol' cl. es = before @ Sent (submit_request J sol' cl) # after \<and> list_all output_only before \<and> list_all output_only after \<and>
        can_submit c \<and> mc_client c = Some cl \<and> same_request sol sol' \<and>
        saved J (mc_logger c) sol' (disk_after (mc_disk c) before))))"

lemma silent_sends: "silent c c' \<Longrightarrow> sends_saved J c sol c'"
  unfolding silent_def sends_saved_def by blast

lemma can_submit_cong: "silent c c' \<Longrightarrow> can_submit c' = can_submit c"
  by (simp add: silent_def can_submit_def)

lemma silent_then_sends:
  assumes "silent a b" "same_request sol sol1" "sends_saved J b sol1 c"
  shows "sends_saved J a sol c"
proof -
  obtain es1 where es1: "mc_effects b = mc_effects a @ es1" "list_all output_only es1" "disk_after (mc_disk a) es1 = mc_disk b"
    using assms(1) unfolding silent_def by blast
  have conn: "same_connection a c"
    using assms(1,3) same_connection_trans by (auto simp: silent_def sends_saved_def)
  obtain es where es: "mc_effects c = mc_effects b @ es"
    and cases: "list_all output_only es \<or> (\<exists>before after sol' cl. es = before @ Sent (submit_request J sol' cl) # after \<and>
      list_all output_only before \<and> list_all output_only after \<and> can_submit b \<and> mc_client b = Some cl \<and> same_request sol1 sol' \<and>
      saved J (mc_logger b) sol' (disk_after (mc_disk b) before))"
    using assms(3) unfolding sends_saved_def by blast
  have effects: "mc_effects c = mc_effects a @ es1 @ es" by (simp add: es es1(1))
  from cases show ?thesis
  proof
    assume "list_all output_only es"
    then show ?thesis unfolding sends_saved_def using effects es1(2) conn by (intro conjI exI [of _ "es1 @ es"]) simp_all
  next
    assume "\<exists>before after sol' cl. es = before @ Sent (submit_request J sol' cl) # after \<and>
      list_all output_only before \<and> list_all output_only after \<and> can_submit b \<and> mc_client b = Some cl \<and> same_request sol1 sol' \<and>
      saved J (mc_logger b) sol' (disk_after (mc_disk b) before)"
    then obtain before after sol' cl where x: "es = before @ Sent (submit_request J sol' cl) # after"
      "list_all output_only before" "list_all output_only after" "can_submit b" "mc_client b = Some cl" "same_request sol1 sol'"
      "saved J (mc_logger b) sol' (disk_after (mc_disk b) before)" by blast
    have "can_submit a" "mc_client a = Some cl" "same_request sol sol'"
      using x(4,5,6) assms(1,2) can_submit_cong [OF assms(1)] by (auto simp: silent_def intro: same_request_trans)
    moreover have "saved J (mc_logger a) sol' (disk_after (mc_disk a) (es1 @ before))"
      using x(7) es1(3) assms(1) by (simp add: silent_def)
    ultimately show ?thesis unfolding sends_saved_def
      using effects es1(2) x(1-3) conn by (intro conjI exI [of _ "es1 @ es"] disjI2 exI [of _ "es1 @ before"]
        exI [of _ after] exI [of _ sol'] exI [of _ cl]) simp_all
  qed
qed

lemma act_then_SomeE:
  assumes "act_then m n s = Some (r, s')"
  obtains (failed) e where "m s = Some (Inl e, s')" "r = Inl e" | (returned) s1 where "m s = Some (Inr (), s1)" "n s1 = Some (r, s')"
  using assms unfolding act_then_def by (cases rule: act_bind_SomeE) auto

lemma quiet_refl [simp]: "quiet s s"
  by (simp add: quiet_def)

lemma submit_saved_sends:
  assumes "submit_solution J env (c, sol) = Some (r, s')" "can_submit c" "saved J (mc_logger c) sol (mc_disk c)"
  shows "sends_saved J c sol (fst s')"
proof -
  obtain cl where cl: "mc_client c = Some cl" using assms(2) by (auto simp: can_submit_def split: option.splits)
  obtain es where "mc_effects (fst s') = mc_effects c @ Sent (submit_request J sol cl) # es" "list_all output_only es"
    "same_connection c (fst s')"
    using submit_solution_sends [OF assms(1) cl] by blast
  then show ?thesis unfolding sends_saved_def using assms(2,3) cl
    by (intro conjI exI [of _ "Sent (submit_request J sol cl) # es"] disjI2 exI [of _ "[]"] exI [of _ es] exI [of _ sol]
        exI [of _ cl]) simp_all
qed

lemma save_and_submit_sends:
  assumes "save_and_submit J env (c, sol) = Some (r, s')" "uses_state_store env" "session_log (mc_logger c)"
  shows "sends_saved J c sol (fst s')"
proof -
  let ?network = "s_network_candidate sol"
  define sol1 where "sol1 = (if can_submit c then sol\<lparr>s_submitted := en_utc env ''submitted'', s_status := ''pending''\<rparr>
    else sol\<lparr>s_status := ''not_submitted'', s_local_error := Some ''CKPool connection inactive''\<rparr>)"
  have sol1: "same_request sol sol1" by (simp add: sol1_def same_request_def)
  have run: "act_bind (if ?network then persist_block J env else persist_share J env) (\<lambda>saved.
      if \<not> saved then act_return ()
      else if \<not> can_submit c then event_op env (''[SHARE] non soumise: connexion CKPool inactive'')
      else act_then (act_when ?network (event_op env (''[BLOCK] soumission imm'' @ e_acute @ ''diate'')))
        (submit_solution J env)) (c, sol1) = Some (r, s')"
    using assms(1) by (simp add: save_and_submit_def Let_def act_then_def act_bind_def set_solution_def act_modify_def sol1_def)
  have persist: "keeps (quiet t) (if ?network then persist_block J env else persist_share J env)" for t
    by (intro keeping)
  have quietD: "sends_saved J c sol (fst t)" if "quiet (c, sol1) t" for t
    using that by (auto simp: quiet_def intro: silent_sends)
  from run show ?thesis
  proof (cases rule: act_bind_SomeE)
    case (failed e)
    then show ?thesis using keepsD [OF persist quiet_refl] quietD by blast
  next
    case (returned ok s2)
    have q2: "quiet (c, sol1) s2" using keepsD [OF persist quiet_refl returned(1)] .
    consider "\<not> ok" | "ok" "\<not> can_submit c" | "ok" "can_submit c" by blast
    then show ?thesis
    proof cases
      case 1
      then have "s' = s2" using returned(2) by (simp add: act_return_def)
      then show ?thesis using q2 quietD by simp
    next
      case 2
      then have "event_op env (''[SHARE] non soumise: connexion CKPool inactive'') s2 = Some (r, s')" using returned(2) by simp
      from keepsD [OF keeps_event q2 this] show ?thesis by (rule quietD)
    next
      case 3
      then have "act_then (act_when ?network (event_op env (''[BLOCK] soumission imm'' @ e_acute @ ''diate'')))
          (submit_solution J env) s2 = Some (r, s')" using returned(2) by simp
      then obtain s3 where ev: "act_when ?network (event_op env (''[BLOCK] soumission imm'' @ e_acute @ ''diate'')) s2 = Some (Inr (), s3)"
        and sub: "submit_solution J env s3 = Some (r, s')"
        by (cases rule: act_then_SomeE) (auto simp: act_when_def event_op_def act_modify_def act_return_def split: if_splits)
      have "keeps (quiet t) (act_when ?network (event_op env (''[BLOCK] soumission imm'' @ e_acute @ ''diate'')))" for t
        by (intro keeping)
      from keepsD [OF this q2 ev] have q3: "quiet (c, sol1) s3" .
      obtain c3 sol3 where s3: "s3 = (c3, sol3)" by force
      have silent3: "silent c c3" "same_request sol1 sol3" using q3 by (simp_all add: quiet_def s3)
      then have lg: "mc_logger c3 = mc_logger c" and net: "s_network_candidate sol3 = ?network"
        using sol1 by (simp_all add: silent_def same_request_def)
      have "saved J (mc_logger c) sol3 (mc_disk c3)"
      proof (cases ?network)
        case True
        then have "persist_block J env (c, sol1) = Some (Inr True, s2)" using returned(1) 3 by simp
        then have "block_saved J s2" using persist_block_saves [OF assms(2), of "(c, sol1)"] assms(3) by simp
        then have "block_saved J s3" using ev True by (auto simp: act_when_def dest: keepsD [OF keeps_block_saved_event])
        then show ?thesis using True net lg by (simp add: block_saved_def s3 saved_def)
      next
        case False
        then have "s3 = s2" using ev by (simp add: act_when_def act_return_def)
        then have "persist_share J env (c, sol1) = Some (Inr True, (c3, sol3))" using returned(1) 3 False s3 by simp
        then show ?thesis using persist_share_saves False net by (auto simp: saved_def)
      qed
      then have "sends_saved J c3 sol3 (fst s')"
        using submit_saved_sends [OF sub [unfolded s3]] 3(2) can_submit_cong [OF silent3(1)] lg by simp
      then show ?thesis using silent_then_sends [OF silent3(1)] same_request_trans [OF sol1 silent3(2)] by blast
    qed
  qed
qed

lemma make_solution_request:
  assumes "make_solution env c cand = Inr sol"
  shows "s_job_id sol = job_id (lm_job (cd_context cand))" "s_extranonce2 sol = cd_extranonce2 cand"
    "s_ntime sol = ntime (lm_job (cd_context cand))" "s_nonce sol = stratum_nonce_hex (cd_nonce cand)"
    "s_network_candidate sol = cd_network cand" "s_share_candidate sol = cd_share cand"
    "s_username sol = ck_username (ac_ckpool (mc_config c))"
proof -
  obtain hdiff ndiff where "sol = solution_of env c cand hdiff ndiff"
    using assms by (auto simp: make_solution_def bindE_eq_Inr_iff split: if_splits)
  then show "s_job_id sol = job_id (lm_job (cd_context cand))" "s_extranonce2 sol = cd_extranonce2 cand"
    "s_ntime sol = ntime (lm_job (cd_context cand))" "s_nonce sol = stratum_nonce_hex (cd_nonce cand)"
    "s_network_candidate sol = cd_network cand" "s_share_candidate sol = cd_share cand"
    "s_username sol = ck_username (ac_ckpool (mc_config c))"
    by (simp_all add: solution_of_def Let_def)
qed

lemma on_candidate_sends:
  assumes "on_candidate J env cand c = Some (r, c')" "uses_state_store env" "session_log (mc_logger c)"
  shows "silent c c' \<or>
    (lm_generation (cd_context cand) = mc_generation c \<and> (cd_share cand \<or> cd_network cand) \<and>
      (\<exists>sol. make_solution env c cand = Inr sol \<and> sends_saved J c sol c'))"
proof (cases "make_solution env c cand")
  case (Inl e)
  then show ?thesis using assms(1) by (simp add: on_candidate_def)
next
  case (Inr sol0)
  note fields = make_solution_request [OF Inr]
  define c1 where "c1 = update_telemetry (telemetry_best (s_hash sol0)) c"
  define active where "active = (lm_generation (cd_context cand) = mc_generation c)"
  define hashes where "hashes = tm_cpu_hashes (mc_telemetry c1) + tm_gpu_hashes (mc_telemetry c1) + 1"
  have c1: "silent c c1" by (simp add: c1_def)
  obtain s' where run: "act_bind (record_candidate J env hashes (uptime_ms (en_clock env ''candidate'') c1)) (\<lambda>update s.
      (if \<not> active then act_return ()
       else if \<not> s_share_candidate (snd s) \<and> \<not> s_network_candidate (snd s) then act_return ()
       else act_then (announce_share J env (pu_is_record update)) (save_and_submit J env)) s) (c1, sol0) = Some (r, s')"
    and c': "c' = fst s'"
    using assms(1) by (auto simp: on_candidate_def Inr Let_def c1_def active_def hashes_def)
  have quietD: "silent c (fst t)" if "quiet (c1, sol0) t" for t
    using silent_trans [OF c1] that by (simp add: quiet_def)
  have "silent c c' \<or> (active \<and> (cd_share cand \<or> cd_network cand) \<and> sends_saved J c sol0 c')"
    using run
  proof (cases rule: act_bind_SomeE)
    case (failed e)
    then show ?thesis using quietD keepsD [OF keeps_record quiet_refl] c' by blast
  next
    case (returned update s2)
    have q2: "quiet (c1, sol0) s2" using keepsD [OF keeps_record quiet_refl returned(1)] .
    then have flags: "s_share_candidate (snd s2) = cd_share cand" "s_network_candidate (snd s2) = cd_network cand"
      using fields by (simp_all add: quiet_def same_request_def)
    show ?thesis
    proof (cases "active \<and> (cd_share cand \<or> cd_network cand)")
      case False
      then have "s' = s2" using returned(2) flags by (auto simp: act_return_def split: if_splits)
      then show ?thesis using quietD [OF q2] c' by blast
    next
      case True
      then have "act_then (announce_share J env (pu_is_record update)) (save_and_submit J env) s2 = Some (r, s')"
        using returned(2) flags by (auto split: if_splits)
      then have "sends_saved J c sol0 (fst s')"
      proof (cases rule: act_then_SomeE)
        case (failed e)
        then show ?thesis using quietD keepsD [OF keeps_announce q2] silent_sends by blast
      next
        case (returned s3)
        have q3: "quiet (c1, sol0) s3" using keepsD [OF keeps_announce q2 returned(1)] .
        obtain c3 sol3 where s3: "s3 = (c3, sol3)" by force
        have silent3: "silent c c3" "same_request sol0 sol3" using q3 silent_trans [OF c1] by (auto simp: quiet_def s3)
        then have "sends_saved J c3 sol3 (fst s')"
          using save_and_submit_sends [OF returned(2) [unfolded s3] assms(2)] assms(3) by (simp add: silent_def)
        then show ?thesis by (rule silent_then_sends [OF silent3])
      qed
      then show ?thesis using True c' by simp
    qed
  qed
  then show ?thesis using Inr by (auto simp: active_def)
qed

text \<open>C1: handling a candidate sends at most one message. It is sent only when the candidate is of the current
  generation and a share or a block, with the client connected and authorized, it is the \<^verbatim>\<open>mining.submit\<close> request
  for exactly this candidate, and when it is sent the file of the block candidate, or the audit line of the share,
  is already on the disk (unless the configuration switches these files off).\<close>

theorem sent_only_when_saved:
  assumes "on_candidate J env cand c = Some (r, c')" "uses_state_store env" "session_log (mc_logger c)"
  shows "\<exists>es. mc_effects c' = mc_effects c @ es \<and>
    (sent es = [] \<or>
     (\<exists>before after sol cl. es = before @ Sent (submit_request J sol cl) # after \<and> sent before = [] \<and> sent after = [] \<and>
        mc_client c = Some cl \<and> is_connected cl \<and> is_authorized cl \<and>
        lm_generation (cd_context cand) = mc_generation c \<and> (cd_share cand \<or> cd_network cand) \<and>
        s_job_id sol = job_id (lm_job (cd_context cand)) \<and> s_extranonce2 sol = cd_extranonce2 cand \<and>
        s_nonce sol = stratum_nonce_hex (cd_nonce cand) \<and> s_network_candidate sol = cd_network cand \<and>
        saved J (mc_logger c) sol (disk_after (mc_disk c) before)))"
proof (cases "silent c c'")
  case True
  then show ?thesis by (rule silentD) blast
next
  case False
  then obtain sol0 where current: "lm_generation (cd_context cand) = mc_generation c"
    "cd_share cand \<or> cd_network cand" and make: "make_solution env c cand = Inr sol0" and sends: "sends_saved J c sol0 c'"
    using on_candidate_sends [OF assms] by blast
  obtain es where es: "mc_effects c' = mc_effects c @ es"
    and alt: "list_all output_only es \<or> (\<exists>before after sol cl. es = before @ Sent (submit_request J sol cl) # after \<and>
      list_all output_only before \<and> list_all output_only after \<and> can_submit c \<and> mc_client c = Some cl \<and> same_request sol0 sol \<and>
      saved J (mc_logger c) sol (disk_after (mc_disk c) before))"
    using sends unfolding sends_saved_def by blast
  from alt show ?thesis
  proof (elim disjE exE conjE)
    fix before after sol cl
    assume x: "es = before @ Sent (submit_request J sol cl) # after" "list_all output_only before" "list_all output_only after"
      "can_submit c" "mc_client c = Some cl" "same_request sol0 sol" "saved J (mc_logger c) sol (disk_after (mc_disk c) before)"
    have "is_connected cl \<and> is_authorized cl" using x(4,5) by (simp add: can_submit_def)
    moreover have "s_job_id sol = job_id (lm_job (cd_context cand)) \<and> s_extranonce2 sol = cd_extranonce2 cand \<and>
        s_nonce sol = stratum_nonce_hex (cd_nonce cand) \<and> s_network_candidate sol = cd_network cand"
      using x(6) make_solution_request [OF make] by (simp add: same_request_def)
    ultimately show ?thesis using current es x(1,5,7) output_sent [OF x(2)] output_sent [OF x(3)] by blast
  qed (use es output_sent in blast)
qed

end
