(* ===== verification/Sessions.thy ===== *)
theory Sessions
  imports Submissions
begin

text \<open>
  Whole live sessions: shares of the current job do reach the socket, responses meet their solutions, and at every
  moment the workers run on the current generation only.
\<close>

section \<open>Shares are sent\<close>

text \<open>Operations that return, and operations that return without an exception.\<close>

definition returns :: "('s, 'a) act \<Rightarrow> bool" where "returns m \<longleftrightarrow> (\<forall>s. m s \<noteq> None)"

definition succeeds :: "('s, 'a) act \<Rightarrow> bool" where "succeeds m \<longleftrightarrow> (\<forall>s. \<exists>x s'. m s = Some (Inr x, s'))"

lemma returnsD: "returns m \<Longrightarrow> \<exists>x. m s = Some x"
  by (simp add: returns_def)

named_theorems returning

lemma returns_return [returning]: "returns (act_return x)"
  by (simp add: returns_def act_return_def)

lemma returns_modify [returning]: "returns (act_modify f)"
  by (simp add: returns_def act_modify_def)

lemma returns_bind [returning]: "returns m \<Longrightarrow> (\<And>x. returns (f x)) \<Longrightarrow> returns (act_bind m f)"
  by (fastforce simp: returns_def act_bind_def split: option.splits prod.splits sum.splits)

lemma returns_then [returning]: "returns m \<Longrightarrow> returns n \<Longrightarrow> returns (act_then m n)"
  unfolding act_then_def by (rule returns_bind)

lemma returns_when [returning]: "returns m \<Longrightarrow> returns (act_when b m)"
  by (simp add: returns_return act_when_def)

lemma returns_try [returning]:
  assumes "returns m" "\<And>t. returns (h t)"
  shows "returns (try_persistence m h)" "returns (try_any m h)"
  using assms by (fastforce simp: returns_def try_persistence_def try_any_def split: option.splits prod.splits sum.splits exn.splits)+

lemma returns_ops [returning]:
  "returns (event_op env text)" "returns (set_solution f)" "returns (update_candidate_op J env site)"
  "returns (save_audit_op J env site)" "returns (update_audit_op J env site)" "returns (permanent_op J env reason)"
  "returns (observe_op J env hashes uptime)" "returns (submit_op J env)" "returns (emplace_op env ident)"
  by (auto simp: returns_def event_op_def set_solution_def act_modify_def update_candidate_op_def save_audit_op_def
      update_audit_op_def permanent_op_def observe_op_def submit_op_def emplace_op_def Let_def split: prod.splits option.splits)

lemma returns_item [returning]: "returns m \<Longrightarrow> returns (with_item item m)"
  by (fastforce simp: returns_def with_item_def split: option.splits prod.splits)

lemma returns_state: "(\<And>s. returns (f s)) \<Longrightarrow> returns (\<lambda>s. f s s)"
  by (simp add: returns_def)

lemma returns_failed [returning]: "returns (submission_failed J env t)"
  unfolding submission_failed_def local_error_def by (intro returning, rule returns_state, intro returning)

lemma returns_submit [returning]: "returns (submit_solution J env)"
  unfolding submit_solution_def after_submit_def by (intro returning)

lemma succeeds_return [returning]: "succeeds (act_return x)"
  by (simp add: succeeds_def act_return_def)

lemma succeeds_modify [returning]: "succeeds (act_modify f)"
  by (simp add: succeeds_def act_modify_def)

lemma succeedsE:
  assumes "succeeds m"
  obtains x s' where "m s = Some (Inr x, s')"
  using assms unfolding succeeds_def by blast

lemma succeeds_bind [returning]:
  assumes "succeeds m" "\<And>x. succeeds (f x)"
  shows "succeeds (act_bind m f)"
  unfolding succeeds_def
proof
  fix s
  obtain x s1 where m: "m s = Some (Inr x, s1)" using succeedsE [OF assms(1)] .
  obtain y s2 where "f x s1 = Some (Inr y, s2)" using succeedsE [OF assms(2)] .
  with m show "\<exists>y s'. act_bind m f s = Some (Inr y, s')" by (simp add: act_bind_def)
qed

lemma succeeds_then [returning]: "succeeds m \<Longrightarrow> succeeds n \<Longrightarrow> succeeds (act_then m n)"
  unfolding act_then_def by (rule succeeds_bind)

lemma succeeds_when [returning]: "succeeds m \<Longrightarrow> succeeds (act_when b m)"
  by (simp add: succeeds_return act_when_def)

lemma succeeds_try_any [returning]:
  assumes "returns m" "\<And>t. succeeds (h t)"
  shows "succeeds (try_any m h)"
  unfolding succeeds_def
proof
  fix s
  obtain r s1 where m: "m s = Some (r, s1)" using assms(1) unfolding returns_def by fastforce
  show "\<exists>x s'. try_any m h s = Some (Inr x, s')"
  proof (cases r)
    case (Inl e)
    then show ?thesis using m assms(2) [of "exn_text e"] unfolding succeeds_def by (simp add: try_any_def)
  qed (use m in \<open>simp add: try_any_def\<close>)
qed

lemma succeeds_state: "(\<And>s. succeeds (f s)) \<Longrightarrow> succeeds (\<lambda>s. f s s)"
  by (simp add: succeeds_def)

lemma append_text_error:
  "append_text \<lparr>ae_directory = Persistence_error a, ae_open = Persistence_error b, ae_flush = Persistence_error e\<rparr> env path text d = (d', r) \<Longrightarrow>
    r = Inr () \<or> (\<exists>t. r = Inl (Persistence_error t))"
  by (auto simp: append_text_def split: append_env.splits)

lemma succeeds_permanent [returning]:
  assumes "\<And>t. succeeds (h t)"
  shows "succeeds (try_persistence (permanent_op J env reason) h)"
  unfolding succeeds_def
proof
  fix s :: "'a controller \<times> 'a solution"
  obtain c sol where s: "s = (c, sol)" by force
  obtain d r where p: "save_permanent_event J (en_parent env) (mc_logger c) (en_append env reason) reason sol (mc_disk c) = (d, r)"
    by force
  have "r = Inr () \<or> (\<exists>t. r = Inl (Persistence_error t))"
    using p append_text_error by (fastforce simp: save_permanent_event_def append_jsonl_def Let_def split: if_splits)
  then show "\<exists>x s'. try_persistence (permanent_op J env reason) h s = Some (Inr x, s')"
    using assms p unfolding succeeds_def by (auto simp: s permanent_op_def try_persistence_def)
qed

lemma succeeds_ops [returning]:
  "succeeds (event_op env text)" "succeeds (set_solution f)"
  by (simp_all add: event_op_def set_solution_def returning)

lemma succeeds_record: "succeeds (record_candidate J env hashes uptime)"
  unfolding record_candidate_def by (intro returning, rule succeeds_state, intro returning)

lemma succeeds_announce: "succeeds (announce_share J env is_record)"
  unfolding announce_share_def Let_def by (rule succeeds_state) (intro returning)

lemma audit_saved:
  assumes "en_append env ''share_audit'' = Appended"
  shows "\<exists>s'. persist_share J env s = Some (Inr True, s')"
  using assms
  by (cases s) (auto simp: persist_share_def try_persistence_def act_then_def act_bind_def save_audit_op_def save_share_audit_def
      append_text_def Let_def act_return_def)

lemma save_and_submit_shares:
  assumes "\<not> s_network_candidate sol" "can_submit c" "mc_client c = Some cl" "en_append env ''share_audit'' = Appended"
  shows "\<exists>r s' es sol'. save_and_submit J env (c, sol) = Some (r, s') \<and> mc_effects (fst s') = mc_effects c @ es \<and>
    sent es = [submit_request J sol' cl] \<and> same_request sol sol'"
proof -
  define sol1 where "sol1 = sol\<lparr>s_submitted := en_utc env ''submitted'', s_status := ''pending''\<rparr>"
  have sol1: "same_request sol sol1" by (simp add: sol1_def same_request_def)
  obtain c2 sol2 where p: "persist_share J env (c, sol1) = Some (Inr True, (c2, sol2))"
    using audit_saved [OF assms(4), of J "(c, sol1)"] by force
  have q: "quiet (c, sol1) (c2, sol2)" using keepsD [OF keeps_persist_share quiet_refl p] .
  have run: "save_and_submit J env (c, sol) = submit_solution J env (c2, sol2)"
    using assms(1,2) p by (simp add: save_and_submit_def Let_def act_then_def act_bind_def set_solution_def act_modify_def
        act_when_def act_return_def sol1_def)
  obtain r s' where sub: "submit_solution J env (c2, sol2) = Some (r, s')"
    using returns_submit [of J env] unfolding returns_def by (metis not_None_eq surj_pair)
  have silent: "silent c c2" "same_request sol1 sol2" using q by (simp_all add: quiet_def)
  then obtain es1 where es1: "mc_effects c2 = mc_effects c @ es1" "sent es1 = []" by (auto elim: silentD)
  have "mc_client c2 = Some cl" using silent(1) assms(3) by (simp add: silent_def)
  then obtain es where "mc_effects (fst s') = mc_effects c2 @ Sent (submit_request J sol2 cl) # es" "sent es = []"
    using submit_solution_sends [OF sub] output_sent by blast
  then have "mc_effects (fst s') = mc_effects c @ (es1 @ Sent (submit_request J sol2 cl) # es)"
    "sent (es1 @ Sent (submit_request J sol2 cl) # es) = [submit_request J sol2 cl]"
    using es1 by simp_all
  then show ?thesis using run sub same_request_trans [OF sol1 silent(2)]
    by (intro exI [of _ r] exI [of _ s'] exI [of _ "es1 @ Sent (submit_request J sol2 cl) # es"] exI [of _ sol2]) simp
qed

lemma make_solution_Inr:
  assumes "get_nonce (cd_header cand) = cd_nonce cand"
  obtains hdiff ndiff where "make_solution env c cand = Inr (solution_of env c cand hdiff ndiff)"
proof -
  obtain d1 where "\<And>p t. difficulty_from_target p t = Inr (if long_value p t = 0 then FInf False
       else double_of_rat (round_digits p long_min (long_value p d1 / long_value p t)))"
    using difficulty_from_target_Inr by metis
  with assms that show thesis by (simp add: make_solution_def difficulty_from_hash_def)
qed

text \<open>C13: a share of the current generation is submitted whenever the client is connected and authorized and its
  audit line can be appended, whatever fails among the record, the permanent history, the console log and the
  later updates.\<close>

theorem current_share_submitted:
  assumes "get_nonce (cd_header cand) = cd_nonce cand" "lm_generation (cd_context cand) = mc_generation c"
    "cd_share cand" "\<not> cd_network cand" "mc_client c = Some cl" "is_connected cl" "is_authorized cl"
    "en_append env ''share_audit'' = Appended"
  shows "\<exists>r c' es. on_candidate J env cand c = Some (r, c') \<and> mc_effects c' = mc_effects c @ es \<and>
    sent es = [make_request J (next_id cl) ''mining.submit'' (j_array J (List.map (j_string J)
      [ck_username (ac_ckpool (mc_config c)), job_id (lm_job (cd_context cand)), cd_extranonce2 cand,
       ntime (lm_job (cd_context cand)), stratum_nonce_hex (cd_nonce cand)]))]"
proof -
  obtain hdiff ndiff where make: "make_solution env c cand = Inr (solution_of env c cand hdiff ndiff)"
    using make_solution_Inr [OF assms(1)] .
  define sol0 where "sol0 = solution_of env c cand hdiff ndiff"
  note fields = make_solution_request [OF make, folded sol0_def]
  define c1 where "c1 = update_telemetry (telemetry_best (s_hash sol0)) c"
  obtain update s2 where rec: "record_candidate J env (tm_cpu_hashes (mc_telemetry c1) + tm_gpu_hashes (mc_telemetry c1) + 1)
      (uptime_ms (en_clock env ''candidate'') c1) (c1, sol0) = Some (Inr update, s2)"
    using succeeds_record unfolding succeeds_def by metis
  obtain s3 where ann: "announce_share J env (pu_is_record update) s2 = Some (Inr (), s3)"
    using succeeds_announce unfolding succeeds_def by (metis old.unit.exhaust)
  have q2: "quiet (c1, sol0) s2" using keepsD [OF keeps_record quiet_refl rec] .
  then have q3: "quiet (c1, sol0) s3" using keepsD [OF keeps_announce _ ann] by blast
  have flags: "s_share_candidate (snd s2)" using q2 fields assms(3) by (simp add: quiet_def same_request_def)
  obtain c3 sol3 where s3: "s3 = (c3, sol3)" by force
  have "silent c c1" by (simp add: c1_def)
  then have silent: "silent c c3" "same_request sol0 sol3" using q3 silent_trans by (auto simp: quiet_def s3)
  have client: "mc_client c3 = Some cl" "can_submit c3" using silent(1) assms(5-7) by (simp_all add: silent_def can_submit_def)
  have "\<not> s_network_candidate sol3" using silent(2) fields assms(4) by (simp add: same_request_def)
  from save_and_submit_shares [OF this client(2,1) assms(8)] obtain r s' es sol' where
    sub: "save_and_submit J env (c3, sol3) = Some (r, s')" "mc_effects (fst s') = mc_effects c3 @ es"
      "sent es = [submit_request J sol' cl]" "same_request sol3 sol'" by blast
  obtain es1 where es1: "mc_effects c3 = mc_effects c @ es1" "sent es1 = []" using silent(1) by (auto elim: silentD)
  have "on_candidate J env cand c = Some (r, fst s')"
    using make assms(2) rec ann sub(1) flags
    by (simp add: on_candidate_def Let_def c1_def sol0_def act_bind_def act_then_def s3)
  moreover have "submit_request J sol' cl = make_request J (next_id cl) ''mining.submit'' (j_array J (List.map (j_string J)
      [ck_username (ac_ckpool (mc_config c)), job_id (lm_job (cd_context cand)), cd_extranonce2 cand,
       ntime (lm_job (cd_context cand)), stratum_nonce_hex (cd_nonce cand)]))"
    using fields silent(2) sub(4) by (simp add: submit_request_def same_request_def)
  ultimately show ?thesis using sub(2,3) es1 by (intro exI [of _ r] exI [of _ "fst s'"] exI [of _ "es1 @ es"]) simp
qed

lemma returns_persist_share [returning]: "returns (persist_share J env)"
  unfolding persist_share_def local_error_def clear_audit_file_def by (intro returning)

lemma save_and_submit_returns:
  assumes "\<not> s_network_candidate (snd s)"
  shows "\<exists>x. save_and_submit J env s = Some x"
proof -
  let ?f = "\<lambda>sol. if can_submit (fst s) then sol\<lparr>s_submitted := en_utc env ''submitted'', s_status := ''pending''\<rparr>
    else sol\<lparr>s_status := ''not_submitted'', s_local_error := Some ''CKPool connection inactive''\<rparr>"
  have "returns (act_then (set_solution ?f) (act_bind (persist_share J env) (\<lambda>saved. if \<not> saved then act_return ()
      else if \<not> can_submit (fst s) then event_op env ''[SHARE] non soumise: connexion CKPool inactive''
      else act_then (act_when False m) (submit_solution J env))))" for m
    by (auto intro!: returning simp: act_when_def)
  from returnsD [OF this, where s = s] assms show ?thesis by (simp add: save_and_submit_def Let_def act_when_def)
qed

section \<open>An example session\<close>

definition example_logger :: logger where
  "example_logger = \<lparr>lg_directory = ''results'', lg_session_path = path_join ''results'' (''session_'' @ ''x''),
     lg_session_log = True, lg_block_candidates = True, lg_share_audits = True, lg_retention_hours = 24,
     lg_threshold = double_of_nat 1\<rparr>"

definition example_session :: "jtree controller" where
  "example_session = \<lparr>mc_config = default_config, mc_telemetry = make_telemetry 1000, mc_logger = example_logger,
     mc_tracker = example_tracker, mc_allocator = example_allocator, mc_generation = 1,
     mc_client = Some (initial_client\<lparr>is_connected := True, is_authorized := True\<rparr>), mc_pending = Map.empty,
     mc_extranonce1 = ''aa'', mc_extranonce2_size = 4, mc_subscribed = True, mc_authorized = True,
     mc_share_difficulty = double_of_nat 1, mc_pending_job = None, mc_previous_prevhash = '''', mc_started = 0,
     mc_prior_uptime = 0, mc_disk = Map.empty, mc_effects = []\<rparr>"

definition example_env :: "jtree env" where
  "example_env = \<lparr>en_precision = 64, en_double_text = (\<lambda>_. ''1.000000''), en_clock = (\<lambda>_. 0), en_utc = (\<lambda>_. ''now''),
     en_stamps = [(''0'', None)], en_append = (\<lambda>_. Appended), en_parent = id,
     en_save = (\<lambda>_. save_win32 (\<lambda>_. '''') healthy_disk), en_send = (\<lambda>_. Inr ()), en_now_us = 0, en_moved = id,
     en_gpu_name = None\<rparr>"

definition example_candidate :: candidate where
  "example_candidate = \<lparr>cd_context = example_job, cd_extranonce2 = ''00000000'', cd_header = replicate 80 0,
     cd_merkle_root = replicate 32 0, cd_digest = replicate 32 0, cd_nonce = 0, cd_share = True, cd_network = False,
     cd_worker = ''CPU''\<rparr>"

lemma example_nonce: "get_nonce (replicate 80 0) = 0"
  by code_simp

lemma example_session_facts:
  "uses_state_store example_env" "session_log (mc_logger example_session)"
  "lm_generation (cd_context example_candidate) = mc_generation example_session"
  "get_nonce (cd_header example_candidate) = cd_nonce example_candidate"
  "can_submit example_session"
  by (auto simp: uses_state_store_def example_env_def session_log_def example_session_def example_logger_def
      example_candidate_def example_job_def example_nonce can_submit_def)

theorem current_share_submitted_witness:
  "\<exists>r c'. on_candidate tree_api example_env example_candidate example_session = Some (r, c') \<and> length (sent (mc_effects c')) = 1"
  using current_share_submitted [of example_candidate example_session "initial_client\<lparr>is_connected := True, is_authorized := True\<rparr>"
      example_env tree_api] example_session_facts
  by (fastforce simp: example_candidate_def example_session_def example_env_def)

lemma on_candidate_returns:
  assumes "get_nonce (cd_header cand) = cd_nonce cand" "\<not> cd_network cand"
  shows "\<exists>r c'. on_candidate J env cand c = Some (r, c')"
proof -
  obtain sol where make: "make_solution env c cand = Inr sol" using make_solution_Inr [OF assms(1)] by metis
  define c1 where "c1 = update_telemetry (telemetry_best (s_hash sol)) c"
  obtain update s2 where rec: "record_candidate J env (tm_cpu_hashes (mc_telemetry c1) + tm_gpu_hashes (mc_telemetry c1) + 1)
      (uptime_ms (en_clock env ''candidate'') c1) (c1, sol) = Some (Inr update, s2)"
    using succeeds_record unfolding succeeds_def by metis
  have "\<not> s_network_candidate (snd s2)"
    using keepsD [OF keeps_record quiet_refl rec] make_solution_request [OF make] assms(2)
    by (simp add: quiet_def same_request_def)
  moreover obtain s3 where ann: "announce_share J env (pu_is_record update) s2 = Some (Inr (), s3)"
    using succeeds_announce unfolding succeeds_def by (metis old.unit.exhaust)
  moreover have "quiet s2 s3" using keepsD [OF keeps_announce quiet_refl ann] .
  ultimately obtain x where "save_and_submit J env s3 = Some x"
    using save_and_submit_returns by (metis quiet_def same_request_def)
  then show ?thesis using make rec ann
    by (cases x) (simp add: on_candidate_def Let_def c1_def [symmetric] act_bind_def act_then_def act_return_def)
qed

theorem sent_only_when_saved_witness:
  "\<exists>r c'. on_candidate tree_api example_env example_candidate example_session = Some (r, c') \<and>
    (sent (mc_effects c') = [] \<or>
     (\<exists>before after sol. mc_effects c' = before @ Sent (submit_request tree_api sol (the (mc_client example_session))) # after \<and>
        sent before = [] \<and> sent after = [] \<and> s_extranonce2 sol = ''00000000'' \<and>
        saved tree_api example_logger sol (disk_after Map.empty before)))"
proof -
  obtain r c' where run: "on_candidate tree_api example_env example_candidate example_session = Some (r, c')"
    using on_candidate_returns [of example_candidate] example_session_facts(4) by (force simp: example_candidate_def)
  have start: "mc_effects example_session = []" "mc_disk example_session = Map.empty" "mc_logger example_session = example_logger"
    "cd_extranonce2 example_candidate = ''00000000''"
    by (simp_all add: example_session_def example_candidate_def)
  show ?thesis
    using sent_only_when_saved [OF run example_session_facts(1,2)] run unfolding start by (metis append_Nil option.sel)
qed

section \<open>The workers that run\<close>

text \<open>The generations of the workers started and not yet stopped.\<close>

fun workers_after :: "'j effect \<Rightarrow> u64 list \<Rightarrow> u64 list" where
  "workers_after Workers_stopped gs = []"
| "workers_after (Cpu_started mj threads) gs = lm_generation mj # gs"
| "workers_after (Gpu_started mj tune) gs = lm_generation mj # gs"
| "workers_after _ gs = gs"

definition running :: "'j effect list \<Rightarrow> u64 list" where
  "running es = fold workers_after es []"

lemma running_append [simp]: "running (es @ es') = fold workers_after es' (running es)"
  by (simp add: running_def)

lemma workers_output: "list_all output_only es \<Longrightarrow> fold workers_after es gs = gs"
proof (induction es arbitrary: gs)
  case (Cons e es)
  then show ?case by (cases e) simp_all
qed simp

text \<open>Steps that neither change the connection nor start or stop a worker.\<close>

definition steady :: "'j controller \<Rightarrow> 'j controller \<Rightarrow> bool" where
  "steady c c' \<longleftrightarrow> same_connection c c' \<and> running (mc_effects c') = running (mc_effects c)"

lemma steady_refl [simp]: "steady c c"
  by (simp add: steady_def same_connection_def)

lemma steady_trans: "steady a b \<Longrightarrow> steady b c \<Longrightarrow> steady a c"
  by (auto simp: steady_def intro: same_connection_trans)

lemma grown_steady: "grown c c' \<Longrightarrow> steady c c'"
  by (auto simp: grown_def steady_def workers_output)

lemma silent_steady: "silent c c' \<Longrightarrow> steady c c'"
  by (rule grown_steady [OF silent_grown])

lemma sends_saved_steady: "sends_saved J c sol c' \<Longrightarrow> steady c c'"
  unfolding sends_saved_def steady_def by (auto simp: workers_output)

abbreviation steadily :: "'j controller \<Rightarrow> 'j controller \<times> 'j solution \<Rightarrow> bool" where
  "steadily c s \<equiv> steady c (fst s)"

lemma keeps_steadily:
  assumes "\<And>t. keeps (quiet t) m"
  shows "keeps (steadily c) m"
  unfolding keeps_def
proof (intro allI impI)
  fix s r s' assume start: "steadily c s" and run: "m s = Some (r, s')"
  have "quiet s s'" using keepsD [OF assms quiet_refl run] .
  then have "steady (fst s) (fst s')" by (simp add: quiet_def silent_steady)
  with start show "steadily c s'" by (rule steady_trans)
qed

lemma keeps_steadily_submit: "keeps (steadily c) (submit_solution J env)"
  unfolding keeps_def
proof (intro allI impI)
  fix s r s' assume start: "steadily c s" and run: "submit_solution J env s = Some (r, s')"
  obtain d sol where s: "s = (d, sol)" by force
  have "steady d (fst s')"
  proof (cases "mc_client d")
    case None
    then have "submission_failed J env (exn_text (Logic_error ''no client'')) s = Some (r, s')"
      using run by (simp add: submit_solution_def try_any_def act_bind_def submit_op_def s)
    from keepsD [OF keeps_failed _ this, of d] show ?thesis
      by (simp add: s grown_steady [OF silent_grown [OF silent_refl]] grown_steady silent_grown)
  next
    case (Some cl)
    from submit_solution_sends [OF run [unfolded s] Some] show ?thesis
      by (auto simp: steady_def workers_output)
  qed
  with start show "steadily c s'" by (auto simp: s intro: steady_trans)
qed

lemma keeps_steadily_save_and_submit: "keeps (steadily c) (save_and_submit J env)"
proof -
  have quiet: "keeps (steadily c) (event_op env t)" "keeps (steadily c) (persist_block J env)" "keeps (steadily c) (persist_share J env)"
    "(\<And>sol. same_request sol (f sol)) \<Longrightarrow> keeps (steadily c) (set_solution f)" for t f
    by (rule keeps_steadily, intro keeping, assumption?)+
  show ?thesis
    unfolding save_and_submit_def Let_def
    by (rule keeps_state) (intro keeping quiet keeps_steadily_submit, simp add: same_request_def)
qed

lemma on_candidate_steady:
  assumes "on_candidate J env cand c = Some (r, c')"
  shows "steady c c'"
proof (cases "make_solution env c cand")
  case (Inr sol)
  define c1 where "c1 = update_telemetry (telemetry_best (s_hash sol)) c"
  define m where "m = act_bind (record_candidate J env (tm_cpu_hashes (mc_telemetry c1) + tm_gpu_hashes (mc_telemetry c1) + 1)
      (uptime_ms (en_clock env ''candidate'') c1)) (\<lambda>update s.
      (if lm_generation (cd_context cand) \<noteq> mc_generation c then act_return ()
       else if \<not> s_share_candidate (snd s) \<and> \<not> s_network_candidate (snd s) then act_return ()
       else act_then (announce_share J env (pu_is_record update)) (save_and_submit J env)) s)"
  have "keeps (steadily c1) m"
    unfolding m_def
    by (rule keeps_bind [OF keeps_steadily [OF keeps_record]], rule keeps_state)
      (intro keeps_if keeps_return keeps_then keeps_steadily [OF keeps_announce] keeps_steadily_save_and_submit)
  moreover obtain s' where "m (c1, sol) = Some (r, s')" "c' = fst s'"
    using assms by (auto simp: on_candidate_def Inr Let_def c1_def m_def)
  ultimately have "steady c1 c'" using keepsD [of "steadily c1" m "(c1, sol)"] by simp
  moreover have "steady c c1" by (simp add: c1_def silent_steady)
  ultimately show ?thesis by (rule steady_trans [rotated])
qed (use assms in \<open>simp add: on_candidate_def\<close>)

text \<open>The same for the operations on the controller alone.\<close>

lemma keeps_steady:
  assumes "\<And>c r c'. m c = Some (r, c') \<Longrightarrow> steady c c'"
  shows "keeps (steady c) m"
  using assms steady_trans unfolding keeps_def by blast

lemma keeps_emit: "keeps (steady c) (act_modify (emit_event env t))"
  by (rule keeps_steady) (auto simp: act_modify_def silent_steady)

lemma keeps_checkpoint: "keeps (steady c) (safe_checkpoint J env t)"
  unfolding safe_checkpoint_def
  by (intro keeping keeps_emit keeps_steady) (auto simp: checkpoint_op_def silent_steady steady_trans split: prod.splits)

lemma keeps_archive: "keeps (steady c) (append_stratum_archive J env archived)"
  unfolding append_stratum_archive_def
  by (intro keeping keeps_emit keeps_steady) (auto simp: silent_steady steady_trans split: prod.splits)

lemma steady_fields:
  "steady c (c\<lparr>mc_allocator := a\<rparr>)" "steady c (c\<lparr>mc_previous_prevhash := p\<rparr>)" "steady c (c\<lparr>mc_pending := m\<rparr>)"
  "steady c (c\<lparr>mc_client := cl\<rparr>)" "steady c (c\<lparr>mc_share_difficulty := x\<rparr>)"
  by (simp_all add: steady_def same_connection_def)

lemma steady_announce: "steady c (announce_job env job c)"
  unfolding announce_job_def Let_def by (rule steady_trans [OF silent_steady [OF silent_emit] steady_fields(2)])

lemma steady_mark_stale: "steady c (mark_stale_op env job c)"
  by (simp add: mark_stale_op_def steady_trans [OF steady_fields(1) silent_steady [OF silent_emit]])

lemma keeps_prepare: "keeps (steady c) (prepare_op J job fingerprint)"
  by (rule keeps_steady) (auto simp: prepare_op_def Let_def steady_fields split: prod.splits)

text \<open>Every running worker is of the current generation; a job waits only while the session is not open.\<close>

definition workers_current :: "'j controller \<Rightarrow> bool" where
  "workers_current c \<longleftrightarrow> list_all (\<lambda>g. g = mc_generation c) (running (mc_effects c))"

definition session_inv :: "'j controller \<Rightarrow> bool" where
  "session_inv c \<longleftrightarrow> workers_current c \<and> (mc_pending_job c \<noteq> None \<longrightarrow> \<not> (mc_subscribed c \<and> mc_authorized c))"

lemma steady_inv: "steady c c' \<Longrightarrow> session_inv c \<Longrightarrow> session_inv c'"
  by (simp add: session_inv_def workers_current_def steady_def same_connection_def)

lemma silent_inv:
  "session_inv c \<Longrightarrow> session_inv (emit_event env t c)" "session_inv c \<Longrightarrow> session_inv (update_telemetry f c)"
  by (erule steady_inv [OF silent_steady, rotated], simp)+

lemma keeps_inv: "(\<And>c. keeps (steady c) m) \<Longrightarrow> keeps session_inv m"
  unfolding keeps_def using steady_inv by (metis steady_refl)

lemma keeps_inv_emit: "keeps session_inv (act_modify (emit_event env t))"
  by (rule keeps_inv) (rule keeps_emit)

lemma keeps_inv_prepare: "keeps session_inv (prepare_op J job fingerprint)"
  by (rule keeps_inv) (rule keeps_prepare)

lemma keeps_inv_checkpoint: "keeps session_inv (safe_checkpoint J env t)"
  by (rule keeps_inv) (rule keeps_checkpoint)

lemma mining_job_generation: "mining_job job fingerprint c = Inr mj \<Longrightarrow> lm_generation mj = mc_generation c"
  by (auto simp: mining_job_def bindE_eq_Inr_iff)

lemma start_workers_inv:
  assumes "session_inv c" "lm_generation mj = mc_generation c"
  shows "session_inv (start_workers env job mj c)"
  using assms by (simp add: session_inv_def workers_current_def start_workers_def Let_def update_telemetry_def)

lemma launch_job_inv:
  assumes "session_inv c" "launch_job J env job c = Some (r, c')"
  shows "session_inv c'"
proof (cases "mc_subscribed c \<and> mc_authorized c")
  case True
  define c1 where "c1 = announce_job env job (mark_stale_op env job (stop_workers (next_generation c)))"
  have "session_inv (stop_workers (next_generation c))"
    using assms(1) by (simp add: session_inv_def workers_current_def stop_workers_def next_generation_def)
  then have c1: "session_inv c1"
    unfolding c1_def using steady_announce steady_mark_stale steady_inv by blast
  let ?fp = "live_work_fingerprint J job (mc_extranonce1 c1) (mc_extranonce2_size c1)"
  define rest where "rest = (\<lambda>c. case mining_job job ?fp c of Inl e \<Rightarrow> Some (Inl e, c)
    | Inr mj \<Rightarrow> act_then (act_modify (start_workers env job mj))
        (safe_checkpoint J env ''sauvegarde au lancement du job impossible'') c)"
  have "keeps session_inv rest"
    unfolding keeps_def
  proof (intro allI impI)
    fix s r s' assume s: "session_inv s" "rest s = Some (r, s')"
    show "session_inv s'"
    proof (cases "mining_job job ?fp s")
      case (Inr mj)
      then have "safe_checkpoint J env ''sauvegarde au lancement du job impossible'' (start_workers env job mj s) = Some (r, s')"
        using s(2) by (simp add: rest_def act_then_def act_bind_def act_modify_def)
      then show ?thesis
        by (rule keepsD [OF keeps_inv_checkpoint start_workers_inv [OF s(1) mining_job_generation [OF Inr]]])
    qed (use s in \<open>simp add: rest_def\<close>)
  qed
  then have "keeps session_inv (act_then (act_modify (emit_event env (resumed_text resumed))) rest)" for resumed
    by (rule keeps_then [OF keeps_inv_emit])
  then have k: "keeps session_inv (act_bind (prepare_op J job ?fp) (\<lambda>resumed.
      act_then (act_modify (emit_event env (resumed_text resumed))) rest))"
    by (rule keeps_bind [OF keeps_inv_prepare])
  have "act_bind (prepare_op J job ?fp) (\<lambda>resumed.
      act_then (act_modify (emit_event env (resumed_text resumed))) rest) c1 = Some (r, c')"
    using assms(2) True by (simp add: launch_job_def Let_def c1_def rest_def)
  then show ?thesis by (rule keepsD [OF k c1])
next
  case False
  then show ?thesis using assms by (auto simp: launch_job_def session_inv_def workers_current_def)
qed

lemma launch_pending_inv:
  assumes "workers_current c" "ready \<longleftrightarrow> mc_subscribed c \<and> mc_authorized c" "launch_pending J env ready c = Some (r, c')"
  shows "session_inv c'"
proof (cases "mc_pending_job c")
  case None
  then show ?thesis using assms by (auto simp: launch_pending_def session_inv_def)
next
  case (Some job)
  show ?thesis
  proof (cases ready)
    case True
    have "session_inv (c\<lparr>mc_pending_job := None\<rparr>)" using assms(1) by (simp add: session_inv_def workers_current_def)
    then show ?thesis using launch_job_inv assms(3) Some True by (auto simp: launch_pending_def)
  next
    case False
    then show ?thesis using assms Some by (auto simp: launch_pending_def session_inv_def)
  qed
qed

lemma archive_succeeds: "succeeds (append_stratum_archive J env archived)"
  unfolding append_stratum_archive_def
  by (rule succeeds_try_any) (auto simp: returns_def succeeds_modify split: prod.splits)

lemma archive_runs:
  assumes "append_stratum_archive J env archived c = Some (r, c')"
  shows "r = Inr ()" "steady c c'"
proof -
  from succeedsE [OF archive_succeeds, of J env archived c] show "r = Inr ()"
    using assms by (metis Pair_inject old.unit.exhaust option.inject)
  show "steady c c'" using keepsD [OF keeps_archive steady_refl assms] .
qed

lemma archive_notify_succeeds:
  obtains c' where "archive_stratum_notify J env job c = Some (Inr (), c')"
proof -
  obtain v where "archive_stratum_notify J env job c = append_stratum_archive J env v c"
    by (cases "mc_subscribed c") (auto simp: archive_stratum_notify_def)
  then show thesis using succeedsE [OF archive_succeeds, of J env v c] that by (metis old.unit.exhaust)
qed

lemma archive_callback_runs:
  "archive_stratum_notify J env job c = Some (r, c') \<Longrightarrow> r = Inr () \<and> steady c c'"
  "archive_stratum_subscription J env en1 n c = Some (r, c') \<Longrightarrow> r = Inr () \<and> steady c c'"
  using archive_runs
  by (fastforce simp: archive_stratum_notify_def archive_stratum_subscription_def Let_def split: prod.splits if_splits)+

lemma on_job_inv:
  assumes "session_inv c" "on_job J env job c = Some (r, c')"
  shows "session_inv c'"
  using assms(2) unfolding on_job_def
proof (cases rule: act_then_SomeE)
  case (failed e)
  then show ?thesis using archive_callback_runs(1) by blast
next
  case (returned c1)
  have "session_inv c1" using archive_callback_runs(1) [OF returned(1)] steady_inv assms(1) by blast
  then show ?thesis using returned(2) by (rule launch_job_inv)
qed

lemma on_subscribed_inv:
  assumes "session_inv c" "on_subscribed J env en1 n c = Some (r, c')"
  shows "session_inv c'"
proof -
  define c1 where "c1 = c\<lparr>mc_extranonce1 := en1, mc_extranonce2_size := n, mc_subscribed := True\<rparr>"
  have c1: "workers_current c1" using assms(1) by (simp add: c1_def session_inv_def workers_current_def)
  have "act_then (archive_stratum_subscription J env en1 n) (\<lambda>c. launch_pending J env (mc_authorized c) c) c1 = Some (r, c')"
    using assms(2) by (simp add: on_subscribed_def c1_def)
  then show ?thesis
  proof (cases rule: act_then_SomeE)
    case (failed e)
    then show ?thesis using archive_callback_runs(2) by blast
  next
    case (returned c2)
    have "steady c1 c2" using archive_callback_runs(2) [OF returned(1)] by blast
    then have "workers_current c2" "mc_subscribed c2" using c1
      by (simp_all add: steady_def same_connection_def workers_current_def c1_def)
    then show ?thesis using launch_pending_inv [OF _ _ returned(2)] by blast
  qed
qed

lemma on_authorized_inv:
  assumes "session_inv c" "on_authorized J env ok c = Some (r, c')"
  shows "session_inv c'"
proof -
  obtain f where run: "launch_pending J env (ok \<and> mc_subscribed c) (update_telemetry f (c\<lparr>mc_authorized := ok\<rparr>)) = Some (r, c')"
    using assms(2) by (auto simp: on_authorized_def Let_def update_telemetry_def)
  have "workers_current (update_telemetry f (c\<lparr>mc_authorized := ok\<rparr>))"
    using assms(1) by (simp add: session_inv_def workers_current_def update_telemetry_def)
  then show ?thesis by (rule launch_pending_inv [OF _ _ run]) (auto simp: update_telemetry_def)
qed

lemma keeps_record_response: "keeps (quiet t) (record_response J env ident ok response)"
proof -
  have "keeps (quiet t) (response_event J env ident ok response)"
    unfolding response_event_def Let_def by (rule keeps_state) (intro keeping)
  then show ?thesis
    unfolding record_response_def by (rule keeps_then) (rule keeps_state, intro keeping)
qed

lemma on_submission_steady:
  assumes "on_submission J env ident ok response latency c = Some (r, c')"
  shows "steady c c'"
proof -
  define c2 where "c2 = update_telemetry (\<lambda>t. if ok then t\<lparr>tm_accepted := tm_accepted t + 1\<rparr>
    else t\<lparr>tm_rejected := tm_rejected t + 1\<rparr>) (c\<lparr>mc_pending := (mc_pending c)(ident := None)\<rparr>)"
  have c2: "steady c c2" unfolding c2_def by (rule steady_trans [OF steady_fields(3) silent_steady [OF silent_telemetry]])
  show ?thesis
  proof (cases "mc_pending c ident")
    case None
    then show ?thesis using assms c2 steady_trans [OF c2 silent_steady [OF silent_emit]]
      by (auto simp: on_submission_def Let_def c2_def act_when_def act_modify_def act_return_def split: if_splits)
  next
    case (Some sol)
    then obtain s' where run: "record_response J env ident ok response (c2, answered_solution env ok response latency sol) = Some (r, s')"
      and c': "c' = fst s'"
      using assms by (auto simp: on_submission_def Let_def c2_def)
    have "keeps (quiet t) (record_response J env ident ok response)" for t
      by (rule keeps_record_response)
    from keepsD [OF this quiet_refl run] show ?thesis
      unfolding c' using steady_trans [OF c2] silent_steady by (fastforce simp: quiet_def)
  qed
qed

lemma on_disconnected_inv:
  assumes "session_inv c" "on_disconnected J env c = Some (r, c')"
  shows "session_inv c'"
  using keepsD [OF keeps_inv_checkpoint _ assms(2) [unfolded on_disconnected_def Let_def]]
  by (simp add: session_inv_def workers_current_def stop_workers_def next_generation_def update_telemetry_def)

lemma dispatch_inv:
  assumes "session_inv c" "dispatch J env cb c = Some (r, c')"
  shows "session_inv c'"
  using assms
  by (cases cb) (auto simp: dispatch_def on_difficulty_def act_modify_def
      intro: on_job_inv on_subscribed_inv on_authorized_inv on_disconnected_inv silent_inv
        steady_inv [OF on_submission_steady] steady_inv [OF steady_fields(5)])

lemma live_round_inv:
  assumes "session_inv c" "live_round J env now listing dl c = Some (r, dl', c')"
  shows "session_inv c'"
proof -
  have purge: "silent c1 (purge_op env file_now hour recent legacy c1)" for c1 file_now hour recent legacy
    by (auto simp: purge_op_def Let_def intro: silent_trans [OF silent_wrote silent_emit] split: prod.splits)
  show ?thesis
  proof (cases "dl_checkpoint dl \<le> now ''checkpoint due''")
    case True
    then obtain q c1 where run: "safe_checkpoint J env (''sauvegarde p'' @ e_acute @ ''riodique impossible'') c = Some (q, c1)"
      and c': "c' = c1 \<or> (\<exists>f h a b. c' = purge_op env f h a b c1)"
      using assms(2) by (auto simp: live_round_def Let_def split: option.splits sum.splits prod.splits if_splits)
    have "session_inv c1" by (rule keepsD [OF keeps_inv_checkpoint assms(1) run])
    then show ?thesis using c' purge silent_steady steady_inv by blast
  next
    case False
    then have "c' = c \<or> (\<exists>f h a b. c' = purge_op env f h a b c)"
      using assms(2) by (auto simp: live_round_def Let_def split: prod.splits if_splits)
    then show ?thesis using assms(1) purge silent_steady steady_inv by blast
  qed
qed

text \<open>
  A session: callbacks of the client, candidates of the workers, rounds of the loop, what the workers do to the
  allocator and the counters, what the client does to its own state, and the end.
\<close>

inductive session_step :: "'j json_api \<Rightarrow> 'j controller \<Rightarrow> 'j controller \<Rightarrow> bool" for J where
  callback: "dispatch J env cb c = Some (r, c') \<Longrightarrow> session_step J c c'"
| candidate: "on_candidate J env cand c = Some (r, c') \<Longrightarrow> session_step J c c'"
| turn: "live_round J env now listing dl c = Some (r, dl', c') \<Longrightarrow> session_step J c c'"
| work: "session_step J c (c\<lparr>mc_allocator := a\<rparr>)"
| progress: "session_step J c (update_telemetry f c)"
| network: "session_step J c (c\<lparr>mc_client := Some cl\<rparr>)"
| finish: "end_live J env c = Some (r, c') \<Longrightarrow> session_step J c c'"

lemma session_step_inv:
  assumes "session_step J c c'" "session_inv c"
  shows "session_inv c'"
  using assms
proof cases
  case (finish env r)
  have "keeps session_inv (act_then (safe_checkpoint J env t) (act_modify (update_telemetry telemetry_stop)))" for t
    by (intro keeps_then keeps_inv_checkpoint keeps_modify) (rule steady_inv [OF silent_steady], simp_all)
  from keepsD [OF this _ finish [unfolded end_live_def]] show ?thesis
    using assms(2) by (simp add: session_inv_def workers_current_def stop_workers_def next_generation_def)
qed (auto intro: dispatch_inv live_round_inv silent_inv
    steady_inv [OF on_candidate_steady] steady_inv [OF steady_fields(1)] steady_inv [OF steady_fields(4)])



section \<open>Responses\<close>

lemma response_event_runs:
  "\<exists>c3. (c3 = c \<or> (\<exists>t. c3 = emit_event env t c)) \<and>
    response_event J env ident ok response (c, sol) = Some (Inr (), c3, sol)"
proof -
  have "\<exists>c3. (c3 = c \<or> (\<exists>t. c3 = emit_event env t c)) \<and>
      (if b then event_op env t1 else act_when b' (event_op env t2)) (c, sol) = Some (Inr (), c3, sol)" for b b' t1 t2
    by (cases b; cases b') (auto simp: event_op_def act_modify_def act_when_def act_return_def)
  then show ?thesis unfolding response_event_def Let_def fst_conv snd_conv .
qed

text \<open>C21: the pool's response to a share that waits for it removes exactly this share from the waiting ones,
  counts it once, as accepted or rejected, sends nothing, and appends the share with the response to its audit file.\<close>

theorem response_recorded:
  assumes "mc_pending c ident = Some sol" "\<not> s_network_candidate sol" "s_share_audit_file sol \<noteq> ''''"
    "en_append env ''response_audit'' = Appended"
  shows "\<exists>c' es a. on_submission J env ident ok response latency c = Some (Inr (), c') \<and>
    mc_pending c' = (mc_pending c)(ident := None) \<and>
    tm_accepted (mc_telemetry c') = tm_accepted (mc_telemetry c) + (if ok then 1 else 0) \<and>
    tm_rejected (mc_telemetry c') = tm_rejected (mc_telemetry c) + (if ok then 0 else 1) \<and>
    mc_effects c' = mc_effects c @ es \<and> sent es = [] \<and>
    mc_disk c' (s_share_audit_file sol) = Some (a @ audit_line J ''submission_update'' (answered_solution env ok response latency sol))"
proof -
  define c2 where "c2 = update_telemetry (\<lambda>t. if ok then t\<lparr>tm_accepted := tm_accepted t + 1\<rparr>
    else t\<lparr>tm_rejected := tm_rejected t + 1\<rparr>) (c\<lparr>mc_pending := (mc_pending c)(ident := None)\<rparr>)"
  define sol' where "sol' = answered_solution env ok response latency sol"
  have sol': "\<not> s_network_candidate sol'" "s_share_audit_file sol' = s_share_audit_file sol"
    using assms(2) by (simp_all add: sol'_def answered_solution_def)
  obtain c3 where c3: "c3 = c2 \<or> (\<exists>t. c3 = emit_event env t c2)"
    and run: "record_response J env ident ok response (c2, sol') = try_persistence (update_audit_op J env ''response_audit'')
        (\<lambda>t. event_op env (''[SHARE] r'' @ e_acute @ ''ponse non sauvegard'' @ e_acute @ ''e dans l'audit: '' @ t)) (c3, sol')"
  proof -
    obtain c3 where ev: "c3 = c2 \<or> (\<exists>t. c3 = emit_event env t c2)"
      "response_event J env ident ok response (c2, sol') = Some (Inr (), c3, sol')"
      using response_event_runs [of c2 env J ident ok response sol'] by blast
    show thesis
      using sol' assms(3) by (intro that [OF ev(1)]) (simp add: record_response_def act_then_def act_bind_def ev(2) act_when_def act_return_def)
  qed
  obtain d where upd: "update_share_audit J Appended sol' (mc_disk c3) = (d, Inr ())"
    using assms(3) sol' by (simp add: update_share_audit_def append_text_def)
  have line: "d (s_share_audit_file sol) = Some (old_text (mc_disk c3) (s_share_audit_file sol) @ audit_line J ''submission_update'' sol')"
    using upd assms(3) sol' append_text_Inr by (fastforce simp: update_share_audit_def)
  have step: "on_submission J env ident ok response latency c = Some (Inr (), wrote [d] c3)"
    using run upd assms(1,4)
    by (simp add: on_submission_def Let_def c2_def [symmetric] sol'_def [symmetric] update_audit_op_def try_persistence_def)
  have "silent c2 c3" using c3 by auto
  then obtain es where "mc_effects c3 = mc_effects c2 @ es" "sent es = []" by (rule silentD)
  then have "mc_effects (wrote [d] c3) = mc_effects c @ es @ [Wrote d]" "sent (es @ [Wrote d]) = []"
    by (simp_all add: wrote_def c2_def update_telemetry_def)
  moreover have "mc_pending (wrote [d] c3) = (mc_pending c)(ident := None)"
    "tm_accepted (mc_telemetry (wrote [d] c3)) = tm_accepted (mc_telemetry c) + (if ok then 1 else 0)"
    "tm_rejected (mc_telemetry (wrote [d] c3)) = tm_rejected (mc_telemetry c) + (if ok then 0 else 1)"
    using c3 by (auto simp: wrote_def emit_event_def c2_def update_telemetry_def)
  moreover have "mc_disk (wrote [d] c3) (s_share_audit_file sol) =
      Some (old_text (mc_disk c3) (s_share_audit_file sol) @ audit_line J ''submission_update'' sol')"
    using line by (simp add: wrote_def)
  ultimately show ?thesis using step unfolding sol'_def by blast
qed

theorem response_recorded_witness:
  "\<exists>c' es. on_submission tree_api example_env 100 False JNull 5
      (example_session\<lparr>mc_pending := [100 \<mapsto> detected_solution\<lparr>s_share_audit_file := ''f''\<rparr>]\<rparr>) = Some (Inr (), c') \<and>
    mc_pending c' = Map.empty \<and> tm_rejected (mc_telemetry c') = 1 \<and> mc_effects c' = es \<and> sent es = []"
  using response_recorded [of "example_session\<lparr>mc_pending := [100 \<mapsto> detected_solution\<lparr>s_share_audit_file := ''f''\<rparr>]\<rparr>" 100
      "detected_solution\<lparr>s_share_audit_file := ''f''\<rparr>" example_env tree_api False JNull 5]
  by (fastforce simp: example_env_def example_session_def detected_solution_def make_telemetry_def)

end
