(* ===== verification/Research_Run.thy ===== *)
theory Research_Run
  imports Live_Session Research_Analysis
begin

text \<open>
  The offline modes of \<^verbatim>\<open>src/mining/mining_controller.cpp\<close>: the research rounds with their checkpoints. Reading the
  stop flag is an argument, one predicate for each place that reads it; effects are those of theory Controller.
\<close>

section \<open>The statistics of a round\<close>

record round_stats =
  rs_counts :: "u64 list"
  rs_hamming :: u64
  rs_tested :: u64
  rs_previous :: bytes
  rs_has_previous :: bool
  rs_best :: string
  rs_best_nonce :: u32

definition fresh_stats :: round_stats where
  "fresh_stats = \<lparr>rs_counts = replicate 256 0, rs_hamming = 0, rs_tested = 0, rs_previous = replicate 32 0,
     rs_has_previous = False, rs_best = '''', rs_best_nonce = 0\<rparr>"

definition count_bits :: "bytes \<Rightarrow> u64 list \<Rightarrow> u64 list" where
  "count_bits digest counts =
    fold (\<lambda>byte cs. fold (\<lambda>i cs. cs[byte * 8 + i := cs ! (byte * 8 + i) + ucast (drop_bit i (digest ! byte) AND 1)]) [0..<8] cs)
      [0..<length digest] counts"

definition add_sample :: "u64 \<Rightarrow> bytes \<Rightarrow> round_stats \<Rightarrow> round_stats" where
  "add_sample nonce digest rs =
    (let text_form = bitcoin_hash_hex digest;
         rs1 = rs\<lparr>rs_counts := count_bits digest (rs_counts rs),
           rs_hamming := (if rs_has_previous rs then rs_hamming rs + of_nat (hamming_distance (rs_previous rs) digest) else rs_hamming rs),
           rs_previous := digest, rs_has_previous := True, rs_tested := rs_tested rs + 1\<rparr>
     in if rs_best rs1 = '''' \<or> text_form < rs_best rs1
        then rs1\<lparr>rs_best := text_form, rs_best_nonce := ucast nonce\<rparr> else rs1)"

section \<open>Checkpoints of a round\<close>

text \<open>\<^verbatim>\<open>get<std::vector<T>>\<close>: an array whose elements convert.\<close>

definition get_vector :: "'j json_api \<Rightarrow> ('j \<Rightarrow> 'a outcome) \<Rightarrow> 'j \<Rightarrow> 'a list outcome" where
  "get_vector J get v =
    (if j_is_array J v then mapE get (j_items J v) else Inl (Json_error ''type must be array''))"

definition round_checkpoint ::
    "'j json_api \<Rightarrow> string \<Rightarrow> u32 \<Rightarrow> u64 \<Rightarrow> u64 \<Rightarrow> u32 list \<Rightarrow> round_stats \<Rightarrow> 'j" where
  "round_checkpoint J header_id rnd next samples completed rs = j_object J
    [(''schema_version'', j_signed J 1), (''mode'', j_string J ''research''), (''header_id'', j_string J header_id),
     (''current_round'', j_unsigned J (ucast rnd)), (''nonce_next'', j_unsigned J next),
     (''nonce_end'', j_unsigned J samples), (''hashes_tested'', j_unsigned J (rs_tested rs)),
     (''best_hash'', j_string J (rs_best rs)), (''best_nonce'', j_unsigned J (ucast (rs_best_nonce rs))),
     (''hamming_total'', j_unsigned J (rs_hamming rs)), (''previous_digest'', j_string J (digest_hex (rs_previous rs))),
     (''bit_counts'', j_array J (List.map (j_unsigned J) (rs_counts rs))),
     (''completed_rounds'', j_array J (List.map (\<lambda>r. j_unsigned J (ucast r)) completed))]"

text \<open>Where the round starts again and with which statistics.\<close>

definition restore_round :: "'j json_api \<Rightarrow> 'j \<Rightarrow> (u64 \<times> round_stats) outcome" where
  "restore_round J state =
    bindE (value_or J (j_get_u64 J) state ''nonce_next'' 0) (\<lambda>next.
    bindE (value_or J (j_get_u64 J) state ''hashes_tested'' 0) (\<lambda>tested.
    bindE (value_or J (j_get_u64 J) state ''hamming_total'' 0) (\<lambda>hamming.
    bindE (value_or J (j_get_string J) state ''best_hash'' '''') (\<lambda>best.
    bindE (value_or J (j_get_u32 J) state ''best_nonce'' 0) (\<lambda>best_nonce.
    bindE (value_or J (get_vector J (j_get_u64 J)) state ''bit_counts'' []) (\<lambda>saved_counts.
    bindE (value_or J (j_get_string J) state ''previous_digest'' '''') (\<lambda>previous_hex.
      let rs = fresh_stats\<lparr>rs_tested := tested, rs_hamming := hamming, rs_best := best, rs_best_nonce := best_nonce,
            rs_counts := (if length saved_counts = 256 then saved_counts else rs_counts fresh_stats)\<rparr>
      in if length previous_hex = 64
         then bindE (from_hex previous_hex) (\<lambda>val. Inr (next, rs\<lparr>rs_previous := val, rs_has_previous := True\<rparr>))
         else Inr (next, rs))))))))"

definition resume_round :: "'j json_api \<Rightarrow> string \<Rightarrow> u32 \<Rightarrow> 'j \<Rightarrow> (u64 \<times> round_stats) outcome" where
  "resume_round J header_id rnd state =
    bindE (value_or J (j_get_string J) state ''header_id'' '''') (\<lambda>saved_id.
      if saved_id \<noteq> header_id then Inr (0, fresh_stats)
      else bindE (value_or J (j_get_u32 J) state ''current_round'' 0) (\<lambda>current.
        if current \<noteq> rnd then Inr (0, fresh_stats)
        else bindE (value_or J (j_get_u64 J) state ''nonce_next'' 0) (\<lambda>next.
          if next > 0 then restore_round J state else Inr (0, fresh_stats))))"

section \<open>Scanning\<close>

definition save_op :: "'j json_api \<Rightarrow> 'j env \<Rightarrow> string \<Rightarrow> string \<Rightarrow> 'j \<Rightarrow> ('j controller, unit) act" where
  "save_op J env site path val c =
    (case en_save env site path (save_payload J val) (mc_disk c) of (ds, r) \<Rightarrow> Some (r, wrote ds c))"

text \<open>What a scan does not change: the file of the state, the ids, the header, and when to stop. The nonce that the
  previous iteration left in the header is overwritten.\<close>

record research_scan_context =
  sx_path :: string
  sx_header_id :: string
  sx_round :: u32
  sx_samples :: u64
  sx_completed :: "u32 list"
  sx_header :: bytes
  sx_stop :: "u64 \<Rightarrow> bool"

definition sample :: "research_scan_context \<Rightarrow> u64 \<Rightarrow> round_stats \<Rightarrow> round_stats outcome" where
  "sample x nonce rs =
    bindE (reduced_sha256d (set_nonce (sx_header x) (ucast nonce)) (unat (sx_round x))) (\<lambda>digest.
      Inr (add_sample nonce digest rs))"

definition checkpoint_sample ::
    "'j json_api \<Rightarrow> 'j env \<Rightarrow> research_scan_context \<Rightarrow> u64 \<Rightarrow> round_stats \<Rightarrow> 'j \<Rightarrow> ('j controller, 'j) act" where
  "checkpoint_sample J env x next rs state =
    (if next mod 65536 = 0
     then let state' = round_checkpoint J (sx_header_id x) (sx_round x) next (sx_samples x) (sx_completed x) rs
          in act_then (save_op J env (''research '' @ to_string (unat next)) (sx_path x) state') (act_return state')
     else act_return state)"

function research_scan ::
    "'j json_api \<Rightarrow> 'j env \<Rightarrow> research_scan_context \<Rightarrow> u64 \<Rightarrow> round_stats \<Rightarrow> 'j \<Rightarrow> 'j controller \<Rightarrow>
      ((round_stats \<times> 'j) outcome \<times> 'j controller) option" where
  "research_scan J env x nonce rs state c =
    (if nonce < sx_samples x \<and> \<not> sx_stop x nonce
     then (case sample x nonce rs of
             Inl e \<Rightarrow> Some (Inl e, c)
           | Inr rs1 \<Rightarrow>
             (case checkpoint_sample J env x (nonce + 1) rs1 state c of
                None \<Rightarrow> None
              | Some (Inl e, c1) \<Rightarrow> Some (Inl e, c1)
              | Some (Inr state1, c1) \<Rightarrow> research_scan J env x (nonce + 1) rs1 state1 c1))
     else Some (Inr (rs, state), c))"
  by pat_completeness auto
termination
proof (relation "measure (\<lambda>(J, env, x, nonce, rs, state, c). unat (sx_samples x) - unat nonce)", goal_cases)
  case (2 J env x nonce rs state c)
  then show ?case by (auto simp: word_less_nat_alt unat_Suc_less)
qed simp

declare research_scan.simps [simp del]

section \<open>Rounds\<close>

definition round_statistics :: "'j json_api \<Rightarrow> string \<Rightarrow> u32 \<Rightarrow> round_stats \<Rightarrow> 'j" where
  "round_statistics J header_id rnd rs = j_object J
    [(''header_id'', j_string J header_id), (''round'', j_unsigned J (ucast rnd)), (''samples'', j_unsigned J (rs_tested rs)),
     (''bit_counts'', j_array J (List.map (j_unsigned J) (rs_counts rs))),
     (''mean_hamming_distance'', j_double J
        (if rs_tested rs > 1 then double_div (double_of_nat (unat (rs_hamming rs))) (double_of_nat (unat (rs_tested rs - 1)))
         else double_zero)),
     (''best_hash'', j_string J (rs_best rs)), (''best_nonce'', j_unsigned J (ucast (rs_best_nonce rs)))]"

definition completed_checkpoint :: "'j json_api \<Rightarrow> string \<Rightarrow> u32 \<Rightarrow> u64 \<Rightarrow> 'j \<Rightarrow> u32 list \<Rightarrow> 'j" where
  "completed_checkpoint J header_id rnd samples statistics completed = j_object J
    [(''schema_version'', j_signed J 1), (''mode'', j_string J ''research''), (''header_id'', j_string J header_id),
     (''current_round'', j_unsigned J (ucast (rnd + 1))), (''nonce_next'', j_signed J 0), (''nonce_end'', j_unsigned J samples),
     (''hashes_tested'', j_signed J 0), (''best_hash'', j_string J ''''), (''best_nonce'', j_null J),
     (''statistics'', statistics), (''completed_rounds'', j_array J (List.map (\<lambda>r. j_unsigned J (ucast r)) completed))]"

text \<open>The places that read the stop flag.\<close>

record research_stops =
  sp_round :: "u32 \<Rightarrow> bool"
  sp_nonce :: "u32 \<Rightarrow> u64 \<Rightarrow> bool"
  sp_after :: "u32 \<Rightarrow> bool"
  sp_end :: bool

definition round_context :: "app_config \<Rightarrow> research_stops \<Rightarrow> string \<Rightarrow> bytes \<Rightarrow> u32 \<Rightarrow> u32 list \<Rightarrow> research_scan_context" where
  "round_context cfg stops header_id header rnd completed =
    \<lparr>sx_path = state_path cfg, sx_header_id = header_id, sx_round = rnd, sx_samples = sample_count (ac_research cfg),
     sx_completed = completed, sx_header = header, sx_stop = sp_nonce stops rnd\<rparr>"

text \<open>One round; the flag of the result says that the loop is left.\<close>

definition research_round ::
    "'j json_api \<Rightarrow> 'j env \<Rightarrow> research_stops \<Rightarrow> string \<Rightarrow> bytes \<Rightarrow> u32 \<Rightarrow> u32 list \<times> 'j \<Rightarrow>
      ('j controller, bool \<times> u32 list \<times> 'j) act" where
  "research_round J env stops header_id header rnd = (\<lambda>(completed, state) c.
    (let cfg = mc_config c
     in if rnd \<in> set completed then Some (Inr (False, completed, state), c)
        else case resume_round J header_id rnd state of
          Inl e \<Rightarrow> Some (Inl e, c)
        | Inr (next, rs) \<Rightarrow>
          act_then (act_modify (emit_event env (''[RESEARCH] round='' @ to_string (unat rnd) @ '' reprise nonce='' @
              to_string (unat next))))
         (act_bind (research_scan J env (round_context cfg stops header_id header rnd completed) next rs state)
            (\<lambda>(rs, state). if sp_after stops rnd then act_return (True, completed, state)
             else
               let statistics = round_statistics J header_id rnd rs;
                   completed' = completed @ [rnd];
                   state' = completed_checkpoint J header_id rnd (sample_count (ac_research cfg)) statistics completed'
               in act_then (save_op J env ''research_round''
                    (path_join (log_directory (ac_logging cfg)) (''research_round_'' @ to_string (unat rnd) @ ''.json'')) statistics)
                  (act_then (save_op J env ''research completed'' (state_path cfg) state')
                    (act_return (False, completed', state'))))) c))"

fun research_rounds ::
    "'j json_api \<Rightarrow> 'j env \<Rightarrow> research_stops \<Rightarrow> string \<Rightarrow> bytes \<Rightarrow> u32 list \<Rightarrow> u32 list \<times> 'j \<Rightarrow>
      ('j controller, u32 list \<times> 'j) act" where
  "research_rounds J env stops header_id header [] st = act_return st"
| "research_rounds J env stops header_id header (rnd # rnds) st =
    (if sp_round stops rnd then act_return st
     else act_bind (research_round J env stops header_id header rnd st) (\<lambda>(left, st').
       if left then act_return st' else research_rounds J env stops header_id header rnds st'))"

section \<open>The research mode\<close>

definition trace_json :: "'j json_api \<Rightarrow> nat \<Rightarrow> trace_result \<Rightarrow> 'j" where
  "trace_json J compressions trace = j_object J
    [(''digest'', j_string J (digest_hex (tr_digest trace))), (''digest_format'', j_string J ''sha256_digest_hex''),
     (''compressions'', j_signed J (of_nat compressions)), (''round_trace'', sha256_rounds_json J (tr_rounds trace))]"

text \<open>The checks on the double hash of the known nonce: its plain, reduced and traced digests.\<close>

definition check_known :: "string \<Rightarrow> bytes \<Rightarrow> (reduced_trace \<times> string) outcome" where
  "check_known expected validation =
    (let standard = sha256d validation
     in bindE (reduced_sha256d validation 64) (\<lambda>reduced_64.
        bindE (trace_reduced_sha256d validation 64) (\<lambda>trace.
        if standard \<noteq> reduced_64 \<or> standard \<noteq> rt_digest trace
        then Inl (Runtime_error ''research validation failed: reduced or traced SHA256d round 64 differs from standard SHA256d'')
        else
          let actual = bitcoin_hash_hex standard
          in if expected \<noteq> '''' \<and> actual \<noteq> expected
             then Inl (Runtime_error (''research validation failed: expected_hash mismatch: computed '' @ actual))
             else if length (tr_rounds (first_sha trace)) \<noteq> 128 \<or> length (tr_rounds (second_sha trace)) \<noteq> 64
             then Inl (Runtime_error ''research validation failed: Genesis SHA256d trace must contain 128 + 64 rounds'')
             else if compression_index (hd (tr_rounds (second_sha trace))) \<noteq> 0
             then Inl (Runtime_error ''research validation failed: second SHA compression index must restart at zero'')
             else Inr (trace, actual))))"

definition act_lift :: "'a outcome \<Rightarrow> ('s, 'a) act" where "act_lift r s = Some (r, s)"

definition save_reports :: "'j json_api \<Rightarrow> 'j env \<Rightarrow> app_config \<Rightarrow> u32 \<Rightarrow> 'j analysis_reports \<Rightarrow> ('j controller, unit) act" where
  "save_reports J env cfg nonce reports =
    (let dir = log_directory (ac_logging cfg)
     in act_then (act_when (save_full_trajectories (trace_analysis (ac_research cfg)))
          (act_then (save_op J env ''trajectories'' (path_join dir ''research_nonce_trajectories.json'') (ar_trajectories reports))
            (act_modify (emit_event env (''[RESEARCH] trajectoires causales sauvegard'' @ e_acute @ ''es: '' @
              to_string (ar_trajectory_count reports) @ '' nonces'')))))
       (act_then (save_op J env ''diffusion'' (path_join dir ''research_nonce_diffusion.json'') (ar_diffusion reports))
         (act_modify (emit_event env (''[RESEARCH] diffusion nonce sauvegard'' @ e_acute @ ''e: '' @
           to_string (ar_candidate_count reports) @ '' candidats compar'' @ e_acute @ ''s '' @ a_grave @ '' '' @
           to_string (unat nonce))))))"

definition validate_known ::
    "'j json_api \<Rightarrow> 'j env \<Rightarrow> app_config \<Rightarrow> bytes \<Rightarrow> string \<Rightarrow> u32 \<Rightarrow> ('j controller, unit) act" where
  "validate_known J env cfg header header_id nonce =
    (let validation = set_nonce header nonce; dir = log_directory (ac_logging cfg); analysis = trace_analysis (ac_research cfg)
     in act_bind (act_lift (check_known (expected_hash (ac_historical cfg)) validation)) (\<lambda>(trace, actual).
        let detailed = j_object J
              [(''header_id'', j_string J header_id), (''nonce'', j_unsigned J (ucast nonce)),
               (''rounds_per_compression'', j_signed J 64), (''total_traced_rounds'', j_unsigned J 192),
               (''hash'', j_string J actual), (''first_sha'', trace_json J 2 (first_sha trace)),
               (''second_sha'', trace_json J 1 (second_sha trace))]
        in act_then (save_op J env ''trace'' (path_join dir ''research_trace_known_nonce.json'') detailed)
          (act_then (act_modify (emit_event env (''[RESEARCH] validation SHA256d round=64 OK: '' @ actual)))
          (act_then (act_modify (emit_event env (''[RESEARCH] trace d'' @ e_acute @ ''taill'' @ e_acute @
              ''e nonce connu sauvegard'' @ e_acute @ ''e: 192 rounds'')))
            (act_when (trace_enabled analysis)
              (act_bind (act_lift (research_analysis_reports J validation trace header_id nonce analysis))
                (save_reports J env cfg nonce)))))))"

definition offline_header :: "string \<Rightarrow> bytes outcome" where
  "offline_header hex = bindE (from_hex hex) (\<lambda>bytes. Inr (write_at 0 bytes (replicate 80 0)))"

definition header_identity :: "bytes \<Rightarrow> string" where
  "header_identity header = digest_hex (sha256 (take 76 header))"

definition research_state :: "'j json_api \<Rightarrow> string \<Rightarrow> 'j \<Rightarrow> ('j \<times> u32 list) outcome" where
  "research_state J header_id loaded =
    bindE (value_or J (j_get_string J) loaded ''header_id'' '''') (\<lambda>saved_id.
      let state = (if saved_id \<noteq> header_id then j_object J [] else loaded)
      in bindE (value_or J (get_vector J (j_get_u32 J)) state ''completed_rounds'' []) (\<lambda>completed.
           Inr (state, completed)))"

definition run_research :: "'j json_api \<Rightarrow> 'j env \<Rightarrow> research_stops \<Rightarrow> ('j controller, nat) act" where
  "run_research J env stops c =
    (let cfg = mc_config c; h = ac_historical cfg; r = ac_research cfg
     in if trace_enabled (trace_analysis r) \<and> known_nonce h = None
        then Some (Inl (Runtime_error ''research trace analysis requires historical.known_nonce as the reference nonce''), c)
        else act_bind (act_lift (offline_header (historical_header_hex h))) (\<lambda>bytes.
          let header = set_nonce bytes 0; header_id = header_identity header
          in act_then (case known_nonce h of None \<Rightarrow> act_return () | Some n \<Rightarrow> validate_known J env cfg header header_id n)
            (act_bind (\<lambda>c. act_lift (load_or J (mc_disk c) (state_path cfg) (j_object J [])) c) (\<lambda>loaded.
             act_bind (act_lift (research_state J header_id loaded)) (\<lambda>(state, completed).
             act_then (act_bind (research_rounds J env stops header_id header
                 (List.map of_nat [unat (round_start r)..<unat (round_end r) + 1]) (completed, state)) (\<lambda>_. act_return ()))
               (act_return (if sp_end stops then 130 else 0)))))) c)"

section \<open>The historical mode\<close>

definition offline_solution :: "'j env \<Rightarrow> bytes \<Rightarrow> bytes \<Rightarrow> bytes \<Rightarrow> string \<Rightarrow> 'j solution" where
  "offline_solution env header digest target header_id =
    detected_solution\<lparr>s_job_id := header_id, s_username := ''OFFLINE'',
      s_version := reverse_hex (take 4 header), s_prevhash := reverse_hex (take 32 (drop 4 header)),
      s_merkle_root := reverse_hex (take 32 (drop 36 header)), s_ntime := reverse_hex (take 4 (drop 68 header)),
      s_nbits := reverse_hex (take 4 (drop 72 header)), s_nonce_value := get_nonce header,
      s_nonce := stratum_nonce_hex (get_nonce header), s_nonce_header_le := nonce_header_le_hex header,
      s_header_hex := header_hex header, s_hash := bitcoin_hash_hex digest, s_network_target := target_hex target,
      s_share_target := target_hex target, s_detected := en_utc env ''offline'', s_network_candidate := True,
      s_offline := True, s_status := ''offline''\<rparr>"

text \<open>What a thread asks of the shared objects while it works on a unit.\<close>

datatype historical_call =
    Block_found bytes bytes u64
  | Unit_progress string u64 u64
  | Unit_complete string
  | Unit_release string

text \<open>The loop over the nonces: \<open>halt\<close> is what the two flags say before a nonce, \<open>wins\<close> whether the exchange that
  sets \<open>found\<close> succeeds. A hit sets the flag or finds it set, so the loop ends at the next test.\<close>

function historical_scan ::
    "bytes \<Rightarrow> bytes \<Rightarrow> work_unit \<Rightarrow> (u64 \<Rightarrow> bool) \<Rightarrow> bool \<Rightarrow> u64 \<Rightarrow> u64 \<Rightarrow> historical_call list \<times> u64 \<times> u64" where
  "historical_scan base target u halt wins nonce batch =
    (if nonce < u_nonce_end u \<and> \<not> halt nonce
     then let header = set_nonce base (ucast nonce);
              digest = sha256d header;
              hit = hash_meets_target digest target;
              block = (if hit \<and> wins then [Block_found header digest nonce] else []);
              full = (batch + 1 \<ge> 65536);
              calls = block @ (if full then [Unit_progress (u_id u) (nonce + 1) (batch + 1)] else []);
              batch' = (if full then 0 else batch + 1)
          in if hit then (calls, nonce + 1, batch')
             else case historical_scan base target u halt wins (nonce + 1) batch' of
               (rest, n, b) \<Rightarrow> (calls @ rest, n, b)
     else ([], nonce, batch))"
  by pat_completeness auto
termination
  by (relation "measure (\<lambda>(base, target, u, halt, wins, nonce, batch). unat (u_nonce_end u) - unat nonce)")
    (auto simp: word_less_nat_alt unat_Suc_less)

declare historical_scan.simps [simp del]

definition historical_unit ::
    "bytes \<Rightarrow> bytes \<Rightarrow> work_unit \<Rightarrow> (u64 \<Rightarrow> bool) \<Rightarrow> bool \<Rightarrow> historical_call list" where
  "historical_unit base target u halt wins =
    (case historical_scan base target u halt wins (u_nonce_next u) 0 of
       (calls, nonce, batch) \<Rightarrow>
         calls @ (if batch \<noteq> 0 then [Unit_progress (u_id u) nonce batch] else []) @
         (if nonce \<ge> u_nonce_end u then [Unit_complete (u_id u)] else [Unit_release (u_id u)]))"

definition with_allocator :: "('j allocator \<Rightarrow> (unit, 'j) step) \<Rightarrow> ('j controller, unit) act" where
  "with_allocator f c = (case f (mc_allocator c) of (r, a) \<Rightarrow> Some (r, c\<lparr>mc_allocator := a\<rparr>))"

definition historical_call_op ::
    "'j json_api \<Rightarrow> 'j env \<Rightarrow> bytes \<Rightarrow> string \<Rightarrow> historical_call \<Rightarrow> ('j controller, unit) act" where
  "historical_call_op J env target header_id call =
    (case call of
       Block_found header digest nonce \<Rightarrow> (\<lambda>c.
         map_option (apsnd fst) (act_then (save_candidate_op J env) (\<lambda>s.
           event_op env (''[BLOCK] BLOCK_FOUND hors ligne hash='' @ s_hash (snd s) @ '' nonce='' @ to_string (unat nonce)) s)
           (c, offline_solution env header digest target header_id)))
     | Unit_progress ident next count \<Rightarrow>
         act_then (with_allocator (update_progress ident next count '''' None))
           (act_modify (update_telemetry (\<lambda>t. t\<lparr>tm_cpu_hashes := tm_cpu_hashes t + count\<rparr>)))
     | Unit_complete ident \<Rightarrow> with_allocator (complete J ident)
     | Unit_release ident \<Rightarrow> act_modify (\<lambda>c. c\<lparr>mc_allocator := release ident (mc_allocator c)\<rparr>))"

text \<open>Before the threads start: the check of the known nonce, and the units.\<close>

definition historical_start ::
    "'j json_api \<Rightarrow> 'j env \<Rightarrow> ('j controller, bytes \<times> bytes \<times> string) act" where
  "historical_start J env c =
    (let cfg = mc_config c; h = ac_historical cfg
     in act_bind (act_lift (offline_header (historical_header_hex h))) (\<lambda>bytes.
        act_bind (act_lift (target_from_hex (historical_target_hex h))) (\<lambda>target.
          let base = set_nonce bytes 0; header_id = header_identity base
          in act_then (case known_nonce h of
               None \<Rightarrow> act_return ()
             | Some n \<Rightarrow>
                 let actual = bitcoin_hash_hex (sha256d (set_nonce base n))
                 in act_then (act_lift (if expected_hash h \<noteq> '''' \<and> actual \<noteq> expected_hash h
                      then Inl (Runtime_error (''historical expected_hash mismatch: computed '' @ actual)) else Inr ()))
                   (act_modify (emit_event env (''[HISTORICAL] vecteur connu valid'' @ e_acute @ '': '' @ actual))))
            (act_then (with_allocator (\<lambda>a. case prepare_historical J header_id
                 (if scan_full_nonce_space h then 0 else historical_nonce_start h)
                 (if scan_full_nonce_space h then 0x100000000 else historical_nonce_end h)
                 (cpu_threads (ac_cpu cfg)) 64 a of (r, a') \<Rightarrow> (bindE r (\<lambda>_. Inr ()), a')))
            (act_then (act_modify (update_telemetry telemetry_start))
              (act_return (base, target, header_id)))))) c)"

text \<open>One turn of the main thread's loop; the result says whether it goes on. \<open>halt\<close> is the test of the two flags.\<close>

definition historical_turn ::
    "'j json_api \<Rightarrow> 'j env \<Rightarrow> (string \<Rightarrow> int) \<Rightarrow> bool \<Rightarrow> int \<Rightarrow> ('j controller, (bool \<times> int)) act" where
  "historical_turn J env now halt next c =
    (if halt \<or> \<not> list_ex is_open (wa_units (mc_allocator c)) then Some (Inr (False, next), c)
     else if next \<le> now ''checkpoint due''
     then act_then (checkpoint_op J env)
       (act_return (True, now ''checkpoint done'' + int (unat (checkpoint_interval_ms (mc_config c))) * 1000000)) c
     else Some (Inr (True, next), c))"

text \<open>After the threads were joined; the result is the exit code.\<close>

definition historical_end :: "'j json_api \<Rightarrow> 'j env \<Rightarrow> bool \<Rightarrow> bool \<Rightarrow> ('j controller, nat) act" where
  "historical_end J env found stopped =
    act_then (checkpoint_op J env)
   (act_then (act_modify (update_telemetry telemetry_stop))
   (act_then (act_when (\<not> found \<and> \<not> stopped)
      (act_modify (emit_event env (''[HISTORICAL] plage termin'' @ e_acute @ ''e sans candidat''))))
     (act_return (if found then 0 else 2))))"

section \<open>A scan is a fold over the nonces\<close>

definition samples :: "research_scan_context \<Rightarrow> nat \<Rightarrow> nat \<Rightarrow> round_stats \<Rightarrow> round_stats outcome" where
  "samples x a b = foldE (\<lambda>n. sample x (of_nat n)) [a..<b]"

lemma samples_empty [simp]: "b \<le> a \<Longrightarrow> samples x a b rs = Inr rs"
  by (simp add: samples_def)

lemma samples_first: "a < b \<Longrightarrow> samples x a b rs = bindE (sample x (of_nat a) rs) (samples x (Suc a) b)"
  by (simp add: samples_def upt_conv_Cons)

lemma samples_split: "a \<le> k \<Longrightarrow> k \<le> b \<Longrightarrow> samples x a b rs = bindE (samples x a k rs) (samples x k b)"
  by (metis samples_def foldE_append le_Suc_ex upt_add_eq_append)

text \<open>The state a scan leaves is the one it started with or the checkpoint of a prefix of its nonces.\<close>

definition scan_checkpoint :: "'j json_api \<Rightarrow> research_scan_context \<Rightarrow> nat \<Rightarrow> round_stats \<Rightarrow> nat \<Rightarrow> 'j \<Rightarrow> 'j \<Rightarrow> bool" where
  "scan_checkpoint J x a rs m state state' \<longleftrightarrow> state' = state \<or>
    (\<exists>k rs_k. a < k \<and> k \<le> m \<and> samples x a k rs = Inr rs_k \<and>
      state' = round_checkpoint J (sx_header_id x) (sx_round x) (of_nat k) (sx_samples x) (sx_completed x) rs_k)"

lemma checkpoint_sample_cases:
  assumes "checkpoint_sample J env x next rs state c = Some (Inr state', c')"
  shows "state' = state \<or> state' = round_checkpoint J (sx_header_id x) (sx_round x) next (sx_samples x) (sx_completed x) rs"
  using assms
  by (auto simp: checkpoint_sample_def Let_def act_then_def act_bind_def act_return_def split: if_splits option.splits prod.splits sum.splits)

lemma research_scan_result:
  assumes "research_scan J env x nonce rs state c = Some (Inr (rs', state'), c')"
  shows "\<exists>m. unat nonce \<le> m \<and> m \<le> max (unat nonce) (unat (sx_samples x)) \<and> samples x (unat nonce) m rs = Inr rs' \<and>
    scan_checkpoint J x (unat nonce) rs m state state' \<and>
    ((\<forall>n. \<not> sx_stop x n) \<longrightarrow> unat (sx_samples x) \<le> m)"
  using assms
proof (induction J env x nonce rs state c rule: research_scan.induct)
  case (1 J env x nonce rs state c)
  show ?case
  proof (cases "nonce < sx_samples x \<and> \<not> sx_stop x nonce")
    case False
    then show ?thesis using 1(2)
      by (intro exI [of _ "unat nonce"])
        (auto simp: research_scan.simps [of J env x nonce] scan_checkpoint_def word_less_nat_alt not_less)
  next
    case True
    then have step: "unat (nonce + 1) = Suc (unat nonce)" "unat nonce < unat (sx_samples x)"
      using unat_Suc_bound [of nonce "sx_samples x"] by (simp_all add: word_less_nat_alt)
    obtain rs1 where rs1: "sample x nonce rs = Inr rs1"
      using 1(2) True by (auto simp: research_scan.simps [of J env x nonce] split: sum.splits)
    obtain state1 c1 where st: "checkpoint_sample J env x (nonce + 1) rs1 state c = Some (Inr state1, c1)"
      and rest: "research_scan J env x (nonce + 1) rs1 state1 c1 = Some (Inr (rs', state'), c')"
      using 1(2) True rs1 by (auto simp: research_scan.simps [of J env x nonce] split: option.splits prod.splits sum.splits)
    have first: "samples x (unat nonce) (Suc (unat nonce)) rs = Inr rs1"
      using rs1 by (simp add: samples_first)
    have split: "samples x (unat nonce) k rs = samples x (Suc (unat nonce)) k rs1" if "Suc (unat nonce) \<le> k" for k
      using that rs1 by (simp add: samples_first)
    obtain m where m: "Suc (unat nonce) \<le> m" "m \<le> max (Suc (unat nonce)) (unat (sx_samples x))"
      "samples x (Suc (unat nonce)) m rs1 = Inr rs'" "scan_checkpoint J x (Suc (unat nonce)) rs1 m state1 state'"
      "(\<forall>n. \<not> sx_stop x n) \<longrightarrow> unat (sx_samples x) \<le> m"
      using "1.IH" [OF True rs1 st refl refl rest] step(1) by auto
    have "scan_checkpoint J x (unat nonce) rs m state state'"
    proof (cases "state' = state1")
      case False
      then obtain k rs_k where "Suc (unat nonce) < k" "k \<le> m" "samples x (Suc (unat nonce)) k rs1 = Inr rs_k"
        "state' = round_checkpoint J (sx_header_id x) (sx_round x) (of_nat k) (sx_samples x) (sx_completed x) rs_k"
        using m(4) unfolding scan_checkpoint_def by blast
      then show ?thesis unfolding scan_checkpoint_def using split
        by (intro disjI2 exI [of _ k] exI [of _ rs_k]) simp
    next
      case True
      have succ: "nonce + 1 = of_nat (Suc (unat nonce))" by simp
      show ?thesis
        using checkpoint_sample_cases [OF st] True first m(1) unfolding scan_checkpoint_def succ
        by (elim disjE) (simp, intro disjI2 exI [of _ "Suc (unat nonce)"] exI [of _ rs1], simp)
    qed
    then show ?thesis using m split [OF m(1)] step(2) by (intro exI [of _ m]) auto
  qed
qed

section \<open>Resuming\<close>

definition stats_ok :: "round_stats \<Rightarrow> bool" where
  "stats_ok rs \<longleftrightarrow> length (rs_counts rs) = 256 \<and> length (rs_previous rs) = 32"

lemma length_count_bits [simp]: "length (count_bits digest counts) = length counts"
proof -
  have inner: "length (fold (\<lambda>i cs. cs[byte * 8 + i := f cs i]) js cs) = length cs" for byte f js and cs :: "u64 list"
    by (induction js arbitrary: cs) simp_all
  have "length (fold (\<lambda>byte cs. fold (\<lambda>i cs. cs[byte * 8 + i := g byte cs i]) [0..<8] cs) bs cs) = length cs" for bs g and cs :: "u64 list"
    by (induction bs arbitrary: cs) (simp_all add: inner del: upt_rec_numeral)
  then show ?thesis unfolding count_bits_def .
qed

lemma sample_ok:
  assumes "sample x nonce rs = Inr rs'"
  shows "length (rs_counts rs') = length (rs_counts rs)" "length (rs_previous rs') = 32" "rs_has_previous rs'"
proof -
  obtain digest where d: "reduced_sha256d (set_nonce (sx_header x) (ucast nonce)) (unat (sx_round x)) = Inr digest"
    "rs' = add_sample nonce digest rs"
    using assms by (auto simp: sample_def bindE_eq_Inr_iff)
  have "length digest = 32"
    using d(1) sha256_with_rounds_length by (auto simp: reduced_sha256d_def sha256d_with_rounds_def bindE_eq_Inr_iff)
  then show "length (rs_counts rs') = length (rs_counts rs)" "length (rs_previous rs') = 32" "rs_has_previous rs'"
    by (simp_all add: d(2) add_sample_def Let_def)
qed

lemma samples_ok:
  assumes "samples x a b rs = Inr rs'" "stats_ok rs"
  shows "stats_ok rs'" "a < b \<Longrightarrow> rs_has_previous rs'"
proof -
  have "samples x a b rs = Inr rs' \<Longrightarrow> stats_ok rs \<Longrightarrow> stats_ok rs' \<and> (a < b \<longrightarrow> rs_has_previous rs')" for a rs
  proof (induction "b - a" arbitrary: a rs)
    case (Suc n)
    then have ab: "a < b" by simp
    then obtain rs1 where rs1: "sample x (of_nat a) rs = Inr rs1" "samples x (Suc a) b rs1 = Inr rs'"
      using Suc.prems(1) by (auto simp: samples_first bindE_eq_Inr_iff)
    have ok: "stats_ok rs1" using sample_ok [OF rs1(1)] Suc.prems(2) by (simp add: stats_ok_def)
    show ?case
    proof (cases "Suc a < b")
      case True
      then show ?thesis using Suc.hyps rs1(2) ok by force
    next
      case False
      then show ?thesis using rs1(2) ok sample_ok(3) [OF rs1(1)] by simp
    qed
  qed simp
  from this [OF assms] show "stats_ok rs'" "a < b \<Longrightarrow> rs_has_previous rs'" by simp_all
qed

lemma get_vector_words:
  assumes "json_ok J"
  shows "get_vector J (j_get_u64 J) (j_array J (List.map (j_unsigned J) ws)) = Inr ws"
proof -
  have "mapE (j_get_u64 J) (List.map (j_unsigned J) ws) = Inr ws"
    using assms by (induction ws) (simp_all add: json_laws)
  then show ?thesis using assms by (simp add: get_vector_def json_laws)
qed

lemma resume_checkpoint:
  assumes "json_ok J" "0 < next" "stats_ok rs" "rs_has_previous rs"
  shows "resume_round J header_id rnd (round_checkpoint J header_id rnd next n completed rs) = Inr (next, rs)"
proof -
  have "ucast (ucast rnd :: u64) = rnd" "ucast (ucast (rs_best_nonce rs) :: u64) = rs_best_nonce rs"
    by (simp_all add: unsigned_ucast_eq take_bit_word_eq_self)
  then show ?thesis using assms
    by (simp add: resume_round_def restore_round_def round_checkpoint_def json_laws get_vector_words stats_ok_def digest_hex_def
        fresh_stats_def Let_def)
qed

lemma resume_ok:
  assumes "resume_round J header_id rnd state = Inr (next, rs)"
  shows "stats_ok rs"
proof -
  have fresh: "stats_ok fresh_stats" by (simp add: stats_ok_def fresh_stats_def)
  show ?thesis
  proof (cases "restore_round J state = Inr (next, rs)")
    case True
    then show ?thesis
      by (auto simp: restore_round_def bindE_eq_Inr_iff Let_def stats_ok_def fresh_stats_def split: if_splits dest: from_hex_length)
  next
    case False
    then have "rs = fresh_stats" using assms by (auto simp: resume_round_def bindE_eq_Inr_iff split: if_splits)
    then show ?thesis using fresh by simp
  qed
qed

lemma scan_to_end:
  assumes "research_scan J env x nonce rs state c = Some (Inr (rs', state'), c')" "sx_stop x = (\<lambda>_. False)"
    "nonce \<le> sx_samples x"
  shows "samples x (unat nonce) (unat (sx_samples x)) rs = Inr rs'"
proof -
  obtain m where m: "m \<le> max (unat nonce) (unat (sx_samples x))" "samples x (unat nonce) m rs = Inr rs'"
    "unat (sx_samples x) \<le> m"
    using research_scan_result [OF assms(1)] assms(2) by auto
  then have "m = unat (sx_samples x)" using assms(3) by (simp add: word_le_nat_alt)
  then show ?thesis using m(2) by simp
qed

lemma samples_stop: "samples (x\<lparr>sx_stop := f\<rparr>) = samples x"
proof -
  have eq: "sample (x\<lparr>sx_stop := f\<rparr>) = sample x" by (simp add: sample_def fun_eq_iff)
  show ?thesis by (intro ext) (simp add: samples_def eq)
qed

text \<open>C40: interrupting a round anywhere and resuming it from the state of its last checkpoint gives exactly the
  statistics of the round without interruption: the bit counts, the Hamming total, the number of samples and the
  best hash with its nonce.\<close>

theorem research_resumes:
  assumes "json_ok J" "resume_round J (sx_header_id x) (sx_round x) state0 = Inr (nonce0, rs0)" "nonce0 \<le> sx_samples x"
    and "research_scan J env x nonce0 rs0 state0 c = Some (Inr (rs1, state1), c1)"
    and "resume_round J (sx_header_id x) (sx_round x) state1 = Inr (nonce1, rs1')"
    and "research_scan J env' (x\<lparr>sx_stop := \<lambda>_. False\<rparr>) nonce1 rs1' state1 d = Some (Inr (rs2, state2), d2)"
    and "research_scan J env'' (x\<lparr>sx_stop := \<lambda>_. False\<rparr>) nonce0 rs0 state0 e = Some (Inr (rs3, state3), e3)"
  shows "rs2 = rs3"
proof -
  have whole: "samples x (unat nonce0) (unat (sx_samples x)) rs0 = Inr rs3"
    using scan_to_end [OF assms(7)] assms(3) by (simp add: samples_stop)
  obtain m where m: "m \<le> max (unat nonce0) (unat (sx_samples x))" "scan_checkpoint J x (unat nonce0) rs0 m state0 state1"
    using research_scan_result [OF assms(4)] by blast
  show ?thesis
  proof (cases "state1 = state0")
    case True
    then have "nonce1 = nonce0" "rs1' = rs0" using assms(2,5) by simp_all
    then show ?thesis using scan_to_end [OF assms(6)] assms(3) whole by (simp add: samples_stop)
  next
    case False
    then obtain k rs_k where k: "unat nonce0 < k" "k \<le> m" "samples x (unat nonce0) k rs0 = Inr rs_k"
      "state1 = round_checkpoint J (sx_header_id x) (sx_round x) (of_nat k) (sx_samples x) (sx_completed x) rs_k"
      using m(2) unfolding scan_checkpoint_def by blast
    have kn: "k \<le> unat (sx_samples x)" using k(2) m(1) assms(3) by (simp add: word_le_nat_alt)
    then have "k < 2 ^ 64" using unsigned_less [of "sx_samples x", where ?'a = nat] by simp
    then have uk: "unat (of_nat k :: u64) = k" by (simp add: unat_of_nat)
    have "resume_round J (sx_header_id x) (sx_round x) state1 = Inr (of_nat k, rs_k)"
      unfolding k(4) using k(1) uk samples_ok [OF k(3) resume_ok [OF assms(2)]]
      by (intro resume_checkpoint [OF assms(1)]) (simp_all add: word_less_nat_alt)
    then have "nonce1 = of_nat k" "rs1' = rs_k" using assms(5) by simp_all
    then have "samples x k (unat (sx_samples x)) rs_k = Inr rs2"
      using scan_to_end [OF assms(6)] kn uk by (simp add: samples_stop word_le_nat_alt)
    then show ?thesis
      using whole samples_split [of "unat nonce0" k "unat (sx_samples x)" x rs0] k(1,3) kn by simp
  qed
qed

section \<open>What the historical mode finds\<close>

fun blocks_found :: "historical_call list \<Rightarrow> u64 list" where
  "blocks_found [] = []"
| "blocks_found (Block_found header digest nonce # calls) = nonce # blocks_found calls"
| "blocks_found (_ # calls) = blocks_found calls"

fun hashes_counted :: "historical_call list \<Rightarrow> u64" where
  "hashes_counted [] = 0"
| "hashes_counted (Unit_progress ident next count # calls) = count + hashes_counted calls"
| "hashes_counted (_ # calls) = hashes_counted calls"

lemma calls_append [simp]:
  "blocks_found (xs @ ys) = blocks_found xs @ blocks_found ys"
  "hashes_counted (xs @ ys) = hashes_counted xs + hashes_counted ys"
  by (induction xs rule: blocks_found.induct) simp_all

definition meets_at :: "bytes \<Rightarrow> bytes \<Rightarrow> nat \<Rightarrow> bool" where
  "meets_at base target n = hash_meets_target (sha256d (set_nonce base (of_nat n))) target"

lemma historical_scan_finds:
  assumes "historical_scan base target u (\<lambda>_. False) wins nonce batch = (calls, n, b)"
  shows "(case find (meets_at base target) [unat nonce..<unat (u_nonce_end u)] of
            None \<Rightarrow> blocks_found calls = [] \<and> unat n = max (unat nonce) (unat (u_nonce_end u))
          | Some k \<Rightarrow> blocks_found calls = (if wins then [of_nat k] else []) \<and> unat n = k + 1) \<and>
      hashes_counted calls + b = batch + (n - nonce)"
  using assms
proof (induction "unat (u_nonce_end u) - unat nonce" arbitrary: nonce batch calls rule: less_induct)
  case less
  note unfold = historical_scan.simps [of base target u "\<lambda>_. False" wins nonce batch]
  show ?case
  proof (cases "nonce < u_nonce_end u")
    case False
    then show ?thesis using less.prems by (auto simp: unfold word_less_nat_alt)
  next
    case True
    have succ: "unat (nonce + 1) = Suc (unat nonce)" using unat_Suc_bound [OF True] by simp
    have range: "[unat nonce..<unat (u_nonce_end u)] = unat nonce # [Suc (unat nonce)..<unat (u_nonce_end u)]"
      using True by (simp add: upt_conv_Cons word_less_nat_alt)
    define header where "header = set_nonce base (ucast nonce)"
    define full where "full = (batch + 1 \<ge> 65536)"
    define batch' where "batch' = (if full then 0 else batch + 1)"
    define hit where "hit = meets_at base target (unat nonce)"
    define now where "now = (if hit \<and> wins then [Block_found header (sha256d header) nonce] else []) @
      (if full then [Unit_progress (u_id u) (nonce + 1) (batch + 1)] else [])"
    have hit: "hash_meets_target (sha256d (set_nonce base (ucast nonce))) target = hit" by (simp add: hit_def meets_at_def)
    have run: "historical_scan base target u (\<lambda>_. False) wins nonce batch =
        (if hit then (now, nonce + 1, batch')
         else case historical_scan base target u (\<lambda>_. False) wins (nonce + 1) batch' of (rest, n, b) \<Rightarrow> (now @ rest, n, b))"
      using True unfolding unfold Let_def hit by (simp add: now_def header_def full_def batch'_def)
    have now: "hashes_counted now + batch' = batch + 1" "blocks_found now = (if hit \<and> wins then [nonce] else [])"
      by (simp_all add: now_def batch'_def)
    show ?thesis
    proof (cases hit)
      case True
      then have "calls = now" "n = nonce + 1" "b = batch'" using less.prems run by simp_all
      then show ?thesis using True now succ hit_def by (simp add: range)
    next
      case False
      then obtain rest where rest: "historical_scan base target u (\<lambda>_. False) wins (nonce + 1) batch' = (rest, n, b)" "calls = now @ rest"
        using less.prems run by (auto split: prod.splits)
      have "unat (u_nonce_end u) - unat (nonce + 1) < unat (u_nonce_end u) - unat nonce"
        using True by (simp add: unat_Suc_less word_less_nat_alt)
      from less.hyps [OF this rest(1)] have IH:
        "case find (meets_at base target) [Suc (unat nonce)..<unat (u_nonce_end u)] of
            None \<Rightarrow> blocks_found rest = [] \<and> unat n = max (Suc (unat nonce)) (unat (u_nonce_end u))
          | Some k \<Rightarrow> blocks_found rest = (if wins then [of_nat k] else []) \<and> unat n = k + 1"
        "hashes_counted rest + b = batch' + (n - (nonce + 1))"
        unfolding succ by blast+
      have "hashes_counted calls + b = batch + (n - nonce)"
      proof -
        have "hashes_counted now = batch + 1 - batch'" using now(1) by (simp add: eq_diff_eq)
        moreover have "hashes_counted calls + b = hashes_counted now + (hashes_counted rest + b)" by (simp add: rest(2))
        ultimately show ?thesis using IH(2) by simp
      qed
      moreover have "unat nonce < unat (u_nonce_end u)" using True by (simp add: word_less_nat_alt)
      ultimately show ?thesis
        using IH(1) False hit_def now(2) by (auto simp: rest(2) range split: option.splits)
    qed
  qed
qed

text \<open>When nobody asks to stop, a thread that works on a unit reports exactly the first nonce of the unit whose
  double hash meets the target, counts every nonce it hashed once, and completes the unit exactly when it hashed
  all of it.\<close>

theorem historical_unit_exact:
  assumes "u_nonce_next u \<le> u_nonce_end u"
  shows "let first = find (\<lambda>n. hash_meets_target (sha256d (set_nonce base (of_nat n))) target) [unat (u_nonce_next u)..<unat (u_nonce_end u)];
             reached = (case first of None \<Rightarrow> unat (u_nonce_end u) | Some n \<Rightarrow> n + 1);
             calls = historical_unit base target u (\<lambda>_. False) True
         in blocks_found calls = (case first of None \<Rightarrow> [] | Some n \<Rightarrow> [of_nat n]) \<and>
           hashes_counted calls = of_nat (reached - unat (u_nonce_next u)) \<and>
           last calls = (if reached = unat (u_nonce_end u) then Unit_complete (u_id u) else Unit_release (u_id u))"
proof -
  obtain calls n b where scan: "historical_scan base target u (\<lambda>_. False) True (u_nonce_next u) 0 = (calls, n, b)"
    by (rule prod_cases3)
  define found where "found = find (meets_at base target) [unat (u_nonce_next u)..<unat (u_nonce_end u)]"
  define reached where "reached = (case found of None \<Rightarrow> unat (u_nonce_end u) | Some n \<Rightarrow> n + 1)"
  note finds = historical_scan_finds [OF scan, folded found_def]
  have n: "unat n = reached"
    using finds assms by (auto simp: reached_def word_le_nat_alt split: option.splits)
  have blocks: "blocks_found calls = (case found of None \<Rightarrow> [] | Some n \<Rightarrow> [of_nat n])"
    using finds by (auto split: option.splits)
  have range: "unat (u_nonce_next u) \<le> reached" "reached \<le> unat (u_nonce_end u)"
    using assms unfolding reached_def found_def
    by (auto simp: word_le_nat_alt find_Some_iff split: option.splits)
  have unit: "historical_unit base target u (\<lambda>_. False) True =
      calls @ (if b \<noteq> 0 then [Unit_progress (u_id u) n b] else []) @
      (if reached \<ge> unat (u_nonce_end u) then [Unit_complete (u_id u)] else [Unit_release (u_id u)])"
    using n by (simp add: historical_unit_def scan word_le_nat_alt)
  have "hashes_counted calls + b = n - u_nonce_next u" using finds by simp
  also have "\<dots> = of_nat (reached - unat (u_nonce_next u))"
    using range(1) by (simp add: n [symmetric] of_nat_diff)
  finally have "hashes_counted calls + b = of_nat (reached - unat (u_nonce_next u))" .
  moreover have "find (\<lambda>n. hash_meets_target (sha256d (set_nonce base (of_nat n))) target)
      [unat (u_nonce_next u)..<unat (u_nonce_end u)] = found"
    unfolding found_def meets_at_def [abs_def] ..
  ultimately show ?thesis
    using blocks range(2) by (cases "b = 0") (simp_all add: Let_def reached_def [symmetric] unit)
qed

theorem historical_unit_exact_witness:
  "length (blocks_found (historical_unit (replicate 80 0) (replicate 32 0xff) example_unit (\<lambda>_. False) True)) \<le> 1"
proof -
  have "u_nonce_next example_unit \<le> u_nonce_end example_unit" by (simp add: example_facts)
  from historical_unit_exact [OF this, of "replicate 80 0" "replicate 32 0xff"] show ?thesis
    by (auto simp: Let_def split: option.splits)
qed

text \<open>A round of one sample, interrupted before it.\<close>

definition example_scan :: research_scan_context where
  "example_scan = \<lparr>sx_path = ''s'', sx_header_id = ''h'', sx_round = 1, sx_samples = 1, sx_completed = [],
     sx_header = replicate 80 0, sx_stop = \<lambda>_. True\<rparr>"

lemma example_resume: "resume_round tree_api ''h'' 1 (JObject []) = Inr (0, fresh_stats)"
  by (simp add: resume_round_def value_or_def tree_api_def)

lemma example_scans:
  "research_scan tree_api env example_scan 0 fresh_stats (JObject []) c = Some (Inr (fresh_stats, JObject []), c)"
  "\<exists>rs. research_scan tree_api env (example_scan\<lparr>sx_stop := \<lambda>_. False\<rparr>) 0 fresh_stats (JObject []) c = Some (Inr (rs, JObject []), c)"
proof -
  show "research_scan tree_api env example_scan 0 fresh_stats (JObject []) c = Some (Inr (fresh_stats, JObject []), c)"
    by (simp add: research_scan.simps example_scan_def)
  let ?x = "example_scan\<lparr>sx_stop := \<lambda>_. False\<rparr>"
  obtain rs where "sample ?x 0 fresh_stats = Inr rs"
    by (auto simp: sample_def example_scan_def reduced_sha256d_def sha256d_with_rounds_def sha256_with_rounds_def)
  moreover have "sx_samples ?x = 1" "sx_stop ?x = (\<lambda>_. False)" by (simp_all add: example_scan_def)
  moreover have "checkpoint_sample tree_api env ?x 1 rs (JObject []) c = Some (Inr (JObject []), c)"
    by (simp add: checkpoint_sample_def act_return_def)
  ultimately have "research_scan tree_api env ?x 0 fresh_stats (JObject []) c = Some (Inr (rs, JObject []), c)"
    by (simp add: research_scan.simps [of tree_api env ?x 0] research_scan.simps [of tree_api env ?x 1])
  then show "\<exists>rs. research_scan tree_api env ?x 0 fresh_stats (JObject []) c = Some (Inr (rs, JObject []), c)" by blast
qed

theorem research_resumes_witness:
  "\<forall>env c d. \<exists>rs. research_scan tree_api env (example_scan\<lparr>sx_stop := \<lambda>_. False\<rparr>) 0 fresh_stats (JObject []) c
      = Some (Inr (rs, JObject []), c) \<and>
    research_scan tree_api env (example_scan\<lparr>sx_stop := \<lambda>_. False\<rparr>) 0 fresh_stats (JObject []) d = Some (Inr (rs, JObject []), d)"
proof (intro allI)
  fix env c d
  have x: "sx_header_id example_scan = ''h''" "sx_round example_scan = 1" "0 \<le> sx_samples example_scan"
    by (simp_all add: example_scan_def)
  obtain rs rs' where runs:
    "research_scan tree_api env (example_scan\<lparr>sx_stop := \<lambda>_. False\<rparr>) 0 fresh_stats (JObject []) c = Some (Inr (rs, JObject []), c)"
    "research_scan tree_api env (example_scan\<lparr>sx_stop := \<lambda>_. False\<rparr>) 0 fresh_stats (JObject []) d = Some (Inr (rs', JObject []), d)"
    using example_scans(2) by blast
  from research_resumes [OF json_ok_tree_api _ x(3) example_scans(1) _ runs] example_resume x
  have "rs = rs'" by simp
  then show "\<exists>rs. research_scan tree_api env (example_scan\<lparr>sx_stop := \<lambda>_. False\<rparr>) 0 fresh_stats (JObject []) c = Some (Inr (rs, JObject []), c) \<and>
      research_scan tree_api env (example_scan\<lparr>sx_stop := \<lambda>_. False\<rparr>) 0 fresh_stats (JObject []) d = Some (Inr (rs, JObject []), d)"
    using runs by blast
qed

end
