(* ===== verification/Gpu_Kernel.thy ===== *)
theory Gpu_Kernel
  imports Research_Checks Header_Space
begin

text \<open>
  The OpenCL kernels of \<^verbatim>\<open>kernels/sha256d.cl\<close> that the GPU miner launches, as functions of their work items. The
  kernels have their own copy of SHA-256 on private arrays and compare hashes word by word; the lemmas show that
  they agree bit for bit with the code the processor runs, and that the reduction of a work group of a power of two
  of items returns its least hash.
\<close>

section \<open>SHA-256 on the device\<close>

definition kernel_K :: "u32 list" where
  "kernel_K = concat [
    [0x428a2f98, 0x71374491, 0xb5c0fbcf, 0xe9b5dba5, 0x3956c25b, 0x59f111f1, 0x923f82a4, 0xab1c5ed5],
    [0xd807aa98, 0x12835b01, 0x243185be, 0x550c7dc3, 0x72be5d74, 0x80deb1fe, 0x9bdc06a7, 0xc19bf174],
    [0xe49b69c1, 0xefbe4786, 0x0fc19dc6, 0x240ca1cc, 0x2de92c6f, 0x4a7484aa, 0x5cb0a9dc, 0x76f988da],
    [0x983e5152, 0xa831c66d, 0xb00327c8, 0xbf597fc7, 0xc6e00bf3, 0xd5a79147, 0x06ca6351, 0x14292967],
    [0x27b70a85, 0x2e1b2138, 0x4d2c6dfc, 0x53380d13, 0x650a7354, 0x766a0abb, 0x81c2c92e, 0x92722c85],
    [0xa2bfe8a1, 0xa81a664b, 0xc24b8b70, 0xc76c51a3, 0xd192e819, 0xd6990624, 0xf40e3585, 0x106aa070],
    [0x19a4c116, 0x1e376c08, 0x2748774c, 0x34b0bcb5, 0x391c0cb3, 0x4ed8aa4a, 0x5b9cca4f, 0x682e6ff3],
    [0x748f82ee, 0x78a5636f, 0x84c87814, 0x8cc70208, 0x90befffa, 0xa4506ceb, 0xbef9a3f7, 0xc67178f2]]"

definition kernel_start :: "u32 list" where
  "kernel_start = [0x6a09e667, 0xbb67ae85, 0x3c6ef372, 0xa54ff53a, 0x510e527f, 0x9b05688c, 0x1f83d9ab, 0x5be0cd19]"

text \<open>\<^verbatim>\<open>rotate\<close> of OpenCL rotates to the left.\<close>

definition ror32 :: "u32 \<Rightarrow> nat \<Rightarrow> u32" where "ror32 x n = word_rotl (32 - n) x"

definition read_be :: "bytes \<Rightarrow> u32" where
  "read_be p = push_bit 24 (ucast (p ! 0)) OR push_bit 16 (ucast (p ! 1)) OR push_bit 8 (ucast (p ! 2)) OR ucast (p ! 3)"

definition kernel_schedule :: "bytes \<Rightarrow> u32 list" where
  "kernel_schedule block =
    fold (\<lambda>i w.
      (let s0 = ror32 (w ! (i - 15)) 7 XOR ror32 (w ! (i - 15)) 18 XOR drop_bit 3 (w ! (i - 15));
           s1 = ror32 (w ! (i - 2)) 17 XOR ror32 (w ! (i - 2)) 19 XOR drop_bit 10 (w ! (i - 2))
       in w[i := w ! (i - 16) + s0 + w ! (i - 7) + s1])) [16..<64]
      (fold (\<lambda>i w. w[i := read_be (drop (i * 4) block)]) [0..<16] (replicate 64 0))"

definition kernel_round :: "u32 list \<Rightarrow> nat \<Rightarrow> regs \<Rightarrow> regs" where
  "kernel_round w i r =
    (let s1 = ror32 (re r) 6 XOR ror32 (re r) 11 XOR ror32 (re r) 25;
         ch = (re r AND rf r) XOR (NOT (re r) AND rg r);
         t1 = rh r + s1 + ch + kernel_K ! i + w ! i;
         s0 = ror32 (ra r) 2 XOR ror32 (ra r) 13 XOR ror32 (ra r) 22;
         maj = (ra r AND rb r) XOR (ra r AND rc r) XOR (rb r AND rc r);
         t2 = s0 + maj
     in \<lparr>ra = t1 + t2, rb = ra r, rc = rb r, rd = rc r, re = rd r + t1, rf = re r, rg = rf r, rh = rg r\<rparr>)"

definition kernel_compress :: "nat \<Rightarrow> bytes \<Rightarrow> u32 list \<Rightarrow> u32 list" where
  "kernel_compress rounds block state =
    (let w = kernel_schedule block;
         r = fold (kernel_round w) [0..<rounds]
               \<lparr>ra = state ! 0, rb = state ! 1, rc = state ! 2, rd = state ! 3,
                re = state ! 4, rf = state ! 5, rg = state ! 6, rh = state ! 7\<rparr>
     in [state ! 0 + ra r, state ! 1 + rb r, state ! 2 + rc r, state ! 3 + rd r,
         state ! 4 + re r, state ! 5 + rf r, state ! 6 + rg r, state ! 7 + rh r])"

text \<open>The array \<^verbatim>\<open>block\<close> is used for the three compressions.\<close>

definition sha256d80 :: "bytes \<Rightarrow> nat \<Rightarrow> u32 list" where
  "sha256d80 header rounds =
    (let block = fold (\<lambda>i b. b[i := header ! i]) [0..<64] (replicate 64 0);
         first = kernel_compress rounds block kernel_start;
         block = fold (\<lambda>i b. b[i := 0]) [0..<64] block;
         block = fold (\<lambda>i b. b[i := header ! (64 + i)]) [0..<16] block;
         block = block[16 := 0x80, 62 := 0x02, 63 := 0x80];
         first = kernel_compress rounds block first;
         block = fold (\<lambda>i b. b[i := 0]) [0..<64] block;
         block = fold (\<lambda>i b. b[i * 4 := ucast (drop_bit 24 (first ! i)), i * 4 + 1 := ucast (drop_bit 16 (first ! i)),
                   i * 4 + 2 := ucast (drop_bit 8 (first ! i)), i * 4 + 3 := ucast (first ! i)]) [0..<8] block;
         block = block[32 := 0x80, 62 := 0x01, 63 := 0x00]
     in kernel_compress rounds block kernel_start)"

section \<open>Comparisons\<close>

definition pow_bswap :: "u32 \<Rightarrow> u32" where
  "pow_bswap x = push_bit 24 (x AND 0x000000ff) OR push_bit 8 (x AND 0x0000ff00) OR
     drop_bit 8 (x AND 0x00ff0000) OR drop_bit 24 (x AND 0xff000000)"

fun meets_words :: "u32 list \<Rightarrow> bytes \<Rightarrow> nat list \<Rightarrow> bool" where
  "meets_words hash target [] = True"
| "meets_words hash target (i # is) =
    (let h = pow_bswap (hash ! (7 - i));
         t = push_bit 24 (ucast (target ! (i * 4))) OR push_bit 16 (ucast (target ! (i * 4 + 1))) OR
             push_bit 8 (ucast (target ! (i * 4 + 2))) OR ucast (target ! (i * 4 + 3))
     in if h < t then True else if h > t then False else meets_words hash target is)"

definition meets_target :: "u32 list \<Rightarrow> bytes \<Rightarrow> bool" where
  "meets_target hash target = meets_words hash target [0..<8]"

fun precedes_words :: "u32 list \<Rightarrow> u32 \<Rightarrow> u32 list \<Rightarrow> u32 \<Rightarrow> nat list \<Rightarrow> bool" where
  "precedes_words left left_nonce right right_nonce [] = (left_nonce < right_nonce)"
| "precedes_words left left_nonce right right_nonce (i # is) =
    (if left ! i < right ! i then True else if left ! i > right ! i then False
     else precedes_words left left_nonce right right_nonce is)"

definition pow_precedes :: "u32 list \<Rightarrow> u32 \<Rightarrow> u32 list \<Rightarrow> u32 \<Rightarrow> bool" where
  "pow_precedes left left_nonce right right_nonce = precedes_words left left_nonce right right_nonce [0..<8]"

section \<open>The kernels\<close>

text \<open>The header of a work item: the prefix and its nonce.\<close>

definition item_header :: "bytes \<Rightarrow> u32 \<Rightarrow> bytes" where
  "item_header prefix nonce =
    (fold (\<lambda>i h. h[i := prefix ! i]) [0..<76] (replicate 80 0))
      [76 := ucast nonce, 77 := ucast (drop_bit 8 nonce), 78 := ucast (drop_bit 16 nonce), 79 := ucast (drop_bit 24 nonce)]"

text \<open>What \<^verbatim>\<open>atomic_inc\<close> and the bounded store do for one hit: the counter and the buffer of 64 nonces.\<close>

definition record_hit :: "u32 \<Rightarrow> u32 \<times> u32 list \<Rightarrow> u32 \<times> u32 list" where
  "record_hit nonce = (\<lambda>(count, nonces). (count + 1, if count < 64 then nonces[unat count := nonce] else nonces))"

definition scan_item :: "bytes \<Rightarrow> u32 \<Rightarrow> u32 \<Rightarrow> bytes \<Rightarrow> u32 \<Rightarrow> u32 \<times> u32 list \<Rightarrow> u32 \<times> u32 list" where
  "scan_item prefix nonce_start nonce_count target gid out =
    (if gid \<ge> nonce_count then out
     else
       let nonce = nonce_start + gid; hash = sha256d80 (item_header prefix nonce) 64
       in if meets_target hash target then record_hit nonce out else out)"

text \<open>A launch: the work items reach the counter in the order \<open>gids\<close>.\<close>

definition sha256d_scan :: "bytes \<Rightarrow> u32 \<Rightarrow> u32 \<Rightarrow> bytes \<Rightarrow> u32 list \<Rightarrow> u32 \<times> u32 list \<Rightarrow> u32 \<times> u32 list" where
  "sha256d_scan prefix nonce_start nonce_count target gids out =
    fold (scan_item prefix nonce_start nonce_count target) gids out"

text \<open>The value a work item of \<^verbatim>\<open>sha256d_scan_observed\<close> puts into the local array.\<close>

definition observed_entry :: "bytes \<Rightarrow> u32 \<Rightarrow> u32 \<Rightarrow> u32 \<Rightarrow> u32 list \<times> u32" where
  "observed_entry prefix nonce_start nonce_count gid =
    (if gid < nonce_count
     then let nonce = nonce_start + gid; hash = sha256d80 (item_header prefix nonce) 64
          in (List.map (\<lambda>i. pow_bswap (hash ! (7 - i))) [0..<8], nonce)
     else (replicate 8 0xffffffff, 0xffffffff))"

text \<open>One turn of the reduction between two barriers: the items below the stride read and write their own slot and
  read one that nobody writes.\<close>

definition reduce_step :: "nat \<Rightarrow> (u32 list \<times> u32) list \<Rightarrow> (u32 list \<times> u32) list" where
  "reduce_step stride minima =
    List.map (\<lambda>lid. if lid < stride \<and> pow_precedes (fst (minima ! (lid + stride))) (snd (minima ! (lid + stride)))
                     (fst (minima ! lid)) (snd (minima ! lid))
              then minima ! (lid + stride) else minima ! lid) [0..<length minima]"

fun reduce_group :: "nat \<Rightarrow> (u32 list \<times> u32) list \<Rightarrow> (u32 list \<times> u32) list" where
  "reduce_group stride minima =
    (if stride > 0 then reduce_group (stride div 2) (reduce_step stride minima) else minima)"

declare reduce_group.simps [simp del]

text \<open>The minimum of the group of items \<open>group * local .. < (group + 1) * local\<close>.\<close>

definition group_minimum :: "bytes \<Rightarrow> u32 \<Rightarrow> u32 \<Rightarrow> nat \<Rightarrow> nat \<Rightarrow> u32 list \<times> u32" where
  "group_minimum prefix nonce_start nonce_count local_size grp =
    reduce_group (local_size div 2)
      (List.map (\<lambda>lid. observed_entry prefix nonce_start nonce_count (of_nat (grp * local_size + lid))) [0..<local_size]) ! 0"

definition sha256d_vectors :: "bytes \<Rightarrow> u32 \<Rightarrow> u32 \<Rightarrow> nat \<Rightarrow> u32 list list" where
  "sha256d_vectors prefix nonce_start nonce_count global =
    List.map (\<lambda>gid. sha256d80 (item_header prefix (nonce_start + of_nat gid)) 64) [0..<min global (unat nonce_count)]"

section \<open>The device hashes as the processor does\<close>

lemma kernel_constants: "kernel_K = kTable" "kernel_start = kInitial"
  by (simp_all add: kernel_K_def kTable_def kernel_start_def kInitial_def)

lemma read_be_eq: "read_be = read_be32"
  by (simp add: fun_eq_iff read_be_def read_be32_def)

lemma ror32_eq: "0 < n \<Longrightarrow> n < 32 \<Longrightarrow> ror32 x n = word_rotr n x"
proof -
  assume n: "0 < n" "n < 32"
  have "word_rotr n (word_rotl n (word_rotl (32 - n) x)) = word_rotl (32 - n) x" by simp
  moreover have "word_rotl n (word_rotl (32 - n) x) = x"
    using n by (intro bit_word_eqI) (simp add: bit_word_rotl_iff; simp add: mod_simps)
  ultimately show ?thesis by (simp add: ror32_def)
qed

lemma fold_fill: "n \<le> length z \<Longrightarrow> fold (\<lambda>i b. b[i := f i]) [0..<n] z = List.map f [0..<n] @ drop n z"
proof (induction n)
  case (Suc n)
  then have "drop n z = z ! n # drop (Suc n) z" by (simp add: Cons_nth_drop_Suc)
  with Suc show ?case by (simp add: list_update_append)
qed simp

lemma kernel_schedule_eq: "kernel_schedule = message_schedule"
proof
  fix block
  have "(\<lambda>i w. let s0 = ror32 (w ! (i - 15)) 7 XOR ror32 (w ! (i - 15)) 18 XOR drop_bit 3 (w ! (i - 15));
           s1 = ror32 (w ! (i - 2)) 17 XOR ror32 (w ! (i - 2)) 19 XOR drop_bit 10 (w ! (i - 2))
       in w[i := w ! (i - 16) + s0 + w ! (i - 7) + s1]) = (\<lambda>i w. w[i := schedule_word w i])"
    by (simp add: fun_eq_iff schedule_word_def ror32_eq Let_def)
  moreover have "fold (\<lambda>i w. w[i := read_be (drop (i * 4) block)]) [0..<16] (replicate 64 0) =
      List.map (\<lambda>i. read_be32 (drop (i * 4) block)) [0..<16] @ replicate 48 0"
    by (subst fold_fill) (simp_all add: read_be_eq)
  ultimately show "kernel_schedule block = message_schedule block"
    by (simp only: kernel_schedule_def message_schedule_def)
qed

lemma kernel_compress_eq: "kernel_compress rounds block state = compress rounds block state"
proof -
  have "kernel_round w = compress_round w" for w
    by (simp add: fun_eq_iff kernel_round_def compress_round_def kernel_constants ror32_eq big_sum0_def big_sum1_def choice_def
        majority_def Let_def)
  then show ?thesis
    by (simp add: kernel_compress_def compress_def kernel_schedule_eq feed_forward_def load_regs_def Let_def)
qed

lemma padding_constants:
  "pad_zeros 80 = 39" "pad_zeros 32 = 23"
  "(replicate 48 0)[0 := 0x80, 46 := 0x02, 47 := 0x80] = [0x80 :: u8] @ replicate 39 0 @ be64 640"
  "(replicate 32 0)[0 := 0x80, 30 := 0x01, 31 := 0x00] = [0x80 :: u8] @ replicate 23 0 @ be64 256"
  by code_simp+

lemma message_blocks_80:
  assumes "length h = 80"
  shows "message_blocks h = [take 64 h, drop 64 h @ (replicate 48 0)[0 := 0x80, 46 := 0x02, 47 := 0x80]]"
proof -
  have pad: "pad_message h = h @ (replicate 48 0)[0 := 0x80, 46 := 0x02, 47 := 0x80]"
    unfolding pad_message_def assms padding_constants(1,3) by simp
  have "length (pad_message h) div 64 = 2" unfolding pad using assms by simp
  then show ?thesis unfolding message_blocks_def pad using assms by (simp only: blocks64_1_2) simp
qed

lemma message_blocks_32:
  assumes "length h = 32"
  shows "message_blocks h = [h @ (replicate 32 0)[0 := 0x80, 30 := 0x01, 31 := 0x00]]"
proof -
  have pad: "pad_message h = h @ (replicate 32 0)[0 := 0x80, 30 := 0x01, 31 := 0x00]"
    unfolding pad_message_def assms padding_constants(2,4) by simp
  have "length (pad_message h) div 64 = Suc 0" unfolding pad using assms by simp
  then show ?thesis unfolding message_blocks_def blocks64_1_2 pad using assms by simp
qed

lemma store_words:
  assumes "length first = 8"
  shows "fold (\<lambda>i b. b[i * 4 := ucast (drop_bit 24 (first ! i)), i * 4 + 1 := ucast (drop_bit 16 (first ! i)),
      i * 4 + 2 := ucast (drop_bit 8 (first ! i)), i * 4 + 3 := ucast (first ! i)]) [0..<8] (replicate 64 0) =
    state_bytes first @ replicate 32 0"
proof -
  have "fold (\<lambda>i b. b[i * 4 := ucast (drop_bit 24 (first ! i)), i * 4 + 1 := ucast (drop_bit 16 (first ! i)),
      i * 4 + 2 := ucast (drop_bit 8 (first ! i)), i * 4 + 3 := ucast (first ! i)]) [0..<n] z =
    state_bytes (take n first) @ drop (4 * n) z" if z: "length z = 64" and n: "n \<le> 8" for n and z :: bytes
    using n
  proof (induction n)
    case (Suc n)
    obtain a b c d rest where rest: "drop (4 * n) z = a # b # c # d # rest" "drop (4 * Suc n) z = rest"
    proof -
      have "drop (4 * n) z = z ! (4 * n) # z ! (4 * n + 1) # z ! (4 * n + 2) # z ! (4 * n + 3) # drop (4 * n + 4) z"
      proof -
        have d: "drop k z = z ! k # drop (Suc k) z" if "k < 64" for k using that z by (simp add: Cons_nth_drop_Suc)
        have "4 * n < 64" "Suc (4 * n) < 64" "Suc (Suc (4 * n)) < 64" "Suc (Suc (Suc (4 * n))) < 64" using Suc.prems by simp_all
        from this [THEN d] show ?thesis by (simp add: numeral_eq_Suc)
      qed
      then show thesis using that by (metis add.commute mult_Suc_right)
    qed
    have "take (Suc n) first = take n first @ [first ! n]" using assms Suc.prems by (simp add: take_Suc_conv_app_nth)
    moreover have "length (state_bytes (take n first)) = 4 * n" using assms Suc.prems by simp
    ultimately show ?case
      using Suc rest by (simp add: list_update_append state_bytes_def mult.commute)
  qed (simp add: state_bytes_def)
  from this [of "replicate 64 0" 8] show ?thesis using assms by simp
qed

lemma sha256d80_eq:
  assumes "length header = 80"
  shows "state_bytes (sha256d80 header 64) = sha256d header" "length (sha256d80 header 64) = 8"
proof -
  define first where "first = fold (compress 64) (message_blocks header) kInitial"
  have zero: "fold (\<lambda>i b. b[i := 0]) [0..<64] b = replicate 64 0" if "length b = 64" for b :: bytes
    using that by (subst fold_fill) (simp_all add: map_replicate_const)
  have b1: "fold (\<lambda>i b. b[i := header ! i]) [0..<64] (replicate 64 0) = take 64 header"
    using assms by (subst fold_fill) (simp_all add: list_eq_iff_nth_eq)
  have last16: "List.map (\<lambda>i. header ! (64 + i)) [0..<16] = drop 64 header"
    using assms by (intro nth_equalityI) simp_all
  have b2: "(fold (\<lambda>i b. b[i := header ! (64 + i)]) [0..<16] (replicate 64 0))[16 := 0x80, 62 := 0x02, 63 := 0x80] =
      drop 64 header @ (replicate 48 0)[0 := 0x80, 46 := 0x02, 47 := 0x80]"
    using assms by (subst fold_fill) (simp_all add: last16 list_update_append)
  have len: "length first = 8" unfolding first_def by (rule length_fold_compress) simp
  have b3: "(state_bytes first @ replicate 32 0)[32 := 0x80, 62 := 0x01, 63 := 0x00] =
      state_bytes first @ (replicate 32 0)[0 := 0x80, 30 := 0x01, 31 := 0x00]"
    using len by (simp add: list_update_append)
  have "first = compress 64 (drop 64 header @ (replicate 48 0)[0 := 0x80, 46 := 0x02, 47 := 0x80]) (compress 64 (take 64 header) kInitial)"
    unfolding first_def message_blocks_80 [OF assms] by simp
  then have first_eq: "compress 64 (drop 64 header @ (replicate 48 0)[0 := 0x80, 46 := 0x02, 47 := 0x80])
      (compress 64 (take 64 header) kInitial) = first" ..
  have z1: "fold (\<lambda>i b. b[i := 0]) [0..<64] (take 64 header) = replicate 64 0" using assms by (intro zero) simp
  have z2: "fold (\<lambda>i b. b[i := 0]) [0..<64] (drop 64 header @ (replicate 48 0)[0 := 0x80, 46 := 0x02, 47 := 0x80]) =
      replicate 64 0"
    using assms by (intro zero) simp
  have run: "sha256d80 header 64 = compress 64 (state_bytes first @ (replicate 32 0)[0 := 0x80, 30 := 0x01, 31 := 0x00]) kInitial"
    unfolding sha256d80_def Let_def kernel_compress_eq b1 z1 b2 z2 kernel_constants first_eq store_words [OF len] b3 ..
  then show "length (sha256d80 header 64) = 8" by simp
  have "sha256 header = state_bytes first" unfolding sha256_def absorb_message_blocks first_def ..
  moreover have "sha256 (state_bytes first) = state_bytes (sha256d80 header 64)"
    unfolding run sha256_def absorb_message_blocks using len by (subst message_blocks_32) simp_all
  ultimately show "state_bytes (sha256d80 header 64) = sha256d header" by (simp add: sha256d_def)
qed

section \<open>The device compares as the processor does\<close>

lemma bswap_bytes:
  "[ucast (drop_bit 24 (pow_bswap x)), ucast (drop_bit 16 (pow_bswap x)), ucast (drop_bit 8 (pow_bswap x)), ucast (pow_bswap x)] =
    rev [ucast (drop_bit 24 x), ucast (drop_bit 16 x), ucast (drop_bit 8 x), ucast x :: u8]"
proof -
  have mask: "(0xff :: u32) = mask 8" "(0xff00 :: u32) = push_bit 8 (mask 8)"
    "(0xff0000 :: u32) = push_bit 16 (mask 8)" "(0xff000000 :: u32) = push_bit 24 (mask 8)"
    by (simp_all add: mask_eq_exp_minus_1 push_bit_eq_mult)
  show ?thesis
    unfolding rev.simps append.simps list.inject
    by (intro conjI bit_word_eqI) (auto simp: pow_bswap_def mask bit_simps)
qed

lemma rev_state_bytes: "rev (state_bytes ws) = state_bytes (List.map pow_bswap (rev ws))"
proof (induction ws)
  case (Cons w ws)
  have "state_bytes (xs @ [y]) = state_bytes xs @ state_bytes [y]" for xs y by (simp add: state_bytes_def)
  then show ?case using Cons bswap_bytes [of w] by (simp add: state_bytes_Cons state_bytes_def)
qed (simp add: state_bytes_def)

lemma word_of_bytes:
  "push_bit 24 (ucast (ucast (drop_bit 24 w) :: u8)) OR push_bit 16 (ucast (ucast (drop_bit 16 w) :: u8)) OR
    push_bit 8 (ucast (ucast (drop_bit 8 w) :: u8)) OR ucast (ucast w :: u8) = (w :: u32)"
proof (rule bit_word_eqI)
  fix n assume "n < LENGTH(32)"
  then consider "n < 8" | "8 \<le> n" "n < 16" | "16 \<le> n" "n < 24" | "24 \<le> n" "n < 32" by fastforce
  then show "bit (push_bit 24 (ucast (ucast (drop_bit 24 w) :: u8)) OR push_bit 16 (ucast (ucast (drop_bit 16 w) :: u8)) OR
    push_bit 8 (ucast (ucast (drop_bit 8 w) :: u8)) OR ucast (ucast w :: u8) :: u32) n = bit w n"
    by cases (auto simp: bit_simps)
qed

lemma be_val_state_bytes: "be_val (state_bytes ws) = be_val ws"
proof (induction ws)
  case (Cons w ws)
  have w: "be_val [ucast (drop_bit 24 w), ucast (drop_bit 16 w), ucast (drop_bit 8 w), ucast w :: u8] = unat w"
    using be_val_four [of "[]" "ucast (drop_bit 24 w)" "ucast (drop_bit 16 w)" "ucast (drop_bit 8 w)" "ucast w"]
      pow_word_value [of "ucast (drop_bit 24 w)" "ucast (drop_bit 16 w)" "ucast (drop_bit 8 w)" "ucast w"]
    unfolding word_of_bytes by simp
  have "be_val (state_bytes (w # ws)) = unat w * 256 ^ length (state_bytes ws) + be_val (state_bytes ws)"
    using be_val_append [of "[ucast (drop_bit 24 w), ucast (drop_bit 16 w), ucast (drop_bit 8 w), ucast w :: u8]" "state_bytes ws"]
    by (simp only: state_bytes_Cons w) simp
  also have "(256 :: nat) ^ length (state_bytes ws) = (2 ^ 32) ^ length ws"
    by (simp add: power_mult)
  finally show ?case using Cons by simp
qed (simp add: state_bytes_def)

lemma be_val_target_words:
  assumes "length (t :: bytes) = 32"
  shows "be_val (List.map (\<lambda>i. read_be (drop (i * 4) t)) [0..<8]) = be_val t"
proof -
  have "be_val (List.map (\<lambda>i. read_be (drop (i * 4) t)) [0..<8]) = be_val (List.map ((!) t) [0..<4 * 8])"
    by (rule be_val_words) (use assms in \<open>simp add: read_be_def pow_word_value mult.commute\<close>)
  then show ?thesis using map_nth_upt [OF assms] by simp
qed

lemma meets_words_lex:
  assumes "length target = 32" "\<forall>i \<in> set is. i < 8"
  shows "meets_words hash target is \<longleftrightarrow>
    List.map (\<lambda>i. pow_bswap (hash ! (7 - i))) is \<le> List.map (\<lambda>i. read_be (drop (i * 4) target)) is"
  using assms(2)
proof (induction "is")
  case (Cons i "is")
  then have "read_be (drop (i * 4) target) = push_bit 24 (ucast (target ! (i * 4))) OR push_bit 16 (ucast (target ! (i * 4 + 1))) OR
      push_bit 8 (ucast (target ! (i * 4 + 2))) OR ucast (target ! (i * 4 + 3))"
    using assms(1) by (simp add: read_be_def)
  with Cons show ?case by (auto simp: Let_def)
qed simp

lemma device_value:
  assumes "length hash = 8"
  shows "be_val (List.map (\<lambda>i. pow_bswap (hash ! (7 - i))) [0..<8]) = le_val (state_bytes hash)"
proof -
  have "List.map (\<lambda>i. pow_bswap (hash ! (7 - i))) [0..<8] = List.map pow_bswap (rev hash)"
    using map_rev_nth_upt [OF assms] by (simp add: list_eq_iff_nth_eq assms rev_nth)
  then show ?thesis by (simp only: le_val_def rev_state_bytes be_val_state_bytes)
qed

text \<open>C7: the acceptance test of the kernel, which compares eight byte-swapped words with words it assembles from
  the target, takes exactly the hashes that the processor's byte-by-byte \<^verbatim>\<open>hash_meets_target\<close> takes.\<close>

theorem device_accepts_as_host:
  assumes "length header = 80" "length target = 32"
  shows "meets_target (sha256d80 header 64) target = hash_meets_target (sha256d header) target"
proof -
  let ?h = "sha256d80 header 64"
  have len: "length ?h = 8" "length (sha256d header) = 32"
    using sha256d80_eq [OF assms(1)] by simp_all
  have "meets_target ?h target \<longleftrightarrow>
      List.map (\<lambda>i. pow_bswap (?h ! (7 - i))) [0..<8] \<le> List.map (\<lambda>i. read_be (drop (i * 4) target)) [0..<8]"
    unfolding meets_target_def by (rule meets_words_lex) (simp_all add: assms)
  also have "\<dots> \<longleftrightarrow> le_val (sha256d header) \<le> be_val target"
    by (subst be_val_le_iff [symmetric])
      (simp_all only: length_map length_upt device_value [OF len(1)] be_val_target_words [OF assms(2)] sha256d80_eq [OF assms(1)])
  finally show ?thesis using hash_meets_target_iff [OF len(2) assms(2)] by simp
qed

theorem device_accepts_as_host_witness:
  "meets_target (sha256d80 (replicate 80 0) 64) (replicate 32 0xff) =
    hash_meets_target (sha256d (replicate 80 0)) (replicate 32 0xff)"
  by (rule device_accepts_as_host) simp_all

section \<open>The reduction of a work group\<close>

definition entry_key :: "u32 list \<times> u32 \<Rightarrow> u32 list" where
  "entry_key e = fst e @ [snd e]"

lemma precedes_words_lex:
  "precedes_words l a r b is \<longleftrightarrow> List.map ((!) l) is @ [a] < List.map ((!) r) is @ [b]"
  by (induction "is") auto

lemma pow_precedes_key:
  assumes "length (fst a) = 8" "length (fst b) = 8"
  shows "pow_precedes (fst a) (snd a) (fst b) (snd b) \<longleftrightarrow> entry_key a < entry_key b"
  using assms by (simp add: pow_precedes_def precedes_words_lex entry_key_def map_nth_upt)

lemma reduce_step_nth:
  assumes "i < length m"
  shows "reduce_step s m ! i = (if i < s \<and> pow_precedes (fst (m ! (i + s))) (snd (m ! (i + s))) (fst (m ! i)) (snd (m ! i))
    then m ! (i + s) else m ! i)"
  using assms by (simp add: reduce_step_def)

lemma reduce_group_least:
  assumes "2 ^ k \<le> length m" "\<forall>e \<in> set m. length (fst e) = 8"
  shows "\<exists>j < 2 ^ k. reduce_group (2 ^ k div 2) m ! 0 = m ! j \<and>
    (\<forall>i < 2 ^ k. entry_key (reduce_group (2 ^ k div 2) m ! 0) \<le> entry_key (m ! i))"
  using assms
proof (induction k arbitrary: m)
  case 0
  then show ?case by (simp add: reduce_group.simps [of 0])
next
  case (Suc k)
  let ?s = "2 ^ k :: nat" and ?m = "reduce_step (2 ^ k) m"
  have len: "2 * ?s \<le> length m" "length ?m = length m" using Suc.prems by (simp_all add: reduce_step_def)
  have step: "?m ! i \<in> {m ! i, m ! (i + ?s)}" "entry_key (?m ! i) \<le> entry_key (m ! i)" "entry_key (?m ! i) \<le> entry_key (m ! (i + ?s))"
    if "i < ?s" for i
  proof -
    have "i < length m" "i + ?s < length m" using that len by simp_all
    then have "length (fst (m ! i)) = 8" "length (fst (m ! (i + ?s))) = 8" using Suc.prems(2) by simp_all
    from pow_precedes_key [OF this(2,1)] show "?m ! i \<in> {m ! i, m ! (i + ?s)}" "entry_key (?m ! i) \<le> entry_key (m ! i)"
      "entry_key (?m ! i) \<le> entry_key (m ! (i + ?s))"
      using that \<open>i < length m\<close> by (auto simp: reduce_step_nth not_less)
  qed
  have eights: "\<forall>e \<in> set ?m. length (fst e) = 8"
  proof
    fix e assume "e \<in> set ?m"
    then obtain i where i: "i < length m" "e = ?m ! i" using len(2) by (metis in_set_conv_nth)
    have "e \<in> {m ! i, m ! (i + ?s)} \<and> (e = m ! (i + ?s) \<longrightarrow> i + ?s < length m \<or> e = m ! i)"
      using i len by (auto simp: reduce_step_nth)
    then have "e \<in> set m" using i by auto
    then show "length (fst e) = 8" using Suc.prems(2) by simp
  qed
  have "?s \<le> length ?m" using len by simp
  from Suc.IH [OF this eights] obtain j where j: "j < ?s" "reduce_group (?s div 2) ?m ! 0 = ?m ! j"
      "\<And>i. i < ?s \<Longrightarrow> entry_key (reduce_group (?s div 2) ?m ! 0) \<le> entry_key (?m ! i)" by blast
  have unfold: "reduce_group (2 ^ Suc k div 2) m = reduce_group (?s div 2) ?m" by (simp add: reduce_group.simps [of ?s])
  have "\<exists>j' < 2 ^ Suc k. reduce_group (?s div 2) ?m ! 0 = m ! j'"
    using step(1) [OF j(1)] j(1,2) by (auto intro: exI [of _ j] exI [of _ "j + ?s"])
  moreover have "entry_key (reduce_group (?s div 2) ?m ! 0) \<le> entry_key (m ! i)" if "i < 2 ^ Suc k" for i
  proof (cases "i < ?s")
    case True
    then show ?thesis using j(3) step(2) by (meson order_trans)
  next
    case False
    then have "i - ?s < ?s" "i - ?s + ?s = i" using that by simp_all
    then show ?thesis using j(3) [of "i - ?s"] step(3) [of "i - ?s"] by simp
  qed
  ultimately show ?case unfolding unfold by blast
qed

lemma length_item_header [simp]: "length (item_header prefix nonce) = 80"
proof -
  have "length (fold (\<lambda>i h. h[i := prefix ! i]) is h) = length h" for "is" and h :: bytes
    by (induction "is" arbitrary: h) simp_all
  then show ?thesis by (simp add: item_header_def)
qed

lemma observed_entry_active:
  assumes "gid < nonce_count"
  shows "fst (observed_entry prefix nonce_start nonce_count gid) =
      List.map (\<lambda>i. pow_bswap (sha256d80 (item_header prefix (nonce_start + gid)) 64 ! (7 - i))) [0..<8]"
    "snd (observed_entry prefix nonce_start nonce_count gid) = nonce_start + gid"
    "be_val (fst (observed_entry prefix nonce_start nonce_count gid)) = le_val (sha256d (item_header prefix (nonce_start + gid)))"
proof -
  show f: "fst (observed_entry prefix nonce_start nonce_count gid) =
      List.map (\<lambda>i. pow_bswap (sha256d80 (item_header prefix (nonce_start + gid)) 64 ! (7 - i))) [0..<8]"
    and "snd (observed_entry prefix nonce_start nonce_count gid) = nonce_start + gid"
    using assms by (simp_all add: observed_entry_def Let_def)
  show "be_val (fst (observed_entry prefix nonce_start nonce_count gid)) = le_val (sha256d (item_header prefix (nonce_start + gid)))"
    unfolding f using sha256d80_eq [of "item_header prefix (nonce_start + gid)"] by (simp only: device_value length_item_header)
qed

lemma entry_key_le_value:
  assumes "length (fst a) = 8" "length (fst b) = 8" "entry_key a \<le> entry_key b"
  shows "be_val (fst a) \<le> be_val (fst b)" "be_val (fst a) = be_val (fst b) \<Longrightarrow> snd a \<le> snd b"
proof -
  have "be_val (entry_key a) \<le> be_val (entry_key b)"
    using assms by (simp add: be_val_le_iff entry_key_def)
  then have le: "be_val (fst a) * 4294967296 + unat (snd a) \<le> be_val (fst b) * 4294967296 + unat (snd b)"
    by (simp add: entry_key_def be_val_append)
  have lt: "unat (snd a) < 4294967296" "unat (snd b) < 4294967296"
    using unsigned_less [of "snd a", where ?'a = nat] unsigned_less [of "snd b", where ?'a = nat] by simp_all
  then show "be_val (fst a) \<le> be_val (fst b)" using le by linarith
  show "snd a \<le> snd b" if "be_val (fst a) = be_val (fst b)"
    using le that by (simp add: word_le_nat_alt)
qed

lemma length_observed [simp]: "length (fst (observed_entry prefix nonce_start nonce_count gid)) = 8"
  by (simp add: observed_entry_def Let_def)

text \<open>C39: a work group of a power of two of items writes the least hash of its own nonces, and of equal hashes the
  one with the lowest nonce: no personal record of a launch is lost in the parallel reduction.\<close>

theorem group_minimum_least:
  assumes "local_size = 2 ^ k" "lid < local_size" "of_nat (grp * local_size + lid) < nonce_count"
  shows "let nonce = nonce_start + of_nat (grp * local_size + lid);
             least = group_minimum prefix nonce_start nonce_count local_size grp
         in least \<in> (\<lambda>l. observed_entry prefix nonce_start nonce_count (of_nat (grp * local_size + l))) ` {..<local_size} \<and>
            be_val (fst least) \<le> le_val (sha256d (item_header prefix nonce)) \<and>
            (be_val (fst least) = le_val (sha256d (item_header prefix nonce)) \<longrightarrow> snd least \<le> nonce)"
proof -
  let ?e = "\<lambda>l. observed_entry prefix nonce_start nonce_count (of_nat (grp * local_size + l))"
  let ?m = "List.map ?e [0..<local_size]"
  have "2 ^ k \<le> length ?m" "\<forall>e \<in> set ?m. length (fst e) = 8" using assms(1) by auto
  from reduce_group_least [OF this] obtain j where j: "j < local_size"
      "group_minimum prefix nonce_start nonce_count local_size grp = ?e j"
      "\<And>i. i < local_size \<Longrightarrow> entry_key (?e j) \<le> entry_key (?e i)"
    using assms(1) by (auto simp: group_minimum_def simp del: of_nat_add of_nat_mult)
  note le = entry_key_le_value [OF length_observed length_observed j(3) [OF assms(2)]]
  show ?thesis
    unfolding Let_def j(2) using le j(1) by (auto simp: observed_entry_active(2,3) [OF assms(3)] simp del: of_nat_add of_nat_mult)
qed

text \<open>A launch counts every nonce of its range that meets the target, and the buffer holds the first 64 of them in
  the order in which the work items reached the counter.\<close>

theorem scan_reports_hits:
  assumes "length nonces = 64" "length target = 32" "length gids < 2 ^ 32"
  shows "let hits = List.filter (\<lambda>gid. gid < nonce_count \<and> hash_meets_target (sha256d (item_header prefix (nonce_start + gid))) target) gids;
             out = sha256d_scan prefix nonce_start nonce_count target gids (0, nonces)
         in unat (fst out) = length hits \<and> length (snd out) = 64 \<and>
            take (length hits) (snd out) = List.map ((+) nonce_start) (take 64 hits)"
  using assms(3)
proof (induction gids rule: rev_induct)
  case Nil
  then show ?case using assms by (simp add: sha256d_scan_def)
next
  case (snoc gid gids)
  define hit where "hit = (\<lambda>gid. gid < nonce_count \<and> hash_meets_target (sha256d (item_header prefix (nonce_start + gid))) target)"
  define out where "out = sha256d_scan prefix nonce_start nonce_count target gids (0, nonces)"
  have IH: "unat (fst out) = length (List.filter hit gids)" "length (snd out) = 64"
    "take (length (List.filter hit gids)) (snd out) = List.map ((+) nonce_start) (take 64 (List.filter hit gids))"
    using snoc.IH snoc.prems by (simp_all add: Let_def hit_def out_def)
  have step: "sha256d_scan prefix nonce_start nonce_count target (gids @ [gid]) (0, nonces) =
      (if hit gid then record_hit (nonce_start + gid) out else out)"
    using device_accepts_as_host [OF length_item_header assms(2)]
    by (auto simp: sha256d_scan_def out_def scan_item_def hit_def Let_def not_less)
  have "length (List.filter hit gids) < 2 ^ 32 - 1" using snoc.prems le_less_trans [OF length_filter_le, of gids _ hit] by simp
  then have count: "unat (fst out + 1) = Suc (length (List.filter hit gids))"
    using IH(1) by (simp add: unat_word_ariths)
  have small: "fst out < 64 \<longleftrightarrow> length (List.filter hit gids) < 64" using IH(1) by (simp add: word_less_nat_alt)
  show ?case
  proof (cases "hit gid")
    case False
    then show ?thesis using IH unfolding step Let_def hit_def [symmetric] by simp
  next
    case True
    then show ?thesis
      using IH count small unfolding step Let_def hit_def [symmetric]
      by (cases out) (auto simp: record_hit_def take_Suc_conv_app_nth)
  qed
qed

theorem group_minimum_least_witness:
  "let nonce = 5; least = group_minimum (replicate 76 0) 3 4 4 0
   in least \<in> (\<lambda>l. observed_entry (replicate 76 0) 3 4 (of_nat (0 * 4 + l))) ` {..<4} \<and>
      be_val (fst least) \<le> le_val (sha256d (item_header (replicate 76 0) nonce)) \<and>
      (be_val (fst least) = le_val (sha256d (item_header (replicate 76 0) nonce)) \<longrightarrow> snd least \<le> nonce)"
  using group_minimum_least [of 4 2 2 0 4 3 "replicate 76 0"] by (simp add: Let_def)

theorem scan_reports_hits_witness:
  "unat (fst (sha256d_scan (replicate 76 0) 7 2 (replicate 32 0xff) [1, 0, 2] (0, replicate 64 0))) = 2"
proof -
  have top: "hash_meets_target d (replicate 32 0xff)" for d
  proof -
    have "meets_from d (replicate 32 0xff) is" if "\<forall>i \<in> set is. i < 32" for "is"
      using that
    proof (induction "is")
      case (Cons i "is")
      have "d ! (31 - i) \<le> (0xff :: u8)"
        using unsigned_less [of "d ! (31 - i)", where ?'a = nat] by (simp add: word_le_nat_alt)
      with Cons show ?case by auto
    qed simp
    then show ?thesis by (simp add: hash_meets_target_def)
  qed
  show ?thesis
    using scan_reports_hits [of "replicate 64 0" "replicate 32 0xff" "[1, 0, 2]" 2 "replicate 76 0" 7] by (simp add: Let_def top)
qed

end
