(* ===== verification/Gpu_Miner.thy ===== *)
theory Gpu_Miner
  imports Gpu_Kernel Cpu_Miner "HOL-Library.Sublist"
begin

text \<open>
  \<^verbatim>\<open>src/mining/gpu_miner.cpp\<close>: the choice of the device, the profile of launch sizes, and the host loop that
  drives the kernels of theory \<^theory_text>\<open>Gpu_Kernel\<close> over the acquired units. The OpenCL runtime is a parameter: for every
  launch the error code of each of its calls and the order in which its work items reach the hit counter.
\<close>

section \<open>The choice of the device\<close>

record gpu_info =
  gi_available :: bool
  gi_index :: nat
  gi_platform_index :: nat
  gi_device_index :: nat
  gi_platform :: string
  gi_name :: string
  gi_board_name :: string
  gi_vendor :: string
  gi_driver :: string
  gi_compute_units :: u32
  gi_global_memory :: u64
  gi_max_workgroup_size :: u64

text \<open>\<^verbatim>\<open>std::isspace\<close> and \<^verbatim>\<open>std::tolower\<close> of the C locale.\<close>

definition is_space :: "char \<Rightarrow> bool" where
  "is_space c = (of_char c \<in> {9, 10, 11, 12, 13, 32 :: nat})"

definition to_lower :: "char \<Rightarrow> char" where
  "to_lower c = (if CHR ''A'' \<le> c \<and> c \<le> CHR ''Z'' then char_of (of_char c + 32 :: nat) else c)"

definition normalized :: "string \<Rightarrow> string" where
  "normalized val = List.map to_lower (rev (dropWhile is_space (rev (dropWhile is_space val))))"

definition is_auto :: "string \<Rightarrow> bool" where
  "is_auto selector = (normalized selector = ''auto'')"

definition is_amd :: "gpu_info \<Rightarrow> bool" where
  "is_amd device =
    (let vendor = normalized (gi_vendor device) in sublist ''amd'' vendor \<or> sublist ''advanced micro devices'' vendor)"

text \<open>\<^verbatim>\<open>std::stoull\<close>: it skips blanks, takes a sign and the digits that follow, and ignores the rest. Its
  \<^verbatim>\<open>std::out_of_range\<close> is a \<^verbatim>\<open>std::logic_error\<close>.\<close>

definition is_digit :: "char \<Rightarrow> bool" where
  "is_digit c = (CHR ''0'' \<le> c \<and> c \<le> CHR ''9'')"

definition decimal :: "string \<Rightarrow> nat" where
  "decimal ds = fold (\<lambda>c v. v * 10 + (of_char c - 48)) ds 0"

definition stoull :: "string \<Rightarrow> nat outcome" where
  "stoull s =
    (let rest = dropWhile is_space s;
         negative = (rest \<noteq> [] \<and> hd rest = CHR ''-'');
         unsigned = (if rest \<noteq> [] \<and> (hd rest = CHR ''-'' \<or> hd rest = CHR ''+'') then tl rest else rest);
         digits = takeWhile is_digit unsigned
     in if digits = [] then Inl (Invalid_argument ''stoull'')
        else if decimal digits \<ge> 2 ^ 64 then Inl (Logic_error ''stoull'')
        else Inr (if negative then (2 ^ 64 - decimal digits) mod 2 ^ 64 else decimal digits))"

definition matches_platform :: "gpu_info list \<Rightarrow> string \<Rightarrow> bool \<Rightarrow> nat \<Rightarrow> bool" where
  "matches_platform devices wanted exact i =
    (let platform = normalized (gi_platform (devices ! i))
     in exact \<and> platform = wanted \<or> \<not> exact \<and> sublist wanted platform)"

definition matches_device :: "gpu_info list \<Rightarrow> string \<Rightarrow> bool \<Rightarrow> nat \<Rightarrow> bool" where
  "matches_device devices wanted exact i =
    (let name = normalized (gi_name (devices ! i)); board = normalized (gi_board_name (devices ! i))
     in exact \<and> (name = wanted \<or> board = wanted) \<or> \<not> exact \<and> (sublist wanted name \<or> sublist wanted board))"

text \<open>The two passes of a name filter: the exact matches, or failing them the partial ones.\<close>

definition filter_exact_first :: "(bool \<Rightarrow> nat \<Rightarrow> bool) \<Rightarrow> nat list \<Rightarrow> nat list" where
  "filter_exact_first matches candidates =
    (let found = List.filter (matches True) candidates
     in if found = [] then List.filter (matches False) candidates else found)"

definition index_prefix :: string where "index_prefix = ''index:''"

definition select_platform :: "gpu_info list \<Rightarrow> string \<Rightarrow> nat list \<Rightarrow> nat list outcome" where
  "select_platform devices platform_selector candidates =
    (if is_auto platform_selector then Inr candidates
     else
       let wanted = normalized platform_selector
       in if prefix index_prefix wanted
          then bindE (stoull (drop 6 wanted)) (\<lambda>requested.
                 let kept = List.filter (\<lambda>i. gi_platform_index (devices ! i) = requested) candidates
                 in if kept = [] then Inl (Invalid_argument (''OpenCL platform index matches no platform: '' @ platform_selector))
                    else Inr kept)
          else
            let found = filter_exact_first (matches_platform devices wanted) candidates
            in if found = [] then Inl (Invalid_argument (''OpenCL platform selector matches no platform: '' @ platform_selector))
               else if card (set (List.map (\<lambda>i. gi_platform_index (devices ! i)) found)) > 1
               then Inl (Invalid_argument (''ambiguous OpenCL platform selector: '' @ platform_selector))
               else Inr found)"

text \<open>The order of the tuples of \<^verbatim>\<open>std::max_element\<close>, which returns the first greatest element.\<close>

definition weaker :: "gpu_info \<Rightarrow> gpu_info \<Rightarrow> bool" where
  "weaker a b =
    (if is_amd a \<noteq> is_amd b then is_amd b
     else if gi_compute_units a \<noteq> gi_compute_units b then gi_compute_units a < gi_compute_units b
     else if gi_global_memory a \<noteq> gi_global_memory b then gi_global_memory a < gi_global_memory b
     else gi_max_workgroup_size a < gi_max_workgroup_size b)"

definition strongest :: "gpu_info list \<Rightarrow> nat list \<Rightarrow> nat" where
  "strongest devices candidates =
    fold (\<lambda>i best. if weaker (devices ! best) (devices ! i) then i else best) (tl candidates) (hd candidates)"

definition select_device :: "gpu_info list \<Rightarrow> string \<Rightarrow> nat list \<Rightarrow> nat outcome" where
  "select_device devices device_selector candidates =
    (if is_auto device_selector then Inr (strongest devices candidates)
     else
       let wanted = normalized device_selector
       in if prefix index_prefix wanted
          then bindE (stoull (drop 6 wanted)) (\<lambda>requested.
                 case List.find (\<lambda>i. gi_index (devices ! i) = requested) candidates of
                   None \<Rightarrow> Inl (Invalid_argument (''OpenCL GPU index matches no device: '' @ device_selector))
                 | Some i \<Rightarrow> Inr i)
          else
            let found = filter_exact_first (matches_device devices wanted) candidates
            in if found = [] then Inl (Invalid_argument (''OpenCL device selector matches no GPU: '' @ device_selector))
               else if length found > 1 then Inl (Invalid_argument (''ambiguous OpenCL device selector: '' @ device_selector))
               else Inr (hd found))"

definition select_device_index :: "gpu_info list \<Rightarrow> string \<Rightarrow> string \<Rightarrow> nat outcome" where
  "select_device_index devices platform_selector device_selector =
    (if devices = [] then Inl (Runtime_error ''no OpenCL GPU detected'')
     else bindE (select_platform devices platform_selector [0..<length devices])
            (select_device devices device_selector))"

section \<open>What the selection returns\<close>

lemma filter_exact_first_subset: "set (filter_exact_first m cs) \<subseteq> set cs"
  by (auto simp: filter_exact_first_def Let_def)

lemma filter_exact_first_matches: "i \<in> set (filter_exact_first m cs) \<Longrightarrow> m True i \<or> m False i"
  by (auto simp: filter_exact_first_def Let_def split: if_splits)

lemma select_platform_subset:
  assumes "select_platform devices p cs = Inr kept" "cs \<noteq> []"
  shows "kept \<noteq> [] \<and> set kept \<subseteq> set cs"
  using assms filter_exact_first_subset [of "matches_platform devices (normalized p)" cs]
  by (auto simp: select_platform_def Let_def bindE_eq_Inr_iff split: if_splits)

definition power_rank :: "gpu_info \<Rightarrow> nat list" where
  "power_rank d = [of_bool (is_amd d), unat (gi_compute_units d), unat (gi_global_memory d), unat (gi_max_workgroup_size d)]"

text \<open>A larger rank is the better one here, so the contract of the running best is met with the order reversed.\<close>

lemma weaker_rank: "weaker a b \<longleftrightarrow> power_rank a < power_rank b"
  by (auto simp: weaker_def power_rank_def word_less_nat_alt dest: unsigned_word_eqI)

lemma strongest_greatest:
  assumes "cs \<noteq> []"
  shows "strongest devices cs \<in> set cs \<and> (\<forall>i \<in> set cs. power_rank (devices ! i) \<le> power_rank (devices ! strongest devices cs))"
proof -
  have "fold (\<lambda>i best. if weaker (devices ! best) (devices ! i) then i else best) is b \<in> insert b (set is) \<and>
    (\<forall>i \<in> insert b (set is). power_rank (devices ! i) \<le>
      power_rank (devices ! fold (\<lambda>i best. if weaker (devices ! best) (devices ! i) then i else best) is b))" for "is" b
  proof (induction "is" arbitrary: b)
    case (Cons i "is")
    show ?case
      using Cons [of i] Cons [of b] by (auto simp: weaker_rank not_less intro: order_trans less_imp_le)
  qed simp
  from this [of "tl cs" "hd cs"] show ?thesis
    using assms by (cases cs) (simp_all add: strongest_def)
qed

lemma find_in_set: "List.find P xs = Some x \<Longrightarrow> x \<in> set xs \<and> P x"
  by (induction xs) (auto split: if_splits)

lemma select_device_subset:
  assumes "select_device devices d cs = Inr i" "cs \<noteq> []"
  shows "i \<in> set cs"
  using assms filter_exact_first_subset [of "matches_device devices (normalized d)" cs] strongest_greatest [of cs devices]
  by (auto simp: select_device_def Let_def bindE_eq_Inr_iff split: if_splits option.splits dest: hd_in_set find_in_set)

text \<open>A successful selection is one of the enumerated devices, and the two automatic selectors choose a device that
  none of the others surpasses: AMD before others, then the compute units, the memory and the work-group size.\<close>

theorem device_selected:
  assumes "select_device_index devices platform_selector device_selector = Inr i"
  shows "i < length devices \<and>
    (is_auto platform_selector \<and> is_auto device_selector \<longrightarrow> (\<forall>j < length devices. \<not> weaker (devices ! i) (devices ! j)))"
proof -
  have ne: "devices \<noteq> []" using assms by (auto simp: select_device_index_def split: if_splits)
  then obtain cs where cs: "select_platform devices platform_selector [0..<length devices] = Inr cs"
      "select_device devices device_selector cs = Inr i"
    using assms by (auto simp: select_device_index_def bindE_eq_Inr_iff)
  have "[0..<length devices] \<noteq> []" using ne by simp
  from select_platform_subset [OF cs(1) this] have sub: "cs \<noteq> []" "set cs \<subseteq> {..<length devices}" by auto
  have "i < length devices" using select_device_subset [OF cs(2) sub(1)] sub(2) by auto
  moreover have "\<not> weaker (devices ! i) (devices ! j)" if "is_auto platform_selector" "is_auto device_selector" "j < length devices" for j
  proof -
    have "cs = [0..<length devices]" "i = strongest devices cs"
      using cs that(1,2) by (simp_all add: select_platform_def select_device_def)
    then show ?thesis using strongest_greatest [OF sub(1), of devices] that(3) by (auto simp: weaker_rank not_less)
  qed
  ultimately show ?thesis by blast
qed

definition test_device :: "nat \<Rightarrow> nat \<Rightarrow> string \<Rightarrow> string \<Rightarrow> string \<Rightarrow> u32 \<Rightarrow> u64 \<Rightarrow> gpu_info" where
  "test_device index platform_index platform name board units memory =
    \<lparr>gi_available = True, gi_index = index, gi_platform_index = platform_index, gi_device_index = 0, gi_platform = platform,
     gi_name = name, gi_board_name = board, gi_vendor = ''Advanced Micro Devices, Inc.'', gi_driver = [],
     gi_compute_units = units, gi_global_memory = memory, gi_max_workgroup_size = 256\<rparr>"

definition test_devices :: "gpu_info list" where
  "test_devices = [test_device 0 0 ''Platform A'' ''gfx1100'' ''AMD Radeon RX 7900 XTX'' 2 512,
    test_device 1 1 ''Platform B'' ''gfx1100'' ''AMD Radeon RX 7900 XTX'' 96 24576]"

lemma selection_tests:
  "select_device_index test_devices '' Auto'' ''auto'' = Inr 1"
  "select_device_index test_devices ''auto'' ''AMD Radeon RX 7900 XTX'' =
    Inl (Invalid_argument ''ambiguous OpenCL device selector: AMD Radeon RX 7900 XTX'')"
  "select_device_index test_devices ''Platform'' ''auto'' = Inl (Invalid_argument ''ambiguous OpenCL platform selector: Platform'')"
  by code_simp+

theorem device_selected_witness: "1 < length test_devices \<and> \<not> weaker (test_devices ! 1) (test_devices ! 0)"
proof -
  have "is_auto '' Auto''" "is_auto ''auto''" by code_simp+
  then show ?thesis
    using device_selected [OF selection_tests(1)] by (auto simp: test_devices_def)
qed

end
