(* ===== verification/Gpu_Session.thy ===== *)
theory Gpu_Session
  imports Gpu_Miner Double
begin

text \<open>
  The thread of the GPU miner, \<^verbatim>\<open>GpuMiner::Impl::run\<close>: the launch sizes, the tuning, the loop over units, batches
  and launches, and the handling of what the kernels report. The kernels are those of theory \<^theory_text>\<open>Gpu_Kernel\<close>. The
  OpenCL runtime gives an error code for each named call and the order in which the items of a launch reach the hit
  counter; other threads end the loops. What the thread does to the allocator, the telemetry and the handler is the
  list of its calls, as for the processor's worker.
\<close>

section \<open>Calls and errors\<close>

datatype gpu_call =
    Gpu_extranonce string
  | Launched u32 u32 u32
  | Gpu_candidate candidate
  | Gpu_progress string u64 u64 string "u32 option"
  | Gpu_range u64 u64 u64
  | Gpu_hashes u64
  | Gpu_complete string
  | Gpu_header_complete
  | Gpu_release string
  | Gpu_tuned u64 u64 u64
  | Gpu_event string

type_synonym 'a gpu = "gpu_call list \<times> 'a outcome"

definition gpu_return :: "'a \<Rightarrow> 'a gpu" where "gpu_return x = ([], Inr x)"

definition gpu_lift :: "'a outcome \<Rightarrow> 'a gpu" where "gpu_lift r = ([], r)"

definition gpu_tell :: "gpu_call \<Rightarrow> unit gpu" where "gpu_tell c = ([c], Inr ())"

definition gpu_bind :: "'a gpu \<Rightarrow> ('a \<Rightarrow> 'b gpu) \<Rightarrow> 'b gpu" where
  "gpu_bind m f = (case snd m of Inl e \<Rightarrow> (fst m, Inl e) | Inr x \<Rightarrow> (fst m @ fst (f x), snd (f x)))"

type_synonym cl_code = "32 word"

definition cl_text :: "cl_code \<Rightarrow> string" where
  "cl_text code = (if sint code < 0 then ''-'' @ to_string (nat (- sint code)) else to_string (nat (sint code)))"

definition check :: "cl_code \<Rightarrow> string \<Rightarrow> unit outcome" where
  "check code operation =
    (if code = 0 then Inr () else Inl (Runtime_error (operation @ '' failed with OpenCL error '' @ cl_text code)))"

definition checks :: "(string \<Rightarrow> cl_code) \<Rightarrow> string list \<Rightarrow> unit outcome" where
  "checks code operations = foldE (\<lambda>operation _. check (code operation) operation) operations ()"

lemma gpu_bind_Inr: "gpu_bind (cs, Inr x) f = (cs @ fst (f x), snd (f x))"
  by (simp add: gpu_bind_def)

lemma gpu_bind_Inl: "gpu_bind (cs, Inl e) f = (cs, Inl e)"
  by (simp add: gpu_bind_def)

lemma gpu_bind_simps [simp]:
  "gpu_bind (gpu_return x) f = f x"
  "gpu_bind (gpu_tell c) f = (c # fst (f ()), snd (f ()))"
  by (simp_all add: gpu_bind_def gpu_return_def gpu_tell_def)

lemma gpu_bind_InrE:
  assumes "gpu_bind m f = (cs, Inr y)"
  obtains x c1 c2 where "m = (c1, Inr x)" "f x = (c2, Inr y)" "cs = c1 @ c2"
  using assms by (cases m; cases "snd m") (auto simp: gpu_bind_def prod_eq_iff)

lemma gpu_lift_InrE:
  assumes "gpu_bind (gpu_lift r) f = (cs, Inr y)"
  obtains x where "r = Inr x" "f x = (cs, Inr y)"
  using assms by (auto elim!: gpu_bind_InrE simp: gpu_lift_def)

section \<open>One launch\<close>

text \<open>What the environment does around one launch: whether the tests before it end the batch, the code of each OpenCL
  call, and the order in which the items of a launch of some global size reach the counter.\<close>

record launch =
  ol_halt :: bool
  ol_code :: "string \<Rightarrow> cl_code"
  ol_order :: "u64 \<Rightarrow> u32 list"

text \<open>The two buffers the loop changes and the variables that live across launches.\<close>

record gpu_locals =
  gl_target :: bytes
  gl_nonces :: "u32 list"
  gl_bootstrap :: bool
  gl_personal :: "bytes option"
  gl_best_hash :: string
  gl_best_nonce :: "u32 option"

definition gpu_candidate_of :: "live_mining_job \<Rightarrow> work_unit \<Rightarrow> built_work \<Rightarrow> u32 \<Rightarrow> bool \<Rightarrow> candidate" where
  "gpu_candidate_of job u built nonce share =
    (let header = set_nonce (bw_header built) nonce; digest = sha256d header
     in \<lparr>cd_context = job, cd_extranonce2 = u_extranonce2 u, cd_header = header, cd_merkle_root = bw_merkle_root built,
         cd_digest = digest, cd_nonce = nonce, cd_share = share,
         cd_network = hash_meets_target digest (lm_network_target job), cd_worker = ''GPU''\<rparr>)"

fun words_precede :: "u32 list \<times> u32 \<Rightarrow> u32 list \<times> u32 \<Rightarrow> nat list \<Rightarrow> bool" where
  "words_precede left right [] = (snd left < snd right)"
| "words_precede left right (w # ws) =
    (if fst left ! w = fst right ! w then words_precede left right ws else fst left ! w < fst right ! w)"

definition best_group :: "(u32 list \<times> u32) list \<Rightarrow> nat" where
  "best_group minima =
    fold (\<lambda>g best. if words_precede (minima ! g) (minima ! best) [0..<8] then g else best) [1..<length minima] 0"

text \<open>The first launch also yields the least hash of each group; the best of them becomes the personal target.\<close>

definition bootstrap :: "live_mining_job \<Rightarrow> work_unit \<Rightarrow> built_work \<Rightarrow> (u32 list \<times> u32) list \<Rightarrow> gpu_locals \<Rightarrow> gpu_locals gpu" where
  "bootstrap job u built group_minima s =
    (let observed_nonce = snd (group_minima ! best_group group_minima);
         observed_hash = bitcoin_hash_hex (sha256d (set_nonce (bw_header built) observed_nonce))
     in gpu_bind (gpu_lift (target_from_hex observed_hash)) (\<lambda>personal.
        gpu_bind (gpu_tell (Gpu_candidate (gpu_candidate_of job u built observed_nonce False))) (\<lambda>_.
          gpu_return (s\<lparr>gl_bootstrap := True, gl_personal := Some personal, gl_best_hash := observed_hash,
                        gl_best_nonce := Some observed_nonce\<rparr>))))"

definition accept_candidate ::
    "live_mining_job \<Rightarrow> work_unit \<Rightarrow> built_work \<Rightarrow> u32 \<Rightarrow> gpu_locals \<times> bool \<Rightarrow> (gpu_locals \<times> bool) gpu" where
  "accept_candidate job u built nonce = (\<lambda>(s, target_changed).
    let digest = sha256d (set_nonce (bw_header built) nonce);
        share_candidate = hash_meets_target digest (lm_share_target job);
        candidate_hash = bitcoin_hash_hex digest;
        improves = (case gl_personal s of None \<Rightarrow> True | Some personal \<Rightarrow> candidate_hash < target_hex personal)
    in gpu_bind
         (if improves
          then gpu_bind (gpu_lift (target_from_hex candidate_hash)) (\<lambda>personal.
                 let s1 = s\<lparr>gl_personal := Some personal\<rparr>
                 in gpu_return
                      (if gl_best_hash s1 = [] \<or> candidate_hash < gl_best_hash s1
                       then s1\<lparr>gl_best_hash := candidate_hash, gl_best_nonce := Some nonce\<rparr> else s1, True))
          else gpu_return (s, target_changed)) (\<lambda>result.
       gpu_bind (gpu_tell (Gpu_candidate (gpu_candidate_of job u built nonce share_candidate))) (\<lambda>_.
         gpu_return result)))"

fun accept_candidates ::
    "live_mining_job \<Rightarrow> work_unit \<Rightarrow> built_work \<Rightarrow> u32 list \<Rightarrow> gpu_locals \<times> bool \<Rightarrow> (gpu_locals \<times> bool) gpu" where
  "accept_candidates job u built [] s = gpu_return s"
| "accept_candidates job u built (nonce # nonces) s =
    gpu_bind (accept_candidate job u built nonce s) (accept_candidates job u built nonces)"

definition update_target :: "live_mining_job \<Rightarrow> launch \<Rightarrow> gpu_locals \<times> bool \<Rightarrow> gpu_locals gpu" where
  "update_target job l = (\<lambda>(s, target_changed).
    case (target_changed, gl_personal s) of
      (True, Some personal) \<Rightarrow>
        let union_target = (if lm_share_target job < personal then personal else lm_share_target job)
        in gpu_bind (gpu_lift (check (ol_code l ''personal/share union target update'') ''personal/share union target update''))
             (\<lambda>_. gpu_return (s\<lparr>gl_target := union_target\<rparr>))
    | _ \<Rightarrow> gpu_return s)"

definition launch_global :: "u64 \<Rightarrow> u32 \<Rightarrow> u64" where
  "launch_global local_size count = (ucast count + local_size - 1) div local_size * local_size"

definition group_minima :: "built_work \<Rightarrow> u64 \<Rightarrow> u32 \<Rightarrow> u32 \<Rightarrow> (u32 list \<times> u32) list" where
  "group_minima built local_size start count =
    List.map (group_minimum (bw_header built) start count (unat local_size))
      [0..<unat (launch_global local_size count div local_size)]"

definition run_launch ::
    "live_mining_job \<Rightarrow> work_unit \<Rightarrow> built_work \<Rightarrow> u64 \<Rightarrow> u32 \<Rightarrow> u32 \<Rightarrow> launch \<Rightarrow> gpu_locals \<Rightarrow> gpu_locals gpu" where
  "run_launch job u built local_size start count l s =
    gpu_bind (gpu_lift (checks (ol_code l) [''candidate reset'', ''start arg'', ''count arg'', ''kernel launch'', ''kernel finish'']))
      (\<lambda>_. let out = sha256d_scan (bw_header built) start count (gl_target s) (ol_order l (launch_global local_size count)) (0, gl_nonces s);
               s1 = s\<lparr>gl_nonces := snd out\<rparr>
      in gpu_bind
        (if gl_bootstrap s1 then gpu_return (s1, False)
         else gpu_bind (gpu_lift (check (ol_code l ''personal minima read'') ''personal minima read'')) (\<lambda>_.
              gpu_bind (bootstrap job u built (group_minima built local_size start count) s1) (\<lambda>s2. gpu_return (s2, True))))
      (\<lambda>s2. gpu_bind (gpu_lift (check (ol_code l ''candidate count read'') ''candidate count read''))
      (\<lambda>_. gpu_bind (gpu_tell (Launched start count (fst out)))
      (\<lambda>_. gpu_bind
        (if fst out > 0
         then gpu_bind (gpu_lift (check (ol_code l ''candidate read'') ''candidate read'')) (\<lambda>_.
              accept_candidates job u built (take (unat (min (fst out) 64)) (snd out)) s2)
         else gpu_return s2)
      (update_target job l)))))"

section \<open>Batches and units\<close>

text \<open>A list of launches that runs out before the batch is done leaves the thread in the middle of it: \<open>None\<close>.\<close>

fun batch_loop ::
    "live_mining_job \<Rightarrow> work_unit \<Rightarrow> built_work \<Rightarrow> u64 \<Rightarrow> u64 \<Rightarrow> u64 \<Rightarrow> u64 \<Rightarrow> u64 \<Rightarrow> gpu_locals \<Rightarrow> launch list \<Rightarrow>
      (u64 \<times> gpu_locals) gpu option" where
  "batch_loop job u built local_size global_size nonce batch_count processed s [] =
    (if processed < batch_count then None else Some (gpu_return (processed, s)))"
| "batch_loop job u built local_size global_size nonce batch_count processed s (l # ls) =
    (if processed < batch_count \<and> \<not> ol_halt l then
       let count64 = min global_size (batch_count - processed);
           launched = run_launch job u built local_size (ucast (nonce + processed)) (ucast count64) l s
       in case snd launched of
            Inl e \<Rightarrow> Some (fst launched, Inl e)
          | Inr s1 \<Rightarrow> map_option (\<lambda>rest. gpu_bind launched (\<lambda>_. rest))
              (batch_loop job u built local_size global_size nonce batch_count (processed + count64) s1 ls)
     else Some (gpu_return (processed, s)))"

record gpu_batch =
  ob_halt :: bool
  ob_launches :: "launch list"

definition batch_report :: "work_unit \<Rightarrow> u64 \<Rightarrow> u64 \<Rightarrow> gpu_locals \<Rightarrow> gpu_call list" where
  "batch_report u nonce processed s =
    [Gpu_progress (u_id u) nonce processed (gl_best_hash s) (gl_best_nonce s),
     Gpu_range (u_nonce_start u) nonce (u_nonce_end u), Gpu_hashes processed]"

fun unit_loop ::
    "live_mining_job \<Rightarrow> work_unit \<Rightarrow> built_work \<Rightarrow> u64 \<Rightarrow> u64 \<Rightarrow> u64 \<Rightarrow> u64 \<Rightarrow> gpu_locals \<Rightarrow> gpu_batch list \<Rightarrow>
      (u64 \<times> gpu_locals) gpu option" where
  "unit_loop job u built local_size global_size batch_size nonce s [] =
    (if nonce < u_nonce_end u then None else Some (gpu_return (nonce, s)))"
| "unit_loop job u built local_size global_size batch_size nonce s (b # bs) =
    (if nonce < u_nonce_end u \<and> \<not> ob_halt b then
       case batch_loop job u built local_size global_size nonce (min batch_size (u_nonce_end u - nonce)) 0 s (ob_launches b) of
         None \<Rightarrow> None
       | Some (calls, Inl e) \<Rightarrow> Some (calls, Inl e)
       | Some (calls, Inr (processed, s1)) \<Rightarrow>
           let reported = (calls @ batch_report u (nonce + processed) processed s1, Inr ())
           in if processed = 0 then Some (gpu_bind reported (\<lambda>_. gpu_return (nonce + processed, s1)))
              else map_option (\<lambda>rest. gpu_bind reported (\<lambda>_. rest))
                     (unit_loop job u built local_size global_size batch_size (nonce + processed) s1 bs)
     else Some (gpu_return (nonce, s)))"

section \<open>The thread\<close>

text \<open>One turn of the loop over units: the tests before it, its batches, the tests after it, what the allocator then
  hands out, and the code of the header update.\<close>

record gpu_round =
  og_halt :: bool
  og_code :: "string \<Rightarrow> cl_code"
  og_batches :: "gpu_batch list"
  og_halt_after :: bool
  og_next :: "work_unit option"

definition gpu_failed :: "string \<Rightarrow> exn \<Rightarrow> gpu_call list" where
  "gpu_failed unit_id e = [Gpu_release unit_id, Gpu_event (''[GPU] erreur, CPU maintenu: '' @ exn_text e)]"

definition begin_unit :: "live_mining_job \<Rightarrow> work_unit \<Rightarrow> gpu_round \<Rightarrow> built_work gpu" where
  "begin_unit job u r =
    gpu_bind (gpu_tell (Gpu_extranonce (u_extranonce2 u))) (\<lambda>_.
    gpu_bind (gpu_lift (build_work (lm_job job) (lm_extranonce1 job) (u_extranonce2 u) 0)) (\<lambda>built.
    gpu_bind (gpu_lift (check (og_code r ''header update'') ''header update'')) (\<lambda>_. gpu_return built)))"

definition no_unit_text :: string where
  "no_unit_text = ''[GPU] aucune unit'' @ [char_of (195 :: nat), char_of (169 :: nat)] @ '' disponible apr'' @
    [char_of (195 :: nat), char_of (168 :: nat)] @ ''s compl'' @ [char_of (195 :: nat), char_of (169 :: nat)] @ ''tion''"

definition run_unit ::
    "live_mining_job \<Rightarrow> u64 \<Rightarrow> u64 \<Rightarrow> u64 \<Rightarrow> work_unit \<Rightarrow> gpu_locals \<Rightarrow> gpu_round \<Rightarrow> (u64 \<times> gpu_locals) gpu option" where
  "run_unit job local_size global_size batch_size u s r =
    (case begin_unit job u r of
       (calls, Inl e) \<Rightarrow> Some (calls, Inl e)
     | (calls, Inr built) \<Rightarrow> map_option (\<lambda>rest. gpu_bind (calls, Inr ()) (\<lambda>_. rest))
         (unit_loop job u built local_size global_size batch_size (u_nonce_next u) s (og_batches r)))"

fun gpu_loop ::
    "live_mining_job \<Rightarrow> u64 \<Rightarrow> u64 \<Rightarrow> u64 \<Rightarrow> work_unit \<Rightarrow> gpu_locals \<Rightarrow> gpu_round list \<Rightarrow> gpu_call list option" where
  "gpu_loop job local_size global_size batch_size u s [] = None"
| "gpu_loop job local_size global_size batch_size u s (r # rs) =
    (if og_halt r then Some []
     else case run_unit job local_size global_size batch_size u s r of
       None \<Rightarrow> None
     | Some (calls, Inl e) \<Rightarrow> Some (calls @ gpu_failed (u_id u) e)
     | Some (calls, Inr (nonce, s1)) \<Rightarrow>
         if nonce \<ge> u_nonce_end u
         then let calls = calls @ [Gpu_complete (u_id u), Gpu_header_complete]
              in if og_halt_after r then Some calls
                 else case og_next r of
                        None \<Rightarrow> Some (calls @ [Gpu_event no_unit_text])
                      | Some u1 \<Rightarrow> map_option ((@) calls)
                          (gpu_loop job local_size global_size batch_size u1 (s1\<lparr>gl_best_hash := [], gl_best_nonce := None\<rparr>) rs)
         else Some (calls @ [Gpu_release (u_id u)]))"

section \<open>The launch sizes\<close>

record gpu_sizes =
  sz_local :: u64
  sz_global :: u64
  sz_batch :: u64

definition default_sizes :: "gpu_info \<Rightarrow> gpu_sizes" where
  "default_sizes info = \<lparr>sz_local = min 256 (gi_max_workgroup_size info), sz_global = push_bit 20 1, sz_batch = push_bit 24 1\<rparr>"

definition profile_matches :: "'j json_api \<Rightarrow> gpu_info \<Rightarrow> 'j \<Rightarrow> bool outcome" where
  "profile_matches J info profile =
    bindE (value_or J (j_get_string J) profile ''name'' []) (\<lambda>fallback.
    bindE (value_or J (j_get_string J) profile ''device_name'' fallback) (\<lambda>profile_name.
      and_then (Inr (profile_name = gi_name info))
     (and_then (bindE (value_or J (j_get_string J) profile ''driver'' []) (\<lambda>driver. Inr (driver = gi_driver info)))
        (value_or J (j_get_bool J) profile ''tuned'' False))))"

text \<open>The sizes of a stored profile, and whether it was taken.\<close>

definition profile_sizes :: "'j json_api \<Rightarrow> disk \<Rightarrow> string \<Rightarrow> gpu_info \<Rightarrow> (gpu_sizes \<times> bool) outcome" where
  "profile_sizes J d path info =
    (let sizes = default_sizes info
     in bindE (load_or J d path (j_object J [])) (\<lambda>document.
        bindE (if j_contains J document ''gpu'' then j_at J document ''gpu'' else Inr document) (\<lambda>profile.
        bindE (profile_matches J info profile) (\<lambda>matching.
          if matching
          then bindE (value_or J (j_get_u64 J) profile ''local_work_size'' (sz_local sizes)) (\<lambda>local_size.
               bindE (value_or J (j_get_u64 J) profile ''global_work_size'' (sz_global sizes)) (\<lambda>global_size.
               bindE (value_or J (j_get_u64 J) profile ''batch_size'' (sz_batch sizes)) (\<lambda>batch_size.
                 Inr (\<lparr>sz_local = local_size, sz_global = global_size, sz_batch = batch_size\<rparr>, True))))
          else Inr (sizes, False)))))"

text \<open>The measurement of one configuration: the codes of its calls, by repetition, and the seconds it took.\<close>

record tuning =
  tn_code :: "string \<Rightarrow> nat \<Rightarrow> cl_code"
  tn_seconds :: fdouble

fun tune_launches :: "tuning \<Rightarrow> nat list \<Rightarrow> bool outcome" where
  "tune_launches t [] = Inr True"
| "tune_launches t (repeat # repeats) =
    bindE (check (tn_code t ''tune start arg'' repeat) ''tune start arg'') (\<lambda>_.
      if tn_code t ''tune launch'' repeat \<noteq> 0 then Inr False else tune_launches t repeats)"

definition tune_configuration ::
    "gpu_info \<Rightarrow> (u64 \<Rightarrow> u64 \<Rightarrow> nat \<Rightarrow> tuning) \<Rightarrow> u64 \<times> u64 \<times> nat \<Rightarrow> fdouble \<times> gpu_sizes \<Rightarrow> (fdouble \<times> gpu_sizes) outcome" where
  "tune_configuration info tunings = (\<lambda>(local_size, global_size, repeats) (best_rate, sizes).
    if local_size > gi_max_workgroup_size info then Inr (best_rate, sizes)
    else
      let t = tunings local_size global_size repeats
      in bindE (check (tn_code t ''tune reset'' 0) ''tune reset'') (\<lambda>_.
         bindE (check (tn_code t ''tune count arg'' 0) ''tune count arg'') (\<lambda>_.
         bindE (tune_launches t [0..<repeats]) (\<lambda>launch_ok.
           if \<not> launch_ok then Inr (best_rate, sizes)
           else bindE (check (tn_code t ''tune finish'' 0) ''tune finish'') (\<lambda>_.
             let tested = double_mul (double_of_nat (unat global_size)) (double_of_nat repeats);
                 rate = (if double_less double_zero (tn_seconds t) then double_div tested (tn_seconds t) else double_zero)
             in Inr (if double_less best_rate rate
                     then (rate, \<lparr>sz_local = local_size, sz_global = global_size, sz_batch = global_size * of_nat repeats\<rparr>)
                     else (best_rate, sizes)))))))"

definition tune_configurations :: "(u64 \<times> u64 \<times> nat) list" where
  "tune_configurations =
    [(l, g, r). l \<leftarrow> [64, 128, 256], g \<leftarrow> [push_bit 16 1, push_bit 18 1, push_bit 20 1], r \<leftarrow> [1, 4, 16]]"

definition tuned_profile :: "'j json_api \<Rightarrow> gpu_info \<Rightarrow> gpu_sizes \<Rightarrow> 'j" where
  "tuned_profile J info sizes =
    j_object J [(''schema_version'', j_unsigned J 1), (''device_name'', j_string J (gi_name info)),
      (''vendor'', j_string J (gi_vendor info)), (''driver'', j_string J (gi_driver info)),
      (''local_work_size'', j_unsigned J (sz_local sizes)), (''global_work_size'', j_unsigned J (sz_global sizes)),
      (''batch_size'', j_unsigned J (sz_batch sizes)), (''tuned'', j_boolean J True)]"

section \<open>The whole thread\<close>

record gpu_setup =
  su_code :: "string \<Rightarrow> cl_code"
  su_source :: "string outcome"
  su_build_log :: string
  su_tunings :: "u64 \<Rightarrow> u64 \<Rightarrow> nat \<Rightarrow> tuning"
  su_save :: "unit outcome"

definition tuned_text :: "gpu_sizes \<Rightarrow> string" where
  "tuned_text sizes =
    ''[GPU] auto-tuning termin'' @ [char_of (195 :: nat), char_of (169 :: nat)] @ '': local='' @ to_string (unat (sz_local sizes)) @
      '' global='' @ to_string (unat (sz_global sizes))"

text \<open>\<open>Gpu_tuned\<close> is the saving of \<open>tuned_profile\<close> under the profile path.\<close>

definition auto_tuned :: "gpu_info \<Rightarrow> gpu_setup \<Rightarrow> gpu_sizes \<Rightarrow> gpu_sizes gpu" where
  "auto_tuned info su sizes =
    gpu_bind (gpu_lift (check (su_code su ''tune target write'') ''tune target write'')) (\<lambda>_.
    gpu_bind (gpu_lift (foldE (tune_configuration info (su_tunings su)) tune_configurations (double_zero, sizes))) (\<lambda>(rate, best).
    gpu_bind (gpu_lift (check (su_code su ''target restore'') ''target restore'')) (\<lambda>_.
    gpu_bind (gpu_lift (su_save su)) (\<lambda>_.
    gpu_bind (gpu_tell (Gpu_tuned (sz_local best) (sz_global best) (sz_batch best))) (\<lambda>_.
    gpu_bind (gpu_tell (Gpu_event (tuned_text best))) (\<lambda>_. gpu_return best))))))"

definition build_program :: "gpu_setup \<Rightarrow> unit outcome" where
  "build_program su =
    bindE (checks (su_code su) [''clCreateContext'', ''clCreateCommandQueue'']) (\<lambda>_.
    bindE (su_source su) (\<lambda>source.
    bindE (check (su_code su ''clCreateProgramWithSource'') ''clCreateProgramWithSource'') (\<lambda>_.
    bindE (if su_code su ''clBuildProgram'' \<noteq> 0
           then Inl (Runtime_error (''OpenCL kernel compilation failed: '' @ su_build_log su)) else Inr ()) (\<lambda>_.
      check (su_code su ''clCreateKernel'') ''clCreateKernel''))))"

definition set_up ::
    "'j json_api \<Rightarrow> disk \<Rightarrow> string \<Rightarrow> gpu_info \<Rightarrow> bool \<Rightarrow> live_mining_job \<Rightarrow> work_unit \<Rightarrow> gpu_setup \<Rightarrow> gpu_sizes gpu" where
  "set_up J d path info auto_tune job u su =
    gpu_bind (gpu_lift (build_program su)) (\<lambda>_.
    gpu_bind (gpu_lift (build_work (lm_job job) (lm_extranonce1 job) (u_extranonce2 u) 0)) (\<lambda>_.
    gpu_bind (gpu_lift (checks (su_code su) [''header buffer'', ''target buffer'', ''candidate count buffer'', ''candidate buffer'',
        ''kernel header arg'', ''kernel target arg'', ''kernel count arg'', ''kernel candidates arg''])) (\<lambda>_.
    gpu_bind (gpu_lift (profile_sizes J d path info)) (\<lambda>(sizes, matching).
    gpu_bind (if auto_tune \<and> \<not> matching then auto_tuned info su sizes else gpu_return sizes) (\<lambda>sizes.
    gpu_bind (gpu_lift (check (su_code su ''clCreateKernel sha256d_scan_observed'') ''clCreateKernel sha256d_scan_observed'')) (\<lambda>_.
      gpu_return sizes))))))"

definition observed_calls :: "string list" where
  "observed_calls = [''personal minimum buffer'', ''observed header arg'', ''observed target arg'', ''observed count arg'',
    ''observed candidates arg'', ''observed minima arg'', ''observed local minima arg'']"

definition initial_locals :: "live_mining_job \<Rightarrow> gpu_locals" where
  "initial_locals job =
    \<lparr>gl_target = lm_share_target job, gl_nonces = replicate 64 0, gl_bootstrap = False, gl_personal = None,
     gl_best_hash = [], gl_best_nonce = None\<rparr>"

text \<open>A work-group size of 0, which only a stored profile can give, divides by zero; that has no defined outcome, so
  it is \<open>None\<close> as well.\<close>

definition gpu_run ::
    "'j json_api \<Rightarrow> disk \<Rightarrow> string \<Rightarrow> gpu_info \<Rightarrow> bool \<Rightarrow> live_mining_job \<Rightarrow> work_unit option \<Rightarrow> gpu_setup \<Rightarrow>
      gpu_round list \<Rightarrow> gpu_call list option" where
  "gpu_run J d path info auto_tune job acquired su rounds =
    (case acquired of
       None \<Rightarrow> Some []
     | Some u \<Rightarrow>
         case set_up J d path info auto_tune job u su of
           (calls, Inl e) \<Rightarrow> Some (calls @ gpu_failed (u_id u) e)
         | (calls, Inr sizes) \<Rightarrow>
             if sz_local sizes = 0 then None
             else case checks (su_code su) observed_calls of
                    Inl e \<Rightarrow> Some (calls @ gpu_failed (u_id u) e)
                  | Inr _ \<Rightarrow> map_option ((@) calls)
                      (gpu_loop job (sz_local sizes) (sz_global sizes) (sz_batch sizes) u (initial_locals job) rounds))"

section \<open>What a launch hands on\<close>

text \<open>Documented of OpenCL: every work item of a launch runs exactly once.\<close>

definition runs_all :: "launch \<Rightarrow> bool" where
  "runs_all l \<longleftrightarrow> (\<forall>g < 2 ^ 32. length (ol_order l g) = unat g \<and> set (ol_order l g) = of_nat ` {..<unat g})"

definition personal_ok :: "gpu_locals \<Rightarrow> bool" where
  "personal_ok s \<longleftrightarrow> (\<forall>t. gl_personal s = Some t \<longrightarrow> length t = 32)"

definition gpu_ok :: "live_mining_job \<Rightarrow> gpu_locals \<Rightarrow> bool" where
  "gpu_ok job s \<longleftrightarrow> length (gl_nonces s) = 64 \<and> length (gl_target s) = 32 \<and> lm_share_target job \<le> gl_target s \<and>
    personal_ok s"

definition sizes_ok :: "u64 \<Rightarrow> u64 \<Rightarrow> bool" where
  "sizes_ok local_size global_size \<longleftrightarrow> 0 < local_size \<and> local_size \<le> 2 ^ 31 \<and> global_size \<le> 2 ^ 31"

lemma item_header_eq:
  assumes "length h = 80"
  shows "item_header h nonce = set_nonce h nonce"
proof -
  have "List.map ((!) h) [0..<76] = take 76 h" using assms by (intro nth_equalityI) simp_all
  then have "fold (\<lambda>i g. g[i := h ! i]) [0..<76] (replicate 80 0) = take 76 h @ replicate 4 0"
    by (subst fold_fill) simp_all
  moreover have "(take 76 h @ replicate 4 0)[76 := a, 77 := b, 78 := c, 79 := d] = take 76 h @ [a, b, c, d]" for a b c d
    using assms by (simp add: list_update_append numeral_eq_Suc)
  ultimately show ?thesis
    using assms by (simp add: item_header_def set_nonce_eq nonce_bytes_def)
qed

lemma launch_global_bounds:
  assumes "0 < l" "l \<le> (2 ^ 31 :: u64)" "ucast c \<le> (2 ^ 31 :: u64)"
  shows "unat c \<le> unat (launch_global l c)" "launch_global l c < 2 ^ 32"
proof -
  have l: "0 < unat l" "unat l \<le> 2 ^ 31" using assms(1,2) by (simp_all add: word_less_nat_alt word_le_nat_alt)
  have c: "unat (ucast c :: u64) = unat c" by (simp add: unat_ucast_u64)
  then have c31: "unat c \<le> 2 ^ 31" using assms(3) by (simp add: word_le_nat_alt)
  have sum: "unat (ucast c + l - 1 :: u64) = unat c + unat l - 1"
  proof -
    have "unat (ucast c + l :: u64) = unat c + unat l" using c31 l c by (simp add: unat_word_ariths)
    then show ?thesis using l by (subst unat_sub) (simp_all add: word_le_nat_alt)
  qed
  define q where "q = (unat c + unat l - 1) div unat l"
  have q: "q * unat l \<le> unat c + unat l - 1" "unat c \<le> q * unat l"
  proof -
    show "q * unat l \<le> unat c + unat l - 1" by (simp add: q_def)
    have "unat c + unat l - 1 < q * unat l + unat l"
      unfolding q_def using l(1) by (metis add.commute div_mult_mod_eq mod_less_divisor nat_add_left_cancel_less)
    then show "unat c \<le> q * unat l" using l(1) by simp
  qed
  have "unat ((ucast c + l - 1) div l :: u64) = q" unfolding q_def by (simp only: unat_div sum)
  moreover have "q * unat l < 2 ^ 64" using q(1) c31 l by simp
  ultimately have "unat (launch_global l c) = q * unat l"
    by (simp add: launch_global_def unat_word_ariths(2))
  then show "unat c \<le> unat (launch_global l c)" "launch_global l c < 2 ^ 32"
    using q c31 l by (simp_all add: word_less_nat_alt)
qed

lemma target_of_hash: "target_from_hex (bitcoin_hash_hex (sha256d h)) = Inr (rev (sha256d h))"
  by (simp add: target_from_hex_def bitcoin_hash_hex_def)

lemma accept_candidate_result:
  assumes "accept_candidate job u built nonce (s, changed) = (cs, Inr (s', changed'))"
  shows "cs = [Gpu_candidate (gpu_candidate_of job u built nonce
      (hash_meets_target (sha256d (set_nonce (bw_header built) nonce)) (lm_share_target job)))]"
    "gl_nonces s' = gl_nonces s" "gl_target s' = gl_target s" "gl_bootstrap s' = gl_bootstrap s"
    "personal_ok s \<Longrightarrow> personal_ok s'"
  using assms by (auto simp: accept_candidate_def personal_ok_def Let_def target_of_hash gpu_lift_def gpu_return_def gpu_tell_def gpu_bind_def
      split: if_splits)

lemma accept_candidates_result:
  assumes "accept_candidates job u built nonces s = (cs, Inr s')"
  shows "cs = List.map (\<lambda>nonce. Gpu_candidate (gpu_candidate_of job u built nonce
      (hash_meets_target (sha256d (set_nonce (bw_header built) nonce)) (lm_share_target job)))) nonces \<and>
    gl_nonces (fst s') = gl_nonces (fst s) \<and> gl_target (fst s') = gl_target (fst s) \<and>
    gl_bootstrap (fst s') = gl_bootstrap (fst s) \<and> (personal_ok (fst s) \<longrightarrow> personal_ok (fst s'))"
  using assms
proof (induction nonces arbitrary: s cs)
  case Nil
  then show ?case by (simp add: gpu_return_def)
next
  case (Cons nonce nonces)
  from Cons.prems obtain s1 c1 c2 where
      step: "accept_candidate job u built nonce (fst s, snd s) = (c1, Inr (fst s1, snd s1))"
      and rest: "accept_candidates job u built nonces s1 = (c2, Inr s')" and cs: "cs = c1 @ c2"
    by (auto elim!: gpu_bind_InrE)
  show ?case using accept_candidate_result [OF step] Cons.IH [OF rest] cs by simp
qed

lemma bootstrap_result:
  assumes "bootstrap job u built minima s = (cs, Inr s')"
  shows "gl_nonces s' = gl_nonces s \<and> gl_target s' = gl_target s \<and> personal_ok s'"
  using assms by (auto simp: bootstrap_def Let_def target_of_hash gpu_lift_def gpu_return_def gpu_tell_def gpu_bind_def personal_ok_def)

lemma update_target_ok:
  assumes "update_target job l (s, changed) = (cs, Inr s')" "gpu_ok job s" "length (lm_share_target job) = 32"
  shows "gpu_ok job s'"
proof (cases "changed \<and> gl_personal s \<noteq> None")
  case False
  then have "s' = s" using assms(1) by (auto simp: update_target_def gpu_return_def split: bool.splits option.splits)
  then show ?thesis using assms(2) by simp
next
  case True
  then obtain personal where "changed" "gl_personal s = Some personal" by auto
  then have "s' = s\<lparr>gl_target := if lm_share_target job < personal then personal else lm_share_target job\<rparr>"
    using assms(1) by (auto simp: update_target_def Let_def gpu_return_def elim!: gpu_lift_InrE)
  then show ?thesis
    using assms(2,3) \<open>gl_personal s = Some personal\<close> by (auto simp: gpu_ok_def personal_ok_def)
qed

text \<open>What one launch does when all its calls succeed.\<close>

definition hands_on ::
    "live_mining_job \<Rightarrow> work_unit \<Rightarrow> built_work \<Rightarrow> gpu_call list \<Rightarrow> u32 \<Rightarrow> bool" where
  "hands_on job u built cs nonce \<longleftrightarrow>
    Gpu_candidate (gpu_candidate_of job u built nonce True) \<in> set cs \<or>
    (\<exists>start c hits. Launched start c hits \<in> set cs \<and> 64 < hits \<and> nonce - start < c)"

lemma hands_on_mono: "hands_on job u built cs nonce \<Longrightarrow> set cs \<subseteq> set ds \<Longrightarrow> hands_on job u built ds nonce"
  by (auto simp: hands_on_def)

lemma run_launch_stages:
  assumes "run_launch job u built local_size start c l s = (cs, Inr s')"
  defines "out \<equiv> sha256d_scan (bw_header built) start c (gl_target s) (ol_order l (launch_global local_size c)) (0, gl_nonces s)"
  obtains s2 changed c1 c2 c3 r where
    "gl_nonces s2 = snd out" "gl_target s2 = gl_target s" "personal_ok s \<longrightarrow> personal_ok s2"
    "if fst out > 0 then accept_candidates job u built (take (unat (min (fst out) 64)) (snd out)) (s2, changed) = (c2, Inr r)
     else c2 = [] \<and> r = (s2, changed)"
    "update_target job l r = (c3, Inr s')" "cs = c1 @ Launched start c (fst out) # c2 @ c3"
proof -
  let ?s1 = "s\<lparr>gl_nonces := snd out\<rparr>"
  from assms(1) obtain r0 c1 r c0 c2 c3 where
      first: "(if gl_bootstrap ?s1 then gpu_return (?s1, False)
        else gpu_bind (gpu_lift (check (ol_code l ''personal minima read'') ''personal minima read'')) (\<lambda>_.
             gpu_bind (bootstrap job u built (group_minima built local_size start c) ?s1) (\<lambda>s2. gpu_return (s2, True)))) = (c1, Inr r0)"
      and second: "(if fst out > 0
         then gpu_bind (gpu_lift (check (ol_code l ''candidate read'') ''candidate read'')) (\<lambda>_.
              accept_candidates job u built (take (unat (min (fst out) 64)) (snd out)) r0)
         else gpu_return r0) = (c2, Inr r)"
      and third: "update_target job l r = (c3, Inr s')" and cs: "cs = c1 @ Launched start c (fst out) # c2 @ c3"
    unfolding run_launch_def Let_def out_def [symmetric]
    by (elim gpu_lift_InrE gpu_bind_InrE) (auto simp: gpu_tell_def)
  obtain s2 changed where r0: "r0 = (s2, changed)" by fastforce
  have "gl_nonces s2 = snd out \<and> gl_target s2 = gl_target s \<and> (personal_ok s \<longrightarrow> personal_ok s2)"
    using first by (auto simp: r0 gpu_return_def personal_ok_def split: if_splits
        elim!: gpu_lift_InrE gpu_bind_InrE dest!: bootstrap_result)
  moreover have "if fst out > 0 then accept_candidates job u built (take (unat (min (fst out) 64)) (snd out)) (s2, changed) = (c2, Inr r)
     else c2 = [] \<and> r = (s2, changed)"
    using second by (auto simp: r0 gpu_return_def split: if_splits elim!: gpu_lift_InrE)
  ultimately show thesis using that third cs by blast
qed

lemma run_launch_hands_on:
  assumes run: "run_launch job u built local_size start c l s = (cs, Inr s')"
    and ok: "gpu_ok job s" "length (lm_share_target job) = 32" "length (bw_header built) = 80"
    and sizes: "0 < local_size" "local_size \<le> 2 ^ 31" "ucast c \<le> (2 ^ 31 :: u64)" and all: "runs_all l"
  shows "gpu_ok job s'"
    and "nonce - start < c \<Longrightarrow> hash_meets_target (sha256d (set_nonce (bw_header built) nonce)) (lm_share_target job) \<Longrightarrow>
      hands_on job u built cs nonce"
proof -
  define gids where "gids = ol_order l (launch_global local_size c)"
  define out where "out = sha256d_scan (bw_header built) start c (gl_target s) gids (0, gl_nonces s)"
  define hits where "hits = List.filter (\<lambda>gid. gid < c \<and> hash_meets_target (sha256d (item_header (bw_header built) (start + gid))) (gl_target s)) gids"
  note bounds = launch_global_bounds [OF sizes]
  have gids: "length gids < 2 ^ 32" "set gids = of_nat ` {..<unat (launch_global local_size c)}"
    using all bounds(2) by (simp_all add: runs_all_def gids_def word_less_nat_alt)
  have "length (gl_nonces s) = 64" "length (gl_target s) = 32" using ok(1) by (simp_all add: gpu_ok_def)
  from scan_reports_hits [OF this gids(1), where prefix = "bw_header built" and nonce_start = start and nonce_count = c]
  have out: "unat (fst out) = length hits" "length (snd out) = 64" "take (length hits) (snd out) = List.map ((+) start) (take 64 hits)"
    by (simp_all add: Let_def out_def hits_def)
  obtain s2 changed c1 c2 c3 r where s2: "gl_nonces s2 = snd out" "gl_target s2 = gl_target s" "personal_ok s \<longrightarrow> personal_ok s2"
    and second: "if fst out > 0 then accept_candidates job u built (take (unat (min (fst out) 64)) (snd out)) (s2, changed) = (c2, Inr r)
     else c2 = [] \<and> r = (s2, changed)"
    and third: "update_target job l r = (c3, Inr s')" and cs: "cs = c1 @ Launched start c (fst out) # c2 @ c3"
    by (rule run_launch_stages [OF run, folded gids_def, folded out_def]) (rule that; assumption)
  have s2_ok: "gpu_ok job s2" using ok(1) s2 out(2) by (simp add: gpu_ok_def)
  have "gpu_ok job (fst r)"
    using second s2_ok by (auto simp: gpu_ok_def split: if_splits dest: accept_candidates_result)
  then show "gpu_ok job s'" using update_target_ok [of job l "fst r" "snd r"] third ok(2) by simp
  assume nonce: "nonce - start < c" "hash_meets_target (sha256d (set_nonce (bw_header built) nonce)) (lm_share_target job)"
  show "hands_on job u built cs nonce"
  proof (cases "length hits \<le> 64")
    case False
    then have "64 < fst out" using out(1) by (simp add: word_less_nat_alt)
    then show ?thesis using nonce(1) by (auto simp: cs hands_on_def)
  next
    case True
    define gid where "gid = nonce - start"
    have "unat gid < unat (launch_global local_size c)"
      using nonce(1) bounds(1) by (simp add: gid_def word_less_nat_alt)
    then have "gid \<in> set gids" unfolding gids(2) by (intro image_eqI [of _ _ "unat gid"]) simp_all
    moreover have "hash_meets_target (sha256d (set_nonce (bw_header built) nonce)) (gl_target s)"
    proof -
      have len: "length (sha256d h) = 32" "length (gl_target s) = 32" for h using ok(1) by (simp_all add: gpu_ok_def)
      have "be_val (lm_share_target job) \<le> be_val (gl_target s)"
        using ok(1,2) by (simp add: gpu_ok_def be_val_le_iff)
      then show ?thesis using nonce(2) by (auto simp: hash_meets_target_iff len ok(2))
    qed
    ultimately have hit: "gid \<in> set hits"
      using nonce(1) by (simp add: hits_def gid_def item_header_eq ok(3))
    then have "0 < length hits" by (cases hits) simp_all
    then have pos: "fst out > 0" using out(1) by (simp add: word_less_nat_alt)
    have "unat (min (fst out) 64) = length hits"
      using out(1) True by (simp add: min_def word_le_nat_alt)
    then have taken: "take (unat (min (fst out) 64)) (snd out) = List.map ((+) start) hits"
      using out(3) True by simp
    have "nonce \<in> set (List.map ((+) start) hits)" using hit by (auto simp: gid_def intro: image_eqI [of _ _ "nonce - start"])
    moreover have "c2 = List.map (\<lambda>nonce. Gpu_candidate (gpu_candidate_of job u built nonce
      (hash_meets_target (sha256d (set_nonce (bw_header built) nonce)) (lm_share_target job)))) (List.map ((+) start) hits)"
      using second pos taken by (auto dest: accept_candidates_result)
    ultimately have "Gpu_candidate (gpu_candidate_of job u built nonce
      (hash_meets_target (sha256d (set_nonce (bw_header built) nonce)) (lm_share_target job))) \<in> set c2"
      by (simp only: set_map image_eqI)
    then show ?thesis using nonce(2) by (simp add: cs hands_on_def)
  qed
qed

section \<open>What a unit hands on\<close>

definition share_at :: "live_mining_job \<Rightarrow> built_work \<Rightarrow> nat \<Rightarrow> bool" where
  "share_at job built k \<longleftrightarrow> hash_meets_target (sha256d (set_nonce (bw_header built) (of_nat k))) (lm_share_target job)"

text \<open>The shares of the positions from \<open>a\<close> up to \<open>b\<close> are in the calls.\<close>

definition hands_range :: "live_mining_job \<Rightarrow> work_unit \<Rightarrow> built_work \<Rightarrow> gpu_call list \<Rightarrow> nat \<Rightarrow> nat \<Rightarrow> bool" where
  "hands_range job u built cs a b \<longleftrightarrow> (\<forall>k. a \<le> k \<longrightarrow> k < b \<longrightarrow> share_at job built k \<longrightarrow> hands_on job u built cs (of_nat k))"

lemma hands_range_join:
  "hands_range job u built cs a b \<Longrightarrow> hands_range job u built ds b c \<Longrightarrow> hands_range job u built (cs @ ds) a c"
  unfolding hands_range_def by (metis Un_upper1 Un_upper2 hands_on_mono linorder_not_le set_append)

lemma hands_range_empty: "hands_range job u built cs a a"
  by (simp add: hands_range_def)

lemma launch_hands_range:
  assumes "run_launch job u built local_size (ucast position) (ucast n) l s = (cs, Inr s')"
    and "gpu_ok job s" "length (lm_share_target job) = 32" "length (bw_header built) = 80" "sizes_ok local_size global_size"
    and "n \<le> global_size" "runs_all l"
  shows "gpu_ok job s'" "hands_range job u built cs (unat position) (unat position + unat n)"
proof -
  have n: "unat n \<le> 2 ^ 31" using assms(5,6) by (simp add: sizes_ok_def word_le_nat_alt)
  then have c: "unat (ucast n :: u32) = unat n" by (simp add: unsigned_ucast_eq take_bit_eq_mod)
  have "0 < local_size" "local_size \<le> 2 ^ 31" "ucast (ucast n :: u32) \<le> (2 ^ 31 :: u64)"
    using assms(5) n c by (simp_all add: sizes_ok_def word_le_nat_alt)
  note launch = run_launch_hands_on [OF assms(1-4) this assms(7)]
  show "gpu_ok job s'" by (rule launch(1))
  show "hands_range job u built cs (unat position) (unat position + unat n)"
    unfolding hands_range_def
  proof (intro allI impI)
    fix k assume k: "unat position \<le> k" "k < unat position + unat n" "share_at job built k"
    have "(of_nat k :: u32) - ucast position = of_nat (k - unat position)"
      using k(1) by (simp add: of_nat_diff)
    moreover have "unat (of_nat m :: u32) = m" if "m \<le> 2 ^ 31" for m using that by (simp add: unat_of_nat)
    then have "unat (of_nat (k - unat position) :: u32) = k - unat position" by this (use k(1,2) n in simp)
    ultimately have "(of_nat k :: u32) - ucast position < ucast n" using k c by (simp add: word_less_nat_alt)
    then show "hands_on job u built cs (of_nat k)" using launch(2) k(3) by (simp add: share_at_def)
  qed
qed

lemma batch_hands_range:
  assumes "batch_loop job u built local_size global_size nonce batch_count processed s ls = Some (cs, Inr (processed', s'))"
    and "gpu_ok job s" "length (lm_share_target job) = 32" "length (bw_header built) = 80" "sizes_ok local_size global_size"
    and "processed \<le> batch_count" "unat nonce + unat batch_count < 2 ^ 64" "\<forall>l \<in> set ls. runs_all l"
  shows "processed' \<le> batch_count \<and> gpu_ok job s' \<and>
    hands_range job u built cs (unat nonce + unat processed) (unat nonce + unat processed')"
  using assms
proof (induction ls arbitrary: processed s cs)
  case Nil
  then show ?case by (auto simp: gpu_return_def hands_range_empty split: if_splits)
next
  case (Cons l ls)
  show ?case
  proof (cases "processed < batch_count \<and> \<not> ol_halt l")
    case False
    then have "processed' = processed \<and> s' = s \<and> cs = []" using Cons.prems(1) by (auto simp: gpu_return_def split: if_splits)
    then show ?thesis using Cons.prems(2,6) by (simp add: hands_range_empty)
  next
    case True
    define n where "n = min global_size (batch_count - processed)"
    obtain c1 r where launched: "run_launch job u built local_size (ucast (nonce + processed)) (ucast n) l s = (c1, r)" by fastforce
    with Cons.prems(1) True obtain s1 c2 where r: "r = Inr s1"
        and rest: "batch_loop job u built local_size global_size nonce batch_count (processed + n) s1 ls = Some (c2, Inr (processed', s'))"
        and cs: "cs = c1 @ c2"
      by (auto simp: Let_def gpu_bind_Inr simp flip: n_def split: sum.splits)
    have p: "unat processed < unat batch_count" using True by (simp add: word_less_nat_alt)
    have un: "unat n \<le> unat batch_count - unat processed" using p by (simp add: n_def min_def word_le_nat_alt unat_sub)
    have at: "unat (nonce + processed) = unat nonce + unat processed"
      using p Cons.prems(7) by (simp add: unat_word_ariths(1))
    have pn: "unat (processed + n) = unat processed + unat n"
      using p un unsigned_less [of batch_count, where ?'a = nat] by (simp add: unat_word_ariths(1))
    have "n \<le> global_size" "runs_all l" using Cons.prems(8) by (simp_all add: n_def)
    note launch = launch_hands_range [OF launched [unfolded r] Cons.prems(2-5) this]
    have "processed + n \<le> batch_count" using p un pn by (simp add: word_le_nat_alt)
    from Cons.IH [OF rest launch(1) Cons.prems(3-5) this Cons.prems(7)] Cons.prems(8)
    have IH: "processed' \<le> batch_count \<and> gpu_ok job s' \<and>
        hands_range job u built c2 (unat nonce + unat (processed + n)) (unat nonce + unat processed')" by simp
    have "hands_range job u built c1 (unat nonce + unat processed) (unat nonce + unat (processed + n))"
      using launch(2) unfolding at pn by (simp add: add.assoc)
    then show ?thesis using IH by (auto simp: cs intro: hands_range_join)
  qed
qed

lemma unit_hands_range:
  assumes "unit_loop job u built local_size global_size batch_size nonce s bs = Some (cs, Inr (nonce', s'))"
    and "gpu_ok job s" "length (lm_share_target job) = 32" "length (bw_header built) = 80" "sizes_ok local_size global_size"
    and "\<forall>b \<in> set bs. \<forall>l \<in> set (ob_launches b). runs_all l"
  shows "gpu_ok job s' \<and> hands_range job u built cs (unat nonce) (unat nonce')"
  using assms
proof (induction bs arbitrary: nonce s cs)
  case Nil
  then show ?case by (auto simp: gpu_return_def hands_range_empty split: if_splits)
next
  case (Cons b bs)
  show ?case
  proof (cases "nonce < u_nonce_end u \<and> \<not> ob_halt b")
    case False
    then have "nonce' = nonce \<and> s' = s \<and> cs = []" using Cons.prems(1) by (auto simp: gpu_return_def split: if_splits)
    then show ?thesis using Cons.prems(2) by (simp add: hands_range_empty)
  next
    case True
    define bc where "bc = min batch_size (u_nonce_end u - nonce)"
    from Cons.prems(1) True obtain c1 processed s1 where
        batch: "batch_loop job u built local_size global_size nonce bc 0 s (ob_launches b) = Some (c1, Inr (processed, s1))"
      by (auto simp flip: bc_def split: option.splits sum.splits prod.splits)
    have lt: "unat nonce < unat (u_nonce_end u)" using True by (simp add: word_less_nat_alt)
    then have ubc: "unat bc \<le> unat (u_nonce_end u) - unat nonce" by (simp add: bc_def min_def word_le_nat_alt unat_sub)
    have "unat nonce + unat bc < 2 ^ 64"
      using lt ubc unsigned_less [of "u_nonce_end u", where ?'a = nat] by simp
    from batch_hands_range [OF batch Cons.prems(2-5) _ this] Cons.prems(6)
    have first: "processed \<le> bc" "gpu_ok job s1" "hands_range job u built c1 (unat nonce) (unat nonce + unat processed)" by simp_all
    have at: "unat (nonce + processed) = unat nonce + unat processed"
      using first(1) \<open>unat nonce + unat bc < 2 ^ 64\<close> by (simp add: word_le_nat_alt unat_word_ariths(1))
    let ?report = "batch_report u (nonce + processed) processed s1"
    have first': "hands_range job u built (c1 @ ?report) (unat nonce) (unat nonce + unat processed)"
      using hands_range_join [OF first(3) hands_range_empty] .
    show ?thesis
    proof (cases "processed = 0")
      case True
      then have "nonce' = nonce \<and> s' = s1 \<and> cs = c1 @ ?report"
        using Cons.prems(1) \<open>nonce < u_nonce_end u \<and> \<not> ob_halt b\<close> batch
        by (auto simp: gpu_bind_Inr gpu_return_def simp flip: bc_def)
      then show ?thesis using first(2) by (simp add: hands_range_empty)
    next
      case False
      then obtain c2 where rest: "unit_loop job u built local_size global_size batch_size (nonce + processed) s1 bs =
          Some (c2, Inr (nonce', s'))" and cs: "cs = (c1 @ ?report) @ c2"
        using Cons.prems(1) \<open>nonce < u_nonce_end u \<and> \<not> ob_halt b\<close> batch
        by (auto simp: gpu_bind_Inr simp flip: bc_def)
      from Cons.IH [OF rest first(2) Cons.prems(3-5)] Cons.prems(6)
      have "gpu_ok job s' \<and> hands_range job u built c2 (unat nonce + unat processed) (unat nonce')" unfolding at by simp
      then show ?thesis unfolding cs using hands_range_join [OF first'] by blast
    qed
  qed
qed

section \<open>Units end\<close>

text \<open>Nothing interferes: no test ends the loops and every OpenCL call succeeds.\<close>

definition calm :: "launch \<Rightarrow> bool" where
  "calm l \<longleftrightarrow> \<not> ol_halt l \<and> (\<forall>operation. ol_code l operation = 0)"

definition gpu_succeeds :: "'a gpu \<Rightarrow> bool" where
  "gpu_succeeds m \<longleftrightarrow> (\<exists>cs x. m = (cs, Inr x))"

lemma gpu_succeeds_intros [intro]:
  "gpu_succeeds (gpu_return x)" "gpu_succeeds (gpu_tell c)" "gpu_succeeds (gpu_lift (Inr x))"
  "gpu_succeeds (c # fst (gpu_return x), snd (gpu_return x))"
  by (simp_all add: gpu_succeeds_def gpu_return_def gpu_tell_def gpu_lift_def)

lemma gpu_succeeds_bind:
  assumes "gpu_succeeds m" "\<And>x. gpu_succeeds (f x)"
  shows "gpu_succeeds (gpu_bind m f)"
proof -
  obtain cs x where "m = (cs, Inr x)" using assms(1) by (auto simp: gpu_succeeds_def)
  moreover obtain ds y where "f x = (ds, Inr y)" using assms(2) [of x] by (auto simp: gpu_succeeds_def)
  ultimately show ?thesis by (simp add: gpu_succeeds_def gpu_bind_Inr)
qed

lemma gpu_succeeds_if: "(b \<Longrightarrow> gpu_succeeds m) \<Longrightarrow> (\<not> b \<Longrightarrow> gpu_succeeds n) \<Longrightarrow> gpu_succeeds (if b then m else n)"
  by simp

lemma accept_candidates_succeeds: "gpu_succeeds (accept_candidates job u built nonces s)"
proof (induction nonces arbitrary: s)
  case (Cons nonce nonces)
  have "gpu_succeeds (accept_candidate job u built nonce s)"
    by (cases s) (auto simp: accept_candidate_def Let_def target_of_hash intro!: gpu_succeeds_bind)
  then show ?case using Cons by (auto intro: gpu_succeeds_bind)
qed auto

lemma run_launch_returns:
  assumes "calm l"
  shows "\<exists>cs s'. run_launch job u built local_size start c l s = (cs, Inr s')"
proof -
  have ok: "check (ol_code l op) op = Inr ()" "checks (ol_code l) ops = Inr ()" for op ops
  proof -
    show "check (ol_code l op) op = Inr ()" for op using assms by (simp add: check_def calm_def)
    then show "checks (ol_code l) ops = Inr ()" by (induction ops) (simp_all add: checks_def)
  qed
  have "gpu_succeeds (bootstrap job u built minima s1)" for minima s1
    by (auto simp: bootstrap_def Let_def target_of_hash intro!: gpu_succeeds_bind)
  moreover have "gpu_succeeds (update_target job l r)" for r
    by (auto simp: update_target_def ok Let_def intro!: gpu_succeeds_bind split: prod.splits bool.splits option.splits)
  ultimately have "gpu_succeeds (run_launch job u built local_size start c l s)"
    unfolding run_launch_def Let_def ok by (intro gpu_succeeds_bind gpu_succeeds_if gpu_succeeds_intros accept_candidates_succeeds)
  then show ?thesis by (simp add: gpu_succeeds_def)
qed

lemma batch_returns:
  assumes "list_all calm ls" "0 < global_size" "processed \<le> batch_count" "unat batch_count - unat processed \<le> length ls"
  shows "\<exists>cs s'. batch_loop job u built local_size global_size nonce batch_count processed s ls = Some (cs, Inr (batch_count, s'))"
  using assms
proof (induction ls arbitrary: processed s)
  case Nil
  then have "processed = batch_count" by (simp add: word_le_nat_alt word_unat_eq_iff)
  then show ?case by (simp add: gpu_return_def)
next
  case (Cons l ls)
  show ?case
  proof (cases "processed < batch_count")
    case False
    then show ?thesis using Cons.prems(3) by (simp add: gpu_return_def)
  next
    case True
    define n where "n = min global_size (batch_count - processed)"
    have p: "unat processed < unat batch_count" using True by (simp add: word_less_nat_alt)
    have un: "unat n \<le> unat batch_count - unat processed" "0 < unat n"
      using p Cons.prems(2) by (simp_all add: n_def min_def word_le_nat_alt unat_sub word_less_nat_alt)
    have pn: "unat (processed + n) = unat processed + unat n"
      using p un unsigned_less [of batch_count, where ?'a = nat] by (simp add: unat_word_ariths(1))
    have "processed + n \<le> batch_count" "unat batch_count - unat (processed + n) \<le> length ls"
      using p un pn Cons.prems(4) by (simp_all add: word_le_nat_alt)
    moreover obtain c1 s1 where "run_launch job u built local_size (ucast (nonce + processed)) (ucast n) l s = (c1, Inr s1)"
      using run_launch_returns Cons.prems(1) by fastforce
    ultimately show ?thesis
      using True Cons.prems(1,2) Cons.IH [of "processed + n" s1]
      by (auto simp: Let_def calm_def gpu_bind_Inr simp flip: n_def)
  qed
qed

lemma unit_returns:
  assumes "\<forall>b \<in> set bs. \<not> ob_halt b \<and> list_all calm (ob_launches b) \<and> unat (u_nonce_end u) - unat nonce \<le> length (ob_launches b)"
    and "0 < global_size" "0 < batch_size" "nonce \<le> u_nonce_end u" "unat (u_nonce_end u) - unat nonce \<le> length bs"
  shows "\<exists>cs s'. unit_loop job u built local_size global_size batch_size nonce s bs = Some (cs, Inr (u_nonce_end u, s'))"
  using assms
proof (induction bs arbitrary: nonce s)
  case Nil
  then have "nonce = u_nonce_end u" by (simp add: word_le_nat_alt word_unat_eq_iff)
  then show ?case by (simp add: gpu_return_def)
next
  case (Cons b bs)
  show ?case
  proof (cases "nonce < u_nonce_end u")
    case False
    then show ?thesis using Cons.prems(4) by (simp add: gpu_return_def)
  next
    case True
    define n where "n = min batch_size (u_nonce_end u - nonce)"
    have p: "unat nonce < unat (u_nonce_end u)" using True by (simp add: word_less_nat_alt)
    have un: "unat n \<le> unat (u_nonce_end u) - unat nonce" "0 < unat n"
      using p Cons.prems(3) by (simp_all add: n_def min_def word_le_nat_alt unat_sub word_less_nat_alt)
    have pn: "unat (nonce + n) = unat nonce + unat n"
      using p un unsigned_less [of "u_nonce_end u", where ?'a = nat] by (simp add: unat_word_ariths(1))
    obtain c1 s1 where batch: "batch_loop job u built local_size global_size nonce n 0 s (ob_launches b) = Some (c1, Inr (n, s1))"
      using batch_returns [of "ob_launches b" global_size 0 n job u built local_size nonce s] Cons.prems(1,2) un by auto
    have later: "nonce + n \<le> u_nonce_end u" "unat (u_nonce_end u) - unat (nonce + n) \<le> length bs"
      using p un pn Cons.prems(5) by (simp_all add: word_le_nat_alt)
    have "\<forall>b \<in> set bs. \<not> ob_halt b \<and> list_all calm (ob_launches b) \<and> unat (u_nonce_end u) - unat (nonce + n) \<le> length (ob_launches b)"
      using Cons.prems(1) pn by force
    from Cons.IH [OF this Cons.prems(2,3) later, of s1] obtain c2 s2 where
      "unit_loop job u built local_size global_size batch_size (nonce + n) s1 bs = Some (c2, Inr (u_nonce_end u, s2))" by blast
    then show ?thesis
      using True Cons.prems(1) batch un(2) by (auto simp: Let_def gpu_bind_Inr simp flip: n_def)
  qed
qed

section \<open>Properties\<close>

text \<open>C8: whatever the runtime and the other threads do, every nonce up to the position a unit reached whose hash meets
  the share target has been handed on as a share, unless its launch found more than the 64 hits the buffer holds;
  and when nothing interferes the unit is worked to its end.\<close>

theorem gpu_unit_exhaustive:
  assumes "gpu_ok job s" "length (lm_share_target job) = 32" "length (bw_header built) = 80" "sizes_ok local_size global_size"
    and "\<forall>b \<in> set bs. \<forall>l \<in> set (ob_launches b). runs_all l"
  shows "(\<forall>cs nonce s' k. unit_loop job u built local_size global_size batch_size (u_nonce_next u) s bs = Some (cs, Inr (nonce, s')) \<longrightarrow>
      u_nonce_next u \<le> k \<longrightarrow> k < nonce \<longrightarrow> hash_meets_target (digest_at (bw_header built) k) (lm_share_target job) \<longrightarrow>
      Gpu_candidate (gpu_candidate_of job u built (ucast k) True) \<in> set cs \<or>
      (\<exists>start c hits. Launched start c hits \<in> set cs \<and> 64 < hits \<and> ucast k - start < c)) \<and>
    (0 < global_size \<longrightarrow> 0 < batch_size \<longrightarrow> u_nonce_next u \<le> u_nonce_end u \<longrightarrow> unat (u_nonce_end u) - unat (u_nonce_next u) \<le> length bs \<longrightarrow>
      (\<forall>b \<in> set bs. \<not> ob_halt b \<and> list_all calm (ob_launches b) \<and> unat (u_nonce_end u) - unat (u_nonce_next u) \<le> length (ob_launches b)) \<longrightarrow>
      (\<exists>cs s'. unit_loop job u built local_size global_size batch_size (u_nonce_next u) s bs = Some (cs, Inr (u_nonce_end u, s'))))"
proof (intro conjI allI impI)
  fix cs nonce s' k
  assume loop: "unit_loop job u built local_size global_size batch_size (u_nonce_next u) s bs = Some (cs, Inr (nonce, s'))"
    and k: "u_nonce_next u \<le> k" "k < nonce" "hash_meets_target (digest_at (bw_header built) k) (lm_share_target job)"
  have "hands_range job u built cs (unat (u_nonce_next u)) (unat nonce)" using unit_hands_range [OF loop assms] by blast
  note at = this [unfolded hands_range_def, rule_format, of "unat k"]
  have "share_at job built (unat k)" using k(3) by (simp add: share_at_def digest_at_def)
  then have "hands_on job u built cs (ucast k)"
    using at k(1,2) by (simp add: word_le_nat_alt word_less_nat_alt)
  then show "Gpu_candidate (gpu_candidate_of job u built (ucast k) True) \<in> set cs \<or>
      (\<exists>start c hits. Launched start c hits \<in> set cs \<and> 64 < hits \<and> ucast k - start < c)"
    by (simp add: hands_on_def)
qed (rule unit_returns)

definition example_launch :: launch where
  "example_launch = \<lparr>ol_halt = False, ol_code = (\<lambda>_. 0), ol_order = (\<lambda>g. List.map of_nat [0..<unat g])\<rparr>"

definition example_batches :: "gpu_batch list" where
  "example_batches = replicate 3 \<lparr>ob_halt = False, ob_launches = replicate 3 example_launch\<rparr>"

lemma example_launch_facts: "runs_all example_launch" "calm example_launch"
  by (auto simp: runs_all_def calm_def example_launch_def)

theorem gpu_unit_exhaustive_witness:
  "\<exists>cs s'. unit_loop example_job example_unit example_built 2 2 4 5 (initial_locals example_job) example_batches = Some (cs, Inr (8, s')) \<and>
    (Gpu_candidate (gpu_candidate_of example_job example_unit example_built 6 True) \<in> set cs \<or>
     (\<exists>start c hits. Launched start c hits \<in> set cs \<and> 64 < hits \<and> 6 - start < c))"
proof -
  have ok: "gpu_ok example_job (initial_locals example_job)" "length (lm_share_target example_job) = 32" "sizes_ok 2 2"
    by (simp_all add: gpu_ok_def personal_ok_def initial_locals_def example_job_def sizes_ok_def)
  have bs: "\<forall>b \<in> set example_batches. \<forall>l \<in> set (ob_launches b). runs_all l"
    "\<forall>b \<in> set example_batches. \<not> ob_halt b \<and> list_all calm (ob_launches b) \<and> 3 \<le> length (ob_launches b)"
    by (simp_all add: example_batches_def example_launch_facts list_all_iff)
  have target: "lm_share_target example_job = replicate 32 0xff" by (simp add: example_job_def)
  have len: "length (digest_at (bw_header example_built) 6) = 32" by (simp add: digest_at_def)
  have "hash_meets_target (digest_at (bw_header example_built) 6) (lm_share_target example_job)"
  proof -
    have "le_val (digest_at (bw_header example_built) 6) \<le> be_val (replicate 32 0xff :: bytes)"
      using le_val_bound [of "digest_at (bw_header example_built) 6"] len by (simp add: max_target)
    then show ?thesis using len by (simp add: target hash_meets_target_iff)
  qed
  note hit = this and all = gpu_unit_exhaustive [OF ok(1,2) example_facts(1) ok(3) bs(1), of example_unit 4]
  obtain cs s' where run: "unit_loop example_job example_unit example_built 2 2 4 5 (initial_locals example_job) example_batches = Some (cs, Inr (8, s'))"
    using conjunct2 [OF all] bs(2) by (auto simp: example_facts example_batches_def)
  show ?thesis
    using run conjunct1 [OF all, rule_format, of cs 8 s' 6] hit by (simp add: example_facts)
qed

section \<open>The best group of the first launch\<close>

lemma words_precede_key:
  assumes "length (fst a) = 8" "length (fst b) = 8"
  shows "words_precede a b [0..<8] \<longleftrightarrow> entry_key a < entry_key b"
proof -
  have "words_precede a b is \<longleftrightarrow> List.map ((!) (fst a)) is @ [snd a] < List.map ((!) (fst b)) is @ [snd b]" for "is"
    by (induction "is") auto
  then show ?thesis using assms by (simp add: entry_key_def map_nth_upt)
qed

lemma best_group_least:
  assumes "minima \<noteq> []" "\<forall>e \<in> set minima. length (fst e) = 8"
  shows "best_group minima < length minima"
    "\<forall>g < length minima. entry_key (minima ! best_group minima) \<le> entry_key (minima ! g)"
proof -
  let ?pick = "\<lambda>g best. if words_precede (minima ! g) (minima ! best) [0..<8] then g else best"
  have "fold ?pick gs b < length minima \<and> (\<forall>g \<in> insert b (set gs). entry_key (minima ! fold ?pick gs b) \<le> entry_key (minima ! g))"
    if "b < length minima" "\<forall>g \<in> set gs. g < length minima" for gs b
    using that
  proof (induction gs arbitrary: b)
    case (Cons g gs)
    have "words_precede (minima ! g) (minima ! b) [0..<8] \<longleftrightarrow> entry_key (minima ! g) < entry_key (minima ! b)"
      using Cons.prems assms(2) by (intro words_precede_key) simp_all
    then have "?pick g b < length minima" "entry_key (minima ! ?pick g b) \<le> entry_key (minima ! g)"
      "entry_key (minima ! ?pick g b) \<le> entry_key (minima ! b)" using Cons.prems by auto
    then show ?case using Cons.IH [of "?pick g b"] Cons.prems(2) by (auto intro: order_trans)
  qed simp
  from this [of 0 "[1..<length minima]"] assms(1)
  have least: "best_group minima < length minima"
    "\<forall>g \<in> insert 0 (set [1..<length minima]). entry_key (minima ! best_group minima) \<le> entry_key (minima ! g)"
    by (simp_all add: best_group_def)
  show "best_group minima < length minima" by (rule least(1))
  have "insert 0 (set [1..<length minima]) = {..<length minima}" using assms(1) by auto
  then show "\<forall>g < length minima. entry_key (minima ! best_group minima) \<le> entry_key (minima ! g)"
    using least(2) by (simp only: lessThan_iff Ball_def)
qed

end
