(* ===== verification/Bounded_Workers.thy ===== *)
theory Bounded_Workers
  imports Prelude "HOL-Library.Multiset"
begin

text \<open>
  \<^verbatim>\<open>detail::run_bounded_workers\<close> of \<^verbatim>\<open>src/research/context_trajectory.cpp\<close>: worker threads that take task numbers from
  an atomic counter and a coordinator that handles finished tasks. The threads interleave freely, so the code is a step
  relation on the shared variables, the program counters and, as history variables, the tasks that were started and
  the calls of the completion handler. A task and the handler may throw. Creating the threads is assumed to succeed.
\<close>

section \<open>States\<close>

datatype worker_pc =
    Test_stop
  | Fetch_task
  | Running nat
  | Push_completed nat
  | Caught exn
  | Set_stop
  | Finish
  | Ended

datatype coordinator_pc =
    Wait
  | Handle_ready "nat list" bool
  | Last_check
  | Join

record pool =
  po_next :: nat
  po_stop :: bool
  po_completed :: "nat list"
  po_finished :: nat
  po_exception :: "exn option"
  po_workers :: "worker_pc list"
  po_coordinator :: coordinator_pc
  po_handler_exception :: "exn option"
  po_started :: "nat list"
  po_called :: "nat list"

text \<open>What is decided before a thread is created.\<close>

datatype pool_start = Rejected exn | Nothing_to_do | Pool pool

definition start_pool :: "nat \<Rightarrow> nat \<Rightarrow> bool \<Rightarrow> pool_start" where
  "start_pool task_count worker_count has_task =
    (if worker_count = 0 then Rejected (Invalid_argument ''worker_count must be at least 1'')
     else if \<not> has_task then Rejected (Invalid_argument ''worker task is empty'')
     else if task_count = 0 then Nothing_to_do
     else Pool \<lparr>po_next = 0, po_stop = False, po_completed = [], po_finished = 0, po_exception = None,
       po_workers = replicate (min worker_count task_count) Test_stop, po_coordinator = Wait, po_handler_exception = None,
       po_started = [], po_called = []\<rparr>)"

section \<open>Steps\<close>

text \<open>The step of a worker at a program counter: what it does to the shared variables and where it goes on. A task may
  return or throw.\<close>

inductive worker_step :: "nat \<Rightarrow> pool \<Rightarrow> worker_pc \<Rightarrow> pool \<Rightarrow> worker_pc \<Rightarrow> bool" for n s where
  stopped: "po_stop s \<Longrightarrow> worker_step n s Test_stop s Finish"
| go_on: "\<not> po_stop s \<Longrightarrow> worker_step n s Test_stop s Fetch_task"
| no_task: "n \<le> po_next s \<Longrightarrow> worker_step n s Fetch_task (s\<lparr>po_next := po_next s + 1\<rparr>) Finish"
| fetch: "po_next s < n \<Longrightarrow>
    worker_step n s Fetch_task (s\<lparr>po_next := po_next s + 1, po_started := po_started s @ [po_next s]\<rparr>) (Running (po_next s))"
| returned: "worker_step n s (Running t) s (Push_completed t)"
| thrown: "worker_step n s (Running t) s (Caught e)"
| push: "worker_step n s (Push_completed t) (s\<lparr>po_completed := po_completed s @ [t]\<rparr>) Test_stop"
| caught: "worker_step n s (Caught e)
    (s\<lparr>po_exception := (case po_exception s of None \<Rightarrow> Some e | Some first \<Rightarrow> Some first)\<rparr>) Set_stop"
| set_stop: "worker_step n s Set_stop (s\<lparr>po_stop := True\<rparr>) Finish"
| finish: "worker_step n s Finish (s\<lparr>po_finished := po_finished s + 1\<rparr>) Ended"

text \<open>The coordinator; \<open>h\<close> says whether there is a completion handler.\<close>

inductive coordinator_step :: "bool \<Rightarrow> pool \<Rightarrow> pool \<Rightarrow> bool" for h where
  wake: "po_coordinator s = Wait \<Longrightarrow> po_completed s \<noteq> [] \<or> po_finished s = length (po_workers s) \<Longrightarrow>
    coordinator_step h s (s\<lparr>po_coordinator := Handle_ready (po_completed s) (po_finished s = length (po_workers s)),
      po_completed := []\<rparr>)"
| skip: "po_coordinator s = Handle_ready (t # ts) done \<Longrightarrow> \<not> h \<or> po_handler_exception s \<noteq> None \<Longrightarrow>
    coordinator_step h s (s\<lparr>po_coordinator := Handle_ready [] done\<rparr>)"
| call: "po_coordinator s = Handle_ready (t # ts) done \<Longrightarrow> h \<Longrightarrow> po_handler_exception s = None \<Longrightarrow>
    coordinator_step h s (s\<lparr>po_coordinator := Handle_ready ts done, po_called := po_called s @ [t]\<rparr>)"
| call_throws: "po_coordinator s = Handle_ready (t # ts) done \<Longrightarrow> h \<Longrightarrow> po_handler_exception s = None \<Longrightarrow>
    coordinator_step h s (s\<lparr>po_coordinator := Handle_ready [] done, po_called := po_called s @ [t],
      po_handler_exception := Some e, po_stop := True\<rparr>)"
| wait_again: "po_coordinator s = Handle_ready [] False \<Longrightarrow> coordinator_step h s (s\<lparr>po_coordinator := Wait\<rparr>)"
| all_finished: "po_coordinator s = Handle_ready [] True \<Longrightarrow> coordinator_step h s (s\<lparr>po_coordinator := Last_check\<rparr>)"
| more: "po_coordinator s = Last_check \<Longrightarrow> po_completed s \<noteq> [] \<Longrightarrow> coordinator_step h s (s\<lparr>po_coordinator := Wait\<rparr>)"
| join: "po_coordinator s = Last_check \<Longrightarrow> po_completed s = [] \<Longrightarrow> coordinator_step h s (s\<lparr>po_coordinator := Join\<rparr>)"

inductive pool_step :: "nat \<Rightarrow> bool \<Rightarrow> pool \<Rightarrow> pool \<Rightarrow> bool" for n h where
  worker: "w < length (po_workers s) \<Longrightarrow> worker_step n s (po_workers s ! w) s' pc \<Longrightarrow>
    pool_step n h s (s'\<lparr>po_workers := (po_workers s)[w := pc]\<rparr>)"
| coordinator: "coordinator_step h s s' \<Longrightarrow> pool_step n h s s'"

text \<open>What the call returns once the threads are joined.\<close>

definition pool_result :: "pool \<Rightarrow> unit outcome" where
  "pool_result s =
    (case po_handler_exception s of
       Some e \<Rightarrow> Inl e
     | None \<Rightarrow> (case po_exception s of Some e \<Rightarrow> Inl e | None \<Rightarrow> Inr ()))"

inductive_cases worker_stepE: "worker_step n s pc s' pc'"
inductive_cases coordinator_stepE: "coordinator_step h s s'"
inductive_cases pool_stepE: "pool_step n h s s'"

section \<open>Every task at one place\<close>

fun in_flight :: "worker_pc \<Rightarrow> nat multiset" where
  "in_flight (Running t) = {#t#}"
| "in_flight (Push_completed t) = {#t#}"
| "in_flight _ = {#}"

fun ready_tasks :: "coordinator_pc \<Rightarrow> nat list" where
  "ready_tasks (Handle_ready ts done) = ts"
| "ready_tasks _ = []"

text \<open>Sums over the workers: the tasks they hold, how many have ended, and later how far they are from the end.\<close>

definition total :: "('p \<Rightarrow> 'a::comm_monoid_add) \<Rightarrow> 'p list \<Rightarrow> 'a" where
  "total f pcs = sum_list (map f pcs)"

lemma total_update:
  assumes "w < length pcs"
  shows "total f (pcs[w := pc]) + f (pcs ! w) = total f pcs + f pc"
proof -
  have split: "total f (xs @ x # ys) = total f xs + f x + total f ys" for xs x ys
    by (simp add: total_def ac_simps)
  have "pcs = take w pcs @ pcs ! w # drop (Suc w) pcs" using assms by (rule id_take_nth_drop)
  from arg_cong [OF this, of "total f"]
  have "total f pcs = total f (take w pcs) + f (pcs ! w) + total f (drop (Suc w) pcs)" by (simp only: split)
  moreover have "total f (pcs[w := pc]) = total f (take w pcs) + f pc + total f (drop (Suc w) pcs)"
    using assms by (simp only: upd_conv_take_nth_drop split)
  ultimately show ?thesis by (simp add: ac_simps)
qed

abbreviation ended :: "worker_pc \<Rightarrow> nat" where "ended pc \<equiv> of_bool (pc = Ended)"

lemma all_ended: "total ended pcs = length pcs \<longleftrightarrow> (\<forall>pc \<in> set pcs. pc = Ended)"
proof -
  have le: "total ended pcs \<le> length pcs" for pcs by (induction pcs) (auto simp: total_def)
  have "total ended (pc # pcs) = length (pc # pcs) \<longleftrightarrow> pc = Ended \<and> total ended pcs = length pcs" for pc pcs
    using le [of pcs] by (auto simp: total_def)
  then show ?thesis by (induction pcs) (auto simp: total_def)
qed

definition placed :: "pool \<Rightarrow> nat multiset" where
  "placed s = total in_flight (po_workers s) + mset (po_called s @ ready_tasks (po_coordinator s) @ po_completed s)"

text \<open>Nothing has thrown so far.\<close>

definition clean :: "pool \<Rightarrow> bool" where
  "clean s \<longleftrightarrow> po_exception s = None \<and> po_handler_exception s = None \<and> (\<forall>e. Caught e \<notin> set (po_workers s))"

definition finishing :: "coordinator_pc \<Rightarrow> bool" where
  "finishing c \<longleftrightarrow> (\<exists>ts. c = Handle_ready ts True) \<or> c = Last_check \<or> c = Join"

definition pool_inv :: "nat \<Rightarrow> bool \<Rightarrow> pool \<Rightarrow> bool" where
  "pool_inv n h s \<longleftrightarrow>
    po_workers s \<noteq> [] \<and>
    po_started s = [0..<min (po_next s) n] \<and>
    po_finished s = total ended (po_workers s) \<and>
    (po_stop s \<longrightarrow> po_exception s \<noteq> None \<or> po_handler_exception s \<noteq> None) \<and>
    (Set_stop \<in> set (po_workers s) \<longrightarrow> po_exception s \<noteq> None) \<and>
    placed s \<subseteq># mset (po_started s) \<and>
    (h \<longrightarrow> clean s \<longrightarrow> placed s = mset (po_started s)) \<and>
    (clean s \<longrightarrow> Finish \<in> set (po_workers s) \<or> Ended \<in> set (po_workers s) \<longrightarrow> n \<le> po_next s) \<and>
    (finishing (po_coordinator s) \<longrightarrow> po_finished s = length (po_workers s) \<and> po_completed s = [])"

lemma kept_member: "x \<in> set xs \<Longrightarrow> x \<noteq> xs ! w \<Longrightarrow> x \<in> set (xs[w := y])"
  by (metis in_set_conv_nth length_list_update nth_list_update_neq)

lemma updated_member: "x \<in> set (xs[w := y]) \<Longrightarrow> x = y \<or> x \<in> set xs"
  using set_update_subset_insert by fastforce

lemma worker_step_inv:
  assumes step: "worker_step n s (po_workers s ! w) s1 pc" and w: "w < length (po_workers s)" and inv: "pool_inv n h s"
  shows "pool_inv n h (s1\<lparr>po_workers := (po_workers s)[w := pc]\<rparr>)"
proof -
  let ?ws = "po_workers s" let ?ws' = "(po_workers s)[w := pc]"
  define old where "old = ?ws ! w"
  have at: "old \<in> set ?ws" and new: "pc \<in> set ?ws'" and ne: "?ws' \<noteq> []"
    using w by (auto simp: old_def set_update_memI)
  have fl: "total in_flight ?ws' + in_flight old = total in_flight ?ws + in_flight pc"
    and en: "total ended ?ws' + ended old = total ended ?ws + ended pc"
    unfolding old_def by (rule total_update [OF w])+
  have members: "x \<in> set ?ws' \<Longrightarrow> x = pc \<or> x \<in> set ?ws" for x by (rule updated_member)
  have kept: "x \<in> set ?ws \<Longrightarrow> x \<noteq> old \<Longrightarrow> x \<in> set ?ws'" for x unfolding old_def by (rule kept_member)
  have running: "old \<noteq> Ended \<Longrightarrow> \<not> finishing (po_coordinator s)"
    using inv all_ended [of ?ws] at by (auto simp: pool_inv_def)
  have inv': "po_started s = [0..<min (po_next s) n]" "po_finished s = total ended ?ws"
    "po_stop s \<Longrightarrow> po_exception s \<noteq> None \<or> po_handler_exception s \<noteq> None" "Set_stop \<in> set ?ws \<Longrightarrow> po_exception s \<noteq> None"
    "placed s \<subseteq># mset (po_started s)" "h \<Longrightarrow> clean s \<Longrightarrow> placed s = mset (po_started s)"
    "clean s \<Longrightarrow> Finish \<in> set ?ws \<or> Ended \<in> set ?ws \<Longrightarrow> n \<le> po_next s"
    using inv by (auto simp: pool_inv_def)
  have cleaner: "clean s" if "clean (s1\<lparr>po_workers := ?ws'\<rparr>)"
    using step [folded old_def] that new kept by cases (auto simp: clean_def split: option.splits)
  have result: ?thesis
    if "po_started s1 = [0..<min (po_next s1) n]" "po_finished s1 = total ended ?ws'"
      "po_stop s1 \<Longrightarrow> po_exception s1 \<noteq> None \<or> po_handler_exception s1 \<noteq> None"
      "pc = Set_stop \<or> Set_stop \<in> set ?ws \<Longrightarrow> po_exception s1 \<noteq> None"
      "placed (s1\<lparr>po_workers := ?ws'\<rparr>) \<subseteq># mset (po_started s1)"
      "h \<Longrightarrow> clean s \<Longrightarrow> \<forall>e. pc \<noteq> Caught e \<Longrightarrow> placed (s1\<lparr>po_workers := ?ws'\<rparr>) = mset (po_started s1)"
      "clean s \<Longrightarrow> pc = Finish \<or> pc = Ended \<or> Finish \<in> set ?ws \<or> Ended \<in> set ?ws \<Longrightarrow> n \<le> po_next s1"
      "po_coordinator s1 = po_coordinator s" "old \<noteq> Ended"
    using that cleaner members new ne running unfolding pool_inv_def by (auto simp: clean_def)
  from step [folded old_def] show ?thesis
  proof cases
    case stopped
    then show ?thesis using inv' fl en by (intro result) (auto simp: placed_def clean_def)
  next
    case go_on
    then show ?thesis using inv' fl en by (intro result) (auto simp: placed_def clean_def)
  next
    case no_task
    then show ?thesis using inv' fl en by (intro result) (auto simp: placed_def clean_def)
  next
    case fetch
    then show ?thesis using inv' fl en by (intro result) (auto simp: placed_def clean_def min_def)
  next
    case (returned t)
    then show ?thesis using inv' fl en by (intro result) (auto simp: placed_def clean_def)
  next
    case (thrown t e)
    then have "placed s = add_mset t (placed (s1\<lparr>po_workers := ?ws'\<rparr>))" using fl by (simp add: placed_def flip: fl)
    then have "placed (s1\<lparr>po_workers := ?ws'\<rparr>) \<subseteq># mset (po_started s1)"
      using inv'(5) thrown by (metis mset_subset_eq_insertD subset_mset.less_imp_le)
    then show ?thesis using thrown inv' fl en by (intro result) (auto simp: clean_def)
  next
    case (push t)
    then have "placed (s1\<lparr>po_workers := ?ws'\<rparr>) = placed s" using fl by (simp add: placed_def flip: fl)
    then show ?thesis using push inv' fl en by (intro result) (auto simp: clean_def)
  next
    case (caught e)
    then show ?thesis using inv' fl en at by (intro result) (auto simp: placed_def clean_def split: option.splits)
  next
    case set_stop
    then show ?thesis using inv' fl en at by (intro result) (auto simp: placed_def clean_def)
  next
    case finish
    then show ?thesis using inv' fl en at by (intro result) (auto simp: placed_def clean_def)
  qed
qed

lemma coordinator_step_inv:
  assumes step: "coordinator_step h s s'" and inv: "pool_inv n h s"
  shows "pool_inv n h s'"
proof -
  have same: "po_workers s' = po_workers s" "po_next s' = po_next s" "po_started s' = po_started s" "po_finished s' = po_finished s"
    "po_exception s' = po_exception s"
    using step by (auto elim!: coordinator_stepE)
  have stop: "po_stop s' \<Longrightarrow> po_exception s' \<noteq> None \<or> po_handler_exception s' \<noteq> None"
    using step inv by cases (auto simp: pool_inv_def)
  have cleaner: "clean s' \<Longrightarrow> clean s"
    using step by cases (auto simp: clean_def)
  have less: "placed s' \<subseteq># placed s"
    using step by cases (simp_all add: placed_def)
  have eq: "h \<Longrightarrow> clean s' \<Longrightarrow> placed s' = placed s"
    using step by cases (simp_all add: placed_def clean_def)
  have fin: "finishing (po_coordinator s') \<Longrightarrow> po_finished s = length (po_workers s) \<and> po_completed s' = []"
    using step inv by cases (auto simp: pool_inv_def finishing_def)
  have "placed s' \<subseteq># mset (po_started s)"
    using less inv subset_mset.order_trans by (auto simp: pool_inv_def)
  then show ?thesis
    using inv stop cleaner eq fin unfolding pool_inv_def same by auto
qed

lemma pool_step_inv: "pool_step n h s s' \<Longrightarrow> pool_inv n h s \<Longrightarrow> pool_inv n h s'"
  by (auto elim!: pool_stepE intro: worker_step_inv coordinator_step_inv)

lemma total_idle: "total in_flight (replicate k Test_stop) = {#}" "total ended (replicate k Test_stop) = 0"
  by (induction k) (simp_all add: total_def)

lemma start_pool_inv: "start_pool n workers has_task = Pool s \<Longrightarrow> pool_inv n h s"
  by (auto simp: start_pool_def pool_inv_def placed_def finishing_def total_idle split: if_splits)

lemma pool_run_inv: "(pool_step n h)\<^sup>*\<^sup>* s s' \<Longrightarrow> pool_inv n h s \<Longrightarrow> pool_inv n h s'"
  by (induction rule: rtranclp_induct) (auto intro: pool_step_inv)

section \<open>Runs are short and never stuck\<close>

fun worker_rank :: "worker_pc \<Rightarrow> nat" where
  "worker_rank Test_stop = 6"
| "worker_rank Fetch_task = 5"
| "worker_rank (Running t) = 13"
| "worker_rank (Push_completed t) = 12"
| "worker_rank (Caught e) = 4"
| "worker_rank Set_stop = 3"
| "worker_rank Finish = 1"
| "worker_rank Ended = 0"

fun coordinator_rank :: "coordinator_pc \<Rightarrow> nat" where
  "coordinator_rank (Handle_ready ts done) = 3 * length ts + (if done then 2 else 4)"
| "coordinator_rank Wait = 3"
| "coordinator_rank Last_check = 1"
| "coordinator_rank Join = 0"

definition pool_rank :: "nat \<Rightarrow> pool \<Rightarrow> nat" where
  "pool_rank n s = 10 * (n - po_next s) + total worker_rank (po_workers s) + 5 * length (po_completed s) +
    coordinator_rank (po_coordinator s)"

lemma worker_step_rank:
  assumes "worker_step n s (po_workers s ! w) s1 pc" "w < length (po_workers s)"
  shows "pool_rank n (s1\<lparr>po_workers := (po_workers s)[w := pc]\<rparr>) < pool_rank n s"
  using assms(1) total_update [OF assms(2), of worker_rank pc]
  by (cases rule: worker_step.cases) (auto simp: pool_rank_def)

lemma coordinator_step_rank:
  assumes "coordinator_step h s s'" "pool_inv n h s"
  shows "pool_rank n s' < pool_rank n s"
  using assms
proof cases
  case wake
  then show ?thesis using assms(2) by (cases "po_completed s") (auto simp: pool_rank_def)
qed (auto simp: pool_rank_def pool_inv_def finishing_def)

lemma pool_step_rank: "pool_step n h s s' \<Longrightarrow> pool_inv n h s \<Longrightarrow> pool_rank n s' < pool_rank n s"
  by (auto elim!: pool_stepE intro: worker_step_rank coordinator_step_rank)

lemma pool_run_rank: "(pool_step n h ^^ k) s s' \<Longrightarrow> pool_inv n h s \<Longrightarrow> k + pool_rank n s' \<le> pool_rank n s"
proof (induction k arbitrary: s')
  case (Suc k)
  then obtain m where m: "(pool_step n h ^^ k) s m" "pool_step n h m s'" by auto
  then have "pool_inv n h m" using pool_run_inv [OF relpowp_imp_rtranclp] Suc.prems(2) by blast
  then show ?case using Suc.IH [OF m(1) Suc.prems(2)] pool_step_rank [OF m(2)] by linarith
qed simp

lemma worker_moves: "pc \<noteq> Ended \<Longrightarrow> \<exists>s1 pc'. worker_step n s pc s1 pc'"
proof (cases pc)
  case Test_stop
  then show ?thesis by (cases "po_stop s") (auto dest: stopped go_on)
next
  case Fetch_task
  then show ?thesis by (cases "n \<le> po_next s") (auto dest: no_task fetch simp: not_le)
qed (auto intro: returned push caught set_stop finish)

lemma coordinator_moves:
  assumes "po_coordinator s \<noteq> Join" "po_coordinator s \<noteq> Wait"
  shows "\<exists>s'. coordinator_step h s s'"
proof (cases "po_coordinator s")
  case (Handle_ready ts don)
  show ?thesis
  proof (cases ts)
    case Nil
    with Handle_ready show ?thesis using wait_again [of s h] all_finished [of s h] by (cases don) auto
  next
    case (Cons t ts')
    with Handle_ready have here: "po_coordinator s = Handle_ready (t # ts') don" by simp
    show ?thesis
    proof (cases "\<not> h \<or> po_handler_exception s \<noteq> None")
      case True
      from skip [OF here True] show ?thesis by (rule exI)
    next
      case False
      then have "h" "po_handler_exception s = None" by auto
      from call [OF here this] show ?thesis by (rule exI)
    qed
  qed
next
  case Last_check
  then show ?thesis by (cases "po_completed s = []") (rule exI, erule (1) more join)+
qed (use assms in auto)

lemma pool_progress:
  assumes "pool_inv n h s" "po_coordinator s \<noteq> Join"
  shows "\<exists>s'. pool_step n h s s'"
proof (cases "\<exists>w < length (po_workers s). po_workers s ! w \<noteq> Ended")
  case True
  then obtain w where w: "w < length (po_workers s)" "po_workers s ! w \<noteq> Ended" by blast
  from worker_moves [OF w(2)] obtain s1 pc where "worker_step n s (po_workers s ! w) s1 pc" by blast
  from pool_step.worker [OF w(1) this] show ?thesis by (rule exI)
next
  case False
  then have "po_finished s = length (po_workers s)"
    using assms(1) all_ended [of "po_workers s"] by (auto simp: pool_inv_def in_set_conv_nth)
  then have ready: "po_completed s \<noteq> [] \<or> po_finished s = length (po_workers s)" by simp
  have "\<exists>s'. coordinator_step h s s'" if "po_coordinator s = Wait"
    using wake [OF that ready, of h] by (rule exI)
  then have "\<exists>s'. coordinator_step h s s'"
    using coordinator_moves [OF assms(2)] by (cases "po_coordinator s = Wait") auto
  then show ?thesis by (blast intro: coordinator)
qed

section \<open>Properties\<close>

lemma joined_clean:
  assumes "pool_inv n h s" "po_coordinator s = Join" "pool_result s = Inr ()"
  shows "po_started s = [0..<n]" "h \<Longrightarrow> mset (po_called s) = mset [0..<n]"
proof -
  have none: "po_exception s = None" "po_handler_exception s = None"
    using assms(3) by (auto simp: pool_result_def split: option.splits)
  have all: "\<forall>pc \<in> set (po_workers s). pc = Ended" "po_completed s = []"
    using assms(1,2) all_ended [of "po_workers s"] by (auto simp: pool_inv_def finishing_def)
  have clean: "clean s" using none all(1) by (auto simp: clean_def)
  have "Ended \<in> set (po_workers s)" using assms(1) all(1) by (cases "po_workers s") (auto simp: pool_inv_def)
  then have reached: "n \<le> po_next s" using assms(1) clean by (auto simp: pool_inv_def)
  then show started: "po_started s = [0..<n]" using assms(1) reached by (simp add: pool_inv_def min_def)
  have "total in_flight pcs = {#}" if "\<forall>pc \<in> set pcs. pc = Ended" for pcs
    using that by (induction pcs) (auto simp: total_def)
  then have "placed s = mset (po_called s)" using all assms(2) by (simp add: placed_def)
  moreover have "placed s = mset (po_started s)" if h using that assms(1) clean by (simp add: pool_inv_def)
  ultimately show "mset (po_called s) = mset [0..<n]" if h using that started by simp
qed

text \<open>C26: in every interleaving each task is started at most once and in order, and its completion is reported at most
  once; when the call returns normally, every task has been started and every completion reported exactly once.\<close>

theorem pool_runs_tasks_once:
  assumes "start_pool n workers has_task = Pool s0" "(pool_step n h)\<^sup>*\<^sup>* s0 s"
  shows "(\<exists>k \<le> n. po_started s = [0..<k]) \<and> distinct (po_called s) \<and> set (po_called s) \<subseteq> set (po_started s) \<and>
    (po_coordinator s = Join \<longrightarrow> pool_result s = Inr () \<longrightarrow> po_started s = [0..<n] \<and> (h \<longrightarrow> mset (po_called s) = mset [0..<n]))"
proof -
  have inv: "pool_inv n h s" using assms start_pool_inv pool_run_inv by blast
  then have started: "po_started s = [0..<min (po_next s) n]" and placed: "placed s \<subseteq># mset (po_started s)"
    by (auto simp: pool_inv_def)
  have called: "mset (po_called s) \<subseteq># mset (po_started s)"
    using subset_mset.order_trans [OF _ placed, of "mset (po_called s)"] by (simp add: placed_def)
  obtain rest where "mset (po_started s) = mset (po_called s @ rest)"
    using called by (metis ex_mset mset_append mset_subset_eq_exists_conv)
  moreover have "distinct (po_started s)" using started by simp
  ultimately have "distinct (po_called s)" by (metis distinct_append mset_eq_imp_distinct_iff)
  moreover have "set (po_called s) \<subseteq> set (po_started s)" using called by (metis set_mset_mono set_mset_mset)
  moreover have "\<exists>k \<le> n. po_started s = [0..<k]" using started by (intro exI [of _ "min (po_next s) n"]) simp
  ultimately show ?thesis using joined_clean [OF inv] by blast
qed

lemma pool_runs_tasks_once_witness:
  "\<exists>s. start_pool 2 1 True = Pool s \<and> set (po_called s) \<subseteq> set (po_started s)"
proof -
  obtain s where s: "start_pool 2 1 True = Pool s" by (simp add: start_pool_def)
  have "(pool_step 2 True)\<^sup>*\<^sup>* s s" by simp
  from pool_runs_tasks_once [OF s this] s show ?thesis by blast
qed



end
