(* ===== verification/Nonce_Partition.thy ===== *)
theory Nonce_Partition
  imports Header_Space Bounded_Workers Double
begin

text \<open>
  The processor benchmark of \<^verbatim>\<open>src/research/context_trajectory.cpp\<close>: the division of the nonces into one part per
  thread, the scan of the parts by the worker pool of theory \<open>Bounded_Workers\<close> and the check of the coverage. The pool
  is used through the list of the tasks it started; the clock is a parameter.
\<close>

section \<open>The partition\<close>

record nonce_part =
  np_start :: u64
  np_count :: u64

definition add_part :: "u64 \<Rightarrow> u64 \<Rightarrow> u64 \<Rightarrow> nonce_part list \<times> u64 \<Rightarrow> nonce_part list \<times> u64" where
  "add_part base remainder thread = (\<lambda>(parts, cursor).
    (let count = base + (if thread < remainder then 1 else 0)
     in (parts @ [\<lparr>np_start = cursor, np_count = count\<rparr>], cursor + count)))"

definition partition_cpu_nonce_range :: "u64 \<Rightarrow> u64 \<Rightarrow> nonce_part list outcome" where
  "partition_cpu_nonce_range nonce_count threads =
    bindE (requireE (threads \<ge> 1) (Runtime_error ''--threads must be at least 1'')) (\<lambda>_.
    bindE (requireE (nonce_count > 0 \<and> nonce_count \<le> nonce_space_size)
      (Runtime_error ''--nonce-count must be in [1, 2^32]'')) (\<lambda>_.
    bindE (requireE (threads \<le> nonce_count) (Runtime_error ''--threads cannot exceed --nonce-count'')) (\<lambda>_.
      case fold (add_part (nonce_count div threads) (nonce_count mod threads)) (nonce_range 0 threads) ([], 0) of
        (parts, cursor) \<Rightarrow>
          bindE (requireE (cursor = nonce_count) (Runtime_error ''CPU nonce partition coverage mismatch'')) (\<lambda>_. Inr parts))))"

text \<open>The parts as numbers: part \<open>t\<close> of \<open>n\<close> nonces among \<open>k\<close> threads starts at \<open>part_start n k t\<close>.\<close>

definition part_start :: "nat \<Rightarrow> nat \<Rightarrow> nat \<Rightarrow> nat" where
  "part_start n k t = t * (n div k) + min t (n mod k)"

definition part_at :: "nat \<Rightarrow> nat \<Rightarrow> nat \<Rightarrow> nonce_part" where
  "part_at n k t = \<lparr>np_start = of_nat (part_start n k t), np_count = of_nat (part_start n k (Suc t) - part_start n k t)\<rparr>"

lemma part_start_simps [simp]:
  "part_start n k 0 = 0"
  "part_start n k (Suc t) = part_start n k t + (n div k + (if t < n mod k then 1 else 0))"
  by (simp_all add: part_start_def)

lemma part_start_end: "0 < k \<Longrightarrow> part_start n k k = n"
  by (simp add: part_start_def min_absorb2 less_imp_le)

lemma part_start_mono: "t \<le> u \<Longrightarrow> part_start n k t \<le> part_start n k u"
  by (induction u rule: dec_induct) simp_all

lemma add_parts:
  assumes "unat n < 2 ^ 63" "t \<le> unat k" "k \<le> n" "0 < k"
  shows "fold (add_part (n div k) (n mod k)) (List.map of_nat [0..<t]) ([], 0) =
    (List.map (part_at (unat n) (unat k)) [0..<t], of_nat (part_start (unat n) (unat k) t))"
  using assms(2)
proof (induction t)
  case (Suc t)
  have "unat k \<le> unat n" using assms(3) by (simp add: word_le_nat_alt)
  then have small: "unat (of_nat t :: u64) = t" using Suc.prems assms(1) by (simp add: unat_of_nat)
  have less: "(of_nat t :: u64) < n mod k \<longleftrightarrow> t < unat n mod unat k"
    by (simp add: word_less_nat_alt small unat_mod)
  have "n div k = of_nat (unat n div unat k)" by (simp flip: unat_div)
  with less have "add_part (n div k) (n mod k) (of_nat t) (parts, of_nat (part_start (unat n) (unat k) t)) =
      (parts @ [part_at (unat n) (unat k) t], of_nat (part_start (unat n) (unat k) (Suc t)))" for parts
    by (simp add: add_part_def part_at_def Let_def)
  with Suc show ?case by (simp del: part_start_simps)
qed simp

lemma partition_Inr:
  assumes "1 \<le> k" "k \<le> n" "n \<le> nonce_space_size"
  shows "partition_cpu_nonce_range n k = Inr (List.map (part_at (unat n) (unat k)) [0..<unat k])"
proof -
  have n: "unat n < 2 ^ 63" using assms(3) by (simp add: nonce_space_size_def word_le_nat_alt)
  have k: "0 < k" using assms(1) by (simp add: word_le_nat_alt word_less_nat_alt)
  then have "0 < n" using assms(2) by simp
  moreover have "nonce_range 0 k = List.map of_nat [0..<unat k]" by (simp add: nonce_range_def)
  moreover have "0 < unat k" using k by (simp add: word_less_nat_alt)
  ultimately show ?thesis
    using assms add_parts [OF n order_refl assms(2) k] by (simp add: partition_cpu_nonce_range_def part_start_end)
qed

definition part_nonces :: "nonce_part \<Rightarrow> u64 list" where
  "part_nonces p = nonce_range (np_start p) (np_start p + np_count p)"

lemma part_at_nat:
  assumes "n \<le> 2 ^ 32" "0 < k" "t < k"
  shows "unat (np_start (part_at n k t)) = part_start n k t" "unat (np_count (part_at n k t)) = part_start n k (Suc t) - part_start n k t"
    "part_nonces (part_at n k t) = List.map of_nat [part_start n k t..<part_start n k (Suc t)]"
proof -
  have le: "part_start n k (Suc t) \<le> n"
    using part_start_mono [of "Suc t" k n k] part_start_end [of k n] assms by linarith
  then have small: "unat (of_nat m :: u64) = m" if "m \<le> part_start n k (Suc t)" for m
    using that assms(1) by (simp add: unat_of_nat)
  show start: "unat (np_start (part_at n k t)) = part_start n k t"
    unfolding part_at_def using small [of "part_start n k t"] by simp
  show "unat (np_count (part_at n k t)) = part_start n k (Suc t) - part_start n k t"
    unfolding part_at_def using small [of "part_start n k (Suc t) - part_start n k t"] by (simp del: part_start_simps)
  have "np_start (part_at n k t) + np_count (part_at n k t) = of_nat (part_start n k (Suc t))"
    by (simp add: part_at_def)
  then show "part_nonces (part_at n k t) = List.map of_nat [part_start n k t..<part_start n k (Suc t)]"
    using start small [OF order_refl] by (simp only: part_nonces_def nonce_range_def)
qed

lemma parts_tile:
  assumes "0 < k"
  shows "concat (List.map (\<lambda>t. [part_start n k t..<part_start n k (Suc t)]) [0..<k]) = [0..<n]"
proof -
  have "concat (List.map (\<lambda>t. [part_start n k t..<part_start n k (Suc t)]) [0..<u]) = [0..<part_start n k u]" for u
  proof (induction u)
    case (Suc u)
    have le: "part_start n k u \<le> part_start n k (Suc u)" by simp
    have "[0..<part_start n k u] @ [part_start n k u..<part_start n k (Suc u)] = [0..<part_start n k (Suc u)]"
      using upt_add_eq_append [of 0 "part_start n k u" "part_start n k (Suc u) - part_start n k u"] by simp
    with Suc show ?case by (simp del: part_start_simps)
  qed simp
  then show ?thesis using part_start_end [OF assms] by simp
qed

section \<open>The benchmark\<close>

text \<open>A task of the pool scans its part and stores the result at its index; \<open>started\<close> lists the tasks in the order in
  which they run.\<close>

definition kProductionThresholdBits :: u32 where "kProductionThresholdBits = 20"
definition kInitialSparseCapacity :: u64 where "kInitialSparseCapacity = 8192"

definition no_scan :: sparse_hits where
  "no_scan = \<lparr>sh_nonces = [], sh_nonce_count = 0, sh_total_hit_count = 0, sh_captured_count = 0, sh_capacity = 0,
    sh_threshold_bits = 0, sh_overflow = False, sh_retries = 0\<rparr>"

definition scan_part :: "nonce_part list \<Rightarrow> nat \<Rightarrow> sparse_hits list \<Rightarrow> sparse_hits list outcome" where
  "scan_part parts index scans =
    (let part = parts ! index
     in if np_count part = 0 then Inr scans
        else bindE genesis_header (\<lambda>header.
             bindE (scan_sparse_hits_cpu_complete header (np_start part) (np_count part) kProductionThresholdBits
                 kInitialSparseCapacity) (\<lambda>scan.
               Inr (scans[index := scan]))))"

text \<open>The loop over the parts: the start it expects next, the sum of the hits and whether the parts are adjacent.\<close>

definition check_part :: "nonce_part \<times> sparse_hits \<Rightarrow> u64 \<times> u64 \<times> bool \<Rightarrow> u64 \<times> u64 \<times> bool" where
  "check_part = (\<lambda>(part, scan) (expected_start, t20_hits, exact_coverage).
    (expected_start + np_count part, t20_hits + sh_total_hit_count scan, exact_coverage \<and> np_start part = expected_start))"

definition benchmark_hits :: "u64 \<Rightarrow> u64 \<Rightarrow> nonce_part list \<Rightarrow> nat list \<Rightarrow> u64 outcome" where
  "benchmark_hits threads nonce_count parts started =
    bindE (foldE (scan_part parts) started (replicate (length parts) no_scan)) (\<lambda>scans.
      case fold check_part (zip parts scans) (0, 0, of_nat (length parts) = threads) of
        (expected_start, t20_hits, exact_coverage) \<Rightarrow>
          bindE (requireE (exact_coverage \<and> expected_start = nonce_count)
            (Runtime_error ''CPU nonce partitions contain a hole or overlap'')) (\<lambda>_. Inr t20_hits))"

definition trajectory_cpu_benchmark ::
    "'j json_api \<Rightarrow> fdouble \<Rightarrow> nat list \<Rightarrow> u64 \<Rightarrow> u64 \<Rightarrow> 'j outcome" where
  "trajectory_cpu_benchmark J wall_seconds started threads nonce_count =
    bindE (partition_cpu_nonce_range nonce_count threads) (\<lambda>parts.
    bindE (benchmark_hits threads nonce_count parts started) (\<lambda>t20_hits.
      let hash_rate_hps = (if double_less double_zero wall_seconds
            then double_div (double_of_nat (unat nonce_count)) wall_seconds else double_zero)
      in Inr (j_object J
           [(''command'', j_string J ''trajectory-cpu-benchmark''), (''threads'', j_unsigned J threads),
            (''nonce_count'', j_unsigned J nonce_count), (''nonce_start'', j_signed J 0),
            (''threshold_bits'', j_unsigned J (ucast kProductionThresholdBits)),
            (''header'', j_string J ''bitcoin_genesis''), (''wall_seconds'', j_double J wall_seconds),
            (''hash_rate_hps'', j_double J hash_rate_hps),
            (''hash_rate_mhs'', j_double J (double_div hash_rate_hps (double_of_nat 1000000))),
            (''t20_hits'', j_unsigned J t20_hits), (''exact_partition_coverage'', j_boolean J True),
            (''scientific_ground_truth'', j_boolean J False)])))"

lemma nonce_partition_args:
  "partition_cpu_nonce_range n k = Inr parts \<Longrightarrow> 1 \<le> k \<and> k \<le> n \<and> n \<le> nonce_space_size"
  by (auto simp: partition_cpu_nonce_range_def requireE_def bindE_def split: if_splits)

lemma partition_covers:
  assumes "1 \<le> k" "k \<le> n" "n \<le> nonce_space_size"
  shows "concat (List.map part_nonces (List.map (part_at (unat n) (unat k)) [0..<unat k])) = nonce_range 0 n"
proof -
  have small: "unat n \<le> 2 ^ 32" using assms by (simp add: nonce_space_size_def word_le_nat_alt)
  have k: "0 < unat k" using assms by (simp add: word_le_nat_alt)
  have "concat (List.map part_nonces (List.map (part_at (unat n) (unat k)) [0..<unat k])) =
      List.map of_nat (concat (List.map (\<lambda>t. [part_start (unat n) (unat k) t..<part_start (unat n) (unat k) (Suc t)]) [0..<unat k]))"
    unfolding map_concat map_map
    by (intro arg_cong [of _ _ concat] map_cong) (simp_all add: part_at_nat(3) [OF small k] del: part_start_simps)
  then show ?thesis by (simp add: parts_tile [OF k] nonce_range_def del: part_start_simps)
qed

text \<open>For every thread count from 1 to the number of nonces, and for no other arguments, the nonces are divided into
  one part per thread; the parts in order list every nonce exactly once, and no two sizes differ by more than one.\<close>

theorem nonce_partition_tiles:
  "case partition_cpu_nonce_range nonce_count threads of
     Inl e \<Rightarrow> \<not> (1 \<le> threads \<and> threads \<le> nonce_count \<and> nonce_count \<le> nonce_space_size)
   | Inr parts \<Rightarrow> 1 \<le> threads \<and> threads \<le> nonce_count \<and> nonce_count \<le> nonce_space_size \<and>
       length parts = unat threads \<and> concat (List.map part_nonces parts) = nonce_range 0 nonce_count \<and>
       set (List.map (unat \<circ> np_count) parts) \<subseteq> {unat nonce_count div unat threads, unat nonce_count div unat threads + 1}"
proof (cases "1 \<le> threads \<and> threads \<le> nonce_count \<and> nonce_count \<le> nonce_space_size")
  case True
  let ?n = "unat nonce_count" let ?k = "unat threads"
  have n: "?n \<le> 2 ^ 32" using True by (simp add: nonce_space_size_def word_le_nat_alt)
  have k: "0 < ?k" using True by (simp add: word_le_nat_alt)
  note at = part_at_nat [OF n k]
  have "concat (List.map part_nonces (List.map (part_at ?n ?k) [0..<?k])) = nonce_range 0 nonce_count"
    using True by (intro partition_covers) simp_all
  moreover have "set (List.map (unat \<circ> np_count) (List.map (part_at ?n ?k) [0..<?k])) \<subseteq> {?n div ?k, ?n div ?k + 1}"
    using at(2) by (auto split: if_splits)
  ultimately show ?thesis using partition_Inr [of threads nonce_count] True by simp
next
  case False
  then show ?thesis using nonce_partition_args [of nonce_count threads] by (auto split: sum.splits)
qed

lemma genesis_header_Inr: "\<exists>header. genesis_header = Inr header \<and> length header = 80"
proof -
  have "(case genesis_header of Inl e \<Rightarrow> False | Inr header \<Rightarrow> length header = 80)" by code_simp
  then show ?thesis by (auto split: sum.splits)
qed

lemma scan_parts:
  assumes "\<And>i. i \<in> set started \<Longrightarrow> i < length scans \<and> (\<forall>scans. scan_part parts i scans = Inr (scans[i := r i]))"
  shows "\<exists>scans'. foldE (scan_part parts) started scans = Inr scans' \<and> length scans' = length scans \<and>
    (\<forall>i < length scans. scans' ! i = (if i \<in> set started then r i else scans ! i))"
  using assms
proof (induction started arbitrary: scans)
  case (Cons i started)
  from Cons.IH [of "scans[i := r i]"] Cons.prems obtain scans' where
    "foldE (scan_part parts) started (scans[i := r i]) = Inr scans'" "length scans' = length scans"
    "\<forall>j < length scans. scans' ! j = (if j \<in> set started then r j else scans[i := r i] ! j)"
    by auto
  then show ?case using Cons.prems by (auto simp: nth_list_update)
qed simp

lemma check_parts:
  "fold check_part (zip (List.map (part_at n k) [0..<u]) (List.map r [0..<u])) (0, 0, b) =
    (of_nat (part_start n k u), of_nat (\<Sum>i \<leftarrow> [0..<u]. unat (sh_total_hit_count (r i))), b)"
proof (induction u)
  case (Suc u)
  have le: "part_start n k u \<le> part_start n k (Suc u)" by simp
  have "zip (List.map (part_at n k) [0..<Suc u]) (List.map r [0..<Suc u]) =
      zip (List.map (part_at n k) [0..<u]) (List.map r [0..<u]) @ [(part_at n k u, r u)]" by simp
  with Suc show ?case by (simp add: check_part_def part_at_def)
qed simp

text \<open>C28: in whatever order the workers of the benchmark run the parts, its coverage check never fails and it counts
  exactly the nonces of the whole range whose hash of the genesis header is below the threshold.\<close>

theorem cpu_benchmark_exact:
  assumes "partition_cpu_nonce_range nonce_count threads = Inr parts" "mset started = mset [0..<length parts]"
  shows "\<exists>hits header. benchmark_hits threads nonce_count parts started = Inr hits \<and> genesis_header = Inr header \<and>
    unat hits = length (hits_below header 20 (nonce_range 0 nonce_count))"
proof -
  let ?n = "unat nonce_count" let ?k = "unat threads"
  obtain header where header: "genesis_header = Inr header" "length header = 80" using genesis_header_Inr by blast
  have args: "1 \<le> threads" "threads \<le> nonce_count" "nonce_count \<le> nonce_space_size"
    using nonce_partition_args assms(1) by blast+
  then have parts: "parts = List.map (part_at ?n ?k) [0..<?k]" using partition_Inr assms(1) by simp
  have n: "?n \<le> 2 ^ 32" using args by (simp add: nonce_space_size_def word_le_nat_alt)
  have k: "0 < ?k" "?k \<le> ?n" using args by (simp_all add: word_le_nat_alt)
  note at = part_at_nat [OF n k(1)]
  let ?hits = "\<lambda>i. hits_below header 20 (part_nonces (part_at ?n ?k i))"
  have "\<forall>i. \<exists>r. i < ?k \<longrightarrow> unat (sh_total_hit_count r) = length (?hits i) \<and>
      (\<forall>scans. scan_part parts i scans = Inr (scans[i := r]))"
  proof (intro allI)
    fix i
    let ?p = "part_at ?n ?k i"
    show "\<exists>r. i < ?k \<longrightarrow> unat (sh_total_hit_count r) = length (?hits i) \<and> (\<forall>scans. scan_part parts i scans = Inr (scans[i := r]))"
    proof (cases "i < ?k")
      case True
      have le: "part_start ?n ?k (Suc i) \<le> ?n" using part_start_mono [of "Suc i" ?k ?n ?k] part_start_end [OF k(1)] True by simp
      have pos: "0 < ?n div ?k" using k by (simp add: div_greater_zero_iff)
      have "sparse_arguments (np_start ?p) (np_count ?p) kProductionThresholdBits kInitialSparseCapacity"
        using at(1,2) [OF True] le n pos
        by (simp add: sparse_arguments_def valid_range_def kProductionThresholdBits_def kInitialSparseCapacity_def)
      then obtain r where "scan_sparse_hits_cpu_complete header (np_start ?p) (np_count ?p) kProductionThresholdBits
          kInitialSparseCapacity = Inr r" "unat (sh_total_hit_count r) = length (?hits i)"
        using sparse_complete_loop [OF header(2), of "np_start ?p" "np_count ?p" kProductionThresholdBits kInitialSparseCapacity 0]
        by (auto simp: scan_sparse_hits_cpu_complete_def kProductionThresholdBits_def part_nonces_def)
      moreover have "np_count ?p \<noteq> 0" using at(2) [OF True] pos by auto
      ultimately show ?thesis using True by (intro exI [of _ r]) (simp add: scan_part_def parts header Let_def)
    qed simp
  qed
  then obtain r where r: "\<And>i. i < ?k \<Longrightarrow> unat (sh_total_hit_count (r i)) = length (?hits i)"
    "\<And>i scans. i < ?k \<Longrightarrow> scan_part parts i scans = Inr (scans[i := r i])" by metis
  have set: "set started = {0..<?k}" using assms(2) parts by (metis atLeastLessThan_upt length_map length_upt minus_nat.diff_0 mset_eq_setD)
  obtain scans where scans: "foldE (scan_part parts) started (replicate ?k no_scan) = Inr scans" "length scans = ?k"
    "\<forall>i < ?k. scans ! i = r i"
    using scan_parts [of started "replicate ?k no_scan" parts r] r(2) set by auto
  then have scans_eq: "scans = List.map r [0..<?k]" by (intro nth_equalityI) simp_all
  let ?sum = "\<Sum>i \<leftarrow> [0..<?k]. unat (sh_total_hit_count (r i))"
  have "?sum = (\<Sum>i \<leftarrow> [0..<?k]. length (?hits i))" using r(1) by (intro arg_cong [of _ _ sum_list] map_cong) simp_all
  also have "\<dots> = length (hits_below header 20 (concat (List.map part_nonces parts)))"
    by (simp add: parts hits_below_def filter_concat length_concat comp_def)
  also have "\<dots> = length (hits_below header 20 (nonce_range 0 nonce_count))"
    using partition_covers [OF args] parts by simp
  finally have sum: "?sum = length (hits_below header 20 (nonce_range 0 nonce_count))" .
  have "length (hits_below header 20 (nonce_range 0 nonce_count)) \<le> length (nonce_range 0 nonce_count)"
    unfolding hits_below_def by (rule length_filter_le)
  then have "?sum < 2 ^ 64" using sum n by (simp add: nonce_range_def)
  then have "unat (of_nat ?sum :: u64) = ?sum" by (simp add: unat_of_nat)
  moreover have "benchmark_hits threads nonce_count parts started = Inr (of_nat ?sum)"
    using scans(1) check_parts [of ?n ?k ?k r "of_nat ?k = threads"] k(1)
    by (simp add: benchmark_hits_def parts scans_eq part_start_end del: part_start_simps)
  ultimately show ?thesis using header(1) sum by (intro exI [of _ "of_nat ?sum"] exI [of _ header]) simp
qed

lemma cpu_benchmark_exact_witness:
  "\<exists>hits header. benchmark_hits 2 5 (List.map (part_at 5 2) [0, 1]) [1, 0] = Inr hits \<and> genesis_header = Inr header \<and>
    unat hits = length (hits_below header 20 (nonce_range 0 5))"
proof -
  have "partition_cpu_nonce_range 5 2 = Inr (List.map (part_at 5 2) [0, 1])"
    using partition_Inr [of 2 5] by (simp add: nonce_space_size_def upt_rec)
  then show ?thesis using cpu_benchmark_exact [of 5 2 "List.map (part_at 5 2) [0, 1]" "[1, 0]"] by simp
qed

end
