(* ===== verification/Captures.thy ===== *)
theory Captures
  imports Nonce_Partition Controller
begin

text \<open>
  The captures of a trajectory campaign, \<^verbatim>\<open>src/research/context_trajectory.cpp\<close>: the file with the nonces of one
  block, their verification on the processor, the choice of the cohorts, and the test that decides whether a block is
  done. File contents are texts of one character per byte; reading an existing file succeeds. The permutation that
  \<^verbatim>\<open>std::shuffle\<close> makes and the numbers of the random generator are parameters.
\<close>

section \<open>Standard algorithms\<close>

text \<open>\<^verbatim>\<open>std::stable_sort\<close>: equal elements keep their order.\<close>

fun insert_by :: "('a \<Rightarrow> 'a \<Rightarrow> bool) \<Rightarrow> 'a \<Rightarrow> 'a list \<Rightarrow> 'a list" where
  "insert_by lt x [] = [x]"
| "insert_by lt x (y # ys) = (if lt y x then y # insert_by lt x ys else x # y # ys)"

definition stable_sort :: "('a \<Rightarrow> 'a \<Rightarrow> bool) \<Rightarrow> 'a list \<Rightarrow> 'a list" where
  "stable_sort lt xs = foldr (insert_by lt) xs []"

lemma insert_by_mset [simp]: "mset (insert_by lt x ys) = add_mset x (mset ys)"
  by (induction ys) auto

lemma stable_sort_mset [simp]: "mset (stable_sort lt xs) = mset xs"
  by (induction xs) (simp_all add: stable_sort_def)

lemma stable_sort_set [simp]: "set (stable_sort lt xs) = set xs"
  by (metis set_mset_mset stable_sort_mset)

lemma stable_sort_length [simp]: "length (stable_sort lt xs) = length xs"
  by (metis size_mset stable_sort_mset)

lemma stable_sort_sorted:
  assumes "\<And>x y. lt x y \<Longrightarrow> \<not> lt y x" "\<And>x y z. \<not> lt x y \<Longrightarrow> \<not> lt y z \<Longrightarrow> \<not> lt x z"
  shows "sorted_wrt (\<lambda>x y. \<not> lt y x) (stable_sort lt xs)"
proof -
  have "sorted_wrt (\<lambda>x y. \<not> lt y x) (insert_by lt x ys)" if "sorted_wrt (\<lambda>x y. \<not> lt y x) ys" for x ys
    using that
  proof (induction ys)
    case (Cons y ys)
    have member: "set (insert_by lt x ys) = insert x (set ys)" by (metis insert_by_mset set_mset_add_mset_insert set_mset_mset)
    have tail: "sorted_wrt (\<lambda>x y. \<not> lt y x) ys" "\<And>z. z \<in> set ys \<Longrightarrow> \<not> lt z y" using Cons.prems by auto
    show ?case
    proof (cases "lt y x")
      case True
      then have "\<not> lt x y" by (rule assms(1))
      then show ?thesis using True tail Cons.IH by (simp add: member)
    next
      case False
      then have "\<not> lt z x" if "z \<in> set ys" for z using tail(2) [OF that] by (intro assms(2) [of z y x])
      then show ?thesis using False tail by simp
    qed
  qed simp
  then show ?thesis by (induction xs) (simp_all add: stable_sort_def)
qed

fun adjacent_equal :: "'a list \<Rightarrow> bool" where
  "adjacent_equal (x # y # ys) = (x = y \<or> adjacent_equal (y # ys))"
| "adjacent_equal _ = False"

lemma adjacent_equal_distinct: "adjacent_equal xs \<longleftrightarrow> \<not> distinct_adj xs"
  by (induction xs rule: adjacent_equal.induct) auto

text \<open>\<^verbatim>\<open>std::is_sorted\<close> and \<^verbatim>\<open>std::adjacent_find\<close> together say that a list is strictly ascending.\<close>

lemma strictly_ascending: "sorted xs \<and> \<not> adjacent_equal xs \<longleftrightarrow> sorted_wrt (<) (xs :: 'a::linorder list)"
proof (induction xs rule: adjacent_equal.induct)
  case (1 x y ys)
  have "sorted_wrt (<) (x # y # ys) \<longleftrightarrow> x < y \<and> sorted_wrt (<) (y # ys)"
    using less_trans [of x y] by (simp only: sorted_wrt.simps(2) [of _ x]) auto
  moreover have "sorted (x # y # ys) \<longleftrightarrow> x \<le> y \<and> sorted (y # ys)"
    using order_trans [of x y] by (simp only: sorted_wrt.simps(2) [of _ x]) auto
  moreover have "x < y \<longleftrightarrow> x \<le> y \<and> x \<noteq> y" by (rule less_le)
  ultimately show ?case using 1 by (simp only: adjacent_equal.simps(1)) blast
qed simp_all

definition unique_sorted :: "u32 list \<Rightarrow> u32 list \<times> nat" where
  "unique_sorted values =
    (let sorted_values = sort values; unique = remdups_adj sorted_values
     in (unique, length sorted_values - length unique))"

lemma unique_sorted_ascending: "unique_sorted nonces = (unique, duplicates) \<Longrightarrow> sorted_wrt (<) unique \<and> set unique = set nonces"
proof -
  assume u: "unique_sorted nonces = (unique, duplicates)"
  then have unique: "unique = remdups_adj (sort nonces)" by (simp add: unique_sorted_def Let_def)
  have "sorted unique \<and> \<not> adjacent_equal unique" unfolding unique by (simp add: adjacent_equal_distinct)
  then show ?thesis by (simp only: strictly_ascending) (simp add: unique)
qed

section \<open>The file of the nonces\<close>

text \<open>The stream: whether it opens, and after how many bytes it fails, if it does.\<close>

record stream_env =
  st_opens :: bool
  st_fails :: "nat option"

definition le_chars :: "u32 \<Rightarrow> string" where
  "le_chars nonce = List.map (\<lambda>k. char_of (unat (ucast (drop_bit k nonce) :: u8))) [0, 8, 16, 24]"

definition capture_bytes :: "u32 list \<Rightarrow> string" where
  "capture_bytes nonces = concat (List.map le_chars nonces)"

definition write_nonce_file :: "stream_env \<Rightarrow> string \<Rightarrow> u32 list \<Rightarrow> disk \<Rightarrow> disk \<times> unit outcome" where
  "write_nonce_file env path sorted_nonces d =
    (if \<not> sorted sorted_nonces \<or> adjacent_equal sorted_nonces
     then (d, Inl (Invalid_argument ''capture nonces must be unique and numeric ascending''))
     else if \<not> st_opens env then (d, Inl (Runtime_error (''cannot create capture '' @ path)))
     else case st_fails env of
       Some k \<Rightarrow> (d(path \<mapsto> take k (capture_bytes sorted_nonces)), Inl (Runtime_error (''cannot flush capture '' @ path)))
     | None \<Rightarrow> (d(path \<mapsto> capture_bytes sorted_nonces), Inr ()))"

fun read_words :: "string \<Rightarrow> u32 list" where
  "read_words (a # b # c # d # cs) =
    (let byte = (\<lambda>x. of_char x :: u32)
     in (byte a OR push_bit 8 (byte b) OR push_bit 16 (byte c) OR push_bit 24 (byte d)) # read_words cs)"
| "read_words _ = []"

definition read_capture :: "disk \<Rightarrow> string \<Rightarrow> u32 list outcome" where
  "read_capture d path =
    (case d path of
       None \<Rightarrow> Inl (Runtime_error (''cannot open sparse capture '' @ path))
     | Some content \<Rightarrow>
         if length content mod 4 \<noteq> 0 then Inl (Runtime_error ''invalid sparse capture byte length'')
         else Inr (read_words content))"

definition file_sha256 :: "disk \<Rightarrow> string \<Rightarrow> string outcome" where
  "file_sha256 d path =
    (case d path of
       None \<Rightarrow> Inl (Runtime_error (''cannot checksum '' @ path))
     | Some content \<Rightarrow> Inr (digest_hex (sha256 (List.map of_char content))))"

text \<open>What reading makes of a nonce that was written.\<close>

lemma of_char_byte: "(of_char (char_of (unat (b :: u8)) :: char) :: u32) = ucast b"
proof -
  have "(of_char (char_of (unat b) :: char) :: u32) = of_nat (of_char (char_of (unat b) :: char))" by (rule of_nat_of_char [symmetric])
  also have "\<dots> = of_nat (unat b)" using unsigned_less [of b, where ?'a = nat] by (simp only: of_char_of) simp
  finally show ?thesis by simp
qed

lemma word_of_le_bytes:
  "ucast (ucast n :: u8) OR push_bit 8 (ucast (ucast (drop_bit 8 n) :: u8)) OR
    push_bit 16 (ucast (ucast (drop_bit 16 n) :: u8)) OR push_bit 24 (ucast (ucast (drop_bit 24 n) :: u8)) = (n :: u32)"
proof (rule bit_word_eqI)
  fix k assume "k < LENGTH(32)"
  then consider "k < 8" | "8 \<le> k" "k < 16" | "16 \<le> k" "k < 24" | "24 \<le> k" "k < 32" by fastforce
  then show "bit (ucast (ucast n :: u8) OR push_bit 8 (ucast (ucast (drop_bit 8 n) :: u8)) OR
      push_bit 16 (ucast (ucast (drop_bit 16 n) :: u8)) OR push_bit 24 (ucast (ucast (drop_bit 24 n) :: u8)) :: u32) k = bit n k"
    by cases (cases "bit n k"; simp add: bit_simps; presburger)+
qed

lemma read_words_bytes [simp]: "read_words (capture_bytes nonces) = nonces"
  by (induction nonces) (simp_all add: capture_bytes_def le_chars_def of_char_byte word_of_le_bytes)

lemma length_capture_bytes [simp]: "length (capture_bytes nonces) = 4 * length nonces"
  by (induction nonces) (simp_all add: capture_bytes_def le_chars_def)

text \<open>A capture is written exactly for strictly ascending nonces, and then reading it gives the same nonces; other
  lists are refused and leave the disk as it was.\<close>

theorem capture_round_trip:
  "case write_nonce_file env path nonces d of (d', r) \<Rightarrow>
     (sorted_wrt (<) nonces \<longrightarrow> st_opens env \<longrightarrow> st_fails env = None \<longrightarrow> r = Inr ()) \<and>
     (r = Inr () \<longrightarrow> sorted_wrt (<) nonces \<and> read_capture d' path = Inr nonces) \<and>
     (\<not> sorted_wrt (<) nonces \<longrightarrow> d' = d) \<and> (\<forall>p. p \<noteq> path \<longrightarrow> d' p = d p)"
  using strictly_ascending [of nonces]
  by (auto simp: write_nonce_file_def read_capture_def split: option.splits)

lemma capture_round_trip_witness:
  "\<exists>d'. write_nonce_file \<lparr>st_opens = True, st_fails = None\<rparr> ''c'' [1, 0x10000] Map.empty = (d', Inr ()) \<and>
    read_capture d' ''c'' = Inr [1, 0x10000]"
  using capture_round_trip [where env = "\<lparr>st_opens = True, st_fails = None\<rparr>" and path = "''c''" and nonces = "[1, 0x10000]" and d = Map.empty]
  by (auto split: prod.splits)

section \<open>Verified hits\<close>

record y_hit =
  yh_nonce :: u32
  yh_y :: pow_words

definition hit_less :: "y_hit \<Rightarrow> y_hit \<Rightarrow> bool" where
  "hit_less left right = (if yh_y left \<noteq> yh_y right then yh_y left < yh_y right else yh_nonce left < yh_nonce right)"

definition sort_y_hits :: "y_hit list \<Rightarrow> y_hit list" where
  "sort_y_hits result = stable_sort hit_less result"

text \<open>One nonce; the header is the loop's own copy and \<open>seen\<close> the set of the nonces before.\<close>

definition reconstruct_nonce ::
    "u32 \<Rightarrow> bool \<Rightarrow> u32 \<Rightarrow> bytes \<times> u32 set \<times> y_hit list \<Rightarrow> (bytes \<times> u32 set \<times> y_hit list) outcome" where
  "reconstruct_nonce threshold_bits require_threshold nonce = (\<lambda>(header, seen, result).
    (if nonce \<in> seen then Inl (Runtime_error ''duplicate nonce in sparse capture'')
     else
       let header = set_nonce header nonce;
           y = pow_value (sha256d header)
       in bindE (if require_threshold
                 then bindE (below_power_of_two_threshold y threshold_bits) (\<lambda>below.
                   requireE below (Runtime_error ''CPU verification rejected a sparse hit''))
                 else Inr ()) (\<lambda>_.
            Inr (header, insert nonce seen, result @ [\<lparr>yh_nonce = nonce, yh_y = y\<rparr>]))))"

definition reconstruct_and_sort :: "bytes \<Rightarrow> u32 list \<Rightarrow> u32 \<Rightarrow> bool \<Rightarrow> y_hit list outcome" where
  "reconstruct_and_sort input nonces threshold_bits require_threshold =
    bindE (foldE (reconstruct_nonce threshold_bits require_threshold) nonces (input, {}, [])) (\<lambda>(header, seen, result).
      Inr (sort_y_hits result))"

definition hit_at :: "bytes \<Rightarrow> u32 \<Rightarrow> y_hit" where
  "hit_at input nonce = \<lparr>yh_nonce = nonce, yh_y = hit_value input (ucast nonce)\<rparr>"

lemma hit_less_order:
  "hit_less x y \<Longrightarrow> \<not> hit_less y x" "\<not> hit_less x y \<Longrightarrow> \<not> hit_less y z \<Longrightarrow> \<not> hit_less x z"
  unfolding hit_less_def by (auto split: if_splits dest: order.strict_trans)

text \<open>Sorting orders the hits by \<open>y\<close> as numbers, equal values by nonce.\<close>

definition hit_rank :: "y_hit \<Rightarrow> nat" where
  "hit_rank h = be_val (yh_y h) * 2 ^ 32 + unat (yh_nonce h)"

lemma hit_less_rank: "length (yh_y x) = 8 \<Longrightarrow> length (yh_y y) = 8 \<Longrightarrow> hit_less x y \<longleftrightarrow> hit_rank x < hit_rank y"
proof -
  assume l: "length (yh_y x) = 8" "length (yh_y y) = 8"
  have "be_val (yh_y x) = be_val (yh_y y) \<longleftrightarrow> yh_y x = yh_y y" using l by (simp add: be_val_inject)
  moreover have "yh_y x < yh_y y \<longleftrightarrow> be_val (yh_y x) < be_val (yh_y y)" using l by (simp add: be_val_less_iff)
  ultimately show ?thesis
    using rank_less [of "unat (yh_nonce x)" "2 ^ 32" "unat (yh_nonce y)" "be_val (yh_y x)" "be_val (yh_y y)"]
      unsigned_less [of "yh_nonce x", where ?'a = nat] unsigned_less [of "yh_nonce y", where ?'a = nat]
    by (auto simp: hit_less_def hit_rank_def word_less_nat_alt)
qed

lemma sort_y_hits_sorted:
  assumes "\<And>h. h \<in> set hits \<Longrightarrow> length (yh_y h) = 8"
  shows "sorted_wrt (\<lambda>x y. hit_rank x \<le> hit_rank y) (sort_y_hits hits)"
proof -
  have "sorted_wrt (\<lambda>x y. \<not> hit_less y x) (sort_y_hits hits)"
    unfolding sort_y_hits_def using hit_less_order by (intro stable_sort_sorted) blast+
  then show ?thesis
    by (rule sorted_wrt_mono_rel [rotated]) (use assms in \<open>simp add: sort_y_hits_def hit_less_rank not_less\<close>)
qed

text \<open>The nonces a verification accepts.\<close>

definition genuine :: "bytes \<Rightarrow> nat \<Rightarrow> u32 list \<Rightarrow> bool" where
  "genuine input bits nonces \<longleftrightarrow> distinct nonces \<and> (\<forall>n \<in> set nonces. le_val (digest_at input (ucast n)) < 2 ^ (256 - bits))"

lemma reconstruct_fold:
  assumes "length input = 80" "0 < unat b" "unat b \<le> 256" "\<And>k. set_nonce header k = set_nonce input k"
  shows "case foldE (reconstruct_nonce b True) nonces (header, seen, result) of
      Inl e \<Rightarrow> \<not> (genuine input (unat b) nonces \<and> set nonces \<inter> seen = {})
    | Inr (header', seen', result') \<Rightarrow> genuine input (unat b) nonces \<and> set nonces \<inter> seen = {} \<and>
        result' = result @ List.map (hit_at input) nonces"
  using assms(4)
proof (induction nonces arbitrary: header seen result)
  case Nil
  then show ?case by (simp add: genuine_def)
next
  case (Cons n nonces)
  have bits: "b \<noteq> 0" "\<not> 256 < b" using assms(2,3) by (auto simp: word_less_nat_alt)
  have "digest_at input (ucast n) = sha256d (set_nonce input n)" by (simp add: digest_at_def)
  then have hit: "pow_value (sha256d (set_nonce input n)) = hit_value input (ucast n)" by (simp add: hit_value_def)
  have below: "below_power_of_two_threshold (hit_value input (ucast n)) b =
      Inr (le_val (digest_at input (ucast n)) < 2 ^ (256 - unat b))"
    using bits below_bits_numeric [OF assms(3), of input "ucast n"]
    by (simp add: below_power_of_two_threshold_def below_bits_def)
  have keep: "set_nonce (set_nonce input n) k = set_nonce input k" for k using assms(1) by simp
  show ?case
  proof (cases "n \<notin> seen \<and> le_val (digest_at input (ucast n)) < 2 ^ (256 - unat b)")
    case True
    then have step: "reconstruct_nonce b True n (header, seen, result) =
        Inr (set_nonce input n, insert n seen, result @ [hit_at input n])"
      by (simp add: reconstruct_nonce_def Cons.prems hit below hit_at_def)
    show ?thesis
      using Cons.IH [OF keep, where seen = "insert n seen" and result = "result @ [hit_at input n]"] True
      by (auto simp: step genuine_def split: sum.splits)
  next
    case False
    then have "\<exists>e. reconstruct_nonce b True n (header, seen, result) = Inl e"
      by (auto simp: reconstruct_nonce_def Cons.prems hit below)
    then show ?thesis using False by (auto simp: genuine_def)
  qed
qed

text \<open>C29: the verification accepts a capture exactly when its nonces are distinct and each of their hashes is below the
  threshold; it then returns each of them once with its hash value, in ascending order of the value, equal values by
  nonce.\<close>

theorem verified_hits_exact:
  assumes "length input = 80" "0 < unat b" "unat b \<le> 256"
  shows "case reconstruct_and_sort input nonces b True of
      Inl e \<Rightarrow> \<not> genuine input (unat b) nonces
    | Inr hits \<Rightarrow> genuine input (unat b) nonces \<and> mset hits = image_mset (hit_at input) (mset nonces) \<and>
        sorted_wrt (\<lambda>x y. hit_rank x \<le> hit_rank y) hits"
proof -
  have "sorted_wrt (\<lambda>x y. hit_rank x \<le> hit_rank y) (sort_y_hits (List.map (hit_at input) nonces))"
    by (rule sort_y_hits_sorted) (auto simp: hit_at_def)
  then show ?thesis
    using reconstruct_fold [OF assms, of input nonces "{}" "[]"]
    by (auto simp: reconstruct_and_sort_def sort_y_hits_def split: sum.splits)
qed

lemma verified_hits_exact_witness:
  "\<exists>e. reconstruct_and_sort (replicate 80 0) [5, 5] 20 True = Inl e"
proof -
  have args: "length (replicate 80 (0 :: u8)) = 80" "0 < unat (20 :: u32)" "unat (20 :: u32) \<le> 256" by simp_all
  show ?thesis using verified_hits_exact [OF args, of "[5, 5]"] by (auto simp: genuine_def split: sum.splits)
qed

section \<open>Cohorts\<close>

record selected_bjen =
  se_cohort :: string
  se_rank :: "nat option"
  se_hit :: y_hit

definition derived_seed :: "u64 \<Rightarrow> string \<Rightarrow> u64" where
  "derived_seed seed text =
    (let material = to_string (unat seed) @ '':'' @ text;
         digest = sha256 (List.map of_char material)
     in fold (\<lambda>byte result. push_bit 8 result OR ucast byte) (take 8 digest) 0)"

definition append_range :: "y_hit list \<Rightarrow> string \<Rightarrow> nat \<Rightarrow> nat \<Rightarrow> selected_bjen list" where
  "append_range sorted_t20 cohort first final =
    List.map (\<lambda>rank. \<lparr>se_cohort = cohort, se_rank = Some rank, se_hit = sorted_t20 ! (rank - 1)\<rparr>)
      [first..<Suc (min final (length sorted_t20))]"

text \<open>The control hits without a rank are drawn until there are enough; \<open>draws\<close> are the numbers of the generator, and
  \<open>None\<close> means that more of them are needed.\<close>

fun random_controls ::
    "nat \<Rightarrow> u64 list \<Rightarrow> bytes \<Rightarrow> u32 list \<Rightarrow> selected_bjen list \<Rightarrow> selected_bjen list option" where
  "random_controls wanted [] header used selected = (if wanted \<le> length used then Some selected else None)"
| "random_controls wanted (draw # draws) header used selected =
    (if wanted \<le> length used then Some selected
     else
       let nonce = ucast draw in
       if nonce \<in> set used then random_controls wanted draws header used selected
       else
         let header = set_nonce header nonce;
             y = pow_value (sha256d header)
         in case below_power_of_two_threshold y kProductionThresholdBits of
              Inr False \<Rightarrow> random_controls wanted draws header (used @ [nonce])
                (selected @ [\<lparr>se_cohort = ''RANDOM_CONTROL'', se_rank = None, se_hit = \<lparr>yh_nonce = nonce, yh_y = y\<rparr>\<rparr>])
            | _ \<Rightarrow> random_controls wanted draws header used selected)"

definition select_cohorts ::
    "(u64 \<Rightarrow> nat list \<Rightarrow> nat list) \<Rightarrow> (u64 \<Rightarrow> u64 list) \<Rightarrow> bytes \<Rightarrow> y_hit list \<Rightarrow> u64 \<Rightarrow> string \<Rightarrow> nat \<Rightarrow> nat \<Rightarrow>
      selected_bjen list option" where
  "select_cohorts shuffle generator header sorted_t20 seed block_id t20_control_count random_control_count =
    (if length sorted_t20 < 256 then Some []
     else
       let fixed = append_range sorted_t20 ''EXTREME'' 1 16 @ append_range sorted_t20 ''VERY_GOOD'' 17 64 @
             append_range sorted_t20 ''GOOD'' 65 256;
           candidates = shuffle (derived_seed seed (block_id @ '':T20_CONTROL'')) [257..<257 + (length sorted_t20 - 256)];
           control_n = min t20_control_count (length candidates);
           controls = List.map (\<lambda>i. \<lparr>se_cohort = ''T20_CONTROL'', se_rank = Some (candidates ! i),
             se_hit = sorted_t20 ! (candidates ! i - 1)\<rparr>) [0..<control_n]
       in random_controls random_control_count (generator (derived_seed seed (block_id @ '':RANDOM_CONTROL''))) header []
            (fixed @ controls))"

lemma random_controls_spec:
  assumes "random_controls wanted draws header used selected = Some result" "length used \<le> wanted" "distinct used"
    "length header = 80" "\<And>k. set_nonce header k = set_nonce input k"
  shows "\<exists>nonces. result = selected @ List.map (\<lambda>n. \<lparr>se_cohort = ''RANDOM_CONTROL'', se_rank = None, se_hit = hit_at input n\<rparr>) nonces
      \<and> length used + length nonces = wanted \<and> distinct (used @ nonces) \<and>
      (\<forall>n \<in> set nonces. 2 ^ 236 \<le> le_val (digest_at input (ucast n)))"
  using assms
proof (induction draws arbitrary: header used selected)
  case Nil
  then show ?case by (intro exI [of _ "[]"]) (auto split: if_splits)
next
  case (Cons draw draws)
  let ?n = "ucast draw :: u32"
  note prems = Cons.prems
  have input: "length input = 80" using prems(4,5) by (metis length_set_nonce)
  have keep: "set_nonce (set_nonce header ?n) k = set_nonce input k" for k using input prems(5) by simp
  have hit: "pow_value (sha256d (set_nonce header ?n)) = hit_value input (ucast ?n)"
    using prems(5) [of ?n] by (simp add: hit_value_def digest_at_def)
  have below: "below_power_of_two_threshold (hit_value input (ucast ?n)) kProductionThresholdBits =
      Inr (le_val (digest_at input (ucast ?n)) < 2 ^ 236)"
    using below_bits_numeric [of 20 input "ucast ?n"]
    by (simp add: below_power_of_two_threshold_def below_bits_def kProductionThresholdBits_def)
  have step: "random_controls wanted (draw # draws) header used selected =
      (if wanted \<le> length used then Some selected
       else if ?n \<in> set used then random_controls wanted draws header used selected
       else if le_val (digest_at input (ucast ?n)) < 2 ^ 236
       then random_controls wanted draws (set_nonce header ?n) used selected
       else random_controls wanted draws (set_nonce header ?n) (used @ [?n])
         (selected @ [\<lparr>se_cohort = ''RANDOM_CONTROL'', se_rank = None, se_hit = hit_at input ?n\<rparr>]))"
    by (simp add: Let_def hit below hit_at_def)
  have len: "length (set_nonce header ?n) = 80" using prems(4) by simp
  consider "wanted \<le> length used" | "\<not> wanted \<le> length used" "?n \<in> set used"
    | "\<not> wanted \<le> length used" "?n \<notin> set used" "le_val (digest_at input (ucast ?n)) < 2 ^ 236"
    | "\<not> wanted \<le> length used" "?n \<notin> set used" "2 ^ 236 \<le> le_val (digest_at input (ucast ?n))"
    by (meson not_le)
  then show ?case
  proof cases
    case 1
    then show ?thesis using prems(1,2,3) unfolding step by (intro exI [of _ "[]"]) auto
  next
    case 2
    with prems(1) have "random_controls wanted draws header used selected = Some result" unfolding step by simp
    from Cons.IH [OF this prems(2-5)] show ?thesis .
  next
    case 3
    with prems(1) have "random_controls wanted draws (set_nonce header ?n) used selected = Some result" unfolding step by simp
    from Cons.IH [OF this prems(2,3) len keep] show ?thesis .
  next
    case 4
    let ?item = "\<lparr>se_cohort = ''RANDOM_CONTROL'', se_rank = None, se_hit = hit_at input ?n\<rparr>"
    have "random_controls wanted draws (set_nonce header ?n) (used @ [?n]) (selected @ [?item]) = Some result"
      using prems(1) 4 unfolding step by simp
    from Cons.IH [OF this _ _ len keep] obtain nonces where "result = (selected @ [?item]) @
        List.map (\<lambda>n. \<lparr>se_cohort = ''RANDOM_CONTROL'', se_rank = None, se_hit = hit_at input n\<rparr>) nonces"
      "length (used @ [?n]) + length nonces = wanted" "distinct ((used @ [?n]) @ nonces)"
      "\<forall>n \<in> set nonces. 2 ^ 236 \<le> le_val (digest_at input (ucast n))"
      using prems(2,3) 4 by auto
    then show ?thesis using 4 by (intro exI [of _ "?n # nonces"]) auto
  qed
qed

text \<open>The ranked part of a selection and the ranks it takes.\<close>

lemma append_range_ranks:
  "List.map se_rank (append_range t20 c a b) = List.map Some [a..<Suc (min b (length t20))]"
  "List.map se_hit (append_range t20 c a b) = List.map (\<lambda>r. t20 ! (r - 1)) [a..<Suc (min b (length t20))]"
  by (simp_all add: append_range_def)

lemma ranked_part:
  assumes "256 \<le> length t20"
  defines "fixed \<equiv> append_range t20 ''EXTREME'' 1 16 @ append_range t20 ''VERY_GOOD'' 17 64 @ append_range t20 ''GOOD'' 65 256"
  shows "List.map se_rank fixed = List.map Some [1..<257]" "List.map se_hit fixed = List.map (\<lambda>r. t20 ! (r - 1)) [1..<257]"
proof -
  have min: "min 16 (length t20) = 16" "min 64 (length t20) = 64" "min 256 (length t20) = 256" using assms(1) by auto
  have "[1..<17] @ [17..<65] @ [65..<257] = [1..<257]"
    using upt_add_eq_append [of 1 17 48] upt_add_eq_append [of 1 65 192] by simp
  then have ranks: "[1..<Suc 16] @ [17..<Suc 64] @ [65..<Suc 256] = [1..<257]" by simp
  show "List.map se_rank fixed = List.map Some [1..<257]" "List.map se_hit fixed = List.map (\<lambda>r. t20 ! (r - 1)) [1..<257]"
    unfolding fixed_def map_append append_range_ranks min ranks [symmetric] by (rule refl)+
qed

text \<open>The selection of a block with at least 256 hits takes the ranks 1 to 256 in order, the asked number of further
  ranks (all there are, if fewer), and the asked number of nonces that miss the threshold and so are no hits; neither
  among the ranked nor among the other nonces one occurs twice.\<close>

theorem cohorts_exact:
  assumes "select_cohorts shuffle generator input t20 seed block_id control_count random_count = Some selected"
    "distinct (List.map yh_nonce t20)" "length input = 80" "256 \<le> length t20" "\<And>s xs. mset (shuffle s xs) = mset xs"
  shows "List.map se_rank (take 256 selected) = List.map Some [1..<257]
    \<and> length selected = 256 + min control_count (length t20 - 256) + random_count
    \<and> distinct (List.map (yh_nonce \<circ> se_hit) (filter (\<lambda>x. se_rank x \<noteq> None) selected))
    \<and> distinct (List.map (yh_nonce \<circ> se_hit) (filter (\<lambda>x. se_rank x = None) selected))
    \<and> (\<forall>x \<in> set selected. case se_rank x of
         Some rank \<Rightarrow> rank \<in> {1..length t20} \<and> se_hit x = t20 ! (rank - 1)
       | None \<Rightarrow> 2 ^ 236 \<le> le_val (digest_at input (ucast (yh_nonce (se_hit x)))))"
proof -
  define fixed where "fixed = append_range t20 ''EXTREME'' 1 16 @ append_range t20 ''VERY_GOOD'' 17 64 @ append_range t20 ''GOOD'' 65 256"
  define candidates where "candidates = shuffle (derived_seed seed (block_id @ '':T20_CONTROL'')) [257..<257 + (length t20 - 256)]"
  define controls where "controls = List.map (\<lambda>i. \<lparr>se_cohort = ''T20_CONTROL'', se_rank = Some (candidates ! i),
      se_hit = t20 ! (candidates ! i - 1)\<rparr>) [0..<min control_count (length candidates)]"
  note fixed = ranked_part [OF assms(4), folded fixed_def]
  have cand: "mset candidates = mset [257..<257 + (length t20 - 256)]" unfolding candidates_def by (rule assms(5))
  then have cset: "set candidates = {257..<257 + (length t20 - 256)}" and cdist: "distinct candidates"
    and clen: "length candidates = length t20 - 256"
    by (metis set_mset_mset set_upt, metis distinct_upt mset_eq_imp_distinct_iff, metis length_upt size_mset add_diff_cancel_left')
  have nth: "List.map ((!) candidates) [0..<min control_count (length candidates)] = take control_count candidates"
    by (rule nth_equalityI) simp_all
  define ranks where "ranks = [1..<257] @ take control_count candidates"
  have ranked: "List.map se_rank (fixed @ controls) = List.map Some ranks"
    "List.map se_hit (fixed @ controls) = List.map (\<lambda>r. t20 ! (r - 1)) ranks"
    unfolding ranks_def map_append fixed nth [symmetric] by (simp_all add: controls_def)
  have lranks: "length ranks = 256 + min control_count (length t20 - 256)" by (simp add: ranks_def clen min.commute)
  have rset: "set ranks \<subseteq> {1..length t20}"
    unfolding ranks_def using set_take_subset [of control_count candidates] cset assms(4) by auto
  have rdist: "distinct ranks"
    unfolding ranks_def using set_take_subset [of control_count candidates] cset cdist by auto
  have "random_controls random_count (generator (derived_seed seed (block_id @ '':RANDOM_CONTROL''))) input [] (fixed @ controls) = Some selected"
    using assms(1,4) by (simp add: select_cohorts_def Let_def fixed_def controls_def candidates_def)
  then obtain drawn where sel: "selected = (fixed @ controls) @
      List.map (\<lambda>n. \<lparr>se_cohort = ''RANDOM_CONTROL'', se_rank = None, se_hit = hit_at input n\<rparr>) drawn"
    and ldrawn: "length drawn = random_count" and ddrawn: "distinct drawn"
    and above: "\<forall>n \<in> set drawn. 2 ^ 236 \<le> le_val (digest_at input (ucast n))"
    using random_controls_spec [where used = "[]" and header = input and input = input] assms(3) by fastforce
  have lpart: "length (fixed @ controls) = length ranks" by (metis length_map ranked(1))
  let ?at = "\<lambda>r. yh_nonce (t20 ! (r - 1))"
  have "inj_on ?at (set ranks)"
  proof (rule inj_onI)
    fix r q assume r: "r \<in> set ranks" "q \<in> set ranks" "?at r = ?at q"
    then have "r - 1 < length t20" "q - 1 < length t20" "1 \<le> r" "1 \<le> q" using rset by fastforce+
    moreover from this have "r - 1 = q - 1" using r(3) nth_eq_iff_index_eq [OF assms(2), of "r - 1" "q - 1"] by simp
    ultimately show "r = q" by linarith
  qed
  then have "distinct (List.map ?at ranks)" using rdist by (simp add: distinct_map)
  moreover have "List.map (yh_nonce \<circ> se_hit) (fixed @ controls) = List.map ?at ranks"
    using arg_cong [OF ranked(2), of "List.map yh_nonce"] by (simp add: comp_def)
  moreover have "\<forall>x \<in> set (fixed @ controls). se_rank x \<noteq> None"
    using arg_cong [OF ranked(1), of set] by auto
  then have "filter (\<lambda>x. se_rank x \<noteq> None) selected = fixed @ controls"
    "filter (\<lambda>x. se_rank x = None) selected = List.map (\<lambda>n. \<lparr>se_cohort = ''RANDOM_CONTROL'', se_rank = None, se_hit = hit_at input n\<rparr>) drawn"
    unfolding sel by (simp_all add: filter_empty_conv del: append_assoc map_append)
  ultimately have "distinct (List.map (yh_nonce \<circ> se_hit) (filter (\<lambda>x. se_rank x \<noteq> None) selected))"
    "distinct (List.map (yh_nonce \<circ> se_hit) (filter (\<lambda>x. se_rank x = None) selected))"
    using ddrawn by (simp_all add: hit_at_def comp_def)
  moreover have "List.map se_rank (take 256 selected) = List.map Some [1..<257]"
  proof -
    have "take 256 selected = take 256 (fixed @ controls)" unfolding sel take_append using lpart lranks by simp
    then have "List.map se_rank (take 256 selected) = take 256 (List.map Some ranks)" by (simp only: take_map [symmetric] ranked(1))
    then show ?thesis by (simp add: ranks_def take_map)
  qed
  moreover have "case se_rank x of Some rank \<Rightarrow> rank \<in> {1..length t20} \<and> se_hit x = t20 ! (rank - 1)
       | None \<Rightarrow> 2 ^ 236 \<le> le_val (digest_at input (ucast (yh_nonce (se_hit x))))" if "x \<in> set selected" for x
  proof (cases "x \<in> set (fixed @ controls)")
    case True
    then obtain i where i: "i < length ranks" "x = (fixed @ controls) ! i" by (metis in_set_conv_nth lpart)
    have "se_rank x = Some (ranks ! i)" "se_hit x = t20 ! (ranks ! i - 1)"
      using ranked i lpart by (metis nth_map)+
    then show ?thesis using rset i(1) nth_mem by fastforce
  next
    case False
    then have "x \<in> (\<lambda>n. \<lparr>se_cohort = ''RANDOM_CONTROL'', se_rank = None, se_hit = hit_at input n\<rparr>) ` set drawn" using that sel by auto
    then show ?thesis using above by (auto simp: hit_at_def)
  qed
  moreover have "length selected = 256 + min control_count (length t20 - 256) + random_count"
    using lpart lranks ldrawn by (simp add: sel)
  ultimately show ?thesis by blast
qed

lemma cohorts_exact_witness:
  "\<exists>selected. select_cohorts (\<lambda>s xs. rev xs) (\<lambda>s. []) (replicate 80 0) (List.map (\<lambda>i. \<lparr>yh_nonce = of_nat i, yh_y = []\<rparr>) [0..<300])
      7 ''b'' 10 0 = Some selected \<and> length selected = 266"
proof -
  let ?t20 = "List.map (\<lambda>i. \<lparr>yh_nonce = of_nat i :: u32, yh_y = []\<rparr>) [0..<300]"
  have "inj_on (\<lambda>i :: nat. of_nat i :: u32) {0..<300}"
    by (rule inj_on_inverseI [of _ unat]) (simp add: unat_of_nat)
  then have "distinct (List.map yh_nonce ?t20)" by (simp add: comp_def distinct_map)
  moreover obtain selected where
    "select_cohorts (\<lambda>s xs. rev xs) (\<lambda>s. []) (replicate 80 0) ?t20 7 ''b'' 10 0 = Some selected"
    by (simp add: select_cohorts_def Let_def)
  ultimately show ?thesis using cohorts_exact [of "\<lambda>s xs. rev xs" "\<lambda>s. []" "replicate 80 0" ?t20 7 "''b''" 10 0] by auto
qed

end
