(* ===== verification/Trajectory.thy ===== *)
theory Trajectory
  imports Captures Research_Run
begin

text \<open>
  Capturing the blocks of a trajectory campaign, \<^verbatim>\<open>src/research/context_trajectory.cpp\<close>: the test whether a block
  is done, the handler that verifies and stores the result of one block, and \<^verbatim>\<open>resume_campaign\<close> up to the end of
  the scans. What the GPU answers is a parameter, as are the order in which the worker pool reports its tasks and the
  exception of a worker, if one threw; theory \<open>Bounded_Workers\<close> shows which orders occur. Operations keep every disk
  they write in \<open>ca_disks\<close>, so that a statement about all of them is one about a crash at any moment.
\<close>

section \<open>State\<close>

record gpu_device =
  gd_name :: string
  gd_board_name :: string
  gd_vendor :: string
  gd_driver :: string
  gd_compute_units :: u32

record gpu_scan =
  gc_hits :: sparse_hits
  gc_device :: gpu_device
  gc_elapsed :: fdouble
  gc_kernel :: fdouble

record campaign_env =
  ce_rename :: "string \<Rightarrow> string option"
  ce_stream :: "string \<Rightarrow> stream_env"
  ce_save :: "string \<Rightarrow> string \<Rightarrow> disk \<Rightarrow> disk list \<times> unit outcome"
  ce_utc :: string
  ce_verify_seconds :: fdouble

record campaign_state =
  ca_disk :: disk
  ca_disks :: "disk list"
  ca_completed :: u64
  ca_checkpoints :: u64

record 'j campaign =
  cg_dir :: string
  cg_manifest :: 'j
  cg_total :: u64
  cg_gpu_workers :: u64

definition put_disks :: "disk list \<Rightarrow> campaign_state \<Rightarrow> campaign_state" where
  "put_disks ds s = s\<lparr>ca_disk := last (ca_disk s # ds), ca_disks := ca_disks s @ ds\<rparr>"

definition captures_path :: "string \<Rightarrow> string \<Rightarrow> string" where
  "captures_path dir name = path_append (path_append dir ''captures'') name"

definition at_at :: "'j json_api \<Rightarrow> 'j \<Rightarrow> string \<Rightarrow> string \<Rightarrow> 'j outcome" where
  "at_at J v a b = bindE (j_at J v a) (\<lambda>x. j_at J x b)"

section \<open>Is a block done?\<close>

text \<open>Every exception of the test means no.\<close>

definition accepts :: "bool outcome \<Rightarrow> bool" where
  "accepts r = (case r of Inl e \<Rightarrow> False | Inr b \<Rightarrow> b)"

definition metadata_agrees :: "'j json_api \<Rightarrow> 'j \<Rightarrow> string \<Rightarrow> 'j \<Rightarrow> bool outcome" where
  "metadata_agrees J metadata ident block =
    (let text = value_or J (j_get_string J) metadata; flag = value_or J (j_get_bool J) metadata;
         u32 = value_or J (j_get_u32 J) metadata; observed = u32 ''observed_t20_count'' 1
     in foldr and_then
       [bindE (text ''status'' []) (\<lambda>s. Inr (s = ''COMPLETE'')),
        flag ''scan_complete'' False,
        bindE (flag ''overflow'' True) (\<lambda>b. Inr (\<not> b)),
        flag ''cpu_verification_complete'' False,
        bindE (u32 ''duplicate_count'' 1) (\<lambda>n. Inr (n = 0)),
        bindE (value_or J (j_get_u64 J) metadata ''nonce_count'' 0) (\<lambda>n. Inr (n = nonce_space_size)),
        bindE (u32 ''threshold_bits'' 0) (\<lambda>n. Inr (n = kProductionThresholdBits)),
        bindE (text ''block_id'' []) (\<lambda>s. Inr (s = ident)),
        bindE (text ''partition'' []) (\<lambda>s. bindE (value_or J (j_get_string J) block ''partition'' []) (\<lambda>t. Inr (s = t))),
        bindE (u32 ''cpu_verification_count'' 0) (\<lambda>n. bindE observed (\<lambda>m. Inr (n = m))),
        bindE (u32 ''total_hit_count'' 0) (\<lambda>n. bindE observed (\<lambda>m. Inr (n = m))),
        bindE (u32 ''captured_count'' 0) (\<lambda>n. bindE observed (\<lambda>m. Inr (n = m)))]
       (Inr True))"

definition capture_is_complete :: "'j json_api \<Rightarrow> disk \<Rightarrow> string \<Rightarrow> 'j \<Rightarrow> bool" where
  "capture_is_complete J d dir block =
    accepts
      (bindE (at_get J (j_get_string J) block ''block_id'') (\<lambda>ident.
        let binary = captures_path dir (ident @ ''.t20.bin''); metadata_path = captures_path dir (ident @ ''.json'')
        in if d binary = None \<or> d metadata_path = None then Inr False
           else
             bindE (load_or J d metadata_path (j_null J)) (\<lambda>metadata.
             and_then (metadata_agrees J metadata ident block)
               (bindE (read_capture d binary) (\<lambda>nonces.
                bindE (at_get J (j_get_u64 J) metadata ''observed_t20_count'') (\<lambda>observed.
                if of_nat (length nonces) \<noteq> observed \<or> \<not> sorted nonces \<or> adjacent_equal nonces then Inr False
                else
                  bindE (file_sha256 d binary) (\<lambda>checksum.
                  bindE (at_get J (j_get_string J) metadata ''capture_sha256'') (\<lambda>stored.
                    Inr (checksum = stored)))))))))"

section \<open>Storing the result of a block\<close>

definition rename_file :: "campaign_env \<Rightarrow> string \<Rightarrow> string \<Rightarrow> (campaign_state, unit) act" where
  "rename_file env src dst s =
    (case ce_rename env src of
       Some e \<Rightarrow> Some (Inl (Runtime_error e), s)
     | None \<Rightarrow> Some (Inr (), put_disks [(ca_disk s)(dst := ca_disk s src, src := None)] s))"

definition write_op :: "campaign_env \<Rightarrow> string \<Rightarrow> u32 list \<Rightarrow> (campaign_state, unit) act" where
  "write_op env path nonces s =
    (case write_nonce_file (ce_stream env path) path nonces (ca_disk s) of (d, r) \<Rightarrow> Some (r, put_disks [d] s))"

definition store_op :: "campaign_env \<Rightarrow> string \<Rightarrow> string \<Rightarrow> (campaign_state, unit) act" where
  "store_op env path payload s =
    (case ce_save env path payload (ca_disk s) of (ds, r) \<Rightarrow> Some (r, put_disks ds s))"

definition checksum_op :: "string \<Rightarrow> (campaign_state, string) act" where
  "checksum_op path s = Some (file_sha256 (ca_disk s) path, s)"

text \<open>The suffix counts up in 32 bits; it starts over when all of them are taken, which never ends.\<close>

definition suffix_distance :: "u32 \<Rightarrow> nat" where
  "suffix_distance suffix = (if suffix = 0 then 0 else 2 ^ 32 - unat suffix)"

lemma suffix_closer: "suffix \<noteq> 0 \<Longrightarrow> suffix_distance (suffix + 1) < suffix_distance suffix"
proof -
  assume nonzero: "suffix \<noteq> 0"
  have less: "unat suffix < 2 ^ 32" using unsigned_less [of suffix, where ?'a = nat] by simp
  show ?thesis
  proof (cases "suffix = - 1")
    case False
    then have "unat (suffix + 1) = unat suffix + 1" by (rule unat_plus_one)
    then show ?thesis using nonzero less by (auto simp: suffix_distance_def)
  qed (use less nonzero in \<open>simp add: suffix_distance_def\<close>)
qed

function free_name :: "disk \<Rightarrow> string \<Rightarrow> u32 \<Rightarrow> string option" where
  "free_name d path suffix =
    (let name = path @ ''.invalid.'' @ to_string (unat suffix)
     in if d name = None then Some name else if suffix = 0 then None else free_name d path (suffix + 1))"
  by pat_completeness auto
termination
  by (relation "measure (\<lambda>(d, path, suffix). suffix_distance suffix)") (auto simp: suffix_closer)

declare free_name.simps [simp del]

definition quarantine_if_present :: "campaign_env \<Rightarrow> string \<Rightarrow> (campaign_state, unit) act" where
  "quarantine_if_present env path s =
    (if ca_disk s path = None then Some (Inr (), s)
     else if ca_disk s (path @ ''.invalid'') = None then rename_file env path (path @ ''.invalid'') s
     else case free_name (ca_disk s) path 1 of None \<Rightarrow> None | Some name \<Rightarrow> rename_file env path name s)"

text \<open>The directory of the file exists.\<close>

definition write_capture_atomic :: "campaign_env \<Rightarrow> string \<Rightarrow> u32 list \<Rightarrow> (campaign_state, unit) act" where
  "write_capture_atomic env path sorted_nonces s =
    (if ca_disk s path \<noteq> None then Some (Inl (Runtime_error (''capture already exists: '' @ path)), s)
     else act_then (write_op env (path @ ''.tmp'') sorted_nonces) (rename_file env (path @ ''.tmp'') path) s)"

definition double_neg :: "fdouble \<Rightarrow> fdouble" where
  "double_neg x = (case x of FNaN \<Rightarrow> FNaN | FInf s \<Rightarrow> FInf (\<not> s) | FZero s \<Rightarrow> FZero (\<not> s) | FNum s m e \<Rightarrow> FNum (\<not> s) m e)"

text \<open>The square root of 4096 is 64.\<close>

definition count_z_score :: "nat \<Rightarrow> fdouble" where
  "count_z_score n = double_div (double_add (double_of_nat n) (double_neg (double_of_nat 4096))) (double_of_nat 64)"

definition capture_metadata ::
    "'j json_api \<Rightarrow> campaign_env \<Rightarrow> 'j campaign \<Rightarrow> 'j \<Rightarrow> string \<Rightarrow> gpu_scan \<Rightarrow> nat \<Rightarrow> nat \<Rightarrow> nat \<Rightarrow> string \<Rightarrow> 'j outcome" where
  "capture_metadata J env cg block ident scan nonces verified duplicates checksum =
    (let hits = gc_hits scan; device = gc_device scan
     in bindE (j_at J (cg_manifest cg) ''campaign_id'') (\<lambda>campaign_id.
        bindE (j_at J block ''partition'') (\<lambda>partition.
        bindE (at_at J block ''stratum_job'' ''prevhash'') (\<lambda>prevhash.
        bindE (j_at J block ''work_fingerprint'') (\<lambda>fingerprint.
        bindE (at_at J block ''stratum_job'' ''job_id'') (\<lambda>job_id.
        bindE (at_at J block ''subscription'' ''extranonce1'') (\<lambda>extranonce1.
        bindE (j_at J block ''extranonce2'') (\<lambda>extranonce2.
        bindE (at_at J block ''subscription'' ''extranonce2_size'') (\<lambda>extranonce2_size.
        bindE (at_at J block ''stratum_job'' ''version'') (\<lambda>version.
        bindE (at_at J block ''stratum_job'' ''nbits'') (\<lambda>nbits.
        bindE (at_at J block ''stratum_job'' ''ntime'') (\<lambda>ntime.
        bindE (j_at J block ''merkle_root'') (\<lambda>merkle_root.
        bindE (j_at J block ''header_prefix_76_bytes_hex'') (\<lambda>prefix.
          Inr (j_object J
            [(''schema_version'', j_signed J 1), (''campaign_id'', campaign_id), (''block_id'', j_string J ident),
             (''partition'', partition), (''prevhash'', prevhash), (''work_fingerprint'', fingerprint), (''job_id'', job_id),
             (''extranonce1'', extranonce1), (''extranonce2'', extranonce2), (''extranonce2_size'', extranonce2_size),
             (''version'', version), (''nbits'', nbits), (''ntime'', ntime), (''merkle_root'', merkle_root),
             (''header_prefix_76_bytes_hex'', prefix), (''nonce_start'', j_signed J 0),
             (''nonce_count'', j_unsigned J nonce_space_size), (''scan_complete'', j_boolean J True),
             (''gpu_workers'', j_unsigned J (cg_gpu_workers cg)),
             (''gpu_device'', j_object J
               [(''name'', j_string J (gd_name device)), (''board_name'', j_string J (gd_board_name device)),
                (''vendor'', j_string J (gd_vendor device)), (''driver'', j_string J (gd_driver device)),
                (''compute_units'', j_unsigned J (ucast (gd_compute_units device)))]),
             (''elapsed_seconds'', j_double J (gc_elapsed scan)), (''kernel_seconds'', j_double J (gc_kernel scan)),
             (''hash_rate_hps'', j_double J (if double_less double_zero (gc_elapsed scan)
                then double_div (double_of_nat (unat nonce_space_size)) (gc_elapsed scan) else double_zero)),
             (''threshold'', j_string J ''T20''), (''threshold_bits'', j_unsigned J (ucast kProductionThresholdBits)),
             (''expected_hits'', j_signed J 4096), (''observed_t20_count'', j_unsigned J (of_nat nonces)),
             (''total_hit_count'', j_unsigned J (sh_total_hit_count hits)),
             (''captured_count'', j_unsigned J (sh_captured_count hits)),
             (''count_z_score'', j_double J (count_z_score nonces)),
             (''sparse_buffer_capacity'', j_unsigned J (sh_capacity hits)),
             (''overflow_retries'', j_unsigned J (sh_retries hits)), (''overflow'', j_boolean J False),
             (''cpu_verification_count'', j_unsigned J (of_nat verified)),
             (''cpu_verify_seconds'', j_double J (ce_verify_seconds env)),
             (''cpu_verification_complete'', j_boolean J True), (''duplicate_count'', j_unsigned J (of_nat duplicates)),
             (''capture_record_endian'', j_string J ''little-endian''),
             (''capture_order'', j_string J ''nonce_numeric_ascending''),
             (''capture_sha256'', j_string J checksum), (''status'', j_string J ''COMPLETE'')])))))))))))))))"

definition campaign_checkpoint :: "'j json_api \<Rightarrow> campaign_env \<Rightarrow> 'j campaign \<Rightarrow> u64 \<Rightarrow> u64 \<Rightarrow> string \<Rightarrow> 'j outcome" where
  "campaign_checkpoint J env cg completed checkpoint_count ident =
    bindE (j_at J (cg_manifest cg) ''campaign_id'') (\<lambda>campaign_id.
      Inr (j_object J
        [(''schema_version'', j_signed J 1), (''campaign_id'', campaign_id),
         (''status'', j_string J (if completed = cg_total cg then ''COMPLETE'' else ''RUNNING'')),
         (''completed_bje'', j_unsigned J completed), (''total_bje'', j_unsigned J (cg_total cg)),
         (''checkpoint_count'', j_unsigned J checkpoint_count), (''gpu_workers'', j_unsigned J (cg_gpu_workers cg)),
         (''last_completed_block_id'', j_string J ident), (''updated_at_utc'', j_string J (ce_utc env))]))"

text \<open>The completion handler of \<^verbatim>\<open>resume_campaign\<close>.\<close>

definition complete_block ::
    "'j json_api \<Rightarrow> campaign_env \<Rightarrow> 'j campaign \<Rightarrow> 'j \<Rightarrow> bytes \<Rightarrow> gpu_scan \<Rightarrow> (campaign_state, unit) act" where
  "complete_block J env cg block header scan =
    act_bind (act_lift (at_get J (j_get_string J) block ''block_id'')) (\<lambda>ident.
      let (nonces, duplicates) = unique_sorted (sh_nonces (gc_hits scan));
          binary = captures_path (cg_dir cg) (ident @ ''.t20.bin'');
          metadata_path = captures_path (cg_dir cg) (ident @ ''.json'');
          temporary = binary @ ''.tmp''
      in act_then (act_lift (requireE (duplicates = 0) (Runtime_error ''duplicate nonce returned by sparse GPU capture'')))
        (act_bind (act_lift (reconstruct_and_sort header nonces kProductionThresholdBits True)) (\<lambda>reconstructed.
         act_then (act_lift (requireE (of_nat (length reconstructed) = sh_total_hit_count (gc_hits scan))
           (Runtime_error ''CPU verification count mismatch'')))
        (act_then (quarantine_if_present env binary)
        (act_then (quarantine_if_present env metadata_path)
        (act_then (quarantine_if_present env temporary)
        (act_then (write_op env temporary nonces)
        (act_bind (checksum_op temporary) (\<lambda>checksum.
         act_then (rename_file env temporary binary)
        (act_bind (act_lift (capture_metadata J env cg block ident scan (length nonces) (length reconstructed) duplicates checksum))
          (\<lambda>metadata.
         act_then (store_op env metadata_path (save_payload J metadata))
        (act_then (act_modify (\<lambda>s. s\<lparr>ca_completed := ca_completed s + 1, ca_checkpoints := ca_checkpoints s + 1\<rparr>))
          (\<lambda>s. act_bind (act_lift (campaign_checkpoint J env cg (ca_completed s) (ca_checkpoints s) ident)) (\<lambda>checkpoint.
             store_op env (path_append (cg_dir cg) ''checkpoint.json'') (save_payload J checkpoint)) s)))))))))))))"

section \<open>Resuming a campaign\<close>

definition block_header :: "'j json_api \<Rightarrow> 'j \<Rightarrow> bytes outcome" where
  "block_header J block =
    bindE (at_get J (j_get_string J) block ''header_prefix_76_bytes_hex'') (\<lambda>hex.
    bindE (from_hex hex) (\<lambda>prefix.
    bindE (requireE (length prefix = 76) (Runtime_error ''frozen header prefix is not 76 bytes'')) (\<lambda>_.
      Inr (set_nonce (prefix @ replicate 4 0) 0))))"

type_synonym work_item = "string \<times> bytes"

definition check_ids :: "string \<Rightarrow> string set \<Rightarrow> string set outcome" where
  "check_ids ident unique_ids =
    bindE (requireE (ident \<noteq> []) (Runtime_error ''GPU workload contains an empty block_id'')) (\<lambda>_.
    bindE (requireE (ident \<notin> unique_ids) (Runtime_error ''GPU workload contains a duplicate block_id'')) (\<lambda>_.
      Inr (insert ident unique_ids)))"

definition check_workload :: "work_item list \<Rightarrow> u64 \<Rightarrow> u64 \<Rightarrow> u64 \<Rightarrow> u32 \<Rightarrow> u64 \<Rightarrow> unit outcome" where
  "check_workload items gpu_workers nonce_start nonce_count threshold_bits initial_capacity =
    bindE (requireE (items \<noteq> []) (Runtime_error ''GPU workload requires at least one BJE'')) (\<lambda>_.
    bindE (requireE (gpu_workers \<ge> 1) (Runtime_error ''--gpu-workers must be at least 1'')) (\<lambda>_.
    bindE (make_zone_layout nonce_start nonce_count nonce_count) (\<lambda>_.
    bindE (requireE (initial_capacity > 0) (Runtime_error ''sparse initial capacity must be positive'')) (\<lambda>_.
    bindE (below_power_of_two_threshold (replicate 8 0) threshold_bits) (\<lambda>_.
    bindE (foldE (\<lambda>item. check_ids (fst item)) items {}) (\<lambda>_. Inr ()))))))"

text \<open>What the worker pool does: creating the scanners may fail; the scans end in the order \<open>wr_called\<close>, each with its
  result; a worker may end with another exception. A task refuses an incomplete result by throwing, so it is not
  reported.\<close>

record workload_run =
  wr_setup :: "unit outcome"
  wr_called :: "nat list"
  wr_scan :: "nat \<Rightarrow> gpu_scan"
  wr_exception :: "exn option"

definition scan_accepted :: "gpu_scan \<Rightarrow> unit outcome" where
  "scan_accepted scan =
    requireE (\<not> sh_overflow (gc_hits scan) \<and> sh_total_hit_count (gc_hits scan) = of_nat (length (sh_nonces (gc_hits scan))))
      (Runtime_error ''unresolved sparse overflow refused'')"

fun act_list :: "('a \<Rightarrow> ('s, unit) act) \<Rightarrow> 'a list \<Rightarrow> ('s, unit) act" where
  "act_list f [] = act_return ()"
| "act_list f (x # xs) = act_then (f x) (act_list f xs)"

definition reported_tasks :: "workload_run \<Rightarrow> nat list" where
  "reported_tasks workload = filter (\<lambda>i. scan_accepted (wr_scan workload i) = Inr ()) (wr_called workload)"

definition worker_exception :: "workload_run \<Rightarrow> unit outcome" where
  "worker_exception workload =
    (case wr_exception workload of
       Some e \<Rightarrow> Inl e
     | None \<Rightarrow> foldE (\<lambda>i _. scan_accepted (wr_scan workload i)) (wr_called workload) ())"

definition run_gpu_workload ::
    "workload_run \<Rightarrow> work_item list \<Rightarrow> u64 \<Rightarrow> u64 \<Rightarrow> u64 \<Rightarrow> u32 \<Rightarrow> u64 \<Rightarrow>
      (nat \<Rightarrow> gpu_scan \<Rightarrow> (campaign_state, unit) act) \<Rightarrow> (campaign_state, unit) act" where
  "run_gpu_workload workload items gpu_workers nonce_start nonce_count threshold_bits initial_capacity on_completion =
    act_then (act_lift (check_workload items gpu_workers nonce_start nonce_count threshold_bits initial_capacity))
    (act_then (act_lift (wr_setup workload))
    (act_then (act_list (\<lambda>i. on_completion i (wr_scan workload i)) (reported_tasks workload))
    (act_then (act_lift (worker_exception workload))
      (act_lift (requireE (list_all (\<lambda>i. i \<in> set (reported_tasks workload)) [0..<length items])
        (Runtime_error ''GPU workload lost or misassigned a BJE result''))))))"

definition check_kernel :: "'j json_api \<Rightarrow> 'j \<Rightarrow> string \<Rightarrow> disk \<Rightarrow> unit outcome" where
  "check_kernel J manifest kernel_path d =
    (if d kernel_path = None then Inl (Runtime_error ''trajectory resume refused: frozen OpenCL kernel file is missing'')
     else
       bindE (bindE (at_at J manifest ''kernel'' ''sha256'') (j_get_string J)) (\<lambda>frozen_kernel_sha256.
       bindE (file_sha256 d kernel_path) (\<lambda>actual.
         requireE (actual = frozen_kernel_sha256)
           (Runtime_error ''trajectory resume refused: OpenCL kernel SHA-256 differs from frozen manifest''))))"

definition work_item_of :: "'j json_api \<Rightarrow> 'j \<Rightarrow> work_item outcome" where
  "work_item_of J block =
    bindE (at_get J (j_get_string J) block ''block_id'') (\<lambda>ident. bindE (block_header J block) (\<lambda>header. Inr (ident, header)))"

definition capture_pending ::
    "'j json_api \<Rightarrow> (nat \<Rightarrow> campaign_env) \<Rightarrow> workload_run \<Rightarrow> 'j campaign \<Rightarrow> string \<Rightarrow> 'j list \<Rightarrow> (campaign_state, unit) act" where
  "capture_pending J envs workload cg kernel_path pending_blocks =
    (if pending_blocks = [] then act_return ()
     else
       act_then (\<lambda>s. act_lift (check_kernel J (cg_manifest cg) kernel_path (ca_disk s)) s)
       (act_bind (act_lift (mapE (work_item_of J) pending_blocks)) (\<lambda>pending_items.
          run_gpu_workload workload pending_items (cg_gpu_workers cg) 0 nonce_space_size kProductionThresholdBits kInitialSparseCapacity
            (\<lambda>index. complete_block J (envs index) cg (pending_blocks ! index) (snd (pending_items ! index))))))"

text \<open>What is read before a scan: the manifest, the number of checkpoints, the number of planned blocks and the blocks.\<close>

definition read_campaign :: "'j json_api \<Rightarrow> disk \<Rightarrow> string \<Rightarrow> u64 \<Rightarrow> ('j \<times> u64 \<times> u64 \<times> 'j list) outcome" where
  "read_campaign J d directory gpu_workers =
    bindE (load_or J d (path_append directory ''manifest.json'') (j_null J)) (\<lambda>manifest.
    bindE (value_or J (j_get_string J) manifest ''experiment'' []) (\<lambda>experiment.
    bindE (requireE (experiment = ''PHASE_3_POST_SCAN_Y_SORT_TRAJECTORY'')
      (Runtime_error ''not a Phase 3 trajectory campaign'')) (\<lambda>_.
    bindE (bindE (at_at J manifest ''capture'' ''threshold_bits'') (j_get_u32 J)) (\<lambda>threshold.
    bindE (requireE (threshold = kProductionThresholdBits)
      (Runtime_error ''scientific trajectory campaign threshold must remain fixed at T20'')) (\<lambda>_.
    bindE (requireE (gpu_workers \<ge> 1) (Runtime_error ''--gpu-workers must be at least 1'')) (\<lambda>_.
    bindE (load_or J d (path_append directory ''checkpoint.json'') (j_object J [])) (\<lambda>checkpoint_value.
    bindE (value_or J (j_get_u64 J) checkpoint_value ''checkpoint_count'' 0) (\<lambda>checkpoint_count.
    bindE (at_get J (j_get_u64 J) manifest ''planned_bje'') (\<lambda>planned.
    bindE (j_at J manifest ''blocks'') (\<lambda>blocks.
    bindE (requireE (of_nat (length (j_items J blocks)) = planned)
      (Runtime_error ''trajectory manifest planned_bje does not match its frozen block list'')) (\<lambda>_.
      Inr (manifest, checkpoint_count, planned, j_items J blocks))))))))))))"

text \<open>\<^verbatim>\<open>resume_campaign\<close> until the scans are done; the code then refreshes its summaries and returns 0 if
  \<open>ca_completed\<close> is the number of planned blocks, and 2 otherwise.\<close>

definition pending_blocks :: "'j json_api \<Rightarrow> disk \<Rightarrow> string \<Rightarrow> 'j list \<Rightarrow> 'j list" where
  "pending_blocks J d directory blocks = filter (\<lambda>block. \<not> capture_is_complete J d directory block) blocks"

definition resume_campaign ::
    "'j json_api \<Rightarrow> (nat \<Rightarrow> campaign_env) \<Rightarrow> workload_run \<Rightarrow> string \<Rightarrow> string \<Rightarrow> u64 \<Rightarrow> disk \<Rightarrow> (unit outcome \<times> campaign_state) option" where
  "resume_campaign J envs workload directory kernel_path gpu_workers d =
    (let s = \<lparr>ca_disk = d, ca_disks = [], ca_completed = 0, ca_checkpoints = 0\<rparr>
     in case read_campaign J d directory gpu_workers of
          Inl e \<Rightarrow> Some (Inl e, s)
        | Inr (manifest, checkpoint_count, planned, blocks) \<Rightarrow>
            let pending = pending_blocks J d directory blocks;
                cg = \<lparr>cg_dir = directory, cg_manifest = manifest, cg_total = planned, cg_gpu_workers = gpu_workers\<rparr>
            in capture_pending J envs workload cg kernel_path pending
                 (s\<lparr>ca_completed := of_nat (length blocks - length pending), ca_checkpoints := checkpoint_count\<rparr>))"

end
