(* ===== verification/Trajectory_Resume.thy ===== *)
theory Trajectory_Resume
  imports Trajectory "HOL-Library.Countable"
begin

text \<open>
  What \<^verbatim>\<open>resume_campaign\<close> guarantees: which files the handler of a block touches, that a block it stored counts as
  done, that blocks done before stay done at every moment, and that a resumption that ends normally has a verified
  capture of every block. Block ids contain neither a dot nor a slash; the code makes them of hexadecimal digits.
\<close>

section \<open>Paths\<close>

definition plain_id :: "string \<Rightarrow> bool" where
  "plain_id s \<longleftrightarrow> s \<noteq> [] \<and> (\<forall>c \<in> set s. c \<noteq> CHR ''.'' \<and> c \<noteq> CHR ''/'')"

lemma plain_relative: "plain_id ident \<Longrightarrow> is_relative (ident @ x)"
  by (cases ident) (auto simp: plain_id_def is_relative_def)

definition directory_prefix :: "string \<Rightarrow> string" where
  "directory_prefix dir = (if dir = [] \<or> last dir = CHR ''/'' then dir else dir @ ''/'')"

lemma captures_path_eq: "is_relative name \<Longrightarrow> captures_path dir name = directory_prefix dir @ ''captures/'' @ name"
  by (simp add: captures_path_def path_append_def path_join_def is_relative_def directory_prefix_def)

lemma checkpoint_path_eq: "path_append dir ''checkpoint.json'' = directory_prefix dir @ ''checkpoint.json''"
  by (simp add: path_append_def path_join_def is_relative_def directory_prefix_def)

text \<open>The files that belong to a block, and the checkpoint.\<close>

definition own_file :: "string \<Rightarrow> string \<Rightarrow> string \<Rightarrow> bool" where
  "own_file dir ident p \<longleftrightarrow>
    (\<exists>ext. p = captures_path dir (ident @ ''.'' @ ext)) \<or>
    p = path_append dir ''checkpoint.json'' \<or> p = temporary_path (path_append dir ''checkpoint.json'')"

lemma own_file_append: "plain_id ident \<Longrightarrow> captures_path dir (ident @ ''.'' @ ext) @ x = captures_path dir (ident @ ''.'' @ ext @ x)"
  by (simp add: captures_path_eq plain_relative)

lemma own_file_intro: "own_file dir ident (captures_path dir (ident @ CHR ''.'' # ext))"
  unfolding own_file_def by (intro disjI1 exI [of _ ext]) simp

lemma before_dot: "plain_id a \<Longrightarrow> takeWhile (\<lambda>c. c \<noteq> CHR ''.'') (a @ CHR ''.'' # x) = a"
  by (simp add: takeWhile_append2 plain_id_def)

lemma other_file:
  assumes "plain_id ident" "plain_id other" "ident \<noteq> other"
  shows "\<not> own_file dir ident (captures_path dir (other @ CHR ''.'' # ext))"
proof -
  have "other @ CHR ''.'' # ext \<noteq> ident @ ''.'' @ ext'" for ext'
  proof
    assume "other @ CHR ''.'' # ext = ident @ ''.'' @ ext'"
    then have "takeWhile (\<lambda>c. c \<noteq> CHR ''.'') (other @ CHR ''.'' # ext) = takeWhile (\<lambda>c. c \<noteq> CHR ''.'') (ident @ CHR ''.'' # ext')"
      by simp
    then show False using assms by (simp only: before_dot)
  qed
  then show ?thesis
    using assms by (auto simp: own_file_def captures_path_eq plain_relative checkpoint_path_eq temporary_path_def)
qed

section \<open>The files an operation touches\<close>

definition touches :: "(string \<Rightarrow> bool) \<Rightarrow> (campaign_state, 'a) act \<Rightarrow> bool" where
  "touches P m \<longleftrightarrow>
    (\<forall>s r s'. m s = Some (r, s') \<longrightarrow>
      (\<exists>ds. ca_disks s' = ca_disks s @ ds \<and> (\<forall>d \<in> set (ca_disk s' # ds). \<forall>p. \<not> P p \<longrightarrow> d p = ca_disk s p)))"

named_theorems touching

lemma put_disks_fields:
  "ca_disk (put_disks ds s) = last (ca_disk s # ds)" "ca_disks (put_disks ds s) = ca_disks s @ ds"
  "ca_completed (put_disks ds s) = ca_completed s" "ca_checkpoints (put_disks ds s) = ca_checkpoints s"
  by (simp_all add: put_disks_def del: last.simps)

lemma touches_lift [touching]: "touches P (act_lift r)"
  by (simp add: touches_def act_lift_def)

lemma touches_return [touching]: "touches P (act_return x)"
  by (simp add: touches_def act_return_def)

lemma touches_checksum [touching]: "touches P (checksum_op path)"
  by (simp add: touches_def checksum_op_def)

lemma touches_bind [touching]:
  assumes "touches P m" "\<And>x. touches P (f x)"
  shows "touches P (act_bind m f)"
  unfolding touches_def
proof (intro allI impI)
  fix s r s' assume run: "act_bind m f s = Some (r, s')"
  then obtain r1 s1 where one: "m s = Some (r1, s1)" by (auto simp: act_bind_def split: option.splits)
  then obtain ds1 where ds1: "ca_disks s1 = ca_disks s @ ds1" "\<forall>d \<in> set (ca_disk s1 # ds1). \<forall>p. \<not> P p \<longrightarrow> d p = ca_disk s p"
    using assms(1) unfolding touches_def by blast
  show "\<exists>ds. ca_disks s' = ca_disks s @ ds \<and> (\<forall>d \<in> set (ca_disk s' # ds). \<forall>p. \<not> P p \<longrightarrow> d p = ca_disk s p)"
  proof (cases r1)
    case (Inl e)
    then show ?thesis using run one ds1 by (auto simp: act_bind_def)
  next
    case (Inr x)
    then have "f x s1 = Some (r, s')" using run one by (simp add: act_bind_def)
    then obtain ds2 where "ca_disks s' = ca_disks s1 @ ds2" "\<forall>d \<in> set (ca_disk s' # ds2). \<forall>p. \<not> P p \<longrightarrow> d p = ca_disk s1 p"
      using assms(2) [of x] unfolding touches_def by blast
    then show ?thesis using ds1 by (intro exI [of _ "ds1 @ ds2"]) auto
  qed
qed

lemma touches_then [touching]: "touches P m \<Longrightarrow> touches P n \<Longrightarrow> touches P (act_then m n)"
  unfolding act_then_def by (rule touches_bind)

lemma touches_rename [touching]: "P src \<Longrightarrow> P dst \<Longrightarrow> touches P (rename_file env src dst)"
  by (auto simp: touches_def rename_file_def put_disks_def split: option.splits)

lemma touches_write [touching]: "P path \<Longrightarrow> touches P (write_op env path nonces)"
  by (auto simp: touches_def write_op_def write_nonce_file_def put_disks_def split: prod.splits option.splits if_splits)

lemma touches_store [touching]:
  assumes "\<And>payload d. staged d path payload (ce_save env path payload d)" "P path" "P (temporary_path path)"
  shows "touches P (store_op env path payload)"
  unfolding touches_def
proof (intro allI impI)
  fix s r s' assume run: "store_op env path payload s = Some (r, s')"
  obtain ds r0 where save: "ce_save env path payload (ca_disk s) = (ds, r0)" by fastforce
  note laws = staged_laws [OF assms(1) [of "ca_disk s" payload, unfolded save]]
  have s': "s' = put_disks ds s" using run save by (simp add: store_op_def)
  have same: "\<forall>d \<in> set ds. \<forall>p. \<not> P p \<longrightarrow> d p = ca_disk s p"
  proof (intro ballI allI impI)
    fix d p assume "d \<in> set ds" "\<not> P p"
    then show "d p = ca_disk s p" using laws(4) [of d p] assms(2,3) by auto
  qed
  have "set (last (ca_disk s # ds) # ds) = set ds" using laws(1) by auto
  with same have "\<forall>d \<in> set (last (ca_disk s # ds) # ds). \<forall>p. \<not> P p \<longrightarrow> d p = ca_disk s p" by (simp only:)
  then show "\<exists>ds. ca_disks s' = ca_disks s @ ds \<and> (\<forall>d \<in> set (ca_disk s' # ds). \<forall>p. \<not> P p \<longrightarrow> d p = ca_disk s p)"
    unfolding s' put_disks_fields by (intro exI [of _ ds] conjI refl)
qed

lemma free_name_form: "free_name d path suffix = Some name \<Longrightarrow> \<exists>x. name = path @ x \<and> d name = None"
proof (induction d path suffix rule: free_name.induct)
  case (1 d path suffix)
  then show ?case by (subst (asm) (2) free_name.simps) (auto simp: Let_def split: if_splits)
qed

lemma touches_quarantine [touching]:
  assumes "\<And>x. P (path @ x)"
  shows "touches P (quarantine_if_present env path)"
proof -
  have path: "P path" using assms [of "[]"] by simp
  have "\<exists>ds. ca_disks s' = ca_disks s @ ds \<and> (\<forall>d \<in> set (ca_disk s' # ds). \<forall>p. \<not> P p \<longrightarrow> d p = ca_disk s p)"
    if q: "quarantine_if_present env path s = Some (r, s')" for s r s'
  proof -
    consider "r = Inr ()" "s' = s" | dst where "P dst" "rename_file env path dst s = Some (r, s')"
      using q free_name_form [of "ca_disk s" path 1] assms
      by (auto simp: quarantine_if_present_def split: if_splits option.splits)
    then show ?thesis
    proof cases
      case 2
      then show ?thesis using touches_rename [of P path dst env, OF path 2(1)] unfolding touches_def by blast
    qed simp
  qed
  then show ?thesis unfolding touches_def by blast
qed

section \<open>The handler of a block\<close>

lemma act_bind_Inr [simp]: "act_bind (act_lift (Inr x)) f = f x"
  by (simp add: act_bind_def act_lift_def fun_eq_iff)

definition safe_env :: "campaign_env \<Rightarrow> bool" where
  "safe_env env \<longleftrightarrow> (\<forall>path payload d. staged d path payload (ce_save env path payload d))"

lemma touches_complete_block:
  assumes "safe_env env" "plain_id ident" "at_get J (j_get_string J) block ''block_id'' = Inr ident"
  shows "touches (own_file (cg_dir cg) ident) (complete_block J env cg block header scan)"
proof -
  let ?own = "own_file (cg_dir cg) ident"
  have own: "?own (captures_path (cg_dir cg) (ident @ CHR ''.'' # ext) @ x)" for ext x
    using own_file_append [OF assms(2), of "cg_dir cg" ext x] own_file_intro [of "cg_dir cg" ident "ext @ x"] by simp
  note own_nil = own [of _ "[]", simplified]
  have save: "touches ?own (store_op env path payload)" if "?own path" "?own (temporary_path path)" for path payload
    using assms(1) that by (intro touches_store) (auto simp: safe_env_def)
  have tmp: "?own (temporary_path (captures_path (cg_dir cg) (ident @ CHR ''.'' # ext)))" for ext
    unfolding temporary_path_def by (rule own)
  have checkpoint: "touches ?own (store_op env (path_append (cg_dir cg) ''checkpoint.json'') payload)" for payload
    by (rule save) (simp_all add: own_file_def)
  have modify: "touches ?own (act_modify (\<lambda>s. s\<lparr>ca_completed := f s, ca_checkpoints := g s\<rparr>))" for f g
    by (simp add: touches_def act_modify_def)
  have final: "touches ?own (\<lambda>s. act_bind (act_lift (c s)) (\<lambda>checkpoint. store_op env (path_append (cg_dir cg) ''checkpoint.json'') (save_payload J checkpoint)) s)" for c
    using touches_bind [OF touches_lift checkpoint] unfolding touches_def by metis
  have quarantine: "touches ?own (quarantine_if_present env (captures_path (cg_dir cg) (ident @ CHR ''.'' # ext) @ x))" for ext x
  proof (rule touches_quarantine)
    fix y
    show "?own ((captures_path (cg_dir cg) (ident @ CHR ''.'' # ext) @ x) @ y)" using own [of ext "x @ y"] by simp
  qed
  note quarantine_nil = quarantine [of _ "[]", simplified]
  obtain nonces duplicates where u: "unique_sorted (sh_nonces (gc_hits scan)) = (nonces, duplicates)" by fastforce
  show ?thesis
    unfolding complete_block_def assms(3) act_bind_Inr u Let_def prod.case append_Cons append_Nil
    by (intro touching final modify save quarantine quarantine_nil)
      (simp_all add: u own own_nil tmp touching final modify save quarantine quarantine_nil)
qed

text \<open>What reading a stored metadata file must give back: an object with the members the test looks at.\<close>

definition capture_keys :: "string list" where
  "capture_keys = [''status'', ''scan_complete'', ''overflow'', ''cpu_verification_complete'', ''duplicate_count'', ''nonce_count'',
    ''threshold_bits'', ''block_id'', ''partition'', ''cpu_verification_count'', ''observed_t20_count'', ''total_hit_count'',
    ''captured_count'', ''capture_sha256'']"

definition reads_back :: "'j json_api \<Rightarrow> 'j \<Rightarrow> bool" where
  "reads_back J metadata \<longleftrightarrow>
    (\<exists>p. j_parse J (save_payload J metadata) = Inr p \<and> j_is_object J p \<and>
      (\<forall>k \<in> set capture_keys. j_member J p k = j_member J metadata k))"

definition metadata_reads_back :: "'j json_api \<Rightarrow> bool" where
  "metadata_reads_back J \<longleftrightarrow>
    (\<forall>env cg block ident scan nonces verified duplicates checksum metadata.
      capture_metadata J env cg block ident scan nonces verified duplicates checksum = Inr metadata \<longrightarrow> reads_back J metadata)"

text \<open>A block of the manifest: its id and its partition are texts.\<close>

definition frozen_block :: "'j json_api \<Rightarrow> 'j \<Rightarrow> string \<Rightarrow> bool" where
  "frozen_block J block ident \<longleftrightarrow>
    j_is_object J block \<and> (\<exists>v. j_member J block ''block_id'' = Inr (Some v) \<and> j_get_string J v = Inr ident) \<and>
    (\<exists>v part. j_member J block ''partition'' = Inr (Some v) \<and> j_get_string J v = Inr part)"

lemma frozen_block_id: "json_ok J \<Longrightarrow> frozen_block J block ident \<Longrightarrow> at_get J (j_get_string J) block ''block_id'' = Inr ident"
  by (auto simp: frozen_block_def at_get_member)

lemma metadata_members:
  assumes "json_ok J" "capture_metadata J env cg block ident scan n v 0 checksum = Inr m"
  shows "j_is_object J m"
    "j_member J m ''status'' = Inr (Some (j_string J ''COMPLETE''))" "j_member J m ''scan_complete'' = Inr (Some (j_boolean J True))"
    "j_member J m ''overflow'' = Inr (Some (j_boolean J False))"
    "j_member J m ''cpu_verification_complete'' = Inr (Some (j_boolean J True))"
    "j_member J m ''duplicate_count'' = Inr (Some (j_unsigned J 0))"
    "j_member J m ''nonce_count'' = Inr (Some (j_unsigned J nonce_space_size))"
    "j_member J m ''threshold_bits'' = Inr (Some (j_unsigned J (ucast kProductionThresholdBits)))"
    "j_member J m ''block_id'' = Inr (Some (j_string J ident))"
    "\<exists>partition. j_at J block ''partition'' = Inr partition \<and> j_member J m ''partition'' = Inr (Some partition)"
    "j_member J m ''cpu_verification_count'' = Inr (Some (j_unsigned J (of_nat v)))"
    "j_member J m ''observed_t20_count'' = Inr (Some (j_unsigned J (of_nat n)))"
    "j_member J m ''total_hit_count'' = Inr (Some (j_unsigned J (sh_total_hit_count (gc_hits scan))))"
    "j_member J m ''captured_count'' = Inr (Some (j_unsigned J (sh_captured_count (gc_hits scan))))"
    "j_member J m ''capture_sha256'' = Inr (Some (j_string J checksum))"
  using assms(2) by (auto simp: capture_metadata_def Let_def bindE_eq_Inr_iff json_ok_simps [OF assms(1)])

lemma stored_capture_accepted:
  assumes J: "json_ok J" and block: "frozen_block J block ident"
    and m: "capture_metadata J env cg block ident scan (length nonces) (length nonces) 0 checksum = Inr m" "reads_back J m"
    and counts: "sh_total_hit_count (gc_hits scan) = of_nat (length nonces)" "sh_captured_count (gc_hits scan) = of_nat (length nonces)"
    and files: "d (captures_path dir (ident @ ''.t20.bin'')) = Some (capture_bytes nonces)"
      "d (captures_path dir (ident @ ''.json'')) = Some (save_payload J m)"
    and nonces: "sorted_wrt (<) nonces" and checksum: "checksum = digest_hex (sha256 (List.map of_char (capture_bytes nonces)))"
  shows "capture_is_complete J d dir block"
proof -
  obtain p where p: "j_parse J (save_payload J m) = Inr p" "j_is_object J p"
    "\<And>k. k \<in> set capture_keys \<Longrightarrow> j_member J p k = j_member J m k"
    using m(2) unfolding reads_back_def by blast
  note members = metadata_members [OF J m(1)]
  have same: "value_or J get p k dflt = value_or J get m k dflt" if "k \<in> set capture_keys" for get k and dflt :: 'b
    using p(3) [OF that] by (simp add: value_or_def)
  obtain vp part where part: "j_member J block ''partition'' = Inr (Some vp)" "j_get_string J vp = Inr part"
    using block unfolding frozen_block_def by blast
  have at: "j_at J block ''partition'' = Inr vp"
    using block part(1) J by (auto simp: frozen_block_def json_ok_simps)
  have agrees: "metadata_agrees J p ident block = Inr True"
    using members counts part at
    by (auto simp: metadata_agrees_def Let_def value_or_def p(3) capture_keys_def and_then_def json_ok_simps [OF J])
  have "at_get J (j_get_u64 J) p ''observed_t20_count'' = Inr (of_nat (length nonces))"
    "at_get J (j_get_string J) p ''capture_sha256'' = Inr checksum"
    by (simp_all add: at_get_member [OF J p(2)] p(3) capture_keys_def members(12,15) json_ok_simps [OF J])
  moreover have "sorted nonces \<and> \<not> adjacent_equal nonces" using nonces by (simp only: strictly_ascending)
  ultimately show ?thesis
    by (simp add: capture_is_complete_def frozen_block_id [OF J block] Let_def files load_or_def p(1) agrees and_then_def
        read_capture_def file_sha256_def checksum accepts_def)
qed

lemma act_bind_Some: "act_bind m f s = Some (Inr x, s') \<longleftrightarrow> (\<exists>y t. m s = Some (Inr y, t) \<and> f y t = Some (Inr x, s'))"
  by (auto simp: act_bind_def split: option.splits prod.splits sum.splits)

lemma act_then_Some: "act_then m n s = Some (Inr x, s') \<longleftrightarrow> (\<exists>t. m s = Some (Inr (), t) \<and> n t = Some (Inr x, s'))"
  by (simp add: act_then_def act_bind_Some)

lemma act_lift_Some: "act_lift r s = Some (Inr x, s') \<longleftrightarrow> r = Inr x \<and> s' = s"
  by (auto simp: act_lift_def)

lemma requireE_Inr: "requireE c e = Inr u \<longleftrightarrow> c"
  by (simp add: requireE_def)

lemma quarantine_counts: "quarantine_if_present env path s = Some (r, s') \<Longrightarrow> ca_completed s' = ca_completed s"
  by (auto simp: quarantine_if_present_def rename_file_def put_disks_fields split: if_splits option.splits)

text \<open>What is on the disk after the handler has returned.\<close>

lemma complete_block_stores:
  assumes run: "complete_block J env cg block header scan s = Some (Inr (), s')"
    and safe: "safe_env env" and plain: "plain_id ident" and ident: "at_get J (j_get_string J) block ''block_id'' = Inr ident"
    and header: "length header = 80"
  obtains nonces m checksum where
    "capture_metadata J env cg block ident scan (length nonces) (length nonces) 0 checksum = Inr m"
    "checksum = digest_hex (sha256 (List.map of_char (capture_bytes nonces)))"
    "sh_total_hit_count (gc_hits scan) = of_nat (length nonces)" "sorted_wrt (<) nonces" "set nonces = set (sh_nonces (gc_hits scan))"
    "genuine header 20 nonces" "ca_disk s' (captures_path (cg_dir cg) (ident @ ''.t20.bin'')) = Some (capture_bytes nonces)"
    "ca_disk s' (captures_path (cg_dir cg) (ident @ ''.json'')) = Some (save_payload J m)"
    "ca_completed s' = ca_completed s + 1"
proof -
  let ?bin = "captures_path (cg_dir cg) (ident @ ''.t20.bin'')" and ?meta = "captures_path (cg_dir cg) (ident @ ''.json'')"
  let ?tmp = "?bin @ ''.tmp''" and ?checkpoint = "path_append (cg_dir cg) ''checkpoint.json''"
  obtain nonces duplicates where u: "unique_sorted (sh_nonces (gc_hits scan)) = (nonces, duplicates)" by fastforce
  from run obtain hits s1 s2 s3 s4 s5 checksum m s6 c where steps:
    "duplicates = 0" "reconstruct_and_sort header nonces kProductionThresholdBits True = Inr hits"
    "of_nat (length hits) = sh_total_hit_count (gc_hits scan)"
    "quarantine_if_present env ?bin s = Some (Inr (), s1)" "quarantine_if_present env ?meta s1 = Some (Inr (), s2)"
    "quarantine_if_present env ?tmp s2 = Some (Inr (), s3)" "write_op env ?tmp nonces s3 = Some (Inr (), s4)"
    "file_sha256 (ca_disk s4) ?tmp = Inr checksum" "rename_file env ?tmp ?bin s4 = Some (Inr (), s5)"
    "capture_metadata J env cg block ident scan (length nonces) (length hits) duplicates checksum = Inr m"
    "store_op env ?meta (save_payload J m) s5 = Some (Inr (), s6)"
    "store_op env ?checkpoint (save_payload J c) (s6\<lparr>ca_completed := ca_completed s6 + 1, ca_checkpoints := ca_checkpoints s6 + 1\<rparr>) = Some (Inr (), s')"
    unfolding complete_block_def ident act_bind_Inr u Let_def prod.case
    by (auto simp: act_bind_Some act_then_Some act_lift_Some requireE_Inr checksum_op_def act_modify_def)
  have k: "unat kProductionThresholdBits = 20" by (simp add: kProductionThresholdBits_def)
  have genuine: "genuine header 20 nonces" and hits: "mset hits = image_mset (hit_at header) (mset nonces)"
    using verified_hits_exact [OF header, of kProductionThresholdBits nonces] steps(2) by (simp_all add: k)
  then have len: "length hits = length nonces" by (metis size_image_mset size_mset)
  have written: "ca_disk s4 ?tmp = Some (capture_bytes nonces)"
    using steps(7) by (auto simp: write_op_def write_nonce_file_def put_disks_fields split: prod.splits if_splits option.splits)
  have ne: "?bin \<noteq> ?meta" "?bin \<noteq> temporary_path ?meta" "?tmp \<noteq> ?bin"
    "?bin \<noteq> ?checkpoint" "?bin \<noteq> temporary_path ?checkpoint" "?meta \<noteq> ?checkpoint" "?meta \<noteq> temporary_path ?checkpoint"
    using plain by (auto simp: captures_path_eq plain_relative checkpoint_path_eq temporary_path_def)
  have bin5: "ca_disk s5 ?bin = Some (capture_bytes nonces)"
    using steps(9) written ne(3) by (auto simp: rename_file_def put_disks_fields split: option.splits)
  have stored: "ca_disk t' path = Some payload \<and> (\<forall>p. p \<noteq> path \<longrightarrow> p \<noteq> temporary_path path \<longrightarrow> ca_disk t' p = ca_disk t p) \<and>
      ca_completed t' = ca_completed t" if st: "store_op env path payload t = Some (Inr (), t')" for path payload t t'
  proof -
    obtain ds where save: "ce_save env path payload (ca_disk t) = (ds, Inr ())" and t': "t' = put_disks ds t"
      using st by (auto simp: store_op_def split: prod.splits)
    note laws = staged_laws [OF safe [unfolded safe_env_def, rule_format, of "ca_disk t" path payload, unfolded save], simplified]
    have "last (ca_disk t # ds) = last ds" "last ds \<in> set ds" using laws(1) by simp_all
    then show ?thesis using laws(3) laws(4) [of "last ds"] by (simp add: t' put_disks_fields)
  qed
  note meta = stored [OF steps(11)] and final = stored [OF steps(12)]
  have "ca_disk s' ?bin = Some (capture_bytes nonces)" "ca_disk s' ?meta = Some (save_payload J m)"
    using final meta bin5 ne by simp_all
  moreover have "ca_completed s' = ca_completed s + 1"
  proof -
    have "ca_completed s4 = ca_completed s3" using steps(7) by (auto simp: write_op_def put_disks_fields split: prod.splits)
    moreover have "ca_completed s5 = ca_completed s4"
      using steps(9) by (auto simp: rename_file_def put_disks_fields split: option.splits)
    ultimately show ?thesis using final meta quarantine_counts [OF steps(4)] quarantine_counts [OF steps(5)] quarantine_counts [OF steps(6)] by simp
  qed
  moreover have "checksum = digest_hex (sha256 (List.map of_char (capture_bytes nonces)))"
    using steps(8) written by (simp add: file_sha256_def)
  ultimately show thesis
    using that [of nonces checksum m] steps(1,3,10) genuine unique_sorted_ascending [OF u] len by simp
qed

section \<open>All blocks of a workload\<close>

lemma touches_mono: "touches P m \<Longrightarrow> (\<And>p. P p \<Longrightarrow> Q p) \<Longrightarrow> touches Q m"
  unfolding touches_def by meson

lemma touches_list [touching]: "(\<And>x. x \<in> set xs \<Longrightarrow> touches P (f x)) \<Longrightarrow> touches P (act_list f xs)"
  by (induction xs) (simp_all add: touching)

lemma capture_is_complete_cong:
  assumes "at_get J (j_get_string J) block ''block_id'' = Inr ident"
    "d (captures_path dir (ident @ ''.t20.bin'')) = d' (captures_path dir (ident @ ''.t20.bin''))"
    "d (captures_path dir (ident @ ''.json'')) = d' (captures_path dir (ident @ ''.json''))"
  shows "capture_is_complete J d dir block = capture_is_complete J d' dir block"
  unfolding capture_is_complete_def assms(1) bindE_simps Let_def load_or_def read_capture_def file_sha256_def assms(2,3) ..

text \<open>The blocks of a manifest and the ids they are expected to have.\<close>

definition frozen_blocks :: "'j json_api \<Rightarrow> 'j list \<Rightarrow> string list \<Rightarrow> bool" where
  "frozen_blocks J blocks ids \<longleftrightarrow> list_all2 (frozen_block J) blocks ids \<and> distinct ids \<and> list_all plain_id ids"

definition files_of :: "string \<Rightarrow> string set \<Rightarrow> string \<Rightarrow> bool" where
  "files_of dir idents p \<longleftrightarrow> (\<exists>ident \<in> idents. own_file dir ident p)"

lemma files_of_others_kept:
  assumes "json_ok J" "frozen_block J block ident" "plain_id ident" "\<forall>other \<in> others. plain_id other \<and> other \<noteq> ident"
    "\<forall>p. \<not> files_of dir others p \<longrightarrow> d' p = d p"
  shows "capture_is_complete J d' dir block = capture_is_complete J d dir block"
proof (rule capture_is_complete_cong [OF frozen_block_id [OF assms(1,2)]])
  have "\<not> files_of dir others (captures_path dir (ident @ CHR ''.'' # ext))" for ext
    unfolding files_of_def using other_file assms(3,4) by blast
  then show "d' (captures_path dir (ident @ ''.t20.bin'')) = d (captures_path dir (ident @ ''.t20.bin''))"
    "d' (captures_path dir (ident @ ''.json'')) = d (captures_path dir (ident @ ''.json''))"
    using assms(5) by simp_all
qed

lemma work_item_header: "work_item_of J block = Inr item \<Longrightarrow> length (snd item) = 80"
  by (auto simp: work_item_of_def block_header_def bindE_eq_Inr_iff requireE_def split: if_splits)

lemma mapE_nth: "mapE f xs = Inr ys \<Longrightarrow> i < length xs \<Longrightarrow> f (xs ! i) = Inr (ys ! i)"
  by (induction xs arbitrary: ys i) (auto simp: bindE_eq_Inr_iff nth_Cons split: nat.splits)

text \<open>The pending blocks with their ids.\<close>

definition pending_ids :: "'j json_api \<Rightarrow> disk \<Rightarrow> string \<Rightarrow> 'j list \<Rightarrow> string list \<Rightarrow> string list" where
  "pending_ids J d dir blocks ids =
    List.map snd (filter (\<lambda>(block, ident). \<not> capture_is_complete J d dir block) (zip blocks ids))"

lemma pending_frozen:
  assumes "frozen_blocks J blocks ids"
  shows "frozen_blocks J (pending_blocks J d dir blocks) (pending_ids J d dir blocks ids)"
    "set (pending_ids J d dir blocks ids) = {ident. \<exists>block. (block, ident) \<in> set (zip blocks ids) \<and> \<not> capture_is_complete J d dir block}"
proof -
  let ?P = "\<lambda>block. \<not> capture_is_complete J d dir block"
  have len: "length blocks = length ids" and all: "\<forall>(b, i) \<in> set (zip blocks ids). frozen_block J b i"
    and dist: "distinct ids" and plain: "list_all plain_id ids"
    using assms by (auto simp: frozen_blocks_def list_all2_iff)
  have blocks: "pending_blocks J d dir blocks = List.map fst (filter (\<lambda>(b, i). ?P b) (zip blocks ids))"
    unfolding pending_blocks_def using len by (induction blocks ids rule: list_induct2) auto
  have "distinct (List.map snd (filter (\<lambda>(b, i). ?P b) (zip blocks ids)))"
    using dist len by (metis distinct_map_filter map_snd_zip)
  moreover have "set (List.map snd (filter (\<lambda>(b, i). ?P b) (zip blocks ids))) \<subseteq> set ids"
    by (auto dest: set_zip_rightD)
  ultimately show "frozen_blocks J (pending_blocks J d dir blocks) (pending_ids J d dir blocks ids)"
    using all plain unfolding frozen_blocks_def pending_ids_def blocks
    by (auto simp: list_all2_map1 list_all2_map2 list_all2_same list_all_iff)
  show "set (pending_ids J d dir blocks ids) = {ident. \<exists>block. (block, ident) \<in> set (zip blocks ids) \<and> ?P block}"
    by (force simp: pending_ids_def)
qed

lemma frozen_nth:
  assumes "frozen_blocks J blocks ids" "i < length blocks"
  shows "frozen_block J (blocks ! i) (ids ! i)" "plain_id (ids ! i)" "i < length ids"
  using assms by (auto simp: frozen_blocks_def list_all2_conv_all_nth list_all_length)

lemma touches_capture_pending:
  assumes J: "json_ok J" and safe: "\<And>i. safe_env (envs i)" and frozen: "frozen_blocks J waiting ids"
    and called: "\<forall>i \<in> set (wr_called workload). i < length waiting"
  shows "touches (files_of (cg_dir cg) (set ids)) (capture_pending J envs workload cg kernel_path waiting)"
proof -
  let ?P = "files_of (cg_dir cg) (set ids)"
  have block: "touches ?P (complete_block J (envs i) cg (waiting ! i) header (wr_scan workload i))" if "i < length waiting" for i header
    by (rule touches_mono [OF touches_complete_block [OF safe frozen_nth(2) [OF frozen that] frozen_block_id [OF J frozen_nth(1) [OF frozen that]]]])
      (use frozen_nth(3) [OF frozen that] in \<open>auto simp: files_of_def\<close>)
  have kernel: "touches ?P (\<lambda>s. act_lift (r s) s)" for r :: "campaign_state \<Rightarrow> unit outcome"
    by (simp add: touches_def act_lift_def)
  show ?thesis
    unfolding capture_pending_def run_gpu_workload_def
    by (auto intro!: touching kernel block simp: called reported_tasks_def)
qed

lemma complete_list:
  assumes J: "json_ok J" "metadata_reads_back J" and safe: "\<And>i. safe_env (envs i)" and frozen: "frozen_blocks J waiting ids"
    and headers: "\<And>i. i < length waiting \<Longrightarrow> length (headers i) = 80"
  shows "act_list (\<lambda>i. complete_block J (envs i) cg (waiting ! i) (headers i) (scans i)) called s = Some (Inr (), s') \<Longrightarrow>
    distinct called \<Longrightarrow> \<forall>i \<in> set called. i < length waiting \<and> sh_captured_count (gc_hits (scans i)) = sh_total_hit_count (gc_hits (scans i)) \<Longrightarrow>
    (\<forall>i \<in> set called. capture_is_complete J (ca_disk s') (cg_dir cg) (waiting ! i)) \<and>
    ca_completed s' = ca_completed s + of_nat (length called)"
proof (induction called arbitrary: s)
  case Nil
  then show ?case by (simp add: act_return_def)
next
  case (Cons i called)
  obtain t where one: "complete_block J (envs i) cg (waiting ! i) (headers i) (scans i) s = Some (Inr (), t)"
    and rest: "act_list (\<lambda>i. complete_block J (envs i) cg (waiting ! i) (headers i) (scans i)) called t = Some (Inr (), s')"
    using Cons.prems(1) by (auto simp: act_then_Some)
  have i: "i < length waiting" "sh_captured_count (gc_hits (scans i)) = sh_total_hit_count (gc_hits (scans i))"
    using Cons.prems(3) by simp_all
  note block = frozen_nth [OF frozen i(1)]
  note stores = complete_block_stores [OF one safe block(2) frozen_block_id [OF J(1) block(1)] headers [OF i(1)]]
  have now: "capture_is_complete J (ca_disk t) (cg_dir cg) (waiting ! i)"
    using stores stored_capture_accepted [OF J(1) block(1)] J(2) i(2) unfolding metadata_reads_back_def by metis
  have count: "ca_completed t = ca_completed s + 1" using stores by metis
  have "touches (files_of (cg_dir cg) ((\<lambda>i. ids ! i) ` set called))
      (act_list (\<lambda>i. complete_block J (envs i) cg (waiting ! i) (headers i) (scans i)) called)"
  proof (rule touches_list)
    fix k assume k: "k \<in> set called"
    then have "k < length waiting" using Cons.prems(3) by simp
    note block = frozen_nth [OF frozen this]
    show "touches (files_of (cg_dir cg) ((\<lambda>i. ids ! i) ` set called)) (complete_block J (envs k) cg (waiting ! k) (headers k) (scans k))"
      by (rule touches_mono [OF touches_complete_block [OF safe block(2) frozen_block_id [OF J(1) block(1)]]])
        (use k in \<open>auto simp: files_of_def\<close>)
  qed
  then have frame: "\<forall>p. \<not> files_of (cg_dir cg) ((\<lambda>i. ids ! i) ` set called) p \<longrightarrow> ca_disk s' p = ca_disk t p"
    using rest unfolding touches_def by fastforce
  have "\<forall>other \<in> (\<lambda>i. ids ! i) ` set called. plain_id other \<and> other \<noteq> ids ! i"
  proof
    fix other assume "other \<in> (\<lambda>i. ids ! i) ` set called"
    then obtain k where k: "k \<in> set called" "other = ids ! k" by blast
    then have "k < length waiting" "k \<noteq> i" using Cons.prems(2,3) by auto
    then show "plain_id other \<and> other \<noteq> ids ! i"
      using frozen_nth [OF frozen, of k] block(3) frozen k(2) by (simp add: frozen_blocks_def nth_eq_iff_index_eq)
  qed
  from files_of_others_kept [OF J(1) block(1,2) this frame] now
  have "capture_is_complete J (ca_disk s') (cg_dir cg) (waiting ! i)" by simp
  then show ?case using Cons.IH [OF rest] Cons.prems(2,3) count by simp
qed

lemma no_exception: "worker_exception workload = Inr () \<Longrightarrow> reported_tasks workload = wr_called workload"
proof -
  assume "worker_exception workload = Inr ()"
  then have "foldE (\<lambda>i _. scan_accepted (wr_scan workload i)) (wr_called workload) () = Inr ()"
    by (simp add: worker_exception_def split: option.splits)
  moreover have "\<forall>i \<in> set ks. scan_accepted (wr_scan workload i) = Inr ()"
    if "foldE (\<lambda>i _. scan_accepted (wr_scan workload i)) ks () = Inr ()" for ks
    using that by (induction ks) (auto simp: bindE_eq_Inr_iff)
  ultimately show ?thesis unfolding reported_tasks_def by (simp add: filter_id_conv)
qed

text \<open>How \<^verbatim>\<open>resume_campaign\<close> gets to its scans.\<close>

lemma resume_campaign_Some:
  assumes "resume_campaign J envs workload dir kernel_path gpu_workers d = Some (r, s')"
    "load_or J d (path_append dir ''manifest.json'') (j_null J) = Inr manifest" "j_at J manifest ''blocks'' = Inr bs"
  obtains (refused) e where "r = Inl e" "ca_disk s' = d" "ca_disks s' = []"
  | (pending) s cg where "ca_disk s = d" "ca_disks s = []" "cg_dir cg = dir"
      "ca_completed s = of_nat (length (j_items J bs) - length (pending_blocks J d dir (j_items J bs)))"
      "capture_pending J envs workload cg kernel_path (pending_blocks J d dir (j_items J bs)) s = Some (r, s')"
proof (cases "read_campaign J d dir gpu_workers")
  case (Inl e)
  then show thesis using assms(1) refused by (auto simp: resume_campaign_def)
next
  case (Inr plan)
  obtain m c planned blocks where plan: "plan = (m, c, planned, blocks)" by (rule prod_cases4)
  have "blocks = j_items J bs"
    using Inr assms(3) unfolding plan read_campaign_def assms(2) bindE_simps by (auto simp: bindE_eq_Inr_iff)
  then show thesis using assms(1) unfolding resume_campaign_def Inr plan by (auto simp: Let_def intro!: pending)
qed

lemma resume_keeps_done:
  assumes "json_ok J" "\<And>i. safe_env (envs i)"
    "load_or J d (path_append dir ''manifest.json'') (j_null J) = Inr manifest" "j_at J manifest ''blocks'' = Inr bs"
    "frozen_blocks J (j_items J bs) ids"
    "\<forall>i \<in> set (wr_called workload). i < length (pending_blocks J d dir (j_items J bs))"
    "resume_campaign J envs workload dir kernel_path gpu_workers d = Some (r, s')"
    "block \<in> set (j_items J bs)" "capture_is_complete J d dir block" "d' \<in> set (ca_disk s' # ca_disks s')"
  shows "capture_is_complete J d' dir block"
  using assms(7,3,4)
proof (cases rule: resume_campaign_Some)
  case refused
  then show ?thesis using assms(9,10) by simp
next
  case (pending s cg)
  let ?waiting = "pending_blocks J d dir (j_items J bs)" and ?ids = "pending_ids J d dir (j_items J bs) ids"
  note frozen = pending_frozen [OF assms(5), of d dir]
  have "\<forall>p. \<not> files_of dir (set ?ids) p \<longrightarrow> d' p = d p"
    using touches_capture_pending [where cg = cg, OF assms(1) assms(2) frozen(1) assms(6)] pending assms(10) unfolding touches_def by fastforce
  moreover obtain ident where ident: "(block, ident) \<in> set (zip (j_items J bs) ids)" "frozen_block J block ident" "plain_id ident"
  proof -
    obtain i where i: "i < length (j_items J bs)" "block = j_items J bs ! i" using assms(8) by (metis in_set_conv_nth)
    then show thesis using that [of "ids ! i"] frozen_nth [OF assms(5) i(1)] by (auto simp: set_zip)
  qed
  moreover have "\<forall>other \<in> set ?ids. plain_id other \<and> other \<noteq> ident"
  proof
    fix other assume other: "other \<in> set ?ids"
    then obtain b where b: "(b, other) \<in> set (zip (j_items J bs) ids)" "\<not> capture_is_complete J d dir b" using frozen(2) by blast
    have "distinct ids" using assms(5) by (simp add: frozen_blocks_def)
    then have "other = ident \<Longrightarrow> b = block" using b(1) ident(1) by (auto simp: set_zip nth_eq_iff_index_eq)
    moreover have "plain_id other" using other frozen(1) by (auto simp: frozen_blocks_def list_all_iff)
    ultimately show "plain_id other \<and> other \<noteq> ident" using b(2) assms(9) by blast
  qed
  ultimately show ?thesis using files_of_others_kept [OF assms(1) ident(2,3)] assms(9) by blast
qed

text \<open>C25: whatever happens while a campaign is resumed, on every disk it writes, and so after a crash at any moment, each
  block whose capture was complete before is still complete.\<close>

theorem resume_keeps_captures:
  assumes "json_ok J" "\<And>i. safe_env (envs i)"
    "load_or J d (path_append dir ''manifest.json'') (j_null J) = Inr manifest" "j_at J manifest ''blocks'' = Inr bs"
    "frozen_blocks J (j_items J bs) ids"
    "\<forall>i \<in> set (wr_called workload). i < length (pending_blocks J d dir (j_items J bs))"
    "resume_campaign J envs workload dir kernel_path gpu_workers d = Some (r, s')"
    "block \<in> set (j_items J bs)" "capture_is_complete J d dir block" "d' \<in> set (ca_disk s' # ca_disks s')"
  shows "capture_is_complete J d' dir block"
  using assms by (rule resume_keeps_done)

lemma resume_completes_all:
  assumes "json_ok J" "metadata_reads_back J" "\<And>i. safe_env (envs i)"
    "load_or J d (path_append dir ''manifest.json'') (j_null J) = Inr manifest" "j_at J manifest ''blocks'' = Inr bs"
    "frozen_blocks J (j_items J bs) ids"
    "mset (wr_called workload) = mset [0..<length (pending_blocks J d dir (j_items J bs))]"
    "\<And>i. sh_captured_count (gc_hits (wr_scan workload i)) = sh_total_hit_count (gc_hits (wr_scan workload i))"
    "resume_campaign J envs workload dir kernel_path gpu_workers d = Some (Inr (), s')"
  shows "(\<forall>block \<in> set (j_items J bs). capture_is_complete J (ca_disk s') dir block) \<and>
    ca_completed s' = of_nat (length (j_items J bs))"
  using assms(9,4,5)
proof (cases rule: resume_campaign_Some)
  case (pending s cg)
  let ?waiting = "pending_blocks J d dir (j_items J bs)"
  have called: "set (wr_called workload) = {0..<length ?waiting}" "distinct (wr_called workload)" "length (wr_called workload) = length ?waiting"
    using assms(7) by (metis mset_eq_setD set_upt, metis distinct_upt mset_eq_imp_distinct_iff, metis length_upt size_mset diff_zero)
  note frozen = pending_frozen [OF assms(6), of d dir]
  have all: "(\<forall>i < length ?waiting. capture_is_complete J (ca_disk s') dir (?waiting ! i)) \<and>
      ca_completed s' = ca_completed s + of_nat (length ?waiting)"
  proof (cases "?waiting = []")
    case True
    then show ?thesis using pending by (simp add: capture_pending_def act_return_def)
  next
    case False
    then obtain items where items: "mapE (work_item_of J) ?waiting = Inr items"
      and reported: "act_list (\<lambda>i. complete_block J (envs i) cg (?waiting ! i) (snd (items ! i)) (wr_scan workload i)) (reported_tasks workload) s = Some (Inr (), s')"
      and "worker_exception workload = Inr ()"
      using pending(5) by (auto simp: capture_pending_def run_gpu_workload_def act_then_Some act_bind_Some act_lift_Some)
    note run = reported [unfolded no_exception [OF this(3)]]
    have "length (snd (items ! i)) = 80" if "i < length ?waiting" for i
      using mapE_nth [OF items that] by (rule work_item_header)
    then show ?thesis
      using complete_list [OF assms(1,2) assms(3) frozen(1) _ run called(2)] called(1,3) assms(8) pending(3) by auto
  qed
  have "capture_is_complete J (ca_disk s') dir block" if "block \<in> set (j_items J bs)" for block
  proof (cases "capture_is_complete J d dir block")
    case True
    have "\<forall>i \<in> set (wr_called workload). i < length ?waiting" using called(1) by simp
    from resume_keeps_done [OF assms(1,3,4,5,6) this assms(9) that True] show ?thesis by simp
  next
    case False
    then have "block \<in> set ?waiting" using that by (simp add: pending_blocks_def)
    then show ?thesis using all by (metis in_set_conv_nth)
  qed
  moreover have "length ?waiting \<le> length (j_items J bs)" by (simp add: pending_blocks_def)
  then have "ca_completed s' = of_nat (length (j_items J bs))"
    using all pending(4) by (metis le_add_diff_inverse2 of_nat_add)
  ultimately show ?thesis by blast
qed simp

text \<open>C24: when the workers have scanned every pending block and \<^verbatim>\<open>resume_campaign\<close> ends its scans without an exception,
  every block of the manifest has a complete capture, and the number of completed blocks is the planned one.\<close>

theorem resume_completes:
  assumes "json_ok J" "metadata_reads_back J" "\<And>i. safe_env (envs i)"
    "load_or J d (path_append dir ''manifest.json'') (j_null J) = Inr manifest" "j_at J manifest ''blocks'' = Inr bs"
    "frozen_blocks J (j_items J bs) ids"
    "mset (wr_called workload) = mset [0..<length (pending_blocks J d dir (j_items J bs))]"
    "\<And>i. sh_captured_count (gc_hits (wr_scan workload i)) = sh_total_hit_count (gc_hits (wr_scan workload i))"
    "resume_campaign J envs workload dir kernel_path gpu_workers d = Some (Inr (), s')"
  shows "(\<forall>block \<in> set (j_items J bs). capture_is_complete J (ca_disk s') dir block) \<and>
    ca_completed s' = of_nat (length (j_items J bs))"
  using assms by (rule resume_completes_all)

section \<open>A campaign of one block\<close>

text \<open>JSON values whose text is read back: the tree of theory \<open>Json_Api\<close> with its values numbered.\<close>

instance fdouble :: countable by countable_datatype

instance jtree :: countable by countable_datatype

definition text_api :: "jtree json_api" where
  "text_api = tree_api\<lparr>j_dump_indented := \<lambda>v. replicate (to_nat v) CHR ''x'', j_parse := \<lambda>s. Inr (from_nat (length s - 1))\<rparr>"

lemma text_api_parse: "j_parse text_api (save_payload text_api v) = Inr v"
  by (simp add: text_api_def save_payload_def)

lemma json_ok_text_api: "json_ok text_api"
  using json_ok_tree_api unfolding json_ok_def text_api_def by simp

lemma text_api_reads_back: "metadata_reads_back text_api"
proof -
  have "j_is_object text_api m" if "capture_metadata text_api env cg block ident scan n v dup checksum = Inr m"
    for env cg block ident scan n v dup checksum m
    using that by (auto simp: capture_metadata_def Let_def bindE_eq_Inr_iff json_ok_simps [OF json_ok_text_api])
  then show ?thesis unfolding metadata_reads_back_def reads_back_def using text_api_parse by blast
qed

definition example_block :: jtree where
  "example_block = JObject [(''block_id'', JString ''b''), (''partition'', JString ''discovery''),
    (''stratum_job'', JObject [(''prevhash'', JNull), (''job_id'', JNull), (''version'', JNull), (''nbits'', JNull), (''ntime'', JNull)]),
    (''work_fingerprint'', JNull), (''subscription'', JObject [(''extranonce1'', JNull), (''extranonce2_size'', JNull)]),
    (''extranonce2'', JNull), (''merkle_root'', JNull), (''header_prefix_76_bytes_hex'', JString (replicate 152 CHR ''0''))]"

definition example_manifest :: jtree where
  "example_manifest = JObject [(''experiment'', JString ''PHASE_3_POST_SCAN_Y_SORT_TRAJECTORY''), (''campaign_id'', JString ''t''),
    (''capture'', JObject [(''threshold_bits'', JUnsigned 20)]), (''planned_bje'', JUnsigned 1),
    (''kernel'', JObject [(''sha256'', JString (digest_hex (sha256 [])))]), (''blocks'', JArray [example_block])]"

definition example_campaign_disk :: disk where
  "example_campaign_disk = [''c/manifest.json'' \<mapsto> save_payload text_api example_manifest, ''k'' \<mapsto> []]"

definition example_campaign_env :: campaign_env where
  "example_campaign_env = \<lparr>ce_rename = \<lambda>_. None, ce_stream = \<lambda>_. \<lparr>st_opens = True, st_fails = None\<rparr>,
    ce_save = \<lambda>path payload d. ([d, (d(path \<mapsto> payload))(temporary_path path := None)], Inr ()), ce_utc = [], ce_verify_seconds = double_zero\<rparr>"

definition example_workload :: workload_run where
  "example_workload = \<lparr>wr_setup = Inr (), wr_called = [0], wr_scan = \<lambda>_. \<lparr>gc_hits = no_scan,
    gc_device = \<lparr>gd_name = [], gd_board_name = [], gd_vendor = [], gd_driver = [], gd_compute_units = 0\<rparr>, gc_elapsed = double_zero,
    gc_kernel = double_zero\<rparr>, wr_exception = None\<rparr>"

lemma example_env_safe: "safe_env example_campaign_env"
  unfolding safe_env_def example_campaign_env_def staged_def by (intro allI exI [of _ "[]"]) simp

lemma example_frozen: "frozen_blocks text_api [example_block] [''b'']"
  by (simp add: frozen_blocks_def frozen_block_def plain_id_def example_block_def text_api_def tree_api_def)

text \<open>A disk with the manifest and no checkpoint.\<close>

definition example_start :: "disk \<Rightarrow> bool" where
  "example_start d \<longleftrightarrow> d ''c/manifest.json'' = Some (save_payload text_api example_manifest) \<and> d ''c/checkpoint.json'' = None"

lemma example_load: "example_start d \<Longrightarrow> load_or text_api d (path_append ''c'' ''manifest.json'') v = Inr example_manifest"
  by (simp add: path_append_def path_join_def is_relative_def load_or_def example_start_def text_api_parse)

lemma example_starts: "example_start example_campaign_disk"
  by (simp add: example_start_def example_campaign_disk_def)

lemma example_blocks: "j_at text_api example_manifest ''blocks'' = Inr (JArray [example_block])" "j_items text_api (JArray [example_block]) = [example_block]"
  by (simp_all add: example_manifest_def text_api_def tree_api_def)

lemma example_read:
  assumes "example_start d"
  shows "read_campaign text_api d ''c'' 1 = Inr (example_manifest, 0, 1, [example_block])"
proof -
  have "load_or text_api d (path_append ''c'' ''checkpoint.json'') v = Inr v" for v
    using assms by (simp add: path_append_def path_join_def is_relative_def load_or_def example_start_def)
  then show ?thesis
    unfolding read_campaign_def example_load [OF assms] bindE_simps
    by (simp add: example_manifest_def value_or_def at_at_def at_get_def text_api_def tree_api_def kProductionThresholdBits_def)
qed

lemma example_pending: "pending_blocks text_api example_campaign_disk ''c'' [example_block] = [example_block]"
proof -
  have "at_get text_api (j_get_string text_api) example_block ''block_id'' = Inr ''b''"
    by (simp add: at_get_def example_block_def text_api_def tree_api_def)
  then show ?thesis
    by (simp add: pending_blocks_def capture_is_complete_def Let_def captures_path_def path_append_def path_join_def is_relative_def
        example_campaign_disk_def accepts_def)
qed

lemma example_header: "from_hex (replicate 152 CHR ''0'') = Inr (replicate 76 0)"
  by code_simp

lemma example_item: "\<exists>header. work_item_of text_api example_block = Inr (''b'', header)"
proof -
  have "at_get text_api (j_get_string text_api) example_block ''block_id'' = Inr ''b''"
    "at_get text_api (j_get_string text_api) example_block ''header_prefix_76_bytes_hex'' = Inr (replicate 152 CHR ''0'')"
    by (simp_all add: at_get_def example_block_def text_api_def tree_api_def)
  then show ?thesis by (simp add: work_item_of_def block_header_def example_header)
qed

lemma example_workload_checked: "check_workload [(''b'', header)] 1 0 nonce_space_size kProductionThresholdBits kInitialSparseCapacity = Inr ()"
proof -
  obtain layout where "make_zone_layout 0 nonce_space_size nonce_space_size = Inr layout"
    using make_zone_layout_Inr_iff [of 0 nonce_space_size nonce_space_size] by (auto simp: valid_range_def nonce_space_size_def)
  then show ?thesis
    by (simp add: check_workload_def check_ids_def kInitialSparseCapacity_def below_power_of_two_threshold_def kProductionThresholdBits_def)
qed

definition example_campaign :: "jtree campaign" where
  "example_campaign = \<lparr>cg_dir = ''c'', cg_manifest = example_manifest, cg_total = 1, cg_gpu_workers = 1\<rparr>"

lemma example_completes:
  assumes "ca_disk s = example_campaign_disk"
  shows "\<exists>s'. complete_block text_api example_campaign_env example_campaign example_block header (wr_scan example_workload 0) s = Some (Inr (), s')"
proof -
  have ident: "at_get text_api (j_get_string text_api) example_block ''block_id'' = Inr ''b''"
    by (simp add: at_get_def example_block_def text_api_def tree_api_def)
  have hits: "sh_nonces (gc_hits (wr_scan example_workload 0)) = []" "sh_total_hit_count (gc_hits (wr_scan example_workload 0)) = 0"
    by (simp_all add: example_workload_def no_scan_def)
  have paths: "captures_path ''c'' (''b'' @ x) = ''c/captures/b'' @ x" for x
    by (simp add: captures_path_def path_append_def path_join_def is_relative_def)
  have verified: "reconstruct_and_sort header [] kProductionThresholdBits True = Inr []"
    by (simp add: reconstruct_and_sort_def sort_y_hits_def stable_sort_def)
  obtain m where m: "capture_metadata text_api example_campaign_env example_campaign example_block ''b'' (wr_scan example_workload 0) 0 0 0
      (digest_hex (sha256 [])) = Inr m"
    by (simp add: capture_metadata_def at_at_def Let_def example_campaign_def example_manifest_def example_block_def text_api_def tree_api_def)
  have c: "\<exists>c. campaign_checkpoint text_api example_campaign_env example_campaign k l ''b'' = Inr c" for k l
    by (simp add: campaign_checkpoint_def example_campaign_def example_manifest_def text_api_def tree_api_def)
  have none: "ca_disk s (''c/captures/b'' @ x) = None" for x using assms by (simp add: example_campaign_disk_def)
  have quarantine: "quarantine_if_present example_campaign_env (''c/captures/b'' @ x) s = Some (Inr (), s)" for x
    by (simp add: quarantine_if_present_def none [simplified])
  have env: "ce_rename example_campaign_env = (\<lambda>_. None)" "ce_stream example_campaign_env = (\<lambda>_. \<lparr>st_opens = True, st_fails = None\<rparr>)"
    by (simp_all add: example_campaign_env_def)
  have store: "\<exists>t. store_op example_campaign_env path payload u = Some (Inr (), t)" for path payload u
    by (simp add: store_op_def example_campaign_env_def)
  have dir: "cg_dir example_campaign = ''c''" by (simp add: example_campaign_def)
  define t where "t = put_disks [(ca_disk s)(''c/captures/b.t20.bin.tmp'' \<mapsto> [])] s"
  have written: "write_op example_campaign_env (''c/captures/b.t20.bin'' @ ''.tmp'') [] s = Some (Inr (), t)"
    by (simp add: write_op_def write_nonce_file_def env t_def capture_bytes_def)
  have sum: "checksum_op (''c/captures/b.t20.bin'' @ ''.tmp'') t = Some (Inr (digest_hex (sha256 [])), t)"
    by (simp add: checksum_op_def file_sha256_def t_def put_disks_fields)
  obtain u where rename: "rename_file example_campaign_env (''c/captures/b.t20.bin'' @ ''.tmp'') ''c/captures/b.t20.bin'' t = Some (Inr (), u)"
    by (simp add: rename_file_def env)
  obtain v where meta: "store_op example_campaign_env ''c/captures/b.json'' (save_payload text_api m) u = Some (Inr (), v)" using store by blast
  obtain k where k: "campaign_checkpoint text_api example_campaign_env example_campaign (ca_completed v + 1) (ca_checkpoints v + 1) ''b'' = Inr k"
    using c by blast
  obtain w where final: "store_op example_campaign_env (path_append ''c'' ''checkpoint.json'') (save_payload text_api k)
      (v\<lparr>ca_completed := ca_completed v + 1, ca_checkpoints := ca_checkpoints v + 1\<rparr>) = Some (Inr (), w)" using store by blast
  have step: "m0 s0 = Some (Inr x, s1) \<Longrightarrow> act_bind m0 f s0 = f x s1" for m0 s0 x s1 and f :: "'b \<Rightarrow> (campaign_state, unit) act"
    by (simp add: act_bind_def)
  have no_u: "unique_sorted [] = ([], 0)" by (simp add: unique_sorted_def)
  have "complete_block text_api example_campaign_env example_campaign example_block header (wr_scan example_workload 0) s = Some (Inr (), w)"
    unfolding complete_block_def ident act_bind_Inr hits no_u Let_def dir paths prod.case
    using quarantine [of "''.t20.bin''"] quarantine [of "''.json''"] quarantine [of "''.t20.bin.tmp''"] written sum rename meta k final m
    by (simp add: verified act_then_def step act_lift_def act_bind_def act_modify_def)
  then show ?thesis by blast
qed

lemma example_resumes:
  "\<exists>s'. resume_campaign text_api (\<lambda>_. example_campaign_env) example_workload ''c'' ''k'' 1 example_campaign_disk = Some (Inr (), s')"
proof -
  let ?s = "\<lparr>ca_disk = example_campaign_disk, ca_disks = [], ca_completed = 0, ca_checkpoints = 0\<rparr>"
  obtain header where item: "work_item_of text_api example_block = Inr (''b'', header)" using example_item by blast
  obtain s' where one: "complete_block text_api example_campaign_env example_campaign example_block header (wr_scan example_workload 0) ?s = Some (Inr (), s')"
    using example_completes [of ?s header] by auto
  have kernel: "check_kernel text_api example_manifest ''k'' example_campaign_disk = Inr ()"
    by (simp add: check_kernel_def example_campaign_disk_def at_at_def example_manifest_def file_sha256_def text_api_def tree_api_def)
  have called: "wr_setup example_workload = Inr ()" "reported_tasks example_workload = [0]" "worker_exception example_workload = Inr ()"
    by (simp_all add: example_workload_def reported_tasks_def worker_exception_def scan_accepted_def no_scan_def)
  have cg: "cg_manifest example_campaign = example_manifest" "cg_gpu_workers example_campaign = 1" by (simp_all add: example_campaign_def)
  have "capture_pending text_api (\<lambda>_. example_campaign_env) example_workload example_campaign ''k'' [example_block] ?s = Some (Inr (), s')"
    by (simp add: capture_pending_def run_gpu_workload_def act_then_def act_bind_def act_lift_def act_return_def kernel item
        example_workload_checked called cg one)
  then show ?thesis
    by (simp add: resume_campaign_def example_read [OF example_starts] example_pending Let_def example_campaign_def)
qed

lemma resume_completes_witness:
  "\<exists>s'. resume_campaign text_api (\<lambda>_. example_campaign_env) example_workload ''c'' ''k'' 1 example_campaign_disk = Some (Inr (), s') \<and>
    \<not> capture_is_complete text_api example_campaign_disk ''c'' example_block \<and>
    capture_is_complete text_api (ca_disk s') ''c'' example_block"
proof -
  obtain s' where run: "resume_campaign text_api (\<lambda>_. example_campaign_env) example_workload ''c'' ''k'' 1 example_campaign_disk = Some (Inr (), s')"
    using example_resumes by blast
  have frozen: "frozen_blocks text_api (j_items text_api (JArray [example_block])) [''b'']" using example_frozen by (simp add: example_blocks)
  have called: "mset (wr_called example_workload) =
      mset [0..<length (pending_blocks text_api example_campaign_disk ''c'' (j_items text_api (JArray [example_block])))]"
    by (simp add: example_blocks example_pending example_workload_def)
  have counts: "sh_captured_count (gc_hits (wr_scan example_workload i)) = sh_total_hit_count (gc_hits (wr_scan example_workload i))" for i
    by (simp add: example_workload_def no_scan_def)
  have "\<not> capture_is_complete text_api example_campaign_disk ''c'' example_block"
    using example_pending by (auto simp: pending_blocks_def split: if_splits)
  then show ?thesis
    using resume_completes [OF json_ok_text_api text_api_reads_back example_env_safe example_load [OF example_starts] example_blocks(1) frozen called counts run] run
    by (auto simp: example_blocks)
qed

text \<open>The campaign after that run.\<close>

lemma example_complete_disk:
  "\<exists>d. capture_is_complete text_api d ''c'' example_block \<and> example_start d"
proof -
  obtain s' where run: "resume_campaign text_api (\<lambda>_. example_campaign_env) example_workload ''c'' ''k'' 1 example_campaign_disk = Some (Inr (), s')"
    using example_resumes by blast
  have frozen: "frozen_blocks text_api (j_items text_api (JArray [example_block])) [''b'']" using example_frozen by (simp add: example_blocks)
  have called: "mset (wr_called example_workload) =
      mset [0..<length (pending_blocks text_api example_campaign_disk ''c'' (j_items text_api (JArray [example_block])))]"
    by (simp add: example_blocks example_pending example_workload_def)
  have counts: "sh_captured_count (gc_hits (wr_scan example_workload i)) = sh_total_hit_count (gc_hits (wr_scan example_workload i))" for i
    by (simp add: example_workload_def no_scan_def)
  have complete: "capture_is_complete text_api (ca_disk s') ''c'' example_block"
    using resume_completes_all [OF json_ok_text_api text_api_reads_back example_env_safe example_load [OF example_starts] example_blocks(1) frozen called counts run]
    by (auto simp: example_blocks)
  have ident: "at_get text_api (j_get_string text_api) example_block ''block_id'' = Inr ''b''"
    by (simp add: at_get_def example_block_def text_api_def tree_api_def)
  let ?d = "(ca_disk s')(''c/manifest.json'' \<mapsto> save_payload text_api example_manifest, ''c/checkpoint.json'' := None)"
  have "captures_path ''c'' (''b'' @ x) = ''c/captures/b'' @ x" for x
    by (simp add: captures_path_def path_append_def path_join_def is_relative_def)
  then have "capture_is_complete text_api ?d ''c'' example_block"
    using complete capture_is_complete_cong [OF ident, of ?d "''c''" "ca_disk s'"] by simp
  then show ?thesis by (intro exI [of _ ?d]) (simp add: example_start_def)
qed

lemma resume_keeps_captures_witness:
  "\<exists>d s'. capture_is_complete text_api d ''c'' example_block \<and>
    resume_campaign text_api (\<lambda>_. example_campaign_env) (example_workload\<lparr>wr_called := []\<rparr>) ''c'' ''k'' 1 d = Some (Inr (), s') \<and>
    capture_is_complete text_api (ca_disk s') ''c'' example_block"
proof -
  obtain d where d: "capture_is_complete text_api d ''c'' example_block" "example_start d" using example_complete_disk by blast
  have frozen: "frozen_blocks text_api (j_items text_api (JArray [example_block])) [''b'']" using example_frozen by (simp add: example_blocks)
  have called: "\<forall>i \<in> set (wr_called (example_workload\<lparr>wr_called := []\<rparr>)). i < length (pending_blocks text_api d ''c'' (j_items text_api (JArray [example_block])))"
    by simp
  have member: "example_block \<in> set (j_items text_api (JArray [example_block]))" by (simp add: example_blocks)
  have "pending_blocks text_api d ''c'' [example_block] = []" using d(1) by (simp add: pending_blocks_def)
  then obtain s' where run: "resume_campaign text_api (\<lambda>_. example_campaign_env) (example_workload\<lparr>wr_called := []\<rparr>) ''c'' ''k'' 1 d = Some (Inr (), s')"
    by (simp add: resume_campaign_def example_read [OF d(2)] Let_def capture_pending_def act_return_def)
  have "ca_disk s' \<in> set (ca_disk s' # ca_disks s')" by simp
  from resume_keeps_captures [OF json_ok_text_api example_env_safe example_load [OF d(2)] example_blocks(1) frozen called run member d(1) this] d(1) run
  show ?thesis by blast
qed

end
