(* ===== verification/Spec2Isabelle.thy ===== *)
theory Spec2Isabelle
  imports Stratum Work_Allocator Best_Pow Header_Space Config Research_Analysis Sessions Research_Run Gpu_Session Trajectory_Resume
begin

text \<open>
  A verification library for the SHA-256d research miner. Names of files are relative to \<^verbatim>\<open>src/\<close>; in the
  repository the program's sources are under \<^verbatim>\<open>src/src\<close> and \<^verbatim>\<open>src/include\<close>.

  \<^bold>\<open>The program.\<close> The miner connects to a Stratum pool, turns each \<^verbatim>\<open>mining.notify\<close> into 80-byte block
  headers, hashes them on processor threads and on a GPU, and sends the nonces whose double hash meets the share
  target. \<^verbatim>\<open>stratum/\<close> parses messages and keeps the connection; \<^verbatim>\<open>mining/mining_controller.cpp\<close> reacts to its
  callbacks; \<^verbatim>\<open>mining/work_allocator.cpp\<close> cuts the nonce and extranonce space of a job into units and persists them;
  \<^verbatim>\<open>mining/cpu_miner.cpp\<close> and \<^verbatim>\<open>mining/gpu_miner.cpp\<close> take units and report candidates; the controller saves
  them (\<^verbatim>\<open>logging/\<close>, \<^verbatim>\<open>checkpoint/\<close>) before it submits them. The same hashing code serves two offline modes,
  the search of a historical block and the statistics of round-reduced SHA-256.

  \<^bold>\<open>Theories.\<close>
  \<^item> \<^theory_text>\<open>Prelude\<close>: machine words, exceptions as values of a sum type, big- and little-endian values of word lists.
  \<^item> \<^theory_text>\<open>Sha256\<close>, \<^theory_text>\<open>Hex\<close>, \<^theory_text>\<open>Header\<close>, \<^theory_text>\<open>Target\<close>, \<^theory_text>\<open>Double\<close>: \<^verbatim>\<open>crypto/\<close> and \<^verbatim>\<open>bitcoin/\<close>. The hash with
    its traced and reduced variants against the padded-block specification and the recurrence of the schedule; hexadecimal
    text; the header of a job, the coinbase and the Merkle tree; the 384-bit arithmetic of targets against integer
    division; IEEE doubles and the \<^verbatim>\<open>long double\<close> loops of the difficulty.
  \<^item> \<^theory_text>\<open>Best\<close>: the contract (locale \<open>ranked\<close>) of the running minima, interpreted by the processor worker, the zone
    scanner and the record tracker.
  \<^item> \<^theory_text>\<open>Json_Api\<close>, \<^theory_text>\<open>State_Store\<close>: the JSON package as a record of operations with its documented laws and a
    concrete instance; atomic saving (locale \<open>atomic_store\<close>, interpreted by both platforms) on a map from paths to
    contents, with every intermediate disk.
  \<^item> \<^theory_text>\<open>Stratum\<close>: messages, jobs, and the client's handler, reading loop, connection loop and submissions.
  \<^item> \<^theory_text>\<open>Work_Allocator\<close>: all operations of the allocator, with the state each leaves when it throws.
  \<^item> \<^theory_text>\<open>Cpu_Miner\<close>, \<^theory_text>\<open>Gpu_Kernel\<close>, \<^theory_text>\<open>Gpu_Miner\<close>, \<^theory_text>\<open>Gpu_Session\<close>: the processor worker; the OpenCL kernels; the
    choice of the device; the thread that drives the kernels.
  \<^item> \<^theory_text>\<open>Result_Logger\<close>, \<^theory_text>\<open>Best_Pow\<close>, \<^theory_text>\<open>Telemetry\<close>, \<^theory_text>\<open>Config\<close>: candidate files and the audit trail, the record
    tracker, the counters and the status line, the configuration and its checks.
  \<^item> \<^theory_text>\<open>Controller\<close>, \<^theory_text>\<open>Live_Session\<close>, \<^theory_text>\<open>Submissions\<close>, \<^theory_text>\<open>Sessions\<close>: the live mode of the controller, from a
    candidate to its submission, every callback and the loop; the first two hold the model, the others its properties.
  \<^item> \<^theory_text>\<open>Research_Trace\<close>, \<^theory_text>\<open>Research_Checks\<close>, \<^theory_text>\<open>Research_Analysis\<close>, \<^theory_text>\<open>Research_Run\<close>: the analysis of traces, and the
    research and historical modes.
  \<^item> \<^theory_text>\<open>Header_Space\<close>: the zone scanner of \<^verbatim>\<open>research/header_space.cpp\<close>.
  \<^item> \<^theory_text>\<open>Bounded_Workers\<close>, \<^theory_text>\<open>Nonce_Partition\<close>, \<^theory_text>\<open>Captures\<close>, \<^theory_text>\<open>Trajectory\<close>, \<^theory_text>\<open>Trajectory_Resume\<close>:
    \<^verbatim>\<open>research/context_trajectory.cpp\<close>. The worker pool as a step relation over all interleavings; the processor benchmark;
    the capture files, their verification and the cohorts; the resumption of a campaign, with every disk it writes.

  \<^bold>\<open>How code becomes definitions.\<close> A class is a record of its members, a method a function from the old state to the
  result and the new state; \<open>exn + 'a\<close> is the result of code that may throw, and a method that throws late also returns
  the state it leaves. Integers keep their width. The controller is written in the monad \<open>act\<close> (state, exceptions,
  and no result at all when a loop of the code does not end); its output is a list of calls, so order is part of the
  model. What other threads, the clock, the sockets, the file system and the OpenCL runtime answer is a parameter, given
  as a function or as the list of their answers; hypotheses on them state documented behaviour only
  (\<open>json_ok\<close>, \<open>metadata_reads_back\<close>, \<open>safe_env\<close>, \<open>runs_all\<close>).

  \<^bold>\<open>What the lemmas show.\<close> The hash is the standard one, and the device computes the same; targets are exact integers
  and comparisons are numeric; a job that parses always builds; units of one job never overlap and their counters are
  never reused, also over restarts; a completed unit has handed on every share, on the processor without exception and on
  the GPU unless a launch overflows its buffer of 64; a share is sent only for the current job, on an open session, and
  only after it is on the disk; a response removes and counts its share once; saves are never torn; records only
  improve; interrupted research continues to the same statistics; the worker pool reports every task once and always
  ends; a resumed campaign keeps every finished capture at each moment and, when it ends normally, has all of them.

  \<^bold>\<open>Loops.\<close> Recursions over positions end by the distance to the end of the range. Loops that other threads end take the
  list of the answers of those threads; \<open>None\<close> means that the list ran out first. For the units of both workers it is
  proved that a list as long as the range suffices (for the GPU: one launch per nonce in each batch, one batch per
  nonce; fewer are needed, as a launch takes up to the global size).

  \<^bold>\<open>Not modelled.\<close> Creating threads; sockets; console, signals and command lines; the benchmark modes of the miner,
  which measure time; the tests; the OpenCL variant of the zone scanner; planning, round features and analysis of the
  trajectory campaign. The whitebox and phase 2 programs and the context campaign write reports from archived data with
  floating-point estimates and decide nothing for the miner.
\<close>

end
